(* ===== verification/Prelude.thy ===== *)
theory Prelude
  imports Main "HOL-Library.Word" "HOL-Library.Monad_Syntax"
begin

text \<open>
  What the components share: the names of the machine types, regions of byte
  buffers (\<open>region\<close> reads one, \<open>overwrite\<close> replaces one), the interface of a
  store that is read and written by regions, and the lemma collections.
  \<^item> \<open>model_defs\<close>: unfolding equations of small definitions;
  \<^item> \<open>frame_simps\<close>: what an operation leaves unchanged.

  The code's functions that can touch memory out of bounds, overlap a
  \<open>memcpy\<close> or loop forever have a result of type \<open>option\<close>: \<open>None\<close> stands for
  such an execution (it has no defined result), and \<open>Some\<close> for a return.
\<close>

unbundle bit_operations_syntax

named_theorems model_defs \<open>unfolding equations of small definitions\<close>
named_theorems frame_simps \<open>what an operation leaves unchanged\<close>

type_synonym byte = "8 word"
type_synonym u32 = "32 word"
type_synonym u64 = "64 word"

section \<open>Regions of a buffer\<close>

definition region :: "'a list \<Rightarrow> nat \<Rightarrow> nat \<Rightarrow> 'a list" where
  "region xs off n = take n (drop off xs)"

definition overwrite :: "'a list \<Rightarrow> nat \<Rightarrow> 'a list \<Rightarrow> 'a list" where
  "overwrite xs off ys = take off xs @ ys @ drop (off + length ys) xs"

definition disjoint_regions :: "nat \<Rightarrow> nat \<Rightarrow> nat \<Rightarrow> nat \<Rightarrow> bool" where
  [model_defs]: "disjoint_regions a n b m \<longleftrightarrow> a + n \<le> b \<or> b + m \<le> a"

lemma disjoint_regions_sym: "disjoint_regions a n b m \<Longrightarrow> disjoint_regions b m a n"
  by (auto simp: disjoint_regions_def)

lemma length_region [simp]: "length (region xs off n) = min n (length xs - off)"
  by (auto simp: region_def)

lemma length_region_in: "off + n \<le> length xs \<Longrightarrow> length (region xs off n) = n"
  by simp

lemma nth_region: "i < n \<Longrightarrow> off + i < length xs \<Longrightarrow> region xs off n ! i = xs ! (off + i)"
  by (simp add: region_def)

lemma region_all [simp]: "region xs 0 (length xs) = xs"
  by (simp add: region_def)

lemma region_0_take: "region xs 0 n = take n xs"
  by (simp add: region_def)

lemma length_overwrite [simp]:
  "off + length ys \<le> length xs \<Longrightarrow> length (overwrite xs off ys) = length xs"
  by (simp add: overwrite_def)

lemma overwrite_Nil [simp]: "overwrite xs off [] = xs"
  by (simp add: overwrite_def)

lemma nth_overwrite:
  assumes "off + length ys \<le> length xs" and "i < length xs"
  shows "overwrite xs off ys ! i =
    (if off \<le> i \<and> i < off + length ys then ys ! (i - off) else xs ! i)"
proof -
  have "min (length xs) off = off" using assms by simp
  then show ?thesis
    using assms by (auto simp: overwrite_def nth_append)
qed

lemma region_overwrite_same:
  "off + length ys \<le> length xs \<Longrightarrow> region (overwrite xs off ys) off (length ys) = ys"
  by (simp add: region_def overwrite_def)

lemma region_overwrite_disjoint:
  assumes "off + length ys \<le> length xs" and "disjoint_regions off (length ys) a n"
  shows "region (overwrite xs off ys) a n = region xs a n"
proof (rule nth_equalityI)
  show "length (region (overwrite xs off ys) a n) = length (region xs a n)"
    using assms by simp
next
  fix i assume "i < length (region (overwrite xs off ys) a n)"
  then have i: "i < n" "a + i < length xs" using assms by auto
  then show "region (overwrite xs off ys) a n ! i = region xs a n ! i"
    using assms by (auto simp: nth_region nth_overwrite disjoint_regions_def)
qed

lemma overwrite_region_id:
  "off + n \<le> length xs \<Longrightarrow> overwrite xs off (region xs off n) = xs"
  by (rule nth_equalityI) (auto simp: nth_overwrite nth_region)

lemma overwrite_overwrite_same:
  assumes "length ys = length zs" and "off + length ys \<le> length xs"
  shows "overwrite (overwrite xs off ys) off zs = overwrite xs off zs"
  using assms by (intro nth_equalityI) (auto simp: nth_overwrite)

lemma overwrite_commute:
  assumes "a + length ys \<le> length xs" and "b + length zs \<le> length xs"
    and "disjoint_regions a (length ys) b (length zs)"
  shows "overwrite (overwrite xs a ys) b zs = overwrite (overwrite xs b zs) a ys"
  using assms by (intro nth_equalityI) (auto simp: nth_overwrite disjoint_regions_def)

lemma region_region:
  "k + m \<le> n \<Longrightarrow> region (region xs off n) k m = region xs (off + k) m"
  by (simp add: region_def drop_take add.commute min_def)

lemma overwrite_update: "i < length xs \<Longrightarrow> xs[i := y] = overwrite xs i [y]"
  by (simp add: overwrite_def upd_conv_take_nth_drop)

lemma mem_region_iff:
  "off + n \<le> length xs \<Longrightarrow> x \<in> set (region xs off n) \<longleftrightarrow> (\<exists>i<n. xs ! (off + i) = x)"
  by (auto simp: in_set_conv_nth nth_region)

section \<open>The interface of a store read and written by regions\<close>

text \<open>
  The GPT code reads and writes regions: fields of a header buffer, entries of
  the partition array, blocks of a device. Its lemmas rest on these laws only;
  buffers (below) and block devices (theory \<open>Block_Dev\<close>) provide them.
\<close>

locale region_store =
  fixes rd :: "'s \<Rightarrow> nat \<Rightarrow> nat \<Rightarrow> 'b list"
    and wr :: "'s \<Rightarrow> nat \<Rightarrow> 'b list \<Rightarrow> 's"
    and extent :: "'s \<Rightarrow> nat"
  assumes rd_length: "off + n \<le> extent s \<Longrightarrow> length (rd s off n) = n"
    and wr_extent: "off + length ys \<le> extent s \<Longrightarrow> extent (wr s off ys) = extent s"
    and rd_wr_same: "off + length ys \<le> extent s \<Longrightarrow> rd (wr s off ys) off (length ys) = ys"
    and rd_wr_disjoint: "off + length ys \<le> extent s \<Longrightarrow>
      disjoint_regions off (length ys) a n \<Longrightarrow> rd (wr s off ys) a n = rd s a n"
begin

text \<open>Exchanging two regions, the three \<open>memcpy\<close> calls of a swap.\<close>

definition exchange :: "'s \<Rightarrow> nat \<Rightarrow> nat \<Rightarrow> nat \<Rightarrow> 's" where
  "exchange s a b n = wr (wr s a (rd s b n)) b (rd s a n)"

lemma exchange_extent:
  "a + n \<le> extent s \<Longrightarrow> b + n \<le> extent s \<Longrightarrow> extent (exchange s a b n) = extent s"
  by (simp add: exchange_def wr_extent rd_length)

lemma exchange_first:
  assumes "a + n \<le> extent s" "b + n \<le> extent s" "disjoint_regions a n b n"
  shows "rd (exchange s a b n) a n = rd s b n"
  using assms rd_wr_same [of a "rd s b n" s]
  by (simp add: exchange_def wr_extent rd_length rd_wr_disjoint disjoint_regions_sym)

lemma exchange_second:
  assumes "a + n \<le> extent s" "b + n \<le> extent s"
  shows "rd (exchange s a b n) b n = rd s a n"
  using assms rd_wr_same [of b "rd s a n" "wr s a (rd s b n)"]
  by (simp add: exchange_def wr_extent rd_length)

lemma exchange_frame:
  assumes "a + n \<le> extent s" "b + n \<le> extent s"
    "disjoint_regions a n c m" "disjoint_regions b n c m"
  shows "rd (exchange s a b n) c m = rd s c m"
  using assms by (simp add: exchange_def wr_extent rd_length rd_wr_disjoint)

end

interpretation buf: region_store region overwrite length
  by unfold_locales (auto simp: region_overwrite_same region_overwrite_disjoint)

section \<open>Texts as bytes\<close>

definition bytes_of :: "string \<Rightarrow> byte list" where
  "bytes_of s = map of_char s"

lemma length_bytes_of [simp]: "length (bytes_of s) = length s"
  by (simp add: bytes_of_def)

definition text_of :: "byte list \<Rightarrow> string" where
  "text_of bs = map (\<lambda>b. char_of (unat b)) bs"

lemma char_byte: "char_of (unat (of_char c :: byte)) = c"
proof -
  have "(of_char c :: byte) = of_nat (of_char c)" by (simp only: of_nat_of_char)
  then have "unat (of_char c :: byte) = of_char c mod 256" by (simp only: unat_of_nat) simp
  then show ?thesis by simp
qed

lemma text_of_bytes_of [simp]: "text_of (bytes_of s) = s"
  by (induction s) (simp_all add: text_of_def bytes_of_def char_byte)

lemma bytes_of_inj: "bytes_of a = bytes_of b \<Longrightarrow> a = b"
  by (metis text_of_bytes_of)

section \<open>Options and results\<close>

lemma bind_Some_iff [simp]:
  "(Option.bind m f = Some y) \<longleftrightarrow> (\<exists>x. m = Some x \<and> f x = Some y)"
  by (cases m) auto

lemma if_Some_eq_iff:
  "((if P then Some x else None) = Some y) \<longleftrightarrow> P \<and> x = y"
  by auto

end
