(* ===== verification/Gpt_Bytes.thy ===== *)
theory Gpt_Bytes
  imports Prelude
begin

text \<open>
  The byte macros of gpt-utils.cpp: \<open>GET_4_BYTES\<close>, \<open>GET_8_BYTES\<close> and
  \<open>PUT_4_BYTES\<close> read and write little-endian integers at a pointer into a
  buffer. A pointer is a buffer and an offset; an access outside the buffer has
  no defined result (\<open>None\<close>). The offsets of the GPT header's fields are the
  constants of gpt-utils.h.
\<close>

section \<open>Header fields (gpt-utils.h)\<close>

definition HEADER_SIZE_OFFSET :: nat where [model_defs]: "HEADER_SIZE_OFFSET = 12"
definition HEADER_CRC_OFFSET :: nat where [model_defs]: "HEADER_CRC_OFFSET = 16"
definition PENTRIES_OFFSET :: nat where [model_defs]: "PENTRIES_OFFSET = 72"
definition PARTITION_COUNT_OFFSET :: nat where [model_defs]: "PARTITION_COUNT_OFFSET = 80"
definition PENTRY_SIZE_OFFSET :: nat where [model_defs]: "PENTRY_SIZE_OFFSET = 84"
definition PARTITION_CRC_OFFSET :: nat where [model_defs]: "PARTITION_CRC_OFFSET = 88"
definition PTN_ENTRY_SIZE :: nat where [model_defs]: "PTN_ENTRY_SIZE = 128"
definition PARTITION_NAME_OFFSET :: nat where [model_defs]: "PARTITION_NAME_OFFSET = 56"
definition MAX_GPT_NAME_SIZE :: nat where [model_defs]: "MAX_GPT_NAME_SIZE = 72"

text \<open>\<open>sizeof(GPT_SIGNATURE)\<close> counts the terminating NUL: nine bytes are compared.\<close>

definition GPT_SIGNATURE :: "byte list" where
  [model_defs]: "GPT_SIGNATURE = bytes_of ''EFI PART'' @ [0]"

lemma GPT_SIGNATURE_bytes:
  "GPT_SIGNATURE = [0x45, 0x46, 0x49, 0x20, 0x50, 0x41, 0x52, 0x54, 0]"
  by (simp add: GPT_SIGNATURE_def bytes_of_def of_char_def)

lemma length_GPT_SIGNATURE [simp]: "length GPT_SIGNATURE = 9"
  by (simp add: GPT_SIGNATURE_bytes)

section \<open>The macros\<close>

definition GET_4_BYTES :: "byte list \<Rightarrow> nat \<Rightarrow> u32 option" where
  "GET_4_BYTES buf p =
     (if p + 4 \<le> length buf
      then Some (ucast (buf ! p) OR push_bit 8 (ucast (buf ! (p + 1)))
        OR push_bit 16 (ucast (buf ! (p + 2))) OR push_bit 24 (ucast (buf ! (p + 3))))
      else None)"

definition GET_8_BYTES :: "byte list \<Rightarrow> nat \<Rightarrow> u64 option" where
  "GET_8_BYTES buf p =
     (if p + 8 \<le> length buf
      then Some (ucast (buf ! p) OR push_bit 8 (ucast (buf ! (p + 1)))
        OR push_bit 16 (ucast (buf ! (p + 2))) OR push_bit 24 (ucast (buf ! (p + 3)))
        OR push_bit 32 (ucast (buf ! (p + 4))) OR push_bit 40 (ucast (buf ! (p + 5)))
        OR push_bit 48 (ucast (buf ! (p + 6))) OR push_bit 56 (ucast (buf ! (p + 7))))
      else None)"

definition le_bytes4 :: "u32 \<Rightarrow> byte list" where
  "le_bytes4 y = [ucast (y AND 0xff), ucast (drop_bit 8 y AND 0xff),
     ucast (drop_bit 16 y AND 0xff), ucast (drop_bit 24 y AND 0xff)]"

definition PUT_4_BYTES :: "byte list \<Rightarrow> nat \<Rightarrow> u32 \<Rightarrow> byte list option" where
  "PUT_4_BYTES buf p y =
     (if p + 4 \<le> length buf then Some (overwrite buf p (le_bytes4 y)) else None)"

lemma length_le_bytes4 [simp]: "length (le_bytes4 y) = 4"
  by (simp add: le_bytes4_def)

lemma le_bytes4_join:
  "ucast (ucast (y AND 0xff) :: byte)
     OR push_bit 8 (ucast (ucast (drop_bit 8 y AND 0xff) :: byte))
     OR push_bit 16 (ucast (ucast (drop_bit 16 y AND 0xff) :: byte))
     OR push_bit 24 (ucast (ucast (drop_bit 24 y AND 0xff) :: byte)) = (y :: u32)"
proof -
  have m: "(0xff :: u32) = mask 8" by (simp add: mask_eq_exp_minus_1)
  show ?thesis
    unfolding m
  proof (rule bit_word_eqI)
    fix n assume "n < LENGTH(32)"
    then consider "n < 8" | "8 \<le> n" "n < 16" | "16 \<le> n" "n < 24" | "24 \<le> n" "n < 32"
      by fastforce
    then show "bit (ucast (ucast (y AND mask 8) :: byte)
       OR push_bit 8 (ucast (ucast (drop_bit 8 y AND mask 8) :: byte))
       OR push_bit 16 (ucast (ucast (drop_bit 16 y AND mask 8) :: byte))
       OR push_bit 24 (ucast (ucast (drop_bit 24 y AND mask 8) :: byte)) :: u32) n = bit y n"
      by cases (auto simp: bit_simps)
  qed
qed

lemma le_bytes4_split:
  fixes a b c d :: byte
  shows "le_bytes4 (ucast a OR push_bit 8 (ucast b) OR push_bit 16 (ucast c)
      OR push_bit 24 (ucast d)) = [a, b, c, d]"
proof -
  have m: "(0xff :: u32) = mask 8" by (simp add: mask_eq_exp_minus_1)
  have out: "\<not> bit (x :: byte) (8 + n)" "\<not> bit x (16 + n)" "\<not> bit x (24 + n)" for x n
    by (auto dest: bit_imp_le_length)
  show ?thesis
    unfolding le_bytes4_def m
    by (auto intro!: bit_word_eqI simp: bit_simps out)
qed

lemma PUT_4_BYTES_eq [simp]:
  "p + 4 \<le> length buf \<Longrightarrow> PUT_4_BYTES buf p y = Some (overwrite buf p (le_bytes4 y))"
  by (simp add: PUT_4_BYTES_def)

lemma PUT_4_BYTES_Some:
  "PUT_4_BYTES buf p y = Some buf' \<longleftrightarrow>
     p + 4 \<le> length buf \<and> buf' = overwrite buf p (le_bytes4 y)"
  by (auto simp: PUT_4_BYTES_def)

lemma GET_4_BYTES_defined [simp]:
  "(GET_4_BYTES buf p = None) \<longleftrightarrow> \<not> p + 4 \<le> length buf"
  by (simp add: GET_4_BYTES_def)

lemma GET_8_BYTES_defined [simp]:
  "(GET_8_BYTES buf p = None) \<longleftrightarrow> \<not> p + 8 \<le> length buf"
  by (simp add: GET_8_BYTES_def)

text \<open>Reading depends on the bytes of the field only.\<close>

lemma GET_4_BYTES_region:
  assumes "p + 4 \<le> length buf"
  shows "GET_4_BYTES buf p = GET_4_BYTES (region buf p 4) 0"
  using assms by (simp add: GET_4_BYTES_def nth_region)

lemma GET_8_BYTES_region:
  assumes "p + 8 \<le> length buf"
  shows "GET_8_BYTES buf p = GET_8_BYTES (region buf p 8) 0"
  using assms by (simp add: GET_8_BYTES_def nth_region)

lemma GET_4_BYTES_cong:
  assumes "region buf p 4 = region buf' p 4" "p + 4 \<le> length buf" "p + 4 \<le> length buf'"
  shows "GET_4_BYTES buf p = GET_4_BYTES buf' p"
  using assms GET_4_BYTES_region by metis

lemma GET_8_BYTES_cong:
  assumes "region buf p 8 = region buf' p 8" "p + 8 \<le> length buf" "p + 8 \<le> length buf'"
  shows "GET_8_BYTES buf p = GET_8_BYTES buf' p"
  using assms GET_8_BYTES_region by metis

lemma GET_4_region_cong:
  assumes "length buf' = length buf" "region buf' p 4 = region buf p 4"
  shows "GET_4_BYTES buf' p = GET_4_BYTES buf p"
proof (cases "p + 4 \<le> length buf")
  case True
  then show ?thesis using assms by (intro GET_4_BYTES_cong) simp_all
next
  case False
  then show ?thesis using assms(1) by (simp add: GET_4_BYTES_def)
qed

lemma GET_8_region_cong:
  assumes "length buf' = length buf" "region buf' p 8 = region buf p 8"
  shows "GET_8_BYTES buf' p = GET_8_BYTES buf p"
proof (cases "p + 8 \<le> length buf")
  case True
  then show ?thesis using assms by (intro GET_8_BYTES_cong) simp_all
next
  case False
  then show ?thesis using assms(1) by (simp add: GET_8_BYTES_def)
qed

lemma GET_4_overwrite_same [simp]:
  assumes "p + 4 \<le> length buf"
  shows "GET_4_BYTES (overwrite buf p (le_bytes4 y)) p = Some y"
proof -
  have "GET_4_BYTES (overwrite buf p (le_bytes4 y)) p
      = GET_4_BYTES (region (overwrite buf p (le_bytes4 y)) p 4) 0"
    using assms by (intro GET_4_BYTES_region) simp
  also have "\<dots> = GET_4_BYTES (le_bytes4 y) 0"
    using assms region_overwrite_same [of p "le_bytes4 y" buf] by simp
  also have "\<dots> = Some y"
    using le_bytes4_join [of y] by (simp add: GET_4_BYTES_def le_bytes4_def)
  finally show ?thesis .
qed

lemma GET_4_overwrite_disjoint [frame_simps]:
  assumes "off + length ys \<le> length buf" "disjoint_regions off (length ys) p 4"
  shows "GET_4_BYTES (overwrite buf off ys) p = GET_4_BYTES buf p"
proof (cases "p + 4 \<le> length buf")
  case True
  then show ?thesis
    using assms by (intro GET_4_BYTES_cong) (simp_all add: region_overwrite_disjoint)
next
  case False
  then show ?thesis using assms by (simp add: GET_4_BYTES_def)
qed

lemma GET_8_overwrite_disjoint [frame_simps]:
  assumes "off + length ys \<le> length buf" "disjoint_regions off (length ys) p 8"
  shows "GET_8_BYTES (overwrite buf off ys) p = GET_8_BYTES buf p"
proof (cases "p + 8 \<le> length buf")
  case True
  then show ?thesis
    using assms by (intro GET_8_BYTES_cong) (simp_all add: region_overwrite_disjoint)
next
  case False
  then show ?thesis using assms by (simp add: GET_8_BYTES_def)
qed

section \<open>A field of a buffer\<close>

text \<open>
  The CRC fields are read and written by the two macros. The interface says what
  a client of such a codec relies on; the header code clears a CRC field, sums
  the buffer and stores the sum, so \<open>clear_put\<close> is the law the checksum
  verification rests on.
\<close>

locale field_codec =
  fixes get :: "'b list \<Rightarrow> nat \<Rightarrow> 'v option"
    and put :: "'b list \<Rightarrow> nat \<Rightarrow> 'v \<Rightarrow> 'b list option"
    and width :: nat
  assumes put_defined: "put buf p v \<noteq> None \<longleftrightarrow> p + width \<le> length buf"
    and put_length: "put buf p v = Some buf' \<Longrightarrow> length buf' = length buf"
    and get_put: "put buf p v = Some buf' \<Longrightarrow> get buf' p = Some v"
    and put_put: "put buf p v = Some buf' \<Longrightarrow> put buf' p w = put buf p w"
    and get_put_frame: "put buf p v = Some buf' \<Longrightarrow>
      disjoint_regions p width q width \<Longrightarrow> get buf' q = get buf q"
    and put_get: "get buf p = Some v \<Longrightarrow> put buf p v = Some buf"
begin

text \<open>A sum stored in a cleared field is found again by clearing it once more.\<close>

lemma checksum_found:
  assumes "put buf p zero = Some cleared" and "put cleared p (chk cleared) = Some stored"
  shows "get stored p = Some (chk cleared)" and "put stored p zero = Some cleared"
proof -
  show "get stored p = Some (chk cleared)" using assms(2) by (rule get_put)
  have "put stored p zero = put cleared p zero" using assms(2) by (rule put_put)
  also have "\<dots> = put buf p zero" using assms(1) by (rule put_put)
  finally show "put stored p zero = Some cleared" using assms(1) by simp
qed

lemma put_total:
  "p + width \<le> length buf \<Longrightarrow> \<exists>buf'. put buf p v = Some buf' \<and> length buf' = length buf"
  using put_defined put_length by blast

end

interpretation le4: field_codec GET_4_BYTES PUT_4_BYTES 4
proof (unfold_locales, goal_cases)
  case (1 buf p v)
  then show ?case by (simp add: PUT_4_BYTES_def)
next
  case (2 buf p v buf')
  then show ?case by (auto simp: PUT_4_BYTES_Some)
next
  case (3 buf p v buf')
  then show ?case by (auto simp: PUT_4_BYTES_Some)
next
  case (4 buf p v buf' w)
  then show ?case by (auto simp: PUT_4_BYTES_Some overwrite_overwrite_same)
next
  case (5 buf p v buf' q)
  then show ?case by (auto simp: PUT_4_BYTES_Some GET_4_overwrite_disjoint)
next
  case (6 buf p v)
  then have "p + 4 \<le> length buf" "le_bytes4 v = [buf ! p, buf ! (p + 1), buf ! (p + 2), buf ! (p + 3)]"
    by (auto simp: GET_4_BYTES_def le_bytes4_split split: if_splits)
  moreover from this have "region buf p 4 = le_bytes4 v"
    by (intro nth_equalityI) (auto simp: nth_region numeral_eq_Suc less_Suc_eq)
  ultimately show ?case
    using overwrite_region_id [of p 4 buf] by (simp add: PUT_4_BYTES_Some)
qed

end
