(* ===== verification/Block_Dev.thy ===== *)
theory Block_Dev
  imports Gpt_Bytes
begin

text \<open>
  The block device behind a file descriptor and \<open>blk_rw\<close> of gpt-utils.cpp.

  The device is its contents, its logical block size and the outcomes of the
  calls to come: \<open>dev_sched\<close> says of each call on the descriptor (and each
  allocation) in turn whether it succeeds, fails, or, for a transfer, moves
  fewer bytes than asked; with an empty schedule every call succeeds. A property
  proved for every schedule holds wherever the calls may fail. \<open>dev_junk\<close> is the
  contents of fresh \<open>malloc\<close>ed memory.
\<close>

datatype outcome = Succeeds | Fails | Short nat

record blkdev =
  dev_bytes :: "byte list"
  dev_blksz :: u32
  dev_junk :: "nat \<Rightarrow> byte"
  dev_sched :: "outcome list"

definition dev_size :: "blkdev \<Rightarrow> nat" where
  [model_defs]: "dev_size d = length (dev_bytes d)"

definition dev_rd :: "blkdev \<Rightarrow> nat \<Rightarrow> nat \<Rightarrow> byte list" where
  [model_defs]: "dev_rd d off n = region (dev_bytes d) off n"

definition dev_wr :: "blkdev \<Rightarrow> nat \<Rightarrow> byte list \<Rightarrow> blkdev" where
  [model_defs]: "dev_wr d off ys = d\<lparr>dev_bytes := overwrite (dev_bytes d) off ys\<rparr>"

interpretation dev: region_store dev_rd dev_wr dev_size
  by unfold_locales
    (auto simp: dev_rd_def dev_wr_def dev_size_def region_overwrite_same
      region_overwrite_disjoint)

definition next_outcome :: "blkdev \<Rightarrow> outcome \<times> blkdev" where
  "next_outcome d =
     (case dev_sched d of [] \<Rightarrow> (Succeeds, d) | x # xs \<Rightarrow> (x, d\<lparr>dev_sched := xs\<rparr>))"

section \<open>The calls of the code\<close>

definition ioctl_BLKSSZGET :: "blkdev \<Rightarrow> u32 option \<times> blkdev" where
  "ioctl_BLKSSZGET d =
     (case next_outcome d of (x, d) \<Rightarrow> (if x = Fails then None else Some (dev_blksz d), d))"

definition c_malloc :: "nat \<Rightarrow> blkdev \<Rightarrow> byte list option \<times> blkdev" where
  "c_malloc n d = (case next_outcome d of (x, d) \<Rightarrow>
     (if x = Fails then None else Some (map (dev_junk d) [0..<n]), d))"

definition c_calloc :: "nat \<Rightarrow> blkdev \<Rightarrow> byte list option \<times> blkdev" where
  "c_calloc n d = (case next_outcome d of (x, d) \<Rightarrow>
     (if x = Fails then None else Some (replicate n 0), d))"

text \<open>Seeking outside a block device fails.\<close>

definition lseek_SET :: "int \<Rightarrow> blkdev \<Rightarrow> int \<times> blkdev" where
  "lseek_SET off d = (case next_outcome d of (x, d) \<Rightarrow>
     (if x = Fails \<or> off < 0 \<or> int (dev_size d) < off then -1 else off, d))"

definition lseek_END :: "blkdev \<Rightarrow> int \<times> blkdev" where
  "lseek_END d = (case next_outcome d of (x, d) \<Rightarrow>
     (if x = Fails then -1 else int (dev_size d), d))"

fun transferred :: "outcome \<Rightarrow> nat \<Rightarrow> nat" where
  "transferred (Short k) n = min k n"
| "transferred _ n = n"

definition sys_read :: "nat \<Rightarrow> nat \<Rightarrow> blkdev \<Rightarrow> int \<times> byte list \<times> blkdev" where
  "sys_read off len d = (case next_outcome d of (x, d) \<Rightarrow>
     (if x = Fails then (-1, [], d)
      else let ys = take (transferred x len) (dev_rd d off len) in (int (length ys), ys, d)))"

text \<open>A write stops at the end of the device, and fails when no space is left.\<close>

definition sys_write :: "nat \<Rightarrow> byte list \<Rightarrow> blkdev \<Rightarrow> int \<times> blkdev" where
  "sys_write off ys d = (case next_outcome d of (x, d) \<Rightarrow>
     (let zs = take (transferred x (dev_size d - off)) ys in
      if x = Fails \<or> (ys \<noteq> [] \<and> dev_size d \<le> off) then (-1, d)
      else (int (length zs), dev_wr d off zs)))"

definition sys_fsync :: "blkdev \<Rightarrow> int \<times> blkdev" where
  "sys_fsync d = (case next_outcome d of (x, d) \<Rightarrow> (if x = Fails then -1 else 0, d))"

section \<open>blk_rw\<close>

text \<open>
  A transfer of fewer bytes than asked counts as success in the code: only a
  negative result of \<open>read\<close>, \<open>write\<close> or \<open>fsync\<close> is an error.
\<close>

definition blk_rw ::
  "bool \<Rightarrow> int \<Rightarrow> byte list \<Rightarrow> nat \<Rightarrow> blkdev \<Rightarrow> (int \<times> byte list \<times> blkdev) option" where
  "blk_rw rw off buf len d =
     (case lseek_SET off d of (pos, d) \<Rightarrow>
      if pos < 0 then Some (-1, buf, d)
      else if length buf < len then None
      else if rw then
        (case sys_write (nat off) (take len buf) d of (r, d) \<Rightarrow>
         if r < 0 then Some (r, buf, d)
         else (case sys_fsync d of (r, d) \<Rightarrow> Some (r, buf, d)))
      else
        (case sys_read (nat off) len d of (r, ys, d) \<Rightarrow>
         if r < 0 then Some (r, buf, d) else Some (0, overwrite buf 0 ys, d)))"

section \<open>What the calls leave unchanged\<close>

definition same_disk :: "blkdev \<Rightarrow> blkdev \<Rightarrow> bool" where
  "same_disk d d' \<longleftrightarrow> dev_bytes d' = dev_bytes d \<and> dev_blksz d' = dev_blksz d
     \<and> dev_junk d' = dev_junk d \<and> set (dev_sched d') \<subseteq> set (dev_sched d)"

text \<open>The effect of a write that did happen: contents changed, the rest as before.\<close>

definition wrote_disk :: "nat \<Rightarrow> byte list \<Rightarrow> blkdev \<Rightarrow> blkdev \<Rightarrow> bool" where
  "wrote_disk off ys d d' \<longleftrightarrow> same_disk (dev_wr d off ys) d'"

lemma same_disk_refl [simp]: "same_disk d d"
  by (simp add: same_disk_def)

lemma same_disk_trans [trans]: "same_disk d d' \<Longrightarrow> same_disk d' d'' \<Longrightarrow> same_disk d d''"
  by (auto simp: same_disk_def)

lemma same_diskD:
  assumes "same_disk d d'"
  shows "dev_bytes d' = dev_bytes d" "dev_blksz d' = dev_blksz d" "dev_junk d' = dev_junk d"
    "dev_size d' = dev_size d" "dev_rd d' = dev_rd d"
    "set (dev_sched d') \<subseteq> set (dev_sched d)"
  using assms by (auto simp: same_disk_def dev_size_def dev_rd_def fun_eq_iff)

lemma dev_wr_sel [simp]:
  "dev_blksz (dev_wr d off ys) = dev_blksz d" "dev_junk (dev_wr d off ys) = dev_junk d"
  "dev_sched (dev_wr d off ys) = dev_sched d"
  "dev_bytes (dev_wr d off ys) = overwrite (dev_bytes d) off ys"
  by (simp_all add: dev_wr_def)

lemma wrote_diskD:
  assumes "wrote_disk off ys d d'"
  shows "dev_bytes d' = overwrite (dev_bytes d) off ys" "dev_blksz d' = dev_blksz d"
    "dev_junk d' = dev_junk d" "set (dev_sched d') \<subseteq> set (dev_sched d)"
  using assms by (auto simp: wrote_disk_def same_disk_def)

lemma same_wrote_disk: "same_disk d d' \<Longrightarrow> wrote_disk off ys d' d'' \<Longrightarrow> wrote_disk off ys d d''"
  by (auto simp: wrote_disk_def same_disk_def)

lemma wrote_same_disk: "wrote_disk off ys d d' \<Longrightarrow> same_disk d' d'' \<Longrightarrow> wrote_disk off ys d d''"
  by (auto simp: wrote_disk_def same_disk_def)

lemma next_outcome_same: "next_outcome d = (x, d') \<Longrightarrow> same_disk d d'"
  by (auto simp: next_outcome_def same_disk_def split: list.splits)

lemma next_outcome_in: "next_outcome d = (x, d') \<Longrightarrow> x = Succeeds \<or> x \<in> set (dev_sched d)"
  by (auto simp: next_outcome_def split: list.splits)

lemma next_outcome_ok: "dev_sched d = [] \<Longrightarrow> next_outcome d = (Succeeds, d)"
  by (simp add: next_outcome_def)

lemma calls_same:
  "ioctl_BLKSSZGET d = (s, d') \<Longrightarrow> same_disk d d'"
  "c_malloc n d = (b, d') \<Longrightarrow> same_disk d d'"
  "c_calloc n d = (b, d') \<Longrightarrow> same_disk d d'"
  "lseek_SET off d = (p, d') \<Longrightarrow> same_disk d d'"
  "lseek_END d = (p, d') \<Longrightarrow> same_disk d d'"
  "sys_fsync d = (r, d') \<Longrightarrow> same_disk d d'"
  "sys_read k len d = (r, ys, d') \<Longrightarrow> same_disk d d'"
  by (auto simp: ioctl_BLKSSZGET_def c_malloc_def c_calloc_def lseek_SET_def lseek_END_def
      sys_fsync_def sys_read_def Let_def split: prod.splits if_splits dest: next_outcome_same)

lemma calls_ok:
  assumes "dev_sched d = []"
  shows "ioctl_BLKSSZGET d = (Some (dev_blksz d), d)"
    "c_malloc n d = (Some (map (dev_junk d) [0..<n]), d)"
    "c_calloc n d = (Some (replicate n 0), d)"
    "lseek_END d = (int (dev_size d), d)"
    "sys_fsync d = (0, d)"
  using assms by (simp_all add: ioctl_BLKSSZGET_def c_malloc_def c_calloc_def lseek_END_def
      sys_fsync_def next_outcome_ok)

lemma calls_results:
  "ioctl_BLKSSZGET d = (Some s, d') \<Longrightarrow> s = dev_blksz d"
  "c_malloc n d = (Some b, d') \<Longrightarrow> length b = n"
  "c_calloc n d = (Some b, d') \<Longrightarrow> b = replicate n 0"
  "lseek_END d = (p, d') \<Longrightarrow> p = -1 \<or> p = int (dev_size d)"
  by (auto simp: ioctl_BLKSSZGET_def c_malloc_def c_calloc_def lseek_END_def same_diskD
      split: prod.splits if_splits dest!: next_outcome_same)

text \<open>No transfer is short.\<close>

definition no_short :: "blkdev \<Rightarrow> bool" where
  "no_short d \<longleftrightarrow> (\<forall>k. Short k \<notin> set (dev_sched d))"

lemma no_short_same: "no_short d \<Longrightarrow> same_disk d d' \<Longrightarrow> no_short d'"
  by (auto simp: no_short_def same_disk_def)

lemma no_short_wrote: "no_short d \<Longrightarrow> wrote_disk off ys d d' \<Longrightarrow> no_short d'"
  by (auto simp: no_short_def wrote_disk_def same_disk_def)

lemma no_short_ok [simp]: "dev_sched d = [] \<Longrightarrow> no_short d"
  by (simp add: no_short_def)

section \<open>blk_rw: reading\<close>

lemma blk_rw_read_same:
  assumes "blk_rw False off buf len d = Some (r, buf', d')"
  shows "same_disk d d'" and "length buf' = length buf"
proof -
  obtain p d1 where p: "lseek_SET off d = (p, d1)" by (cases "lseek_SET off d")
  obtain k ys d2 where k: "sys_read (nat off) len d1 = (k, ys, d2)"
    by (cases "sys_read (nat off) len d1")
  have s: "same_disk d d1" "same_disk d1 d2" using p k by (auto intro: calls_same)
  have "length ys \<le> len" using k
    by (auto simp: sys_read_def Let_def dev_rd_def split: prod.splits if_splits)
  then have "len \<le> length buf \<Longrightarrow> length (overwrite buf 0 ys) = length buf" by simp
  then show "same_disk d d'" and "length buf' = length buf"
    using assms p k s by (auto simp: blk_rw_def split: if_splits intro: same_disk_trans)
qed

lemma blk_rw_read_result:
  assumes "blk_rw False off buf len d = Some (r, buf', d')"
  shows "r = -1 \<or> r = 0"
  using assms by (auto simp: blk_rw_def sys_read_def Let_def split: prod.splits if_splits)

text \<open>A full read of a region of the device gives its contents, whatever may fail.\<close>

lemma blk_rw_read_full:
  assumes "blk_rw False off buf len d = Some (0, buf', d')" and "no_short d"
    and "nat off + len \<le> dev_size d" and "length buf = len"
  shows "0 \<le> off" and "buf' = dev_rd d (nat off) len"
proof -
  from assms(1) obtain p d1 where s: "lseek_SET off d = (p, d1)" and p: "\<not> p < 0"
    by (auto simp: blk_rw_def split: prod.splits if_splits)
  from s have d1: "same_disk d d1" by (rule calls_same)
  show "0 \<le> off" using s p by (auto simp: lseek_SET_def split: prod.splits if_splits)
  from assms(1) s p obtain x d2 where x: "next_outcome d1 = (x, d2)" and "x \<noteq> Fails"
    and b: "buf' = overwrite buf 0 (take (transferred x len) (dev_rd d2 (nat off) len))"
    by (auto simp: blk_rw_def sys_read_def Let_def split: prod.splits if_splits)
  have "no_short d1" using assms(2) d1 by (rule no_short_same)
  then have "\<And>k. x \<noteq> Short k" using next_outcome_in [OF x] by (auto simp: no_short_def)
  then have t: "transferred x len = len" by (cases x) auto
  have "dev_rd d2 = dev_rd d"
    using d1 next_outcome_same [OF x] by (metis same_diskD(5))
  then have b': "buf' = overwrite buf 0 (dev_rd d (nat off) len)"
    using assms(3) b t by (simp add: dev_rd_def dev_size_def)
  have "length (dev_rd d (nat off) len) = len"
    using assms(3) by (simp add: dev_rd_def dev_size_def)
  then show "buf' = dev_rd d (nat off) len"
    using assms(4) b' by (simp add: overwrite_def)
qed

lemma blk_rw_read_ok:
  assumes "dev_sched d = []" and "0 \<le> off" "nat off + len \<le> dev_size d" "length buf = len"
  shows "blk_rw False off buf len d = Some (0, dev_rd d (nat off) len, d)"
proof -
  have "length (dev_rd d (nat off) len) = len"
    using assms by (simp add: dev_rd_def dev_size_def)
  then show ?thesis
    using assms
    by (simp add: blk_rw_def lseek_SET_def sys_read_def next_outcome_ok Let_def overwrite_def)
qed

section \<open>blk_rw: writing\<close>

lemma blk_rw_write_effect:
  assumes "blk_rw True off buf len d = Some (r, buf', d')" and "no_short d"
    and "nat off + len \<le> dev_size d" and "length buf = len"
  shows "same_disk d d' \<and> r \<noteq> 0 \<or> 0 \<le> off \<and> wrote_disk (nat off) buf d d'"
    and "buf' = buf" and "r = 0 \<or> r = -1"
proof -
  from assms(1) obtain p d1 where s: "lseek_SET off d = (p, d1)"
    by (auto simp: blk_rw_def split: prod.splits)
  from s have d1: "same_disk d d1" by (rule calls_same)
  have ns: "no_short d1" using assms(2) d1 by (rule no_short_same)
  have sz: "nat off + len \<le> dev_size d1" using assms(3) d1 by (simp add: same_diskD)
  show "buf' = buf" using assms(1)
    by (auto simp: blk_rw_def Let_def split: prod.splits if_splits)
  show "r = 0 \<or> r = -1" using assms(1)
    by (auto simp: blk_rw_def sys_write_def sys_fsync_def Let_def split: prod.splits if_splits)
  show "same_disk d d' \<and> r \<noteq> 0 \<or> 0 \<le> off \<and> wrote_disk (nat off) buf d d'"
  proof (cases "p < 0")
    case True
    then show ?thesis using assms(1) s d1 by (auto simp: blk_rw_def)
  next
    case False
    then have off: "0 \<le> off" using s by (auto simp: lseek_SET_def split: prod.splits if_splits)
    obtain x d2 where x: "next_outcome d1 = (x, d2)" by (cases "next_outcome d1") auto
    have d2: "same_disk d1 d2" using x by (rule next_outcome_same)
    have "\<And>k. x \<noteq> Short k" using ns next_outcome_in [OF x] by (auto simp: no_short_def)
    then have "transferred x n = n" for n by (cases x) auto
    then have w: "sys_write (nat off) buf d1 =
        (if x = Fails \<or> (buf \<noteq> [] \<and> dev_size d2 \<le> nat off) then (-1, d2)
         else (int (length buf), dev_wr d2 (nat off) buf))"
      using x sz d2 assms(4) by (simp add: sys_write_def Let_def same_diskD)
    show ?thesis
    proof (cases "x = Fails \<or> (buf \<noteq> [] \<and> dev_size d2 \<le> nat off)")
      case True
      then show ?thesis
        using assms(1,4) s w False same_disk_trans [OF d1 d2] by (auto simp: blk_rw_def)
    next
      case noerr: False
      obtain r' d3 where f: "sys_fsync (dev_wr d2 (nat off) buf) = (r', d3)"
        by (cases "sys_fsync (dev_wr d2 (nat off) buf)") auto
      then have "d' = d3" using assms(1,4) s w False noerr by (auto simp: blk_rw_def)
      then have "wrote_disk (nat off) buf d2 d'"
        using calls_same(6) [OF f] by (simp add: wrote_disk_def)
      then show ?thesis
        using off same_wrote_disk [OF same_disk_trans [OF d1 d2]] by blast
    qed
  qed
qed

lemma blk_rw_write_ok:
  assumes "dev_sched d = []" and "0 \<le> off" "nat off + len \<le> dev_size d"
    "length buf = len"
  shows "blk_rw True off buf len d = Some (0, buf, dev_wr d (nat off) buf)"
  using assms
  by (cases buf)
    (auto simp: blk_rw_def lseek_SET_def sys_write_def sys_fsync_def next_outcome_def Let_def)

lemma blk_rw_defined: "len \<le> length buf \<Longrightarrow> \<exists>r buf' d'. blk_rw rw off buf len d = Some (r, buf', d')"
  by (auto simp: blk_rw_def split: prod.splits)

end
