(* ===== verification/Gpt_Pentry.thy ===== *)
theory Gpt_Pentry
  imports Gpt_Bytes "HOL-Library.Multiset"
begin

text \<open>
  Partition entries (gpt-utils.cpp): \<open>gpt_pentry_seek\<close>, which finds the first
  entry of the array that has a name or the name of its backup, and
  \<open>gpt_boot_chain_swap\<close>, which exchanges each boot critical entry with its
  backup. Pointers into the array are offsets. The specification works on the
  list of the array's 128-byte entries.
\<close>

section \<open>The C string comparisons\<close>

text \<open>
  \<open>strncmp (ptn_name, name8, strlen (ptn_name)) == 0\<close>: the name has no NUL, so
  the comparison stops at the first difference or at its length.
\<close>

fun strncmp_eq :: "byte list \<Rightarrow> byte list \<Rightarrow> bool option" where
  "strncmp_eq [] buf = Some True"
| "strncmp_eq (p # ps) [] = None"
| "strncmp_eq (p # ps) (b # buf) = (if p = b then strncmp_eq ps buf else Some False)"

text \<open>\<open>strcmp (buf, literal) == 0\<close> for a literal without NUL.\<close>

fun strcmp_eq :: "byte list \<Rightarrow> byte list \<Rightarrow> bool option" where
  "strcmp_eq [] lit = None"
| "strcmp_eq (b # buf) [] = Some (b = 0)"
| "strcmp_eq (b # buf) (l # lit) = (if b = l then strcmp_eq buf lit else Some False)"

definition BAK_PTN_NAME_EXT :: "byte list" where
  "BAK_PTN_NAME_EXT = bytes_of ''bak''"

text \<open>The test of one entry's name inside the loop of \<open>gpt_pentry_seek\<close>.\<close>

definition name_matches :: "byte list \<Rightarrow> byte list \<Rightarrow> bool option" where
  "name_matches ptn name8 = do {
     eq \<leftarrow> strncmp_eq ptn name8;
     if \<not> eq then Some False
     else if length name8 \<le> length ptn then None
     else if name8 ! length ptn = 0 then Some True
     else strcmp_eq (drop (length ptn) name8) BAK_PTN_NAME_EXT
   }"

section \<open>gpt_pentry_seek\<close>

text \<open>
  Every second byte of the name field is taken (UTF-16). A \<open>pentry_size\<close> of zero
  would make the loop run for ever; it counts as no result.
\<close>

function seek_loop ::
  "byte list \<Rightarrow> byte list \<Rightarrow> nat \<Rightarrow> nat \<Rightarrow> nat \<Rightarrow> nat option option" where
  "seek_loop ptn arr pentry_name pentries_end pentry_size =
     (if pentry_name < pentries_end then
        (if length arr < pentry_name + MAX_GPT_NAME_SIZE - 1 then None
         else (case name_matches ptn
                 (map (\<lambda>i. arr ! (pentry_name + i * 2)) [0..<MAX_GPT_NAME_SIZE div 2]) of
             None \<Rightarrow> None
           | Some True \<Rightarrow> Some (Some (pentry_name - PARTITION_NAME_OFFSET))
           | Some False \<Rightarrow>
               if pentry_size = 0 then None
               else seek_loop ptn arr (pentry_name + pentry_size) pentries_end pentry_size))
      else Some None)"
  by pat_completeness auto
termination
  by (relation "measure (\<lambda>(ptn, arr, name, end, size). end - name)") auto

declare seek_loop.simps [simp del]

definition gpt_pentry_seek ::
  "byte list \<Rightarrow> byte list \<Rightarrow> nat \<Rightarrow> nat \<Rightarrow> nat \<Rightarrow> nat option option" where
  "gpt_pentry_seek ptn_name arr pentries_start pentries_end pentry_size =
     seek_loop ptn_name arr (pentries_start + PARTITION_NAME_OFFSET) pentries_end pentry_size"

section \<open>gpt_boot_chain_swap\<close>

definition PTN_XBL :: string where "PTN_XBL = ''xbl''"

definition PTN_SWAP_LIST :: "string list" where
  "PTN_SWAP_LIST = [PTN_XBL, ''abl'', ''aop'', ''devcfg'', ''dtbo'', ''hyp'', ''keymaster'',
     ''qupfw'', ''storsec'', ''tz'', ''uefisecapp'', ''vbmeta'', ''vbmeta_system'', ''xbl_config'']"

text \<open>\<open>!strncmp (name, PTN_XBL, strlen (PTN_XBL))\<close> of the swap loop.\<close>

definition is_xbl :: "string \<Rightarrow> bool" where
  "is_xbl n \<longleftrightarrow> take (length PTN_XBL) n = PTN_XBL"

text \<open>
  The three copies through \<open>ptn_swap\<close>: \<open>memcpy\<close> of \<open>PTN_ENTRY_SIZE\<close> bytes,
  whatever the entry size. Overlapping or out of bounds copies are undefined.
\<close>

definition memcpy_swap :: "byte list \<Rightarrow> nat \<Rightarrow> nat \<Rightarrow> byte list option" where
  "memcpy_swap arr p q =
     (if p + PTN_ENTRY_SIZE \<le> length arr \<and> q + PTN_ENTRY_SIZE \<le> length arr
         \<and> disjoint_regions p PTN_ENTRY_SIZE q PTN_ENTRY_SIZE
      then
        let ptn_swap = region arr p PTN_ENTRY_SIZE;
            arr = overwrite arr p (region arr q PTN_ENTRY_SIZE)
        in Some (overwrite arr q ptn_swap)
      else None)"

fun swap_loop ::
  "bool \<Rightarrow> nat \<Rightarrow> string list \<Rightarrow> int \<Rightarrow> byte list \<Rightarrow> (int \<times> byte list) option" where
  "swap_loop is_ufs pentry_size [] backup_not_found arr = Some (backup_not_found, arr)"
| "swap_loop is_ufs pentry_size (n # ns) backup_not_found arr =
     (if is_ufs \<and> is_xbl n then swap_loop is_ufs pentry_size ns backup_not_found arr
      else (case gpt_pentry_seek (bytes_of n) arr 0 (length arr) pentry_size of
          None \<Rightarrow> None
        | Some None \<Rightarrow> swap_loop is_ufs pentry_size ns backup_not_found arr
        | Some (Some ptn_entry) \<Rightarrow>
            (case gpt_pentry_seek (bytes_of n) arr (ptn_entry + pentry_size) (length arr)
                    pentry_size of
                None \<Rightarrow> None
              | Some None \<Rightarrow> swap_loop is_ufs pentry_size ns backup_not_found arr
              | Some (Some ptn_bak_entry) \<Rightarrow>
                  (case memcpy_swap arr ptn_entry ptn_bak_entry of
                      None \<Rightarrow> None
                    | Some arr \<Rightarrow> swap_loop is_ufs pentry_size ns 0 arr))))"

text \<open>0 on success, 1 if no backup partitions were found, and the new array.\<close>

definition gpt_boot_chain_swap ::
  "bool \<Rightarrow> byte list \<Rightarrow> nat \<Rightarrow> (int \<times> byte list) option" where
  "gpt_boot_chain_swap is_ufs pentries pentry_size =
     swap_loop is_ufs pentry_size PTN_SWAP_LIST 1 pentries"

section \<open>What a name comparison decides\<close>

definition c_name :: "byte list \<Rightarrow> byte list" where
  "c_name name8 = takeWhile (\<lambda>b. b \<noteq> 0) name8"

lemma strncmp_eq_prefix:
  "length ptn \<le> length buf \<Longrightarrow> strncmp_eq ptn buf = Some (take (length ptn) buf = ptn)"
  by (induction ptn buf rule: strncmp_eq.induct) auto

lemma strcmp_eq_take:
  "length lit < length buf \<Longrightarrow> strcmp_eq buf lit = Some (take (length lit + 1) buf = lit @ [0])"
  by (induction buf lit rule: strcmp_eq.induct) auto

lemma takeWhile_nul_eq:
  assumes "0 \<notin> set n" "length n < length buf"
  shows "takeWhile (\<lambda>b. b \<noteq> (0::byte)) buf = n \<longleftrightarrow> take (length n + 1) buf = n @ [0]"
  using assms by (induction n arbitrary: buf) (case_tac buf; auto)+

lemma BAK_no_nul [simp]: "0 \<notin> set BAK_PTN_NAME_EXT" "length BAK_PTN_NAME_EXT = 3"
  by (simp_all add: BAK_PTN_NAME_EXT_def bytes_of_def of_char_def)

lemma name_matches_iff:
  assumes "0 \<notin> set ptn" and "length ptn + 4 \<le> length name8"
  shows "name_matches ptn name8 =
    Some (c_name name8 = ptn \<or> c_name name8 = ptn @ BAK_PTN_NAME_EXT)"
proof -
  let ?n = "length ptn"
  have lens: "?n < length name8" "length (ptn @ BAK_PTN_NAME_EXT) < length name8"
    using assms(2) by auto
  have t1: "take (?n + 1) name8 = take ?n name8 @ [name8 ! ?n]"
    using lens by (simp add: take_Suc_conv_app_nth)
  have t2: "take (?n + 3 + 1) name8 = take ?n name8 @ take 4 (drop ?n name8)"
    by (simp add: take_add [symmetric] add.commute)
  have c1: "c_name name8 = ptn \<longleftrightarrow> take ?n name8 = ptn \<and> name8 ! ?n = 0"
    unfolding c_name_def using takeWhile_nul_eq [OF assms(1) lens(1)] t1 assms(2) by auto
  have c2: "c_name name8 = ptn @ BAK_PTN_NAME_EXT \<longleftrightarrow>
      take ?n name8 = ptn \<and> take 4 (drop ?n name8) = BAK_PTN_NAME_EXT @ [0]"
    unfolding c_name_def
    using takeWhile_nul_eq [of "ptn @ BAK_PTN_NAME_EXT" name8] lens(2) assms t2 by simp
  have "strcmp_eq (drop ?n name8) BAK_PTN_NAME_EXT =
      Some (take 4 (drop ?n name8) = BAK_PTN_NAME_EXT @ [0])"
    using assms(2) strcmp_eq_take [of BAK_PTN_NAME_EXT "drop ?n name8"] by simp
  then show ?thesis
    unfolding name_matches_def c1 c2
    using assms(2) strncmp_eq_prefix [of ptn name8] by auto
qed

section \<open>The array as a list of entries\<close>

text \<open>
  An array of 128-byte entries is the concatenation of its entries. The
  specification: for each boot critical name in turn, exchange the first two
  entries whose name is that name or the name of its backup.
\<close>

definition entries_ok :: "byte list list \<Rightarrow> bool" where
  "entries_ok es \<longleftrightarrow> (\<forall>e \<in> set es. length e = PTN_ENTRY_SIZE)"

definition entry_name8 :: "byte list \<Rightarrow> byte list" where
  "entry_name8 e =
     map (\<lambda>i. e ! (PARTITION_NAME_OFFSET + i * 2)) [0..<MAX_GPT_NAME_SIZE div 2]"

definition entry_matches :: "byte list \<Rightarrow> byte list \<Rightarrow> bool" where
  "entry_matches n e \<longleftrightarrow>
     c_name (entry_name8 e) = n \<or> c_name (entry_name8 e) = n @ BAK_PTN_NAME_EXT"

definition matches_at :: "byte list \<Rightarrow> byte list list \<Rightarrow> nat list" where
  "matches_at n es = filter (\<lambda>i. entry_matches n (es ! i)) [0..<length es]"

fun swap_at :: "nat list \<Rightarrow> 'a list \<Rightarrow> 'a list" where
  "swap_at (i # j # _) es = es[i := es ! j, j := es ! i]"
| "swap_at _ es = es"

definition swap_names :: "bool \<Rightarrow> string list" where
  "swap_names is_ufs = filter (\<lambda>n. \<not> (is_ufs \<and> is_xbl n)) PTN_SWAP_LIST"

definition swap_one :: "string \<Rightarrow> byte list list \<Rightarrow> byte list list" where
  "swap_one n es = swap_at (matches_at (bytes_of n) es) es"

definition swap_spec :: "bool \<Rightarrow> byte list list \<Rightarrow> byte list list" where
  "swap_spec is_ufs es = fold swap_one (swap_names is_ufs) es"

definition has_backup :: "string \<Rightarrow> byte list list \<Rightarrow> bool" where
  "has_backup n es \<longleftrightarrow> 2 \<le> length (matches_at (bytes_of n) es)"

lemma length_concat_entries:
  "entries_ok es \<Longrightarrow> length (concat es) = PTN_ENTRY_SIZE * length es"
  by (induction es) (auto simp: entries_ok_def PTN_ENTRY_SIZE_def)

lemma nth_concat_entries:
  assumes "entries_ok es" "k < length es" "i < PTN_ENTRY_SIZE"
  shows "concat es ! (k * PTN_ENTRY_SIZE + i) = es ! k ! i"
  using assms
proof (induction es arbitrary: k)
  case Nil
  then show ?case by simp
next
  case (Cons e es)
  then have e: "length e = PTN_ENTRY_SIZE" "entries_ok es" by (auto simp: entries_ok_def)
  show ?case
  proof (cases k)
    case 0
    then show ?thesis using Cons.prems e by (simp add: nth_append)
  next
    case (Suc k')
    then have "concat es ! (k' * PTN_ENTRY_SIZE + i) = es ! k' ! i"
      using Cons.IH [of k'] Cons.prems e by simp
    then show ?thesis using Suc e by (simp add: nth_append add.assoc)
  qed
qed

lemma entry_index_bound: "k < n \<Longrightarrow> k * PTN_ENTRY_SIZE + PTN_ENTRY_SIZE \<le> PTN_ENTRY_SIZE * n"
  by (simp add: PTN_ENTRY_SIZE_def)

lemma region_concat_entries:
  assumes "entries_ok es" "k < length es"
  shows "region (concat es) (k * PTN_ENTRY_SIZE) PTN_ENTRY_SIZE = es ! k"
proof (rule nth_equalityI)
  have len: "k * PTN_ENTRY_SIZE + PTN_ENTRY_SIZE \<le> length (concat es)"
    using assms entry_index_bound by (simp add: length_concat_entries)
  have e: "length (es ! k) = PTN_ENTRY_SIZE" using assms by (simp add: entries_ok_def)
  show "length (region (concat es) (k * PTN_ENTRY_SIZE) PTN_ENTRY_SIZE) = length (es ! k)"
    using len e by simp
  fix i assume "i < length (region (concat es) (k * PTN_ENTRY_SIZE) PTN_ENTRY_SIZE)"
  then have "i < PTN_ENTRY_SIZE" using len by simp
  then show "region (concat es) (k * PTN_ENTRY_SIZE) PTN_ENTRY_SIZE ! i = es ! k ! i"
    using assms len by (simp add: nth_region nth_concat_entries)
qed

lemma overwrite_concat_entries:
  assumes "entries_ok es" "k < length es" "length e = PTN_ENTRY_SIZE"
  shows "overwrite (concat es) (k * PTN_ENTRY_SIZE) e = concat (es[k := e])"
  using assms
proof (induction es arbitrary: k)
  case Nil
  then show ?case by simp
next
  case (Cons x es)
  then have x: "length x = PTN_ENTRY_SIZE" "entries_ok es" by (auto simp: entries_ok_def)
  show ?case
  proof (cases k)
    case 0
    then show ?thesis using Cons.prems x by (simp add: overwrite_def)
  next
    case (Suc k')
    then have "overwrite (concat es) (k' * PTN_ENTRY_SIZE) e = concat (es[k' := e])"
      using Cons.IH [of k'] Cons.prems x by simp
    then show ?thesis using Suc x by (simp add: overwrite_def add.assoc)
  qed
qed

lemma memcpy_swap_entries:
  assumes "entries_ok es" "i < j" "j < length es"
  shows "memcpy_swap (concat es) (i * PTN_ENTRY_SIZE) (j * PTN_ENTRY_SIZE) =
    Some (concat (es[i := es ! j, j := es ! i]))"
proof -
  have len: "length (es ! i) = PTN_ENTRY_SIZE" "length (es ! j) = PTN_ENTRY_SIZE"
    using assms by (simp_all add: entries_ok_def)
  have ok: "entries_ok (es[i := es ! j])"
    using assms len by (auto simp: entries_ok_def dest: set_update_subset_insert [THEN subsetD])
  have "i * PTN_ENTRY_SIZE + PTN_ENTRY_SIZE \<le> j * PTN_ENTRY_SIZE"
    using assms by (simp add: PTN_ENTRY_SIZE_def)
  then show ?thesis
    using assms len ok entry_index_bound [of i "length es"] entry_index_bound [of j "length es"]
    by (simp add: memcpy_swap_def Let_def length_concat_entries disjoint_regions_def
        region_concat_entries overwrite_concat_entries)
qed

section \<open>gpt_pentry_seek finds the first matching entry\<close>

lemma find_filter: "find P xs = (case filter P xs of [] \<Rightarrow> None | x # _ \<Rightarrow> Some x)"
  by (induction xs) auto

lemma filter_upt_Cons:
  "filter P [k..<n] = i # rest \<Longrightarrow> k \<le> i \<and> i < n \<and> P i \<and> rest = filter P [Suc i..<n]"
proof (induction "n - k" arbitrary: k)
  case 0
  then show ?case by simp
next
  case (Suc d)
  then have k: "k < n" by simp
  then have "[k..<n] = k # [Suc k..<n]" by (rule upt_conv_Cons)
  moreover have "d = n - Suc k" using Suc(2) by simp
  ultimately show ?case
    using Suc(1) [of "Suc k"] Suc(3) k by (auto split: if_splits)
qed

lemma seek_entries:
  assumes "entries_ok es" "0 \<notin> set ptn" "length ptn + 4 \<le> MAX_GPT_NAME_SIZE div 2"
  shows "gpt_pentry_seek ptn (concat es) (k * PTN_ENTRY_SIZE) (length (concat es)) PTN_ENTRY_SIZE =
    Some (map_option (\<lambda>i. i * PTN_ENTRY_SIZE)
      (find (\<lambda>i. entry_matches ptn (es ! i)) [k..<length es]))"
  unfolding gpt_pentry_seek_def
proof (induction "length es - k" arbitrary: k)
  case 0
  then have "\<not> k * PTN_ENTRY_SIZE + PARTITION_NAME_OFFSET < length (concat es)"
    using assms(1) by (simp add: length_concat_entries PTN_ENTRY_SIZE_def PARTITION_NAME_OFFSET_def)
  then show ?case using 0 by (subst seek_loop.simps) simp
next
  case (Suc d)
  then have k: "k < length es" by simp
  let ?name = "k * PTN_ENTRY_SIZE + PARTITION_NAME_OFFSET"
  have name: "map (\<lambda>i. concat es ! (?name + i * 2)) [0..<MAX_GPT_NAME_SIZE div 2]
      = entry_name8 (es ! k)"
    unfolding entry_name8_def
  proof (rule map_cong [OF refl])
    fix i assume "i \<in> set [0..<MAX_GPT_NAME_SIZE div 2]"
    then have "PARTITION_NAME_OFFSET + i * 2 < PTN_ENTRY_SIZE"
      by (simp add: PARTITION_NAME_OFFSET_def MAX_GPT_NAME_SIZE_def PTN_ENTRY_SIZE_def)
    then show "concat es ! (?name + i * 2) = es ! k ! (PARTITION_NAME_OFFSET + i * 2)"
      using nth_concat_entries [OF assms(1) k] by (simp add: add.assoc)
  qed
  have len: "length (entry_name8 (es ! k)) = MAX_GPT_NAME_SIZE div 2"
    by (simp add: entry_name8_def)
  have m: "name_matches ptn (entry_name8 (es ! k)) = Some (entry_matches ptn (es ! k))"
    using name_matches_iff [OF assms(2)] assms(3) len by (simp add: entry_matches_def)
  have bounds: "?name < length (concat es)"
    "\<not> length (concat es) < ?name + MAX_GPT_NAME_SIZE - 1"
    using k assms(1) entry_index_bound [OF k]
    by (simp_all add: length_concat_entries PTN_ENTRY_SIZE_def PARTITION_NAME_OFFSET_def
        MAX_GPT_NAME_SIZE_def)
  have next': "?name + PTN_ENTRY_SIZE = Suc k * PTN_ENTRY_SIZE + PARTITION_NAME_OFFSET"
    by simp
  have upt: "[k..<length es] = k # [Suc k..<length es]" using k by (rule upt_conv_Cons)
  have IH: "seek_loop ptn (concat es) (Suc k * PTN_ENTRY_SIZE + PARTITION_NAME_OFFSET)
      (length (concat es)) PTN_ENTRY_SIZE =
    Some (map_option (\<lambda>i. i * PTN_ENTRY_SIZE)
      (find (\<lambda>i. entry_matches ptn (es ! i)) [Suc k..<length es]))"
    using Suc by (intro Suc.hyps(1)) simp
  have "PTN_ENTRY_SIZE \<noteq> 0" by (simp add: PTN_ENTRY_SIZE_def)
  then show ?case
    unfolding upt
    by (subst seek_loop.simps, unfold name next')
      (use bounds m IH in \<open>auto simp: PTN_ENTRY_SIZE_def\<close>)
qed

section \<open>gpt_boot_chain_swap exchanges entries with their backups\<close>

text \<open>No entry carries the name (or backup name) of two boot critical partitions.\<close>

lemma swap_list_names:
  "n \<in> set PTN_SWAP_LIST \<Longrightarrow> 0 \<notin> set (bytes_of n) \<and> length n + 4 \<le> MAX_GPT_NAME_SIZE div 2"
  by (auto simp: PTN_SWAP_LIST_def PTN_XBL_def bytes_of_def of_char_def MAX_GPT_NAME_SIZE_def)

lemma swap_list_no_bak: "n \<in> set PTN_SWAP_LIST \<Longrightarrow> n @ ''bak'' \<notin> set PTN_SWAP_LIST"
  by (auto simp: PTN_SWAP_LIST_def PTN_XBL_def)

lemma distinct_PTN_SWAP_LIST: "distinct PTN_SWAP_LIST"
  by (simp add: PTN_SWAP_LIST_def PTN_XBL_def)

lemma entry_matches_unique:
  assumes "n \<in> set PTN_SWAP_LIST" "m \<in> set PTN_SWAP_LIST"
    and "entry_matches (bytes_of n) e" "entry_matches (bytes_of m) e"
  shows "n = m"
proof -
  have bak: "bytes_of x @ BAK_PTN_NAME_EXT = bytes_of (x @ ''bak'')" for x
    by (simp add: BAK_PTN_NAME_EXT_def bytes_of_def)
  have "n \<noteq> m @ ''bak''" "m \<noteq> n @ ''bak''"
    using assms swap_list_no_bak by blast+
  then show ?thesis
    using assms(3,4) unfolding entry_matches_def bak by (auto dest: bytes_of_inj)
qed

lemma length_swap_at [simp]: "length (swap_at ps es) = length es"
  by (cases "(ps, es)" rule: swap_at.cases) auto

lemma matches_at_Cons2:
  assumes "matches_at n es = i # j # ps"
  shows "i < j" "j < length es" "entry_matches n (es ! i)" "entry_matches n (es ! j)"
proof -
  have i: "j # ps = filter (\<lambda>i. entry_matches n (es ! i)) [Suc i..<length es]"
    "entry_matches n (es ! i)"
    using filter_upt_Cons assms unfolding matches_at_def by blast+
  then have j: "Suc i \<le> j" "j < length es" "entry_matches n (es ! j)"
    using filter_upt_Cons [OF i(1) [symmetric]] by auto
  show "i < j" "j < length es" "entry_matches n (es ! i)" "entry_matches n (es ! j)"
    using i j by auto
qed

lemma swap_one_cases:
  obtains (none) "length (matches_at (bytes_of n) es) < 2" "swap_one n es = es"
  | (two) i j ps where "matches_at (bytes_of n) es = i # j # ps" "i < j" "j < length es"
      "swap_one n es = es[i := es ! j, j := es ! i]"
proof (cases "matches_at (bytes_of n) es" rule: remdups_adj.cases)
  case (3 i j ps)
  then show ?thesis
    using that(2) [of i j ps] matches_at_Cons2 [of "bytes_of n" es i j ps]
    by (auto simp: swap_one_def)
qed (use that(1) in \<open>auto simp: swap_one_def\<close>)

lemma length_swap_one [simp]: "length (swap_one n es) = length es"
  by (simp add: swap_one_def)

text \<open>An exchange moves no match of any name.\<close>

lemma matches_at_swap_one:
  assumes "n \<in> set PTN_SWAP_LIST" "m \<in> set PTN_SWAP_LIST"
  shows "matches_at (bytes_of m) (swap_one n es) = matches_at (bytes_of m) es"
proof (cases rule: swap_one_cases [of n es])
  case (two i j ps)
  have *: "entry_matches (bytes_of m) (es ! i) = entry_matches (bytes_of m) (es ! j)"
    using matches_at_Cons2 [OF two(1)] entry_matches_unique [OF assms] assms(1)
      entry_matches_unique [OF assms(1) assms(2)] by metis
  have "entry_matches (bytes_of m) (es[i := es ! j, j := es ! i] ! k)
      = entry_matches (bytes_of m) (es ! k)" if "k < length es" for k
    using * two(2,3) that by (auto simp: nth_list_update)
  then show ?thesis
    unfolding two(4) matches_at_def by (auto intro: filter_cong)
qed simp

lemma swap_one_perm: "mset (swap_one n es) = mset es"
proof (cases rule: swap_one_cases [of n es])
  case (two i j ps)
  then show ?thesis by (simp add: mset_swap)
qed simp

lemma swap_one_set: "set (swap_one n es) = set es"
  using swap_one_perm by (metis set_mset_mset)

lemma entries_ok_swap_one: "entries_ok es \<Longrightarrow> entries_ok (swap_one n es)"
  by (simp add: entries_ok_def swap_one_set)

lemma swap_loop_entries:
  assumes "set ns \<subseteq> set PTN_SWAP_LIST" "entries_ok es"
  shows "swap_loop is_ufs PTN_ENTRY_SIZE ns nf (concat es) =
    Some (if \<exists>n \<in> set ns. \<not> (is_ufs \<and> is_xbl n) \<and> has_backup n es then 0 else nf,
      concat (fold swap_one (filter (\<lambda>n. \<not> (is_ufs \<and> is_xbl n)) ns) es))"
  using assms
proof (induction ns arbitrary: nf es)
  case Nil
  then show ?case by simp
next
  case (Cons n ns)
  have n: "n \<in> set PTN_SWAP_LIST" and ns: "set ns \<subseteq> set PTN_SWAP_LIST" using Cons.prems by auto
  have backup: "has_backup m (swap_one n es) = has_backup m es" if "m \<in> set ns" for m
    using matches_at_swap_one [OF n] that ns by (auto simp: has_backup_def)
  note IH = Cons.IH [OF ns entries_ok_swap_one [OF Cons.prems(2)], of _ n]
  note seek = seek_entries [OF Cons.prems(2) conjunct1 [OF swap_list_names [OF n]]]
  let ?P = "\<lambda>i. entry_matches (bytes_of n) (es ! i)"
  show ?case
  proof (cases "is_ufs \<and> is_xbl n")
    case True
    then show ?thesis using Cons.IH [OF ns Cons.prems(2)] by auto
  next
    case False
    have s0: "gpt_pentry_seek (bytes_of n) (concat es) 0 (length (concat es)) PTN_ENTRY_SIZE =
        Some (map_option (\<lambda>i. i * PTN_ENTRY_SIZE) (find ?P [0..<length es]))"
      using seek [of 0] swap_list_names [OF n] by simp
    have s1: "gpt_pentry_seek (bytes_of n) (concat es) (i * PTN_ENTRY_SIZE + PTN_ENTRY_SIZE)
        (length (concat es)) PTN_ENTRY_SIZE =
        Some (map_option (\<lambda>i. i * PTN_ENTRY_SIZE) (find ?P [Suc i..<length es]))" for i
      using seek [of "Suc i"] swap_list_names [OF n] by (simp add: add.commute)
    show ?thesis
    proof (cases rule: swap_one_cases [of n es])
      case none
      have "find ?P [0..<length es] = None \<or>
        (\<exists>i. find ?P [0..<length es] = Some i \<and> find ?P [Suc i..<length es] = None)"
      proof (cases "matches_at (bytes_of n) es")
        case Nil
        then show ?thesis by (simp add: find_filter matches_at_def)
      next
        case (Cons i rest)
        then have "rest = []" using none by (cases rest) auto
        then show ?thesis
          using Cons filter_upt_Cons [of ?P 0 "length es" i rest]
          by (simp add: find_filter matches_at_def)
      qed
      then show ?thesis
        using False none s0 s1 IH [of nf] backup by (auto simp: has_backup_def)
    next
      case (two i j ps)
      have f0: "find ?P [0..<length es] = Some i"
        using two(1) by (simp add: find_filter matches_at_def)
      have f1: "find ?P [Suc i..<length es] = Some j"
        using filter_upt_Cons [of ?P 0 "length es" i "j # ps"] two(1)
        unfolding find_filter matches_at_def by (metis list.simps(5))
      have hb: "has_backup n es" using two(1) by (simp add: has_backup_def)
      show ?thesis
        using False s0 f0 s1 [of i] f1 hb IH [of 0] backup two(4)
          memcpy_swap_entries [OF Cons.prems(2) two(2,3)]
        by auto
    qed
  qed
qed

lemma gpt_boot_chain_swap_entries:
  assumes "entries_ok es"
  shows "gpt_boot_chain_swap is_ufs (concat es) PTN_ENTRY_SIZE =
    Some (if \<exists>n \<in> set (swap_names is_ufs). has_backup n es then 0 else 1,
      concat (swap_spec is_ufs es))"
proof -
  have "(\<exists>n \<in> set (swap_names is_ufs). has_backup n es) \<longleftrightarrow>
      (\<exists>n \<in> set PTN_SWAP_LIST. \<not> (is_ufs \<and> is_xbl n) \<and> has_backup n es)"
    by (auto simp: swap_names_def)
  then show ?thesis
    using swap_loop_entries [OF subset_refl assms, of is_ufs 1]
    by (simp only: gpt_boot_chain_swap_def swap_spec_def swap_names_def)
qed

section \<open>What the exchange preserves\<close>

lemma length_swap_spec [simp]: "length (swap_spec is_ufs es) = length es"
proof -
  have "length (fold swap_one ns es) = length es" for ns
    by (induction ns arbitrary: es) simp_all
  then show ?thesis by (simp add: swap_spec_def)
qed

lemma mset_swap_spec: "mset (swap_spec is_ufs es) = mset es"
proof -
  have "mset (fold swap_one ns es) = mset es" for ns
    by (induction ns arbitrary: es) (simp_all add: swap_one_perm)
  then show ?thesis by (simp add: swap_spec_def)
qed

lemma entries_ok_swap_spec: "entries_ok es \<Longrightarrow> entries_ok (swap_spec is_ufs es)"
  using mset_swap_spec by (metis entries_ok_def set_mset_mset)

text \<open>
  The positions exchanged for a name are those of the array at the start, and
  those of different names are disjoint; so the exchanges commute, and doing all
  of them a second time undoes them.
\<close>

definition swap_pair :: "byte list list \<Rightarrow> string \<Rightarrow> byte list list \<Rightarrow> byte list list" where
  "swap_pair es0 n es = swap_at (matches_at (bytes_of n) es0) es"

lemma fold_swap_one_pair:
  assumes "set ns \<subseteq> set PTN_SWAP_LIST"
    and "\<forall>n \<in> set PTN_SWAP_LIST. matches_at (bytes_of n) es = matches_at (bytes_of n) es0"
  shows "fold swap_one ns es = fold (swap_pair es0) ns es \<and>
    (\<forall>n \<in> set PTN_SWAP_LIST.
      matches_at (bytes_of n) (fold swap_one ns es) = matches_at (bytes_of n) es0)"
  using assms
proof (induction ns arbitrary: es)
  case Nil
  then show ?case by simp
next
  case (Cons n ns)
  have "\<forall>m \<in> set PTN_SWAP_LIST.
      matches_at (bytes_of m) (swap_one n es) = matches_at (bytes_of m) es0"
    using Cons.prems matches_at_swap_one by simp
  then have "fold swap_one ns (swap_one n es) = fold (swap_pair es0) ns (swap_one n es) \<and>
    (\<forall>m \<in> set PTN_SWAP_LIST.
      matches_at (bytes_of m) (fold swap_one ns (swap_one n es)) = matches_at (bytes_of m) es0)"
    using Cons.prems(1) by (intro Cons.IH) auto
  moreover have "swap_one n es = swap_pair es0 n es"
    using Cons.prems by (simp add: swap_one_def swap_pair_def)
  ultimately show ?case by (metis fold_simps(2))
qed

lemma swap_pair_involution:
  assumes "length es = length es0"
  shows "swap_pair es0 n (swap_pair es0 n es) = es"
proof (cases "matches_at (bytes_of n) es0" rule: remdups_adj.cases)
  case (3 i j ps)
  then show ?thesis
    using assms matches_at_Cons2 [OF 3]
    by (auto simp: swap_pair_def nth_list_update intro!: nth_equalityI)
qed (simp_all add: swap_pair_def)

lemma swap_pair_commute:
  assumes "n \<in> set PTN_SWAP_LIST" "m \<in> set PTN_SWAP_LIST" "length es = length es0"
  shows "swap_pair es0 n (swap_pair es0 m es) = swap_pair es0 m (swap_pair es0 n es)"
proof (cases "n = m")
  case False
  show ?thesis
  proof (cases "matches_at (bytes_of n) es0" rule: remdups_adj.cases)
    case ij: (3 i j ps)
    show ?thesis
    proof (cases "matches_at (bytes_of m) es0" rule: remdups_adj.cases)
      case kl: (3 k l qs)
      have "{i, j} \<inter> {k, l} = {}"
        using matches_at_Cons2 [OF ij] matches_at_Cons2 [OF kl]
          entry_matches_unique [OF assms(1,2)] False by auto
      then show ?thesis
        using ij kl assms(3) matches_at_Cons2 [OF ij] matches_at_Cons2 [OF kl]
        by (auto simp: swap_pair_def nth_list_update intro!: nth_equalityI)
    qed (simp_all add: swap_pair_def ij)
  qed (simp_all add: swap_pair_def)
qed simp

lemma length_swap_pair [simp]: "length (swap_pair es0 n es) = length es"
  by (simp add: swap_pair_def)

lemma fold_swap_pair_commute:
  assumes "set ns \<subseteq> set PTN_SWAP_LIST" "n \<in> set PTN_SWAP_LIST" "length es = length es0"
  shows "fold (swap_pair es0) ns (swap_pair es0 n es)
    = swap_pair es0 n (fold (swap_pair es0) ns es)"
  using assms
proof (induction ns arbitrary: es)
  case (Cons m ns)
  then have "swap_pair es0 m (swap_pair es0 n es) = swap_pair es0 n (swap_pair es0 m es)"
    by (intro swap_pair_commute) auto
  then show ?case using Cons by simp
qed simp

lemma length_fold_swap_pair [simp]: "length (fold (swap_pair es0) ns es) = length es"
  by (induction ns arbitrary: es) simp_all

lemma fold_swap_pair_twice:
  assumes "set ns \<subseteq> set PTN_SWAP_LIST" "length es = length es0"
  shows "fold (swap_pair es0) ns (fold (swap_pair es0) ns es) = es"
  using assms
  by (induction ns arbitrary: es)
    (auto simp: fold_swap_pair_commute swap_pair_involution)

lemma swap_spec_involution: "swap_spec is_ufs (swap_spec is_ufs es) = es"
proof -
  let ?ns = "swap_names is_ufs"
  have ns: "set ?ns \<subseteq> set PTN_SWAP_LIST" by (auto simp: swap_names_def)
  have 1: "swap_spec is_ufs es = fold (swap_pair es) ?ns es"
    "\<forall>n \<in> set PTN_SWAP_LIST.
      matches_at (bytes_of n) (swap_spec is_ufs es) = matches_at (bytes_of n) es"
    using fold_swap_one_pair [OF ns, of es es] unfolding swap_spec_def by blast+
  have "swap_spec is_ufs (swap_spec is_ufs es)
      = fold (swap_pair es) ?ns (swap_spec is_ufs es)"
    using fold_swap_one_pair [OF ns 1(2)] by (simp add: swap_spec_def)
  then show ?thesis
    using 1(1) fold_swap_pair_twice [OF ns refl, of es] by simp
qed

lemma has_backup_swap_spec:
  "n \<in> set PTN_SWAP_LIST \<Longrightarrow> has_backup n (swap_spec is_ufs es) = has_backup n es"
  using fold_swap_one_pair [of "swap_names is_ufs" es es]
  by (auto simp: swap_spec_def has_backup_def swap_names_def)

end
