(* ===== verification/Gpt_Header.thy ===== *)
theory Gpt_Header
  imports Block_Dev Gpt_Pentry
begin

text \<open>
  GPT headers on a device (gpt-utils.cpp): \<open>gpt_get_state\<close> classifies a header,
  \<open>gpt_set_state\<close> corrupts or repairs its signature, \<open>gpt2_set_boot_chain\<close>
  rewrites the secondary table from the primary one. zlib's \<open>crc32 (0, buf, len)\<close>
  is the parameter \<open>crc\<close>, a function of the bytes summed; nothing is assumed of
  it. The lemmas describe the effect on the disk for every schedule of failing
  calls without short transfers.
\<close>

datatype gpt_instance = PRIMARY_GPT | SECONDARY_GPT
datatype gpt_state = GPT_OK | GPT_BAD_SIGNATURE | GPT_BAD_CRC
datatype boot_chain = NORMAL_BOOT | BACKUP_BOOT

type_synonym crc_fun = "byte list \<Rightarrow> u32"

section \<open>Operations\<close>

text \<open>Summing more bytes than the buffer holds is an access out of bounds.\<close>

definition crc32 :: "crc_fun \<Rightarrow> byte list \<Rightarrow> nat \<Rightarrow> u32 option" where
  "crc32 crc buf len = (if len \<le> length buf then Some (crc (take len buf)) else None)"

definition memcmp_eq :: "byte list \<Rightarrow> byte list \<Rightarrow> bool option" where
  "memcmp_eq buf ref =
     (if length ref \<le> length buf then Some (take (length ref) buf = ref) else None)"

definition memcpy_to :: "byte list \<Rightarrow> byte list \<Rightarrow> byte list option" where
  "memcpy_to buf src =
     (if length src \<le> length buf then Some (overwrite buf 0 src) else None)"

text \<open>Where the header of an instance is: the code computes it at every use.\<close>

definition header_offset_of :: "gpt_instance \<Rightarrow> u32 \<Rightarrow> blkdev \<Rightarrow> int \<times> blkdev" where
  "header_offset_of gpt blk_size d =
     (if gpt = PRIMARY_GPT then (uint blk_size, d)
      else (case lseek_END d of (e, d) \<Rightarrow> (e - uint blk_size, d)))"

text \<open>
  The first half of \<open>gpt_get_state\<close> and of \<open>gpt_set_state\<close>, the same in both:
  block size, buffer, offset and the header block, or no header after an error.
\<close>

definition read_header ::
  "gpt_instance \<Rightarrow> blkdev \<Rightarrow> ((u32 \<times> int \<times> byte list) option \<times> blkdev) option" where
  "read_header gpt d =
     (case ioctl_BLKSSZGET d of
        (None, d) \<Rightarrow> Some (None, d)
      | (Some blk_size, d) \<Rightarrow>
     (case c_malloc (unat blk_size) d of
        (None, d) \<Rightarrow> Some (None, d)
      | (Some gpt_header, d) \<Rightarrow>
     (case header_offset_of gpt blk_size d of (gpt_header_offset, d) \<Rightarrow>
      if gpt_header_offset < 0 then Some (None, d)
      else
        (case blk_rw False gpt_header_offset gpt_header (unat blk_size) d of
           None \<Rightarrow> None
         | Some (r, gpt_header, d) \<Rightarrow>
             Some (if r \<noteq> 0 then None else Some (blk_size, gpt_header_offset, gpt_header), d)))))"

definition gpt_get_state ::
  "crc_fun \<Rightarrow> gpt_instance \<Rightarrow> blkdev \<Rightarrow> (int \<times> gpt_state \<times> blkdev) option" where
  "gpt_get_state crc gpt d = do {
     (header, d) \<leftarrow> read_header gpt d;
     (case header of
        None \<Rightarrow> Some (-1, GPT_OK, d)
      | Some (blk_size, gpt_header_offset, gpt_header) \<Rightarrow> do {
          sig \<leftarrow> memcmp_eq gpt_header GPT_SIGNATURE;
          gpt_header_size \<leftarrow> GET_4_BYTES gpt_header HEADER_SIZE_OFFSET;
          sum \<leftarrow> GET_4_BYTES gpt_header HEADER_CRC_OFFSET;
          gpt_header \<leftarrow> PUT_4_BYTES gpt_header HEADER_CRC_OFFSET 0;
          sum' \<leftarrow> crc32 crc gpt_header (unat gpt_header_size);
          Some (0, if sum' \<noteq> sum then GPT_BAD_CRC
                   else if sig then GPT_OK else GPT_BAD_SIGNATURE, d)
        })
   }"

text \<open>The header CRC is calculated with its own field cleared.\<close>

definition seal_header :: "crc_fun \<Rightarrow> u32 \<Rightarrow> byte list \<Rightarrow> byte list option" where
  "seal_header crc gpt_header_size gpt_header = do {
     gpt_header \<leftarrow> PUT_4_BYTES gpt_header HEADER_CRC_OFFSET 0;
     sum \<leftarrow> crc32 crc gpt_header (unat gpt_header_size);
     PUT_4_BYTES gpt_header HEADER_CRC_OFFSET sum
   }"

definition gpt_set_state ::
  "crc_fun \<Rightarrow> gpt_instance \<Rightarrow> gpt_state \<Rightarrow> blkdev \<Rightarrow> (int \<times> blkdev) option" where
  "gpt_set_state crc gpt state d = do {
     (header, d) \<leftarrow> read_header gpt d;
     (case header of
        None \<Rightarrow> Some (-1, d)
      | Some (blk_size, gpt_header_offset, gpt_header) \<Rightarrow>
          if state = GPT_BAD_CRC then Some (-1, d)
          else do {
            gpt_header \<leftarrow> memcpy_to gpt_header
              (if state = GPT_OK then GPT_SIGNATURE else [0]);
            gpt_header_size \<leftarrow> GET_4_BYTES gpt_header HEADER_SIZE_OFFSET;
            gpt_header \<leftarrow> seal_header crc gpt_header_size gpt_header;
            (r, gpt_header, d) \<leftarrow> blk_rw True gpt_header_offset gpt_header (unat blk_size) d;
            Some (if r \<noteq> 0 then -1 else 0, d)
          })
   }"

text \<open>
  \<open>gpt2_set_boot_chain\<close>, second part: the secondary header gets the sum of the
  (possibly exchanged) entries and is written, then the entries are.
\<close>

definition write_secondary_table ::
  "crc_fun \<Rightarrow> bool \<Rightarrow> boot_chain \<Rightarrow> u32 \<Rightarrow> int \<Rightarrow> byte list \<Rightarrow> byte list \<Rightarrow> u32 \<Rightarrow> blkdev
     \<Rightarrow> (int \<times> blkdev) option" where
  "write_secondary_table crc is_ufs boot blk_size gpt2_header_offset gpt_header pentries
       pentry_size d = do {
     (r, gpt_header, d) \<leftarrow> blk_rw False gpt2_header_offset gpt_header (unat blk_size) d;
     if r \<noteq> 0 then Some (r, d)
     else do {
       gpt_header_size \<leftarrow> GET_4_BYTES gpt_header HEADER_SIZE_OFFSET;
       lba \<leftarrow> GET_8_BYTES gpt_header PENTRIES_OFFSET;
       let pentries_start_offset = lba * ucast blk_size;
       (r, pentries) \<leftarrow>
         (if boot = BACKUP_BOOT then gpt_boot_chain_swap is_ufs pentries (unat pentry_size)
          else Some (0, pentries));
       if r \<noteq> 0 then Some (r, d)
       else do {
         gpt_header \<leftarrow> PUT_4_BYTES gpt_header PARTITION_CRC_OFFSET (crc pentries);
         gpt_header \<leftarrow> seal_header crc gpt_header_size gpt_header;
         (r, gpt_header, d) \<leftarrow> blk_rw True gpt2_header_offset gpt_header (unat blk_size) d;
         if r \<noteq> 0 then Some (r, d)
         else do {
           (r, pentries, d) \<leftarrow>
             blk_rw True (sint pentries_start_offset) pentries (length pentries) d;
           Some (r, d)
         }
       }
     }
   }"

definition gpt2_set_boot_chain ::
  "crc_fun \<Rightarrow> bool \<Rightarrow> boot_chain \<Rightarrow> blkdev \<Rightarrow> (int \<times> blkdev) option" where
  "gpt2_set_boot_chain crc is_ufs boot d =
     (case ioctl_BLKSSZGET d of
        (None, d) \<Rightarrow> Some (-1, d)
      | (Some blk_size, d) \<Rightarrow>
     (case c_malloc (unat blk_size) d of
        (None, d) \<Rightarrow> Some (-1, d)
      | (Some gpt_header, d) \<Rightarrow>
     (case header_offset_of SECONDARY_GPT blk_size d of (gpt2_header_offset, d) \<Rightarrow>
      if gpt2_header_offset < 0 then Some (-1, d)
      else do {
        (r, gpt_header, d) \<leftarrow> blk_rw False (uint blk_size) gpt_header (unat blk_size) d;
        if r \<noteq> 0 then Some (r, d)
        else do {
          lba \<leftarrow> GET_8_BYTES gpt_header PENTRIES_OFFSET;
          let pentries_start_offset = lba * ucast blk_size;
          pentry_size \<leftarrow> GET_4_BYTES gpt_header PENTRY_SIZE_OFFSET;
          count \<leftarrow> GET_4_BYTES gpt_header PARTITION_COUNT_OFFSET;
          let pentries_array_size = count * pentry_size;
          (case c_calloc (unat pentries_array_size) d of
             (None, d) \<Rightarrow> Some (-1, d)
           | (Some pentries, d) \<Rightarrow> do {
               (r, pentries, d) \<leftarrow> blk_rw False (sint pentries_start_offset) pentries
                 (unat pentries_array_size) d;
               if r \<noteq> 0 then Some (r, d)
               else do {
                 sum \<leftarrow> GET_4_BYTES gpt_header PARTITION_CRC_OFFSET;
                 if sum \<noteq> crc pentries then Some (-1, d)
                 else write_secondary_table crc is_ufs boot blk_size gpt2_header_offset
                   gpt_header pentries pentry_size d
               }
             })
        }
      })))"

section \<open>What a header block says\<close>

definition hdr_state :: "crc_fun \<Rightarrow> byte list \<Rightarrow> gpt_state option" where
  "hdr_state crc h = do {
     sig \<leftarrow> memcmp_eq h GPT_SIGNATURE;
     hsz \<leftarrow> GET_4_BYTES h HEADER_SIZE_OFFSET;
     sum \<leftarrow> GET_4_BYTES h HEADER_CRC_OFFSET;
     h \<leftarrow> PUT_4_BYTES h HEADER_CRC_OFFSET 0;
     sum' \<leftarrow> crc32 crc h (unat hsz);
     Some (if sum' \<noteq> sum then GPT_BAD_CRC else if sig then GPT_OK else GPT_BAD_SIGNATURE)
   }"

text \<open>The block \<open>gpt_set_state\<close> writes for a block it has read.\<close>

definition set_hdr :: "crc_fun \<Rightarrow> gpt_state \<Rightarrow> byte list \<Rightarrow> byte list option" where
  "set_hdr crc state h = do {
     h \<leftarrow> memcpy_to h (if state = GPT_OK then GPT_SIGNATURE else [0]);
     hsz \<leftarrow> GET_4_BYTES h HEADER_SIZE_OFFSET;
     seal_header crc hsz h
   }"

text \<open>The block \<open>gpt2_set_boot_chain\<close> writes for a block it has read.\<close>

definition set_table_crc :: "crc_fun \<Rightarrow> byte list \<Rightarrow> byte list \<Rightarrow> byte list option" where
  "set_table_crc crc pentries h = do {
     hsz \<leftarrow> GET_4_BYTES h HEADER_SIZE_OFFSET;
     h \<leftarrow> PUT_4_BYTES h PARTITION_CRC_OFFSET (crc pentries);
     seal_header crc hsz h
   }"

lemma seal_header_Some:
  assumes "seal_header crc hsz h = Some h'"
  obtains h0 sum where "PUT_4_BYTES h HEADER_CRC_OFFSET 0 = Some h0"
    "PUT_4_BYTES h0 HEADER_CRC_OFFSET sum = Some h'" "unat hsz \<le> length h0"
    "sum = crc (take (unat hsz) h0)" "length h' = length h"
proof -
  from assms obtain h0 where "PUT_4_BYTES h HEADER_CRC_OFFSET 0 = Some h0"
    "unat hsz \<le> length h0"
    "PUT_4_BYTES h0 HEADER_CRC_OFFSET (crc (take (unat hsz) h0)) = Some h'"
    by (auto simp: seal_header_def crc32_def split: if_splits)
  then show ?thesis using that le4.put_length by metis
qed

lemma seal_header_frame:
  assumes "seal_header crc hsz h = Some h'"
  shows "length h' = length h"
    and "disjoint_regions HEADER_CRC_OFFSET 4 off n \<Longrightarrow> region h' off n = region h off n"
  using assms
  by (auto simp: seal_header_def PUT_4_BYTES_Some region_overwrite_disjoint)

text \<open>Corrupting the signature and repairing it gives the same block back.\<close>

lemma seal_header_idem:
  assumes "hdr_state crc h = Some st" "st \<noteq> GPT_BAD_CRC"
    and "GET_4_BYTES h HEADER_SIZE_OFFSET = Some hsz" "20 \<le> length h"
    and "seal_header crc hsz (overwrite h 16 s) = Some h'" "length s = 4"
  shows "h' = h"
proof -
  obtain sum where sum: "GET_4_BYTES h HEADER_CRC_OFFSET = Some sum"
    "sum = crc (take (unat hsz) (overwrite h 16 (le_bytes4 0)))"
    using assms(1-4)
    by (auto simp: hdr_state_def crc32_def model_defs split: if_splits)
  have "h' = overwrite (overwrite (overwrite h 16 s) 16 (le_bytes4 0)) 16
      (le_bytes4 (crc (take (unat hsz) (overwrite (overwrite h 16 s) 16 (le_bytes4 0)))))"
    using assms(4-6)
    by (auto simp: seal_header_def crc32_def model_defs split: if_splits)
  then have "h' = overwrite h 16 (le_bytes4 sum)"
    using assms(4,6) sum(2) by (simp add: overwrite_overwrite_same)
  also have "overwrite h 16 (le_bytes4 sum) = h"
    using le4.put_get sum(1) by (auto simp: HEADER_CRC_OFFSET_def PUT_4_BYTES_Some)
  finally show ?thesis .
qed

lemma take_region: "take n xs = region xs 0 n"
  by (simp add: region_def)

text \<open>A sealed header passes the check of its CRC.\<close>

lemma hdr_state_seal:
  assumes "seal_header crc hsz h = Some h'" "GET_4_BYTES h HEADER_SIZE_OFFSET = Some hsz"
  shows "hdr_state crc h' =
    Some (if region h 0 9 = GPT_SIGNATURE then GPT_OK else GPT_BAD_SIGNATURE)"
proof -
  from assms(1) obtain h0 sum where s: "PUT_4_BYTES h HEADER_CRC_OFFSET 0 = Some h0"
    "PUT_4_BYTES h0 HEADER_CRC_OFFSET sum = Some h'" "unat hsz \<le> length h0"
    "sum = crc (take (unat hsz) h0)" "length h' = length h"
    by (rule seal_header_Some)
  have len: "20 \<le> length h" using s(1) by (auto simp: PUT_4_BYTES_Some HEADER_CRC_OFFSET_def)
  have found: "GET_4_BYTES h' HEADER_CRC_OFFSET = Some sum"
    "PUT_4_BYTES h' HEADER_CRC_OFFSET 0 = Some h0"
    using le4.checksum_found [OF s(1), of "\<lambda>b. crc (take (unat hsz) b)"] s(2,4) by auto
  have "region h' 12 4 = region h 12 4" "region h' 0 9 = region h 0 9"
    using seal_header_frame(2) [OF assms(1)]
    by (simp_all add: disjoint_regions_def HEADER_CRC_OFFSET_def)
  then have "GET_4_BYTES h' HEADER_SIZE_OFFSET = Some hsz"
    "take 9 h' = region h 0 9"
    using assms(2) s(5) GET_4_region_cong [of h' h 12]
    by (simp_all add: HEADER_SIZE_OFFSET_def take_region)
  then show ?thesis
    using found s(3-5) len by (simp add: hdr_state_def memcmp_eq_def crc32_def)
qed

lemma set_hdr_state:
  assumes "set_hdr crc state h = Some h'" "state \<noteq> GPT_BAD_CRC"
  shows "hdr_state crc h' = Some state" and "length h' = length h"
proof -
  let ?src = "if state = GPT_OK then GPT_SIGNATURE else [0]"
  from assms(1) obtain h1 hsz where h1: "memcpy_to h ?src = Some h1"
    and hsz: "GET_4_BYTES h1 HEADER_SIZE_OFFSET = Some hsz"
    and h': "seal_header crc hsz h1 = Some h'"
    by (auto simp: set_hdr_def)
  have len: "length ?src \<le> length h" "h1 = overwrite h 0 ?src"
    using h1 by (auto simp: memcpy_to_def split: if_splits)
  have "12 + 4 \<le> length h1"
    using hsz unfolding HEADER_SIZE_OFFSET_def by (auto simp: GET_4_BYTES_def split: if_splits)
  then have h9: "16 \<le> length h" using len by simp
  show "length h' = length h" using seal_header_frame(1) [OF h'] len by simp
  have "region h1 0 9 = GPT_SIGNATURE \<longleftrightarrow> state = GPT_OK"
  proof (cases "state = GPT_OK")
    case True
    then show ?thesis using len region_overwrite_same [of 0 GPT_SIGNATURE h] by simp
  next
    case False
    then have "region h1 0 9 ! 0 = 0"
      using len h9 nth_region [of 0 9 0 h1] nth_overwrite [of 0 "[0]" h 0] by force
    moreover have "GPT_SIGNATURE ! 0 \<noteq> 0" by (simp add: GPT_SIGNATURE_bytes)
    ultimately show ?thesis using False by metis
  qed
  then show "hdr_state crc h' = Some state"
    using hdr_state_seal [OF h' hsz] assms(2) by (cases state) auto
qed

lemma set_table_crc_state:
  assumes "set_table_crc crc pentries h = Some h'"
  shows "hdr_state crc h' =
      Some (if region h 0 9 = GPT_SIGNATURE then GPT_OK else GPT_BAD_SIGNATURE)"
    and "length h' = length h"
    and "GET_4_BYTES h' PARTITION_CRC_OFFSET = Some (crc pentries)"
    and "GET_8_BYTES h' PENTRIES_OFFSET = GET_8_BYTES h PENTRIES_OFFSET"
proof -
  from assms obtain hsz h1 where hsz: "GET_4_BYTES h HEADER_SIZE_OFFSET = Some hsz"
    and h1: "PUT_4_BYTES h PARTITION_CRC_OFFSET (crc pentries) = Some h1"
    and h': "seal_header crc hsz h1 = Some h'"
    by (auto simp: set_table_crc_def)
  have len: "92 \<le> length h" and ow: "h1 = overwrite h 88 (le_bytes4 (crc pentries))"
    using h1 by (auto simp: PUT_4_BYTES_Some PARTITION_CRC_OFFSET_def)
  show len': "length h' = length h" using seal_header_frame(1) [OF h'] len ow by simp
  have "GET_4_BYTES h1 HEADER_SIZE_OFFSET = Some hsz"
    using hsz len ow by (simp add: GET_4_overwrite_disjoint disjoint_regions_def HEADER_SIZE_OFFSET_def)
  moreover have "region h1 0 9 = region h 0 9"
    using len ow by (simp add: region_overwrite_disjoint disjoint_regions_def)
  ultimately show "hdr_state crc h' =
      Some (if region h 0 9 = GPT_SIGNATURE then GPT_OK else GPT_BAD_SIGNATURE)"
    using hdr_state_seal [OF h'] by simp
  have "GET_4_BYTES h1 PARTITION_CRC_OFFSET = Some (crc pentries)"
    using le4.get_put [OF h1] .
  then show "GET_4_BYTES h' PARTITION_CRC_OFFSET = Some (crc pentries)"
    using seal_header_frame [OF h'] GET_4_region_cong [of h' h1 88]
    by (simp add: disjoint_regions_def HEADER_CRC_OFFSET_def PARTITION_CRC_OFFSET_def)
  have "GET_8_BYTES h' 72 = GET_8_BYTES h1 72"
    using seal_header_frame [OF h'] GET_8_region_cong [of h' h1 72]
    by (simp add: disjoint_regions_def HEADER_CRC_OFFSET_def)
  then show "GET_8_BYTES h' PENTRIES_OFFSET = GET_8_BYTES h PENTRIES_OFFSET"
    using len ow by (simp add: GET_8_overwrite_disjoint disjoint_regions_def PENTRIES_OFFSET_def)
qed

lemma hdr_state_signature:
  "hdr_state crc h = Some GPT_OK \<Longrightarrow> region h 0 9 = GPT_SIGNATURE"
  by (auto simp: hdr_state_def memcmp_eq_def take_region split: if_splits)

lemma set_hdr_restore:
  assumes "hdr_state crc h = Some GPT_OK" "set_hdr crc GPT_BAD_SIGNATURE h = Some h1"
    and "set_hdr crc GPT_OK h1 = Some h2"
  shows "h2 = h"
proof -
  obtain hsz where hsz: "GET_4_BYTES h HEADER_SIZE_OFFSET = Some hsz" and len: "20 \<le> length h"
    using assms(1)
    by (auto simp: hdr_state_def crc32_def PUT_4_BYTES_Some HEADER_CRC_OFFSET_def
        split: if_splits)
  let ?b = "overwrite h 0 [0]"
  have size: "GET_4_BYTES x HEADER_SIZE_OFFSET = Some hsz"
    if "length x = length h" "region x 12 4 = region h 12 4" for x
    using hsz len that GET_4_region_cong [of x h 12] by (simp add: HEADER_SIZE_OFFSET_def)
  have "seal_header crc hsz ?b = Some h1"
    using assms(2) len size [of ?b]
    by (auto simp: set_hdr_def memcpy_to_def region_overwrite_disjoint disjoint_regions_def)
  then obtain s where h1: "h1 = overwrite ?b 16 (le_bytes4 s)"
    using len by (auto simp: seal_header_def PUT_4_BYTES_Some overwrite_overwrite_same
        HEADER_CRC_OFFSET_def)
  have "overwrite h1 0 GPT_SIGNATURE = overwrite (overwrite ?b 0 GPT_SIGNATURE) 16 (le_bytes4 s)"
    unfolding h1 using len by (intro overwrite_commute) (auto simp: disjoint_regions_def)
  also have "overwrite ?b 0 GPT_SIGNATURE = overwrite h 0 (region h 0 9)"
    using len hdr_state_signature [OF assms(1)]
    by (intro nth_equalityI) (auto simp: nth_overwrite)
  also have "\<dots> = h" using len by (intro overwrite_region_id) simp
  finally have "overwrite h1 0 GPT_SIGNATURE = overwrite h 16 (le_bytes4 s)" .
  then have "seal_header crc hsz (overwrite h 16 (le_bytes4 s)) = Some h2"
    using assms(3) len size [of "overwrite h 16 (le_bytes4 s)"] h1
    by (auto simp: set_hdr_def memcpy_to_def region_overwrite_disjoint disjoint_regions_def)
  then show ?thesis using seal_header_idem [OF assms(1) _ hsz len] by simp
qed

section \<open>Effects on the disk\<close>

text \<open>
  Where an instance's header is, its block, and the devices on which the two
  header blocks are apart.
\<close>

fun hdr_off :: "gpt_instance \<Rightarrow> blkdev \<Rightarrow> nat" where
  "hdr_off PRIMARY_GPT d = unat (dev_blksz d)"
| "hdr_off SECONDARY_GPT d = dev_size d - unat (dev_blksz d)"

definition hdr_block :: "gpt_instance \<Rightarrow> blkdev \<Rightarrow> byte list" where
  "hdr_block g d = dev_rd d (hdr_off g d) (unat (dev_blksz d))"

definition dev_ok :: "blkdev \<Rightarrow> bool" where
  "dev_ok d \<longleftrightarrow> 3 * unat (dev_blksz d) \<le> dev_size d"

lemma hdr_off_in: "dev_ok d \<Longrightarrow> hdr_off g d + unat (dev_blksz d) \<le> dev_size d"
  by (cases g) (auto simp: dev_ok_def)

lemma hdr_off_apart:
  "dev_ok d \<Longrightarrow> g \<noteq> g' \<Longrightarrow>
    disjoint_regions (hdr_off g d) (unat (dev_blksz d)) (hdr_off g' d) (unat (dev_blksz d))"
  by (cases g; cases g') (auto simp: dev_ok_def disjoint_regions_def)

lemma length_hdr_block: "dev_ok d \<Longrightarrow> length (hdr_block g d) = unat (dev_blksz d)"
  unfolding hdr_block_def by (rule dev.rd_length) (rule hdr_off_in)

lemma same_disk_hdr:
  assumes "same_disk d d'"
  shows "hdr_off g d' = hdr_off g d" "hdr_block g d' = hdr_block g d" "dev_ok d' = dev_ok d"
proof -
  show 1: "hdr_off g d' = hdr_off g d" using assms by (cases g) (simp_all add: same_diskD)
  show "hdr_block g d' = hdr_block g d" "dev_ok d' = dev_ok d"
    using assms 1 by (simp_all add: hdr_block_def dev_ok_def same_diskD)
qed

lemma dev_wr_hdr:
  assumes "off + length ys \<le> dev_size d"
  shows "hdr_off g (dev_wr d off ys) = hdr_off g d" "dev_ok (dev_wr d off ys) = dev_ok d"
  using dev.wr_extent [OF assms] by (cases g; simp add: dev_ok_def)+

lemma wrote_disk_hdr:
  assumes "wrote_disk off ys d d'" "off + length ys \<le> dev_size d"
  shows "hdr_off g d' = hdr_off g d" "dev_ok d' = dev_ok d"
    "disjoint_regions off (length ys) (hdr_off g d) (unat (dev_blksz d)) \<Longrightarrow>
      hdr_block g d' = hdr_block g d"
    "off = hdr_off g d \<Longrightarrow> length ys = unat (dev_blksz d) \<Longrightarrow> hdr_block g d' = ys"
proof -
  have s: "same_disk (dev_wr d off ys) d'" using assms(1) by (simp add: wrote_disk_def)
  note eqs = same_disk_hdr [OF s] dev_wr_hdr [OF assms(2)]
  show "hdr_off g d' = hdr_off g d" "dev_ok d' = dev_ok d" using eqs by simp_all
  have b: "hdr_block g d' = dev_rd (dev_wr d off ys) (hdr_off g d) (unat (dev_blksz d))"
    using eqs by (simp add: hdr_block_def)
  show "disjoint_regions off (length ys) (hdr_off g d) (unat (dev_blksz d)) \<Longrightarrow>
      hdr_block g d' = hdr_block g d"
    using b dev.rd_wr_disjoint [OF assms(2)] by (simp add: hdr_block_def)
  show "off = hdr_off g d \<Longrightarrow> length ys = unat (dev_blksz d) \<Longrightarrow> hdr_block g d' = ys"
    using b dev.rd_wr_same [OF assms(2)] by simp
qed

text \<open>The offset computed by the code is the header's, unless the seek failed.\<close>

lemma header_offset_of_result:
  assumes "header_offset_of g blk d = (off, d')" "blk = dev_blksz d" "dev_ok d"
  shows "same_disk d d'" and "off < 0 \<or> off = int (hdr_off g d)"
proof -
  show "same_disk d d'"
    using assms(1) by (auto simp: header_offset_of_def split: if_splits prod.splits intro: calls_same)
  show "off < 0 \<or> off = int (hdr_off g d)"
  proof (cases g)
    case PRIMARY_GPT
    then show ?thesis using assms(1,2) by (auto simp: header_offset_of_def)
  next
    case SECONDARY_GPT
    then obtain e where e: "lseek_END d = (e, d')" "off = e - uint blk"
      using assms(1) by (auto simp: header_offset_of_def split: prod.splits)
    have "unat blk \<le> dev_size d" using assms(2,3) by (simp add: dev_ok_def)
    then have "int (dev_size d) - uint blk = int (dev_size d - unat blk)"
      by (simp add: of_nat_diff)
    moreover have "uint blk \<ge> 0" by simp
    ultimately show ?thesis
      using calls_results(4) [OF e(1)] e(2) SECONDARY_GPT assms(2) by auto
  qed
qed

text \<open>
  Whatever fails, reading a header leaves the disk unchanged, and a header that
  has been read is the header block.
\<close>

lemma read_header_effect:
  assumes "read_header g d = Some (res, d')" "dev_ok d" "no_short d"
  shows "same_disk d d'" "no_short d'" "dev_ok d'"
    and "res = Some (blk, off, h) \<Longrightarrow>
      blk = dev_blksz d \<and> off = int (hdr_off g d) \<and> h = hdr_block g d"
proof -
  obtain bo d1 where 1: "ioctl_BLKSSZGET d = (bo, d1)" by (cases "ioctl_BLKSSZGET d")
  have s1: "same_disk d d1" using 1 by (rule calls_same)
  have "same_disk d d' \<and> (res = Some (blk, off, h) \<longrightarrow>
      blk = dev_blksz d \<and> off = int (hdr_off g d) \<and> h = hdr_block g d)"
  proof (cases bo)
    case None
    then show ?thesis using assms(1) 1 s1 by (simp add: read_header_def)
  next
    case b: (Some b)
    have bs: "b = dev_blksz d" using 1 b calls_results(1) by blast
    obtain mo d2 where 2: "c_malloc (unat b) d1 = (mo, d2)" by (cases "c_malloc (unat b) d1")
    have s2: "same_disk d d2" using s1 calls_same(2) [OF 2] by (rule same_disk_trans)
    show ?thesis
    proof (cases mo)
      case None
      then show ?thesis using assms(1) 1 2 s2 b by (simp add: read_header_def)
    next
      case buf: (Some buf)
      have lb: "length buf = unat b" using 2 buf calls_results(2) by blast
      obtain o3 d3 where 3: "header_offset_of g b d2 = (o3, d3)"
        by (cases "header_offset_of g b d2")
      have ok2: "dev_ok d2" "b = dev_blksz d2" "hdr_off g d2 = hdr_off g d"
        using s2 assms(2) bs by (simp_all add: same_disk_hdr same_diskD)
      note off = header_offset_of_result [OF 3 ok2(2,1)]
      have s3: "same_disk d d3" using s2 off(1) by (rule same_disk_trans)
      show ?thesis
      proof (cases "o3 < 0")
        case True
        then show ?thesis using assms(1) 1 2 3 s3 b buf by (simp add: read_header_def)
      next
        case False
        then have o3: "o3 = int (hdr_off g d)" using off(2) ok2(3) by simp
        obtain r4 h4 where 4: "blk_rw False o3 buf (unat b) d3 = Some (r4, h4, d')"
          and res: "res = (if r4 \<noteq> 0 then None else Some (b, o3, h4))"
          using assms(1) 1 2 3 b buf False by (auto simp: read_header_def split: option.splits)
        have s4: "same_disk d d'" using s3 blk_rw_read_same(1) [OF 4] by (rule same_disk_trans)
        have "r4 = 0 \<Longrightarrow> h4 = dev_rd d3 (nat o3) (unat b)"
          using 4 no_short_same [OF assms(3) s3] lb hdr_off_in [OF assms(2), of g] bs o3 s3
          by (intro blk_rw_read_full(2)) (auto simp: same_diskD)
        then show ?thesis
          using res s4 bs o3 same_diskD(5) [OF s3] by (auto simp: hdr_block_def)
      qed
    qed
  qed
  then show "same_disk d d'" "res = Some (blk, off, h) \<Longrightarrow>
      blk = dev_blksz d \<and> off = int (hdr_off g d) \<and> h = hdr_block g d"
    by blast+
  then show "no_short d'" "dev_ok d'"
    using assms(2,3) by (auto simp: same_disk_hdr intro: no_short_same)
qed

lemma map_option_bind:
  "map_option f (Option.bind m g) = Option.bind m (\<lambda>x. map_option f (g x))"
  by (cases m) simp_all

lemma gpt_get_state_read:
  assumes "read_header g d = Some (Some (blk, off, h), d1)"
  shows "gpt_get_state crc g d = map_option (\<lambda>st. (0, st, d1)) (hdr_state crc h)"
  using assms by (simp add: gpt_get_state_def hdr_state_def map_option_bind)

lemma gpt_get_state_effect:
  assumes "gpt_get_state crc g d = Some (r, st, d')" "dev_ok d" "no_short d"
  shows "same_disk d d'" and "r = 0 \<Longrightarrow> hdr_state crc (hdr_block g d) = Some st"
    and "r = 0 \<or> r = -1"
proof -
  obtain res d1 where rd: "read_header g d = Some (res, d1)"
    using assms(1) by (auto simp: gpt_get_state_def)
  note eff = read_header_effect [OF rd assms(2,3)]
  have "d' = d1 \<and> (r = 0 \<longrightarrow> hdr_state crc (hdr_block g d) = Some st) \<and> (r = 0 \<or> r = -1)"
  proof (cases res)
    case None
    then show ?thesis using assms(1) rd by (simp add: gpt_get_state_def)
  next
    case (Some p)
    then obtain blk off where p: "res = Some (blk, off, hdr_block g d)"
      using eff(4) by (cases p) blast
    have "gpt_get_state crc g d = map_option (\<lambda>st. (0, st, d1)) (hdr_state crc (hdr_block g d))"
      using rd p gpt_get_state_read by blast
    then show ?thesis using assms(1) by (cases "hdr_state crc (hdr_block g d)") auto
  qed
  then show "same_disk d d'" "r = 0 \<Longrightarrow> hdr_state crc (hdr_block g d) = Some st" "r = 0 \<or> r = -1"
    using eff(1) by blast+
qed

text \<open>
  Writing back: the disk is as before (and the call failed), or the header block
  is the one computed from it, whether or not the call then reports success.
\<close>

lemma gpt_set_state_effect:
  assumes "gpt_set_state crc g st d = Some (r, d')" "dev_ok d" "no_short d"
  shows "(r \<noteq> 0 \<and> same_disk d d') \<or>
      (\<exists>h. set_hdr crc st (hdr_block g d) = Some h \<and> st \<noteq> GPT_BAD_CRC
        \<and> wrote_disk (hdr_off g d) h d d')"
    and "r = 0 \<or> r = -1"
proof -
  obtain res d1 where rd: "read_header g d = Some (res, d1)"
    using assms(1) by (auto simp: gpt_set_state_def)
  note eff = read_header_effect [OF rd assms(2,3)]
  have "((r \<noteq> 0 \<and> same_disk d d') \<or>
      (\<exists>h. set_hdr crc st (hdr_block g d) = Some h \<and> st \<noteq> GPT_BAD_CRC
        \<and> wrote_disk (hdr_off g d) h d d')) \<and> (r = 0 \<or> r = -1)"
  proof (cases "res = None \<or> st = GPT_BAD_CRC")
    case True
    then show ?thesis
      using assms(1) rd eff(1) by (auto simp: gpt_set_state_def split: option.splits)
  next
    case False
    then obtain p where "res = Some p" by auto
    then obtain blk off where p: "res = Some (blk, off, hdr_block g d)"
      and blk: "blk = dev_blksz d" and off: "off = int (hdr_off g d)"
      using eff(4) by (cases p) blast
    obtain h r2 h' where h: "set_hdr crc st (hdr_block g d) = Some h"
      and w: "blk_rw True off h (unat blk) d1 = Some (r2, h', d')"
      and r: "r = (if r2 \<noteq> 0 then -1 else 0)"
      using assms(1) rd p False by (auto simp: gpt_set_state_def set_hdr_def)
    have "length h = unat blk"
      using set_hdr_state(2) [OF h] False length_hdr_block [OF assms(2)] blk by simp
    then have "same_disk d1 d' \<and> r2 \<noteq> 0 \<or> 0 \<le> off \<and> wrote_disk (nat off) h d1 d'"
      using blk_rw_write_effect(1) [OF w eff(2)] hdr_off_in [OF assms(2), of g] eff(1) blk off
      by (simp add: same_diskD)
    then show ?thesis
      using r h off False same_disk_trans [OF eff(1)] same_wrote_disk [OF eff(1)] by auto
  qed
  then show "(r \<noteq> 0 \<and> same_disk d d') \<or>
      (\<exists>h. set_hdr crc st (hdr_block g d) = Some h \<and> st \<noteq> GPT_BAD_CRC
        \<and> wrote_disk (hdr_off g d) h d d')" "r = 0 \<or> r = -1"
    by blast+
qed

end
