(* ===== verification/Gpt_Chain.thy ===== *)
theory Gpt_Chain
  imports Gpt_Header
begin

text \<open>
  The effect of \<open>gpt2_set_boot_chain\<close> on the disk. \<open>entries_at\<close> says where a
  header's partition array is, \<open>gpt_layout\<close> that the two tables of the disk do
  not overlap, \<open>table_ok\<close> that a table can be booted from: its header has the
  signature, its own CRC and the CRC of its array. For every schedule of failing
  calls without short transfers the primary table is left alone, and when the
  call reports success the secondary array is the primary one (exchanged for
  BACKUP_BOOT) under a header with its CRC.
\<close>

section \<open>Tables on a disk\<close>

declare hdr_off.simps [simp del]

definition table_offset :: "u32 \<Rightarrow> byte list \<Rightarrow> int option" where
  "table_offset blk h =
     map_option (\<lambda>lba. sint (lba * (ucast blk :: u64))) (GET_8_BYTES h PENTRIES_OFFSET)"

definition table_length :: "byte list \<Rightarrow> nat option" where
  "table_length h = do {
     size \<leftarrow> GET_4_BYTES h PENTRY_SIZE_OFFSET;
     count \<leftarrow> GET_4_BYTES h PARTITION_COUNT_OFFSET;
     Some (unat (count * size))
   }"

definition entries_at :: "gpt_instance \<Rightarrow> blkdev \<Rightarrow> (nat \<times> nat) option" where
  "entries_at g d = do {
     off \<leftarrow> table_offset (dev_blksz d) (hdr_block g d);
     n \<leftarrow> table_length (hdr_block g d);
     if off < 0 then None else Some (nat off, n)
   }"

definition entries :: "gpt_instance \<Rightarrow> blkdev \<Rightarrow> byte list" where
  "entries g d = (case entries_at g d of None \<Rightarrow> [] | Some (off, n) \<Rightarrow> dev_rd d off n)"

definition table_ok :: "crc_fun \<Rightarrow> gpt_instance \<Rightarrow> blkdev \<Rightarrow> bool" where
  "table_ok crc g d \<longleftrightarrow> hdr_state crc (hdr_block g d) = Some GPT_OK
     \<and> GET_4_BYTES (hdr_block g d) PARTITION_CRC_OFFSET = Some (crc (entries g d))"

text \<open>
  Two tables of the same length, the primary array before the secondary one, and
  both between the primary and the secondary header.
\<close>

definition gpt_layout :: "blkdev \<Rightarrow> bool" where
  "gpt_layout d \<longleftrightarrow> dev_ok d \<and>
     (case (entries_at PRIMARY_GPT d, entries_at SECONDARY_GPT d) of
        (Some (o1, n1), Some (o2, n2)) \<Rightarrow>
          n1 = n2 \<and> 2 * unat (dev_blksz d) \<le> o1 \<and> o1 + n1 \<le> o2
            \<and> o2 + n2 + unat (dev_blksz d) \<le> dev_size d
      | _ \<Rightarrow> False)"

text \<open>The array \<open>gpt2_set_boot_chain\<close> makes of the primary one, and its result code.\<close>

definition chain_entries ::
  "bool \<Rightarrow> boot_chain \<Rightarrow> byte list \<Rightarrow> nat \<Rightarrow> (int \<times> byte list) option" where
  "chain_entries is_ufs boot pentries pentry_size =
     (if boot = BACKUP_BOOT then gpt_boot_chain_swap is_ufs pentries pentry_size
      else Some (0, pentries))"

section \<open>What each write leaves unchanged\<close>

text \<open>The fields that locate the array are outside every field the code changes.\<close>

lemma table_fields_cong:
  assumes "length h' = length h" "region h' 72 16 = region h 72 16"
  shows "table_offset blk h' = table_offset blk h" "table_length h' = table_length h"
proof -
  have r: "region h' (72 + k) m = region h (72 + k) m" if "k + m \<le> 16" for k m
    using assms(2) that region_region [of k m 16 h' 72] region_region [of k m 16 h 72] by metis
  have "GET_8_BYTES h' 72 = GET_8_BYTES h 72" "GET_4_BYTES h' 80 = GET_4_BYTES h 80"
    "GET_4_BYTES h' 84 = GET_4_BYTES h 84"
    using assms(1) r [of 0 8] r [of 8 4] r [of 12 4]
    by (auto intro: GET_8_region_cong GET_4_region_cong)
  then show "table_offset blk h' = table_offset blk h" "table_length h' = table_length h"
    by (simp_all add: table_offset_def table_length_def model_defs)
qed

lemma set_hdr_fields:
  assumes "set_hdr crc st h = Some h'"
  shows "length h' = length h" and "region h' 72 16 = region h 72 16"
    and "GET_4_BYTES h' PARTITION_CRC_OFFSET = GET_4_BYTES h PARTITION_CRC_OFFSET"
proof -
  let ?src = "if st = GPT_OK then GPT_SIGNATURE else [0]"
  from assms obtain h1 hsz where h1: "memcpy_to h ?src = Some h1"
    and h': "seal_header crc hsz h1 = Some h'"
    by (auto simp: set_hdr_def)
  have ow: "length ?src \<le> length h" "h1 = overwrite h 0 ?src"
    using h1 by (auto simp: memcpy_to_def split: if_splits)
  show len: "length h' = length h" using seal_header_frame(1) [OF h'] ow by simp
  have r: "region h' off n = region h off n" if "20 \<le> off" for off n
    using that seal_header_frame(2) [OF h'] ow
    by (simp add: region_overwrite_disjoint disjoint_regions_def HEADER_CRC_OFFSET_def)
  show "region h' 72 16 = region h 72 16" by (simp add: r)
  show "GET_4_BYTES h' PARTITION_CRC_OFFSET = GET_4_BYTES h PARTITION_CRC_OFFSET"
    using len by (auto simp: PARTITION_CRC_OFFSET_def r intro: GET_4_region_cong)
qed

lemma set_table_crc_fields:
  assumes "set_table_crc crc es h = Some h'"
  shows "length h' = length h" and "region h' 72 16 = region h 72 16"
    and "region h' 0 9 = region h 0 9"
proof -
  from assms obtain hsz h1 where
    h1: "PUT_4_BYTES h PARTITION_CRC_OFFSET (crc es) = Some h1"
    and h': "seal_header crc hsz h1 = Some h'"
    by (auto simp: set_table_crc_def)
  have ow: "92 \<le> length h" "h1 = overwrite h 88 (le_bytes4 (crc es))"
    using h1 by (auto simp: PUT_4_BYTES_Some PARTITION_CRC_OFFSET_def)
  show "length h' = length h" using seal_header_frame(1) [OF h'] ow by simp
  show "region h' 72 16 = region h 72 16" "region h' 0 9 = region h 0 9"
    using seal_header_frame(2) [OF h'] ow
    by (simp_all add: region_overwrite_disjoint disjoint_regions_def HEADER_CRC_OFFSET_def)
qed

lemma entries_at_cong:
  assumes "dev_blksz d' = dev_blksz d" "length (hdr_block g d') = length (hdr_block g d)"
    "region (hdr_block g d') 72 16 = region (hdr_block g d) 72 16"
  shows "entries_at g d' = entries_at g d"
  using assms table_fields_cong [OF assms(2,3)] by (simp add: entries_at_def)

lemma same_disk_entries:
  assumes "same_disk d d'"
  shows "entries_at g d' = entries_at g d" "entries g d' = entries g d"
    "table_ok crc g d' = table_ok crc g d" "gpt_layout d' = gpt_layout d"
proof -
  note same = same_disk_hdr [OF assms] same_diskD [OF assms]
  show at: "entries_at g d' = entries_at g d" for g by (simp add: entries_at_def same)
  show "entries g d' = entries g d"
    by (simp add: entries_def at same split: option.splits)
  then show "table_ok crc g d' = table_ok crc g d" by (simp add: table_ok_def same)
  show "gpt_layout d' = gpt_layout d" unfolding gpt_layout_def at same ..
qed

lemma gpt_layoutE:
  assumes "gpt_layout d"
  obtains o1 o2 n where "dev_ok d" "entries_at PRIMARY_GPT d = Some (o1, n)"
    "entries_at SECONDARY_GPT d = Some (o2, n)" "2 * unat (dev_blksz d) \<le> o1"
    "o1 + n \<le> o2" "o2 + n + unat (dev_blksz d) \<le> dev_size d"
  using assms by (auto simp: gpt_layout_def split: option.splits prod.splits)

text \<open>A header replaced by one with the same location fields.\<close>

lemma entries_of:
  "entries_at g d = Some (off, n) \<Longrightarrow> entries g d = dev_rd d off n"
  by (simp add: entries_def)

lemma layout_transfer:
  assumes "gpt_layout d" "dev_blksz d' = dev_blksz d" "dev_size d' = dev_size d"
    and "\<And>g. entries_at g d' = entries_at g d"
  shows "gpt_layout d'"
  using assms(1) unfolding gpt_layout_def assms(2-4) dev_ok_def .

lemma wrote_disk_size:
  assumes "wrote_disk off ys d d'" "off + length ys \<le> dev_size d"
  shows "dev_size d' = dev_size d" "dev_blksz d' = dev_blksz d"
    "dev_rd d' off (length ys) = ys"
    "disjoint_regions off (length ys) a n \<Longrightarrow> dev_rd d' a n = dev_rd d a n"
  using wrote_diskD(1,2) [OF assms(1)] assms(2)
  by (simp_all add: dev_size_def dev_rd_def region_overwrite_same region_overwrite_disjoint)

lemma header_written:
  assumes "gpt_layout d" "wrote_disk (hdr_off g d) h d d'" "length h = length (hdr_block g d)"
    and "region h 72 16 = region (hdr_block g d) 72 16"
  shows "gpt_layout d'" "entries_at g' d' = entries_at g' d" "entries g' d' = entries g' d"
    "hdr_block g' d' = (if g' = g then h else hdr_block g' d)"
proof -
  obtain o1 o2 n where lay: "dev_ok d" "entries_at PRIMARY_GPT d = Some (o1, n)"
    "entries_at SECONDARY_GPT d = Some (o2, n)" "2 * unat (dev_blksz d) \<le> o1"
    "o1 + n \<le> o2" "o2 + n + unat (dev_blksz d) \<le> dev_size d"
    using assms(1) by (rule gpt_layoutE)
  have lh: "length h = unat (dev_blksz d)" using assms(3) length_hdr_block [OF lay(1)] by simp
  have fit: "hdr_off g d + length h \<le> dev_size d" using hdr_off_in [OF lay(1)] lh by simp
  note sz = wrote_disk_size [OF assms(2) fit]
  note hdr = wrote_disk_hdr [OF assms(2) fit]
  show blk: "hdr_block g' d' = (if g' = g then h else hdr_block g' d)" for g'
    using hdr(3) [of g'] hdr(4) [of g'] hdr_off_apart [OF lay(1), of g g'] lh
    by (cases "g' = g") auto
  show at: "entries_at g' d' = entries_at g' d" for g'
    by (rule entries_at_cong) (use sz blk assms(3,4) in auto)
  show "gpt_layout d'" using assms(1) sz(2,1) at by (rule layout_transfer)
  have "disjoint_regions (hdr_off g d) (length h) o1 n"
    "disjoint_regions (hdr_off g d) (length h) o2 n"
    using lay(1,4-6) lh unfolding dev_ok_def disjoint_regions_def
    by (cases g; simp only: hdr_off.simps; linarith)+
  then show "entries g' d' = entries g' d"
    using sz(4) lay(2,3) at [of g'] by (cases g') (simp_all add: entries_def)
qed

lemma entries_written:
  assumes "gpt_layout d" "entries_at SECONDARY_GPT d = Some (off, n)" "length ys = n"
    and "wrote_disk off ys d d'"
  shows "gpt_layout d'" "entries_at g d' = entries_at g d" "hdr_block g d' = hdr_block g d"
    "entries PRIMARY_GPT d' = entries PRIMARY_GPT d" "entries SECONDARY_GPT d' = ys"
proof -
  obtain o1 where lay: "dev_ok d" "entries_at PRIMARY_GPT d = Some (o1, n)"
    "2 * unat (dev_blksz d) \<le> o1" "o1 + n \<le> off" "off + n + unat (dev_blksz d) \<le> dev_size d"
    using assms(1,2) by (auto elim: gpt_layoutE)
  have fit: "off + length ys \<le> dev_size d" using lay assms(3) by simp
  note sz = wrote_disk_size [OF assms(4) fit]
  note hdr = wrote_disk_hdr [OF assms(4) fit]
  have "disjoint_regions off (length ys) (hdr_off g d) (unat (dev_blksz d))" for g
    using lay(1,3-5) assms(3) unfolding dev_ok_def disjoint_regions_def
    by (cases g; simp only: hdr_off.simps; linarith)
  then show blk: "hdr_block g d' = hdr_block g d" for g using hdr(3) by blast
  show at: "entries_at g d' = entries_at g d" for g
    by (rule entries_at_cong) (use sz blk in auto)
  show "gpt_layout d'" using assms(1) sz(2,1) at by (rule layout_transfer)
  have "disjoint_regions off (length ys) o1 n"
    using lay by (simp add: disjoint_regions_def)
  then show "entries PRIMARY_GPT d' = entries PRIMARY_GPT d"
    using sz(4) lay(2) at by (simp add: entries_def)
  show "entries SECONDARY_GPT d' = ys"
    using sz(3) assms(2,3) at by (simp add: entries_def)
qed

section \<open>gpt2_set_boot_chain\<close>

lemma memcpy_swap_length: "memcpy_swap arr p q = Some arr' \<Longrightarrow> length arr' = length arr"
  by (auto simp: memcpy_swap_def Let_def split: if_splits)

lemma swap_loop_length:
  "swap_loop is_ufs sz ns nf arr = Some (r, arr') \<Longrightarrow> length arr' = length arr"
  by (induction is_ufs sz ns nf arr rule: swap_loop.induct)
    (auto split: if_splits option.splits dest: memcpy_swap_length)

lemma swap_loop_code:
  "swap_loop is_ufs sz ns nf arr = Some (r, arr') \<Longrightarrow> r = nf \<or> r = 0"
  by (induction is_ufs sz ns nf arr rule: swap_loop.induct)
    (auto split: if_splits option.splits)

lemma chain_entries_length:
  "chain_entries is_ufs boot es sz = Some (r, es') \<Longrightarrow> length es' = length es"
  by (auto simp: chain_entries_def gpt_boot_chain_swap_def dest: swap_loop_length split: if_splits)

lemma chain_entries_code:
  "chain_entries is_ufs boot es sz = Some (r, es') \<Longrightarrow> r = 0 \<or> (r = 1 \<and> boot = BACKUP_BOOT)"
  by (auto simp: chain_entries_def gpt_boot_chain_swap_def dest: swap_loop_code split: if_splits)

text \<open>What a run of \<open>gpt2_set_boot_chain\<close> may do to the disk, with its result.\<close>

definition chain_done ::
  "crc_fun \<Rightarrow> byte list \<Rightarrow> int \<Rightarrow> blkdev \<Rightarrow> blkdev \<Rightarrow> bool" where
  "chain_done crc es r d d' \<longleftrightarrow>
     gpt_layout d' \<and> no_short d' \<and> (\<forall>g. entries_at g d' = entries_at g d)
     \<and> hdr_block PRIMARY_GPT d' = hdr_block PRIMARY_GPT d
     \<and> entries PRIMARY_GPT d' = entries PRIMARY_GPT d
     \<and> set_table_crc crc es (hdr_block SECONDARY_GPT d) = Some (hdr_block SECONDARY_GPT d')
     \<and> entries SECONDARY_GPT d' \<in> {es, entries SECONDARY_GPT d}
     \<and> (r = 0 \<longrightarrow> entries SECONDARY_GPT d' = es)"

lemma chain_header_written:
  assumes "gpt_layout d" "no_short d" "wrote_disk (hdr_off SECONDARY_GPT d) h d d'"
    and "set_table_crc crc es (hdr_block SECONDARY_GPT d) = Some h" "r \<noteq> 0"
  shows "chain_done crc es r d d'"
proof -
  note w = header_written [OF assms(1,3) set_table_crc_fields(1,2) [OF assms(4)]]
  then show ?thesis
    using assms(4,5) no_short_wrote [OF assms(2,3)] by (simp add: chain_done_def)
qed

lemma chain_entries_written:
  assumes "chain_done crc es r d d'" "entries_at SECONDARY_GPT d = Some (off, n)"
    "length es = n" "wrote_disk off es d' d''"
  shows "chain_done crc es r' d d''"
proof -
  have 1: "gpt_layout d'" "entries_at SECONDARY_GPT d' = Some (off, n)" "no_short d'"
    using assms(1,2) by (simp_all add: chain_done_def)
  note w = entries_written [OF 1(1,2) assms(3,4)] no_short_wrote [OF 1(3) assms(4)]
  then show ?thesis using assms(1) by (simp add: chain_done_def)
qed

lemma chain_done_code:
  "chain_done crc es r d d' \<Longrightarrow> r' \<noteq> 0 \<Longrightarrow> same_disk d' d'' \<Longrightarrow> chain_done crc es r' d d''"
  unfolding chain_done_def
  using same_disk_entries [of d' d''] same_disk_hdr [of d' d''] no_short_same [of d' d'']
  by simp

text \<open>Second half, with the offset of the secondary header at hand.\<close>

lemma write_secondary_table_effect:
  assumes run: "write_secondary_table crc is_ufs boot (dev_blksz d) (int (hdr_off SECONDARY_GPT d))
      buf es0 sz d = Some (r, d')"
    and lay: "gpt_layout d" and ns: "no_short d" and buf: "length buf = unat (dev_blksz d)"
    and at: "entries_at SECONDARY_GPT d = Some (off, length es0)"
  shows "(r \<noteq> 0 \<and> same_disk d d') \<or>
    (\<exists>es. chain_entries is_ufs boot es0 (unat sz) = Some (0, es) \<and> chain_done crc es r d d')"
proof -
  let ?hoff = "hdr_off SECONDARY_GPT d" and ?n = "unat (dev_blksz d)"
  have ok: "dev_ok d" using lay by (simp add: gpt_layout_def)
  have fit: "?hoff + ?n \<le> dev_size d" using hdr_off_in [OF ok] .
  obtain r1 h d1 where rd: "blk_rw False (int ?hoff) buf ?n d = Some (r1, h, d1)"
    using run by (auto simp: write_secondary_table_def)
  have s1: "same_disk d d1" using blk_rw_read_same(1) [OF rd] .
  show ?thesis
  proof (cases "r1 = 0")
    case False
    then show ?thesis using run rd s1 by (auto simp: write_secondary_table_def)
  next
    case True
    have h: "h = hdr_block SECONDARY_GPT d"
      using blk_rw_read_full(2) [OF rd [unfolded True] ns _ buf] fit
      unfolding hdr_block_def nat_int by blast
    obtain hsz lba r2 es where f: "GET_4_BYTES h HEADER_SIZE_OFFSET = Some hsz"
      "GET_8_BYTES h PENTRIES_OFFSET = Some lba"
      and ch: "chain_entries is_ufs boot es0 (unat sz) = Some (r2, es)"
      using run rd True by (auto simp: write_secondary_table_def chain_entries_def Let_def)
    show ?thesis
    proof (cases "r2 = 0")
      case False
      then show ?thesis
        using run rd True f ch s1
        by (auto simp: write_secondary_table_def chain_entries_def Let_def)
    next
      case r2: True
      have les: "length es = length es0" using chain_entries_length [OF ch] .
      have lba: "sint (lba * ucast (dev_blksz d)) = int off"
        using at f(2) h by (auto simp: entries_at_def table_offset_def split: if_splits)
      obtain h' r3 d3 where st: "set_table_crc crc es h = Some h'"
        and w1: "blk_rw True (int ?hoff) h' ?n d1 = Some (r3, h', d3)"
        and rest: "if r3 \<noteq> 0 then r = r3 \<and> d' = d3
          else \<exists>b. blk_rw True (int off) es (length es) d3 = Some (r, b, d')"
      proof -
        obtain h1 h' r3 h3 d3 where "PUT_4_BYTES h PARTITION_CRC_OFFSET (crc es) = Some h1"
          "seal_header crc hsz h1 = Some h'"
          and w: "blk_rw True (int ?hoff) h' ?n d1 = Some (r3, h3, d3)"
          and "if r3 \<noteq> 0 then r = r3 \<and> d' = d3
            else \<exists>b. blk_rw True (int off) es (length es) d3 = Some (r, b, d')"
          using run rd True f ch r2 lba
          by (auto simp: write_secondary_table_def chain_entries_def Let_def split: if_splits)
        moreover from w have "h3 = h'"
          by (auto simp: blk_rw_def Let_def split: prod.splits if_splits)
        ultimately show ?thesis using that f by (simp add: set_table_crc_def)
      qed
      have lh: "length h' = ?n"
        using set_table_crc_fields(1) [OF st] length_hdr_block [OF ok] h by simp
      have eff1: "same_disk d d3 \<and> r3 \<noteq> 0 \<or> wrote_disk ?hoff h' d d3"
        using blk_rw_write_effect(1) [OF w1 no_short_same [OF ns s1]] fit lh s1
          same_disk_trans [OF s1] same_wrote_disk [OF s1] by (auto simp: same_diskD)
      show ?thesis
      proof (cases "same_disk d d3 \<and> r3 \<noteq> 0")
        case True
        then show ?thesis using rest by auto
      next
        case False
        then have wd: "wrote_disk ?hoff h' d d3" using eff1 by blast
        have done1: "chain_done crc es (-1) d d3"
          by (rule chain_header_written [OF lay ns wd]) (use st h in auto)
        show ?thesis
        proof (cases "r3 = 0")
          case False
          then have "chain_done crc es r d d'"
            using rest chain_done_code [OF done1 _ same_disk_refl] by simp
          then show ?thesis using ch r2 by blast
        next
          case True
          then obtain b where w2: "blk_rw True (int off) es (length es) d3 = Some (r, b, d')"
            using rest by auto
          have "off + length es \<le> dev_size d3"
            using lay at les wrote_disk_size(1) [OF wd] fit lh by (auto elim!: gpt_layoutE)
          then have eff2: "same_disk d3 d' \<and> r \<noteq> 0 \<or> wrote_disk off es d3 d'"
            using blk_rw_write_effect(1) [OF w2] no_short_wrote [OF ns wd] by auto
          then have "chain_done crc es r d d'"
            using chain_done_code [OF done1] chain_entries_written [OF done1 at les] by blast
          then show ?thesis using ch r2 by blast
        qed
      qed
    qed
  qed
qed

lemma chain_done_same:
  assumes "same_disk d0 d" "chain_done crc es r d d'"
  shows "chain_done crc es r d0 d'"
  using assms(2) same_disk_entries(1,2) [OF assms(1)] same_disk_hdr(2) [OF assms(1)]
  by (simp add: chain_done_def)

text \<open>Once the primary table is read and its CRC compared.\<close>

lemma chain_from_entries:
  assumes run: "write_secondary_table crc is_ufs boot (dev_blksz d) (int (hdr_off SECONDARY_GPT d))
      buf es0 sz d1 = Some (r, d')"
    and lay: "gpt_layout d" and ns: "no_short d" and s: "same_disk d d1"
    and buf: "length buf = unat (dev_blksz d)"
    and at: "entries_at SECONDARY_GPT d = Some (off, length es0)"
  shows "(r \<noteq> 0 \<and> same_disk d d') \<or>
    (\<exists>es. chain_entries is_ufs boot es0 (unat sz) = Some (0, es) \<and> chain_done crc es r d d')"
proof -
  have "dev_blksz d1 = dev_blksz d" "hdr_off SECONDARY_GPT d1 = hdr_off SECONDARY_GPT d"
    "gpt_layout d1" "no_short d1" "entries_at SECONDARY_GPT d1 = Some (off, length es0)"
    using s lay at no_short_same [OF ns s]
    by (simp_all add: same_diskD same_disk_hdr same_disk_entries)
  then have "(r \<noteq> 0 \<and> same_disk d1 d') \<or>
    (\<exists>es. chain_entries is_ufs boot es0 (unat sz) = Some (0, es) \<and> chain_done crc es r d1 d')"
    using write_secondary_table_effect [of crc is_ufs boot d1 buf es0 sz r d' off] run buf by simp
  then show ?thesis using same_disk_trans [OF s] chain_done_same [OF s] by blast
qed

text \<open>
  Whatever fails: the disk is as before and the call has not succeeded, or the
  primary array has the CRC its header says and the secondary table has been
  (in part, if the call failed) rewritten from it.
\<close>

definition pentry_size_of :: "blkdev \<Rightarrow> nat" where
  "pentry_size_of d =
     (case GET_4_BYTES (hdr_block PRIMARY_GPT d) PENTRY_SIZE_OFFSET of
        None \<Rightarrow> 0 | Some sz \<Rightarrow> unat sz)"

lemma gpt2_set_boot_chain_effect:
  assumes run: "gpt2_set_boot_chain crc is_ufs boot d = Some (r, d')"
    and lay: "gpt_layout d" and ns: "no_short d"
  shows "(r \<noteq> 0 \<and> same_disk d d') \<or>
    (\<exists>es. chain_entries is_ufs boot (entries PRIMARY_GPT d) (pentry_size_of d) = Some (0, es)
      \<and> GET_4_BYTES (hdr_block PRIMARY_GPT d) PARTITION_CRC_OFFSET
          = Some (crc (entries PRIMARY_GPT d))
      \<and> chain_done crc es r d d')"
proof -
  let ?b = "dev_blksz d"
  obtain o1 o2 n where L: "dev_ok d" "entries_at PRIMARY_GPT d = Some (o1, n)"
    "entries_at SECONDARY_GPT d = Some (o2, n)" "2 * unat (dev_blksz d) \<le> o1"
    "o1 + n \<le> o2" "o2 + n + unat (dev_blksz d) \<le> dev_size d"
    using lay by (rule gpt_layoutE)
  obtain bo d1 where 1: "ioctl_BLKSSZGET d = (bo, d1)" by (cases "ioctl_BLKSSZGET d")
  have s1: "same_disk d d1" using 1 by (rule calls_same)
  consider "bo = None" | "bo = Some ?b" using 1 calls_results(1) by (cases bo) blast+
  then show ?thesis
  proof cases
    case 1: 1
    then show ?thesis using run \<open>ioctl_BLKSSZGET d = (bo, d1)\<close> s1
      by (simp add: gpt2_set_boot_chain_def)
  next
    case bo: 2
    obtain mo d2 where 2: "c_malloc (unat ?b) d1 = (mo, d2)" by (cases "c_malloc (unat ?b) d1")
    have s2: "same_disk d d2" using s1 calls_same(2) [OF 2] by (rule same_disk_trans)
    obtain off d3 where 3: "header_offset_of SECONDARY_GPT ?b d2 = (off, d3)"
      by (cases "header_offset_of SECONDARY_GPT ?b d2")
    have ok2: "dev_ok d2" "?b = dev_blksz d2" "hdr_off g d2 = hdr_off g d" for g
      using s2 L(1) by (simp_all add: same_disk_hdr same_diskD)
    note off = header_offset_of_result [OF 3 ok2(2,1)]
    have s3: "same_disk d d3" using s2 off(1) by (rule same_disk_trans)
    show ?thesis
    proof (cases "mo = None \<or> off < 0")
      case True
      then show ?thesis using run 1 bo 2 3 s2 s3
        by (cases mo) (auto simp: gpt2_set_boot_chain_def)
    next
      case False
      then obtain buf where buf: "mo = Some buf" "off = int (hdr_off SECONDARY_GPT d)"
        using off(2) ok2(3) by auto
      have lb: "length buf = unat ?b" using 2 buf(1) calls_results(2) by blast
      note steps = 1 bo 2 3 buf False gpt2_set_boot_chain_def Let_def
      obtain r4 h d4 where 4: "blk_rw False (uint ?b) buf (unat ?b) d3 = Some (r4, h, d4)"
        using run by (auto simp: steps)
      have s4: "same_disk d d4" using s3 blk_rw_read_same(1) [OF 4] by (rule same_disk_trans)
      show ?thesis
      proof (cases "r4 = 0")
        case False
        then show ?thesis using run s4 by (auto simp: steps 4)
      next
        case r4: True
        have h: "h = hdr_block PRIMARY_GPT d"
          using blk_rw_read_full(2) [OF 4 [unfolded r4] no_short_same [OF ns s3] _ lb]
            hdr_off_in [OF L(1), of PRIMARY_GPT] s3
          by (simp add: hdr_block_def hdr_off.simps same_diskD)
        obtain lba sz cnt where f: "GET_8_BYTES h PENTRIES_OFFSET = Some lba"
          "GET_4_BYTES h PENTRY_SIZE_OFFSET = Some sz"
          "GET_4_BYTES h PARTITION_COUNT_OFFSET = Some cnt"
          using run by (auto simp: steps 4 r4)
        obtain c d5 where 5: "c_calloc (unat (cnt * sz)) d4 = (c, d5)"
          by (cases "c_calloc (unat (cnt * sz)) d4")
        have s5: "same_disk d d5" using s4 calls_same(3) [OF 5] by (rule same_disk_trans)
        have loc: "sint (lba * ucast ?b) = int o1" "unat (cnt * sz) = n"
          using L(2) f h
          by (auto simp: entries_at_def table_offset_def table_length_def split: if_splits)
        show ?thesis
        proof (cases c)
          case None
          then show ?thesis using run s5 by (auto simp: steps 4 r4 f 5)
        next
          case c: (Some z)
          have lz: "length z = n" using calls_results(3) [OF 5 [unfolded c]] loc by simp
          obtain r6 es0 d6 where 6: "blk_rw False (int o1) z n d5 = Some (r6, es0, d6)"
            using run loc by (auto simp: steps 4 r4 f 5 c)
          have s6: "same_disk d d6" using s5 blk_rw_read_same(1) [OF 6] by (rule same_disk_trans)
          show ?thesis
          proof (cases "r6 = 0")
            case False
            then show ?thesis using run s6 6 loc by (auto simp: steps 4 r4 f 5 c)
          next
            case r6: True
            have "es0 = dev_rd d5 o1 n"
              using blk_rw_read_full(2) [OF 6 [unfolded r6] no_short_same [OF ns s5] _ lz] L s5
              by (simp add: same_diskD)
            then have es0: "es0 = entries PRIMARY_GPT d"
              using L(2) s5 by (simp add: entries_def same_diskD)
            obtain sum where sum: "GET_4_BYTES h PARTITION_CRC_OFFSET = Some sum"
              and rest: "if sum \<noteq> crc es0 then r = -1 \<and> d' = d6
                else write_secondary_table crc is_ufs boot ?b (int (hdr_off SECONDARY_GPT d))
                  h es0 sz d6 = Some (r, d')"
              using run 6 loc by (auto simp: steps 4 r4 f 5 c r6 split: if_splits)
            show ?thesis
            proof (cases "sum = crc es0")
              case False
              then show ?thesis using rest s6 by simp
            next
              case True
              have "length es0 = n" using blk_rw_read_same(2) [OF 6] lz by simp
              then have "r \<noteq> 0 \<and> same_disk d d' \<or>
                (\<exists>es. chain_entries is_ufs boot es0 (unat sz) = Some (0, es)
                  \<and> chain_done crc es r d d')"
                using chain_from_entries [of crc is_ufs boot d h es0 sz d6 r d' o2]
                  rest True lay ns s6 L(1,3) h length_hdr_block [OF L(1)] by simp
              then show ?thesis using es0 sum True f(2) h by (simp add: pentry_size_of_def)
            qed
          qed
        qed
      qed
    qed
  qed
qed

section \<open>When no call fails\<close>

lemma hdr_state_size:
  assumes "hdr_state crc h = Some st"
  obtains hsz where "GET_4_BYTES h HEADER_SIZE_OFFSET = Some hsz" "unat hsz \<le> length h"
    "20 \<le> length h"
proof -
  from assms obtain hsz where "GET_4_BYTES h HEADER_SIZE_OFFSET = Some hsz"
    "unat hsz \<le> length h" "20 \<le> length h"
    by (auto simp: hdr_state_def crc32_def PUT_4_BYTES_Some HEADER_CRC_OFFSET_def
        split: if_splits)
  then show ?thesis by (rule that)
qed

lemma set_table_crc_total:
  assumes "hdr_state crc h = Some st" "92 \<le> length h"
  shows "\<exists>h'. set_table_crc crc es h = Some h'"
proof -
  obtain hsz where "GET_4_BYTES h HEADER_SIZE_OFFSET = Some hsz" "unat hsz \<le> length h"
    using assms(1) by (rule hdr_state_size)
  then show ?thesis
    using assms(2) by (simp add: set_table_crc_def seal_header_def crc32_def model_defs)
qed

lemma set_hdr_total:
  assumes "hdr_state crc h = Some st"
  shows "\<exists>h'. set_hdr crc st' h = Some h'"
proof -
  let ?src = "if st' = GPT_OK then GPT_SIGNATURE else [0]"
  obtain hsz where h: "GET_4_BYTES h HEADER_SIZE_OFFSET = Some hsz" "unat hsz \<le> length h"
    "20 \<le> length h"
    using assms by (rule hdr_state_size)
  let ?h = "overwrite h 0 ?src"
  have "memcpy_to h ?src = Some ?h" "length ?h = length h"
    using h(3) by (auto simp: memcpy_to_def)
  moreover have "GET_4_BYTES ?h HEADER_SIZE_OFFSET = Some hsz"
    using h by (simp add: GET_4_overwrite_disjoint disjoint_regions_def HEADER_SIZE_OFFSET_def)
  ultimately show ?thesis
    using h by (simp add: set_hdr_def seal_header_def crc32_def model_defs)
qed

lemma header_offset_of_ok:
  assumes "dev_sched d = []" "dev_ok d"
  shows "header_offset_of g (dev_blksz d) d = (int (hdr_off g d), d)"
proof -
  have "int (dev_size d) - uint (dev_blksz d) = int (dev_size d - unat (dev_blksz d))"
    using assms(2) by (simp add: dev_ok_def of_nat_diff)
  then show ?thesis
    by (cases g) (simp_all add: header_offset_of_def calls_ok assms(1) hdr_off.simps)
qed

lemma write_secondary_table_runs:
  assumes "dev_sched d = []" "gpt_layout d" "length buf = unat (dev_blksz d)"
    and "entries_at SECONDARY_GPT d = Some (off, length es0)"
    and "hdr_state crc (hdr_block SECONDARY_GPT d) = Some st" "92 \<le> unat (dev_blksz d)"
    and ch: "chain_entries is_ufs boot es0 (unat sz) = Some (rc, es)"
  shows "\<exists>d'. write_secondary_table crc is_ufs boot (dev_blksz d) (int (hdr_off SECONDARY_GPT d))
      buf es0 sz d = Some (rc, d') \<and> dev_sched d' = []"
proof -
  let ?hoff = "hdr_off SECONDARY_GPT d" and ?n = "unat (dev_blksz d)"
  let ?h = "hdr_block SECONDARY_GPT d"
  have ok: "dev_ok d" using assms(2) by (simp add: gpt_layout_def)
  have lh: "length ?h = ?n" using length_hdr_block [OF ok] .
  have fit: "?hoff + ?n \<le> dev_size d" using hdr_off_in [OF ok] .
  have rd: "blk_rw False (int ?hoff) buf ?n d = Some (0, ?h, d)"
    using blk_rw_read_ok [of d "int ?hoff" ?n buf] assms(1,3) fit by (simp add: hdr_block_def)
  obtain h' where h': "set_table_crc crc es ?h = Some h'"
    using set_table_crc_total [OF assms(5)] assms(6) lh by auto
  then obtain hsz h1 where f: "GET_4_BYTES ?h HEADER_SIZE_OFFSET = Some hsz"
    "PUT_4_BYTES ?h PARTITION_CRC_OFFSET (crc es) = Some h1" "seal_header crc hsz h1 = Some h'"
    by (auto simp: set_table_crc_def)
  obtain lba where lba: "GET_8_BYTES ?h PENTRIES_OFFSET = Some lba"
    "sint (lba * ucast (dev_blksz d)) = int off"
    using assms(4) by (auto simp: entries_at_def table_offset_def split: if_splits)
  have les: "length es = length es0" using chain_entries_length [OF ch] .
  have lh': "length h' = ?n" using set_table_crc_fields(1) [OF h'] lh by simp
  have w1: "blk_rw True (int ?hoff) h' ?n d = Some (0, h', dev_wr d ?hoff h')"
    using blk_rw_write_ok [of d "int ?hoff" ?n h'] assms(1) fit lh' by simp
  have "off + length es \<le> dev_size (dev_wr d ?hoff h')"
    using assms(2,4) les dev.wr_extent [of ?hoff h' d] fit lh' by (auto elim!: gpt_layoutE)
  then have w2: "blk_rw True (int off) es (length es) (dev_wr d ?hoff h')
      = Some (0, es, dev_wr (dev_wr d ?hoff h') off es)"
    using blk_rw_write_ok [of "dev_wr d ?hoff h'" "int off" "length es" es] assms(1) by simp
  show ?thesis
    using ch chain_entries_code [OF ch] assms(1)
    by (auto simp: write_secondary_table_def chain_entries_def Let_def rd f lba w1 w2
        split: if_splits)
qed

lemma gpt2_set_boot_chain_runs:
  assumes "dev_sched d = []" "gpt_layout d"
    and sum: "GET_4_BYTES (hdr_block PRIMARY_GPT d) PARTITION_CRC_OFFSET
      = Some (crc (entries PRIMARY_GPT d))"
    and st: "hdr_state crc (hdr_block SECONDARY_GPT d) = Some st"
    and ch: "chain_entries is_ufs boot (entries PRIMARY_GPT d) (pentry_size_of d) = Some (rc, es)"
  shows "\<exists>d'. gpt2_set_boot_chain crc is_ufs boot d = Some (rc, d') \<and> dev_sched d' = []"
proof -
  let ?n = "unat (dev_blksz d)" and ?h = "hdr_block PRIMARY_GPT d"
  obtain o1 o2 n where L: "dev_ok d" "entries_at PRIMARY_GPT d = Some (o1, n)"
    "entries_at SECONDARY_GPT d = Some (o2, n)" "2 * ?n \<le> o1"
    "o1 + n \<le> o2" "o2 + n + ?n \<le> dev_size d"
    using assms(2) by (rule gpt_layoutE)
  have lh: "length ?h = ?n" using length_hdr_block [OF L(1)] .
  have long: "92 \<le> ?n"
    using sum lh by (auto simp: PARTITION_CRC_OFFSET_def GET_4_BYTES_def split: if_splits)
  obtain lba sz cnt where f: "GET_8_BYTES ?h PENTRIES_OFFSET = Some lba"
    "GET_4_BYTES ?h PENTRY_SIZE_OFFSET = Some sz"
    "GET_4_BYTES ?h PARTITION_COUNT_OFFSET = Some cnt"
    and loc: "sint (lba * ucast (dev_blksz d)) = int o1" "unat (cnt * sz) = n"
    using L(2) by (auto simp: entries_at_def table_offset_def table_length_def split: if_splits)
  define buf where "buf = map (dev_junk d) [0..<?n]"
  have rd: "blk_rw False (uint (dev_blksz d)) buf ?n d = Some (0, ?h, d)"
    using blk_rw_read_ok [of d "uint (dev_blksz d)" ?n buf] assms(1)
      hdr_off_in [OF L(1), of PRIMARY_GPT]
    by (simp add: hdr_block_def hdr_off.simps buf_def)
  have rd2: "blk_rw False (int o1) (replicate n 0) n d = Some (0, entries PRIMARY_GPT d, d)"
    using blk_rw_read_ok [of d "int o1" n "replicate n 0"] assms(1) L
    by (simp add: entries_def)
  have "length (entries PRIMARY_GPT d) = n"
    using L dev.rd_length [of o1 n d] by (simp add: entries_def)
  then have "\<exists>d'. write_secondary_table crc is_ufs boot (dev_blksz d)
      (int (hdr_off SECONDARY_GPT d)) ?h (entries PRIMARY_GPT d) sz d = Some (rc, d')
      \<and> dev_sched d' = []"
    using write_secondary_table_runs [OF assms(1,2) lh _ st long] L(3) ch f(2)
    by (simp add: pentry_size_of_def)
  then show ?thesis
    using header_offset_of_ok [OF assms(1) L(1), of SECONDARY_GPT] rd rd2 sum
    by (simp add: gpt2_set_boot_chain_def calls_ok assms(1) f loc Let_def flip: buf_def)
qed

lemma read_header_ok:
  assumes "dev_sched d = []" "dev_ok d"
  shows "read_header g d =
    Some (Some (dev_blksz d, int (hdr_off g d), hdr_block g d), d)"
  using blk_rw_read_ok [of d "int (hdr_off g d)" "unat (dev_blksz d)"
      "map (dev_junk d) [0..<unat (dev_blksz d)]"] assms hdr_off_in [OF assms(2), of g]
  by (simp add: read_header_def calls_ok header_offset_of_ok hdr_block_def)

lemma gpt_get_state_ok:
  assumes "dev_sched d = []" "dev_ok d" "hdr_state crc (hdr_block g d) = Some st"
  shows "gpt_get_state crc g d = Some (0, st, d)"
  using gpt_get_state_read [OF read_header_ok [OF assms(1,2)]] assms(3) by simp

lemma gpt_set_state_ok:
  assumes "dev_sched d = []" "dev_ok d" "set_hdr crc st (hdr_block g d) = Some h"
    and "st \<noteq> GPT_BAD_CRC"
  shows "gpt_set_state crc g st d = Some (0, dev_wr d (hdr_off g d) h)"
proof -
  have "length h = unat (dev_blksz d)"
    using set_hdr_fields(1) [OF assms(3)] length_hdr_block [OF assms(2)] by simp
  then have "blk_rw True (int (hdr_off g d)) h (unat (dev_blksz d)) d
      = Some (0, h, dev_wr d (hdr_off g d) h)"
    using blk_rw_write_ok [of d "int (hdr_off g d)" _ h] assms(1) hdr_off_in [OF assms(2), of g]
    by simp
  then show ?thesis
    using assms(3,4) by (auto simp: gpt_set_state_def set_hdr_def read_header_ok [OF assms(1,2)])
qed

end
