(* ===== verification/Gpt_Update.thy ===== *)
theory Gpt_Update
  imports Gpt_Chain
begin

text \<open>
  The staged update of gpt-utils.cpp: \<open>prepare_partitions\<close> brings the two GPT
  copies of one disk to an update stage, \<open>prepare_boot_update\<close> finds the disks
  (LUNs) with boot critical partitions and prepares each, and
  \<open>gpt_utils_set_xbl_boot_partition\<close> switches the UFS boot LUN.

  The system around the code is a record: the property \<open>ro.boot.bootdevice\<close>, which
  paths exist, where links point, what directories list, the block devices by
  path, and the boot LUN attribute writes that were accepted. \<open>sys_sched\<close> says
  which allocations, opens and ioctls of the LUN switch fail, as \<open>dev_sched\<close> does
  for a device.
\<close>

datatype boot_update_stage = UPDATE_MAIN | UPDATE_BACKUP | UPDATE_FINALIZE

fun stage_num :: "boot_update_stage \<Rightarrow> int" where
  "stage_num UPDATE_MAIN = 1"
| "stage_num UPDATE_BACKUP = 2"
| "stage_num UPDATE_FINALIZE = 3"

record system =
  sys_bootdevice :: "string option"
  sys_exists :: "string \<Rightarrow> bool"
  sys_link :: "string \<Rightarrow> string option"
  sys_dir :: "string \<Rightarrow> string list option"
  sys_devs :: "string \<Rightarrow> blkdev option"
  sys_boot_luns :: "(string \<times> byte) list"
  sys_sched :: "bool list"

definition call_fails :: "system \<Rightarrow> bool \<times> system" where
  "call_fails w = (case sys_sched w of [] \<Rightarrow> (False, w) | x # xs \<Rightarrow> (x, w\<lparr>sys_sched := xs\<rparr>))"

section \<open>Constants\<close>

definition BLK_DEV_FILE :: string where "BLK_DEV_FILE = ''/dev/block/mmcblk0''"
definition XBL_PRIMARY :: string where
  "XBL_PRIMARY = ''/dev/block/platform/soc/1d84000.ufshc/by-name/xbl''"
definition XBL_BACKUP :: string where
  "XBL_BACKUP = ''/dev/block/platform/soc/1d84000.ufshc/by-name/xblbak''"
definition XBL_AB_PRIMARY :: string where
  "XBL_AB_PRIMARY = ''/dev/block/platform/soc/1d84000.ufshc/by-name/xbl_a''"
definition XBL_AB_SECONDARY :: string where
  "XBL_AB_SECONDARY = ''/dev/block/platform/soc/1d84000.ufshc/by-name/xbl_b''"
definition BOOT_DEV_DIR :: string where "BOOT_DEV_DIR = ''/dev/block/bootdevice/by-name''"
definition MAX_LUNS :: nat where "MAX_LUNS = 26"
definition PATH_TRUNCATE_LOC :: nat where "PATH_TRUNCATE_LOC = length ''/dev/block/sda''"
definition LUN_NAME_START_LOC :: nat where "LUN_NAME_START_LOC = length ''/dev/block/''"
definition BOOT_LUN_A_ID :: byte where "BOOT_LUN_A_ID = 1"
definition BOOT_LUN_B_ID :: byte where "BOOT_LUN_B_ID = 2"
definition PATH_MAX :: nat where "PATH_MAX = 4096"

lemma LOC_values: "PATH_TRUNCATE_LOC = 14" "LUN_NAME_START_LOC = 11"
  by (simp_all add: PATH_TRUNCATE_LOC_def LUN_NAME_START_LOC_def)

section \<open>The UFS boot LUN\<close>

text \<open>\<open>readlink\<close> into a zeroed buffer of \<open>PATH_MAX\<close> bytes, less the last.\<close>

definition c_readlink :: "system \<Rightarrow> string \<Rightarrow> string option" where
  "c_readlink w path = map_option (take (PATH_MAX - 1)) (sys_link w path)"

definition gpt_utils_is_ufs_device :: "system \<Rightarrow> bool" where
  "gpt_utils_is_ufs_device w =
     (let bootdevice = (case sys_bootdevice w of None \<Rightarrow> ''N/A'' | Some p \<Rightarrow> p) in
      if length bootdevice < length ''.ufshc'' + 1 then False
      else drop (length bootdevice - length ''.ufshc'') bootdevice = ''.ufshc'')"

text \<open>The first directory entry that is a scsi generic node.\<close>

fun find_sg :: "string list \<Rightarrow> string option" where
  "find_sg [] = None"
| "find_sg (de # des) =
     (if take 1 de = ''.'' then find_sg des
      else if take 2 de = ''sg'' then Some de
      else find_sg des)"

definition get_scsi_node_from_bootdevice :: "system \<Rightarrow> string \<Rightarrow> string option" where
  "get_scsi_node_from_bootdevice w bootdev_path =
     (case c_readlink w bootdev_path of
        None \<Rightarrow> None
      | Some real_path \<Rightarrow>
          if length real_path < PATH_TRUNCATE_LOC + 1 then None
          else let real_path = take PATH_TRUNCATE_LOC real_path in
          if length real_path < LUN_NAME_START_LOC + 1 then None
          else
            (case sys_dir w (''/sys/block/'' @ drop LUN_NAME_START_LOC real_path
                @ ''/device/scsi_generic'') of
               None \<Rightarrow> None
             | Some des \<Rightarrow>
                 (case find_sg des of
                    None \<Rightarrow> None
                  | Some de \<Rightarrow> Some (take (PATH_MAX - 2) (''/dev/'' @ de)))))"

definition set_boot_lun :: "string \<Rightarrow> byte \<Rightarrow> system \<Rightarrow> int \<times> system" where
  "set_boot_lun sg_dev boot_lun_id w =
     (case call_fails w of (no_memory, w) \<Rightarrow>
      if no_memory then (-1, w)
      else (case call_fails w of (no_open, w) \<Rightarrow>
        if no_open then (-1, w)
        else (case call_fails w of (no_ioctl, w) \<Rightarrow>
          if no_ioctl then (-1, w)
          else (0, w\<lparr>sys_boot_luns := sys_boot_luns w @ [(sg_dev, boot_lun_id)]\<rparr>))))"

definition xbl_boot_dev :: "boot_chain \<Rightarrow> system \<Rightarrow> (byte \<times> string) option" where
  "xbl_boot_dev chain w =
     (case chain of
        BACKUP_BOOT \<Rightarrow>
          (if sys_exists w XBL_BACKUP then Some (BOOT_LUN_B_ID, XBL_BACKUP)
           else if sys_exists w XBL_AB_SECONDARY then Some (BOOT_LUN_B_ID, XBL_AB_SECONDARY)
           else None)
      | NORMAL_BOOT \<Rightarrow>
          (if sys_exists w XBL_PRIMARY then Some (BOOT_LUN_A_ID, XBL_PRIMARY)
           else if sys_exists w XBL_AB_PRIMARY then Some (BOOT_LUN_A_ID, XBL_AB_PRIMARY)
           else None))"

definition gpt_utils_set_xbl_boot_partition :: "boot_chain \<Rightarrow> system \<Rightarrow> int \<times> system" where
  "gpt_utils_set_xbl_boot_partition chain w =
     (case xbl_boot_dev chain w of
        None \<Rightarrow> (-1, w)
      | Some (boot_lun_id, boot_dev) \<Rightarrow>
          if (\<not> sys_exists w XBL_PRIMARY \<or> \<not> sys_exists w XBL_BACKUP)
              \<and> (\<not> sys_exists w XBL_AB_PRIMARY \<or> \<not> sys_exists w XBL_AB_SECONDARY)
          then (-1, w)
          else (case get_scsi_node_from_bootdevice w boot_dev of
              None \<Rightarrow> (-1, w)
            | Some sg_dev_node \<Rightarrow>
                (case set_boot_lun sg_dev_node boot_lun_id w of (r, w) \<Rightarrow>
                 if r \<noteq> 0 then (-1, w) else (0, w))))"

section \<open>prepare_partitions\<close>

text \<open>
  The update stage the two headers' states stand for; no stage when a CRC is
  wrong or both signatures are bad.
\<close>

definition internal_stage :: "gpt_state \<Rightarrow> gpt_state \<Rightarrow> boot_update_stage option" where
  "internal_stage gpt_prim gpt_second =
     (if gpt_prim = GPT_BAD_CRC \<or> gpt_second = GPT_BAD_CRC then None
      else if gpt_prim = GPT_BAD_SIGNATURE \<and> gpt_second = GPT_BAD_SIGNATURE then None
      else if gpt_prim = GPT_OK \<and> gpt_second = GPT_OK then Some UPDATE_MAIN
      else if gpt_prim = GPT_BAD_SIGNATURE then Some UPDATE_BACKUP
      else if gpt_second = GPT_BAD_SIGNATURE then Some UPDATE_FINALIZE
      else None)"

text \<open>The boot LUN is switched only where xbl has its own partitions.\<close>

definition switch_xbl :: "boot_chain \<Rightarrow> bool \<Rightarrow> system \<Rightarrow> int \<times> system" where
  "switch_xbl chain is_ufs w =
     (if is_ufs then
        (if \<not> sys_exists w XBL_PRIMARY \<or> \<not> sys_exists w XBL_BACKUP then (0, w)
         else gpt_utils_set_xbl_boot_partition chain w)
      else (0, w))"

text \<open>The cases of the \<open>switch\<close> that change the GPT, after the LUN switch.\<close>

fun stage_disk ::
  "crc_fun \<Rightarrow> bool \<Rightarrow> boot_update_stage \<Rightarrow> blkdev \<Rightarrow> (int \<times> blkdev) option" where
  "stage_disk crc is_ufs UPDATE_MAIN d = do {
     (r, d) \<leftarrow> gpt2_set_boot_chain crc is_ufs BACKUP_BOOT d;
     if r \<noteq> 0 then Some (if r < 0 then r else 0, d)
     else gpt_set_state crc PRIMARY_GPT GPT_BAD_SIGNATURE d
   }"
| "stage_disk crc is_ufs UPDATE_BACKUP d = do {
     (r, d) \<leftarrow> gpt_set_state crc PRIMARY_GPT GPT_OK d;
     if r \<noteq> 0 then Some (r, d)
     else gpt_set_state crc SECONDARY_GPT GPT_BAD_SIGNATURE d
   }"
| "stage_disk crc is_ufs UPDATE_FINALIZE d = do {
     (r, d) \<leftarrow> gpt2_set_boot_chain crc is_ufs NORMAL_BOOT d;
     if r < 0 then Some (r, d)
     else gpt_set_state crc SECONDARY_GPT GPT_OK d
   }"

definition stage_switch ::
  "crc_fun \<Rightarrow> bool \<Rightarrow> boot_update_stage \<Rightarrow> blkdev \<Rightarrow> system \<Rightarrow> (int \<times> blkdev \<times> system) option" where
  "stage_switch crc is_ufs stage d w =
     (case (case stage of
              UPDATE_MAIN \<Rightarrow> switch_xbl BACKUP_BOOT is_ufs w
            | UPDATE_BACKUP \<Rightarrow> switch_xbl NORMAL_BOOT is_ufs w
            | UPDATE_FINALIZE \<Rightarrow> (0, w)) of (r, w) \<Rightarrow>
      if r \<noteq> 0 then Some (r, d, w)
      else map_option (\<lambda>(r, d). (r, d, w)) (stage_disk crc is_ufs stage d))"

text \<open>From the open descriptor to the label \<open>EXIT\<close>.\<close>

definition prepare_fd ::
  "crc_fun \<Rightarrow> bool \<Rightarrow> boot_update_stage \<Rightarrow> blkdev \<Rightarrow> system \<Rightarrow> (int \<times> blkdev \<times> system) option" where
  "prepare_fd crc is_ufs stage d w = do {
     (r, gpt_prim, d) \<leftarrow> gpt_get_state crc PRIMARY_GPT d;
     if r \<noteq> 0 then Some (1, d, w)
     else do {
       (r, gpt_second, d) \<leftarrow> gpt_get_state crc SECONDARY_GPT d;
       if r \<noteq> 0 then Some (1, d, w)
       else
         (case internal_stage gpt_prim gpt_second of
            None \<Rightarrow> Some (-1, d, w)
          | Some internal \<Rightarrow>
              if stage_num stage = stage_num internal - 1 then Some (0, d, w)
              else if stage \<noteq> internal then Some (-1, d, w)
              else stage_switch crc is_ufs stage d w)
     }
   }"

definition prepare_partitions ::
  "crc_fun \<Rightarrow> boot_update_stage \<Rightarrow> string \<Rightarrow> system \<Rightarrow> (int \<times> system) option" where
  "prepare_partitions crc stage dev_path w =
     (case sys_devs w dev_path of
        None \<Rightarrow> Some (-1, w)
      | Some d \<Rightarrow> do {
          (r, d, w) \<leftarrow> prepare_fd crc (gpt_utils_is_ufs_device w) stage d w;
          let d = snd (sys_fsync d);
          Some (r, w\<lparr>sys_devs := (sys_devs w)(dev_path \<mapsto> d)\<rparr>)
        })"

section \<open>prepare_boot_update\<close>

record update_data =
  lun_list :: "string list"
  num_valid_entries :: nat

definition no_update_data :: update_data where
  "no_update_data = \<lparr>lun_list = replicate MAX_LUNS '''', num_valid_entries = 0\<rparr>"

text \<open>
  The comparison of a path with the entries before the last slot: the loop does
  not run at all once \<open>MAX_LUNS - 1\<close> entries are valid. Beyond \<open>MAX_LUNS\<close> the
  copy is out of bounds.
\<close>

definition already_listed :: "string \<Rightarrow> update_data \<Rightarrow> bool" where
  "already_listed lun_path dat \<longleftrightarrow> num_valid_entries dat < MAX_LUNS - 1 \<and>
     (\<exists>l \<in> set (take (num_valid_entries dat) (lun_list dat)). take (length l) lun_path = l)"

definition add_lun_to_update_list ::
  "system \<Rightarrow> string \<Rightarrow> update_data \<Rightarrow> (int \<times> update_data) option" where
  "add_lun_to_update_list w lun_path dat =
     (if \<not> sys_exists w lun_path then Some (-1, dat)
      else if num_valid_entries dat = 0 then
        Some (0, \<lparr>lun_list = (lun_list dat)[0 := take (PATH_MAX - 1) lun_path],
                  num_valid_entries = 1\<rparr>)
      else if already_listed lun_path dat then Some (0, dat)
      else if length (lun_list dat) \<le> num_valid_entries dat then None
      else Some (0, \<lparr>lun_list =
              (lun_list dat)[num_valid_entries dat := take (PATH_MAX - 1) lun_path],
            num_valid_entries = num_valid_entries dat + 1\<rparr>))"

fun collect_luns :: "system \<Rightarrow> string list \<Rightarrow> update_data \<Rightarrow> update_data option" where
  "collect_luns w [] dat = Some dat"
| "collect_luns w (n # ns) dat =
     (if is_xbl n then collect_luns w ns dat
      else let buf = BOOT_DEV_DIR @ ''/'' @ n @ ''bak'' in
      if \<not> sys_exists w buf then collect_luns w ns dat
      else (case c_readlink w buf of
          None \<Rightarrow> collect_luns w ns dat
        | Some real_path \<Rightarrow>
            if length real_path < PATH_TRUNCATE_LOC + 1 then collect_luns w ns dat
            else do {
              (r, dat) \<leftarrow> add_lun_to_update_list w (take PATH_TRUNCATE_LOC real_path) dat;
              collect_luns w ns dat
            }))"

text \<open>A LUN that fails does not keep the others from being prepared.\<close>

fun prepare_luns ::
  "crc_fun \<Rightarrow> boot_update_stage \<Rightarrow> string list \<Rightarrow> bool \<Rightarrow> system \<Rightarrow> (bool \<times> system) option" where
  "prepare_luns crc stage [] is_error w = Some (is_error, w)"
| "prepare_luns crc stage (l # ls) is_error w = do {
     (rcode, w) \<leftarrow> prepare_partitions crc stage l w;
     prepare_luns crc stage ls (is_error \<or> rcode \<noteq> 0) w
   }"

definition prepare_boot_update ::
  "crc_fun \<Rightarrow> boot_update_stage \<Rightarrow> system \<Rightarrow> (int \<times> system) option" where
  "prepare_boot_update crc stage w =
     (if \<not> gpt_utils_is_ufs_device w then prepare_partitions crc stage BLK_DEV_FILE w
      else do {
        data \<leftarrow> collect_luns w PTN_SWAP_LIST no_update_data;
        (is_error, w) \<leftarrow> prepare_luns crc stage
          (take (num_valid_entries data) (lun_list data)) False w;
        Some (if is_error then -1 else 0, w)
      })"

end
