(* ===== verification/Gpt_Failsafe.thy ===== *)
theory Gpt_Failsafe
  imports Gpt_Update
begin

text \<open>
  What the staged update promises of a disk. \<open>update_inv\<close>: the primary array has
  the CRC its header says and some table can be booted from; every operation
  keeps it, whatever calls fail. \<open>update_phase\<close> is the state of the update as
  the code reads it off the two headers; with no failing call the three stages
  move it round a cycle that restores the primary header bit for bit.
\<close>

section \<open>The invariant\<close>

definition array_ok :: "crc_fun \<Rightarrow> gpt_instance \<Rightarrow> blkdev \<Rightarrow> bool" where
  "array_ok crc g d \<longleftrightarrow>
     GET_4_BYTES (hdr_block g d) PARTITION_CRC_OFFSET = Some (crc (entries g d))"

definition update_inv :: "crc_fun \<Rightarrow> blkdev \<Rightarrow> bool" where
  "update_inv crc d \<longleftrightarrow> gpt_layout d \<and> no_short d \<and> array_ok crc PRIMARY_GPT d
     \<and> (table_ok crc PRIMARY_GPT d \<or> table_ok crc SECONDARY_GPT d)"

lemma table_ok_array: "table_ok crc g d \<longleftrightarrow> hdr_state crc (hdr_block g d) = Some GPT_OK \<and> array_ok crc g d"
  by (simp add: table_ok_def array_ok_def)

lemma array_ok_cong:
  "hdr_block g d' = hdr_block g d \<Longrightarrow> entries g d' = entries g d \<Longrightarrow> array_ok crc g d' = array_ok crc g d"
  "hdr_block g d' = hdr_block g d \<Longrightarrow> entries g d' = entries g d \<Longrightarrow> table_ok crc g d' = table_ok crc g d"
  by (simp_all add: array_ok_def table_ok_def)

lemma update_inv_same: "update_inv crc d \<Longrightarrow> same_disk d d' \<Longrightarrow> update_inv crc d'"
  using no_short_same [of d d']
  by (simp add: update_inv_def array_ok_def same_disk_entries same_disk_hdr)

lemma layout_ok: "gpt_layout d \<Longrightarrow> dev_ok d"
  by (simp add: gpt_layout_def)

text \<open>Setting a header's state, seen from the two tables.\<close>

lemma gpt_set_state_tables:
  assumes "gpt_set_state crc g st d = Some (r, d')" "gpt_layout d" "no_short d"
  shows "(r \<noteq> 0 \<and> same_disk d d') \<or>
      (gpt_layout d' \<and> no_short d' \<and> (\<forall>g'. entries g' d' = entries g' d)
        \<and> (\<forall>g'. g' \<noteq> g \<longrightarrow> hdr_block g' d' = hdr_block g' d)
        \<and> set_hdr crc st (hdr_block g d) = Some (hdr_block g d')
        \<and> hdr_state crc (hdr_block g d') = Some st
        \<and> array_ok crc g d' = array_ok crc g d)"
proof -
  consider "r \<noteq> 0 \<and> same_disk d d'"
    | h where "set_hdr crc st (hdr_block g d) = Some h" "st \<noteq> GPT_BAD_CRC"
      "wrote_disk (hdr_off g d) h d d'"
    using gpt_set_state_effect(1) [OF assms(1) layout_ok [OF assms(2)] assms(3)] by blast
  then show ?thesis
  proof cases
    case 2
    note f = set_hdr_fields [OF 2(1)]
    note w = header_written [OF assms(2) 2(3) f(1,2)]
    have "array_ok crc g d' = array_ok crc g d"
      using w(3) [of g] w(4) [of g] f(3) by (simp add: array_ok_def)
    then show ?thesis
      using w 2 set_hdr_state(1) [OF 2(1,2)] no_short_wrote [OF assms(3) 2(3)] by simp
  qed blast
qed

text \<open>Rewriting the secondary table leaves the primary table as it was.\<close>

lemma gpt2_set_boot_chain_primary:
  assumes "gpt2_set_boot_chain crc is_ufs boot d = Some (r, d')" "gpt_layout d" "no_short d"
  shows "gpt_layout d'" "no_short d'" "hdr_block PRIMARY_GPT d' = hdr_block PRIMARY_GPT d"
    "entries PRIMARY_GPT d' = entries PRIMARY_GPT d"
  using gpt2_set_boot_chain_effect [OF assms] assms(2,3)
  by (auto simp: chain_done_def same_disk_entries same_disk_hdr intro: no_short_same)

text \<open>A secondary table that was rewritten keeps its signature and has its CRCs.\<close>

lemma chain_done_secondary:
  assumes "chain_done crc es 0 d d'" "hdr_state crc (hdr_block SECONDARY_GPT d) = Some st"
    "st \<noteq> GPT_BAD_CRC"
  shows "hdr_state crc (hdr_block SECONDARY_GPT d') = Some st"
    "array_ok crc SECONDARY_GPT d'" "entries SECONDARY_GPT d' = es"
proof -
  have c: "set_table_crc crc es (hdr_block SECONDARY_GPT d) = Some (hdr_block SECONDARY_GPT d')"
    "entries SECONDARY_GPT d' = es"
    using assms(1) by (simp_all add: chain_done_def)
  note t = set_table_crc_state [OF c(1)]
  have "region (hdr_block SECONDARY_GPT d) 0 9 = GPT_SIGNATURE \<longleftrightarrow> st = GPT_OK"
    using assms(2,3) by (auto simp: hdr_state_def memcmp_eq_def take_region split: if_splits)
  then show "hdr_state crc (hdr_block SECONDARY_GPT d') = Some st"
    using t(1) assms(3) by (cases st) simp_all
  show "array_ok crc SECONDARY_GPT d'" using t(3) c(2) by (simp add: array_ok_def)
  show "entries SECONDARY_GPT d' = es" using c(2) .
qed

section \<open>Every stage keeps it, whatever fails\<close>

definition hdr_states :: "crc_fun \<Rightarrow> blkdev \<Rightarrow> (gpt_state \<times> gpt_state) option" where
  "hdr_states crc d = do {
     p \<leftarrow> hdr_state crc (hdr_block PRIMARY_GPT d);
     s \<leftarrow> hdr_state crc (hdr_block SECONDARY_GPT d);
     Some (p, s)
   }"

definition update_phase :: "crc_fun \<Rightarrow> blkdev \<Rightarrow> boot_update_stage option" where
  "update_phase crc d = do { (p, s) \<leftarrow> hdr_states crc d; internal_stage p s }"

lemma internal_stage_iff:
  "internal_stage p s = Some UPDATE_MAIN \<longleftrightarrow> p = GPT_OK \<and> s = GPT_OK"
  "internal_stage p s = Some UPDATE_BACKUP \<longleftrightarrow> p = GPT_BAD_SIGNATURE \<and> s = GPT_OK"
  "internal_stage p s = Some UPDATE_FINALIZE \<longleftrightarrow> p = GPT_OK \<and> s = GPT_BAD_SIGNATURE"
  by (cases p; cases s; simp add: internal_stage_def)+

lemma update_phase_iff:
  "update_phase crc d = Some UPDATE_MAIN \<longleftrightarrow> hdr_states crc d = Some (GPT_OK, GPT_OK)"
  "update_phase crc d = Some UPDATE_BACKUP \<longleftrightarrow> hdr_states crc d = Some (GPT_BAD_SIGNATURE, GPT_OK)"
  "update_phase crc d = Some UPDATE_FINALIZE \<longleftrightarrow> hdr_states crc d = Some (GPT_OK, GPT_BAD_SIGNATURE)"
  by (cases "hdr_states crc d"; auto simp: update_phase_def internal_stage_iff)+

lemma hdr_states_iff:
  "hdr_states crc d = Some (p, s) \<longleftrightarrow> hdr_state crc (hdr_block PRIMARY_GPT d) = Some p
     \<and> hdr_state crc (hdr_block SECONDARY_GPT d) = Some s"
  by (auto simp: hdr_states_def)

lemma same_disk_phase: "same_disk d d' \<Longrightarrow> update_phase crc d' = update_phase crc d"
  by (simp add: update_phase_def hdr_states_def same_disk_hdr)

lemma stage_disk_main_inv:
  assumes "stage_disk crc is_ufs UPDATE_MAIN d = Some (r, d')" "update_inv crc d"
    "update_phase crc d = Some UPDATE_MAIN"
  shows "update_inv crc d'"
proof -
  obtain r1 d1 where 1: "gpt2_set_boot_chain crc is_ufs BACKUP_BOOT d = Some (r1, d1)"
    and rest: "if r1 \<noteq> 0 then d' = d1
      else gpt_set_state crc PRIMARY_GPT GPT_BAD_SIGNATURE d1 = Some (r, d')"
    using assms(1) by (auto split: if_splits)
  have st: "hdr_state crc (hdr_block PRIMARY_GPT d) = Some GPT_OK"
    "hdr_state crc (hdr_block SECONDARY_GPT d) = Some GPT_OK"
    using assms(3) by (simp_all add: update_phase_iff hdr_states_iff)
  have inv: "gpt_layout d" "no_short d" "array_ok crc PRIMARY_GPT d"
    using assms(2) by (simp_all add: update_inv_def)
  note prim = gpt2_set_boot_chain_primary [OF 1 inv(1,2)]
  have arr1: "array_ok crc PRIMARY_GPT d1" using inv(3) array_ok_cong(1) [OF prim(3,4)] by simp
  then have inv1: "update_inv crc d1"
    using prim(1-3) st(1) by (simp add: update_inv_def table_ok_array)
  show ?thesis
  proof (cases "r1 = 0")
    case False
    then show ?thesis using rest inv1 by simp
  next
    case True
    then obtain es where "chain_done crc es 0 d d1"
      using gpt2_set_boot_chain_effect [OF 1 inv(1,2)] by blast
    then have sec: "table_ok crc SECONDARY_GPT d1"
      using chain_done_secondary [OF _ st(2)] by (simp add: table_ok_array)
    have "gpt_set_state crc PRIMARY_GPT GPT_BAD_SIGNATURE d1 = Some (r, d')"
      using rest True by simp
    from gpt_set_state_tables [OF this prim(1,2)] show ?thesis
    proof
      assume "r \<noteq> 0 \<and> same_disk d1 d'"
      then show ?thesis using update_inv_same [OF inv1] by blast
    next
      assume w: "gpt_layout d' \<and> no_short d' \<and> (\<forall>g'. entries g' d' = entries g' d1)
        \<and> (\<forall>g'. g' \<noteq> PRIMARY_GPT \<longrightarrow> hdr_block g' d' = hdr_block g' d1)
        \<and> set_hdr crc GPT_BAD_SIGNATURE (hdr_block PRIMARY_GPT d1) = Some (hdr_block PRIMARY_GPT d')
        \<and> hdr_state crc (hdr_block PRIMARY_GPT d') = Some GPT_BAD_SIGNATURE
        \<and> array_ok crc PRIMARY_GPT d' = array_ok crc PRIMARY_GPT d1"
      then have "table_ok crc SECONDARY_GPT d'"
        using sec array_ok_cong(2) [of SECONDARY_GPT d' d1] by simp
      then show ?thesis using w arr1 by (simp add: update_inv_def)
    qed
  qed
qed

lemma stage_disk_backup_inv:
  assumes "stage_disk crc is_ufs UPDATE_BACKUP d = Some (r, d')" "update_inv crc d"
  shows "update_inv crc d'"
proof -
  obtain r1 d1 where 1: "gpt_set_state crc PRIMARY_GPT GPT_OK d = Some (r1, d1)"
    and rest: "if r1 \<noteq> 0 then d' = d1
      else gpt_set_state crc SECONDARY_GPT GPT_BAD_SIGNATURE d1 = Some (r, d')"
    using assms(1) by (auto split: if_splits)
  have inv: "gpt_layout d" "no_short d" "array_ok crc PRIMARY_GPT d"
    using assms(2) by (simp_all add: update_inv_def)
  show ?thesis
  proof (cases "r1 \<noteq> 0 \<and> same_disk d d1")
    case True
    then show ?thesis using rest update_inv_same [OF assms(2)] by simp
  next
    case False
    then have 2: "gpt_layout d1" "no_short d1" "table_ok crc PRIMARY_GPT d1"
      using gpt_set_state_tables [OF 1 inv(1,2)] inv(3) by (auto simp: table_ok_array)
    then have inv1: "update_inv crc d1" by (simp add: update_inv_def table_ok_array)
    show ?thesis
    proof (cases "r1 = 0")
      case True
      then have s: "gpt_set_state crc SECONDARY_GPT GPT_BAD_SIGNATURE d1 = Some (r, d')"
        using rest by simp
      show ?thesis
      proof (cases "r \<noteq> 0 \<and> same_disk d1 d'")
        case True
        then show ?thesis using update_inv_same [OF inv1] by blast
      next
        case False
        then have w: "gpt_layout d'" "no_short d'" "entries PRIMARY_GPT d' = entries PRIMARY_GPT d1"
          "hdr_block PRIMARY_GPT d' = hdr_block PRIMARY_GPT d1"
          using gpt_set_state_tables [OF s 2(1,2)] by auto
        then show ?thesis
          using 2(3) array_ok_cong [of PRIMARY_GPT d' d1]
          by (simp add: update_inv_def table_ok_array)
      qed
    qed (use rest inv1 in simp)
  qed
qed

lemma stage_disk_finalize_inv:
  assumes "stage_disk crc is_ufs UPDATE_FINALIZE d = Some (r, d')" "update_inv crc d"
    "update_phase crc d = Some UPDATE_FINALIZE"
  shows "update_inv crc d'"
proof -
  obtain r1 d1 where 1: "gpt2_set_boot_chain crc is_ufs NORMAL_BOOT d = Some (r1, d1)"
    and rest: "if r1 < 0 then d' = d1
      else gpt_set_state crc SECONDARY_GPT GPT_OK d1 = Some (r, d')"
    using assms(1) by (auto split: if_splits)
  have inv: "gpt_layout d" "no_short d" "array_ok crc PRIMARY_GPT d"
    using assms(2) by (simp_all add: update_inv_def)
  note prim = gpt2_set_boot_chain_primary [OF 1 inv(1,2)]
  have t1: "table_ok crc PRIMARY_GPT d1"
    using assms(3) inv(3) array_ok_cong(1) [OF prim(3,4)] prim(3)
    by (simp add: update_phase_iff hdr_states_iff table_ok_array)
  then have inv1: "update_inv crc d1" using prim(1,2) by (simp add: update_inv_def table_ok_array)
  show ?thesis
  proof (cases "r1 < 0")
    case False
    then have s: "gpt_set_state crc SECONDARY_GPT GPT_OK d1 = Some (r, d')" using rest by simp
    show ?thesis
    proof (cases "r \<noteq> 0 \<and> same_disk d1 d'")
      case True
      then show ?thesis using update_inv_same [OF inv1] by blast
    next
      case False
      then have w: "gpt_layout d'" "no_short d'" "entries PRIMARY_GPT d' = entries PRIMARY_GPT d1"
        "hdr_block PRIMARY_GPT d' = hdr_block PRIMARY_GPT d1"
        using gpt_set_state_tables [OF s prim(1,2)] by auto
      then show ?thesis
        using t1 array_ok_cong [of PRIMARY_GPT d' d1] by (simp add: update_inv_def table_ok_array)
    qed
  qed (use rest inv1 in simp)
qed

lemma stage_disk_inv:
  assumes "stage_disk crc is_ufs stage d = Some (r, d')" "update_inv crc d"
    "update_phase crc d = Some stage"
  shows "update_inv crc d'"
  using assms stage_disk_main_inv stage_disk_backup_inv stage_disk_finalize_inv
  by (cases stage) blast+

text \<open>The checks before a stage leave the disk alone and find its phase.\<close>

lemma prepare_fd_cases:
  assumes "prepare_fd crc is_ufs stage d w = Some (r, d', w')" "gpt_layout d" "no_short d"
  obtains "same_disk d d'" "w' = w"
  | d1 where "same_disk d d1" "update_phase crc d = Some stage"
      "stage_switch crc is_ufs stage d1 w = Some (r, d', w')"
proof -
  obtain r1 p d1 where 1: "gpt_get_state crc PRIMARY_GPT d = Some (r1, p, d1)"
    using assms(1) by (auto simp: prepare_fd_def)
  note g1 = gpt_get_state_effect [OF 1 layout_ok [OF assms(2)] assms(3)]
  show ?thesis
  proof (cases "r1 = 0")
    case False
    then show ?thesis using assms(1) 1 g1 that(1) by (simp add: prepare_fd_def)
  next
    case r1: True
    obtain r2 s d2 where 2: "gpt_get_state crc SECONDARY_GPT d1 = Some (r2, s, d2)"
      using assms(1) 1 r1 by (auto simp: prepare_fd_def)
    have "dev_ok d1" "no_short d1"
      using g1(1) assms(2,3) by (auto simp: same_disk_hdr layout_ok intro: no_short_same)
    note g2 = gpt_get_state_effect [OF 2 this]
    have s2: "same_disk d d2" using g1(1) g2(1) by (rule same_disk_trans)
    show ?thesis
    proof (cases "r2 = 0 \<and> internal_stage p s = Some stage")
      case False
      then have "d' = d2 \<and> w' = w"
        using assms(1) 1 2 r1
        by (auto simp: prepare_fd_def split: if_splits option.splits)
      then show ?thesis using s2 that(1) by blast
    next
      case True
      then have "update_phase crc d = Some stage"
        using g1(2) g2(2) r1 same_disk_hdr(2) [OF g1(1)]
        by (simp add: update_phase_def hdr_states_def)
      moreover have "stage_switch crc is_ufs stage d2 w = Some (r, d', w')"
        using assms(1) 1 2 r1 True by (cases stage) (auto simp: prepare_fd_def)
      ultimately show ?thesis using s2 that(2) by blast
    qed
  qed
qed

lemma stage_switch_disk:
  assumes "stage_switch crc is_ufs stage d w = Some (r, d', w')"
  obtains "d' = d" "r \<noteq> 0" | "stage_disk crc is_ufs stage d = Some (r, d')"
  using assms by (auto simp: stage_switch_def split: prod.splits if_splits)

lemma prepare_fd_inv:
  assumes "prepare_fd crc is_ufs stage d w = Some (r, d', w')" "update_inv crc d"
  shows "update_inv crc d'"
proof -
  have "gpt_layout d" "no_short d" using assms(2) by (simp_all add: update_inv_def)
  with assms(1) show ?thesis
  proof (cases rule: prepare_fd_cases)
    case 1
    then show ?thesis using update_inv_same [OF assms(2)] by blast
  next
    case (2 d1)
    have inv1: "update_inv crc d1" using update_inv_same [OF assms(2) 2(1)] .
    have ph: "update_phase crc d1 = Some stage" using 2(1,2) by (simp add: same_disk_phase)
    from 2(3) show ?thesis
      by (cases rule: stage_switch_disk) (use inv1 ph stage_disk_inv in blast)+
  qed
qed

lemma switch_sys_devs:
  "set_boot_lun sg l w = (r, w') \<Longrightarrow> sys_devs w' = sys_devs w"
  "gpt_utils_set_xbl_boot_partition chain w = (r, w') \<Longrightarrow> sys_devs w' = sys_devs w"
  "switch_xbl chain is_ufs w = (r, w') \<Longrightarrow> sys_devs w' = sys_devs w"
proof -
  have c: "call_fails w = (b, w') \<Longrightarrow> sys_devs w' = sys_devs w" for b w w'
    by (auto simp: call_fails_def split: list.splits)
  show s: "set_boot_lun sg l w = (r, w') \<Longrightarrow> sys_devs w' = sys_devs w" for sg l w r w'
    by (auto simp: set_boot_lun_def split: prod.splits if_splits dest!: c)
  show g: "gpt_utils_set_xbl_boot_partition chain w = (r, w') \<Longrightarrow> sys_devs w' = sys_devs w"
    for chain w r w'
    by (auto simp: gpt_utils_set_xbl_boot_partition_def split: option.splits prod.splits if_splits
        dest!: s)
  show "switch_xbl chain is_ufs w = (r, w') \<Longrightarrow> sys_devs w' = sys_devs w"
    by (auto simp: switch_xbl_def split: if_splits dest!: g)
qed

lemma prepare_fd_sys_devs:
  assumes "prepare_fd crc is_ufs stage d w = Some (r, d', w')"
  shows "sys_devs w' = sys_devs w"
proof -
  have "stage_switch crc is_ufs stage d w = Some (r, d', w') \<Longrightarrow> sys_devs w' = sys_devs w" for d
    by (cases stage) (auto simp: stage_switch_def split: prod.splits if_splits
        dest!: switch_sys_devs(3))
  then show ?thesis
    using assms
    by (auto simp: prepare_fd_def split: if_splits option.splits)
qed

text \<open>One disk among others, under its path.\<close>

lemma prepare_partitions_dev:
  assumes "prepare_partitions crc stage path w = Some (r, w')" "sys_devs w p = Some d"
    "update_inv crc d"
  shows "\<exists>d'. sys_devs w' p = Some d' \<and> update_inv crc d' \<and> (p \<noteq> path \<longrightarrow> d' = d)"
proof (cases "sys_devs w path")
  case None
  then show ?thesis using assms by (simp add: prepare_partitions_def)
next
  case (Some e)
  then obtain e1 w1 where 1: "prepare_fd crc (gpt_utils_is_ufs_device w) stage e w = Some (r, e1, w1)"
    and w': "w' = w1\<lparr>sys_devs := (sys_devs w1)(path \<mapsto> snd (sys_fsync e1))\<rparr>"
    using assms(1) by (auto simp: prepare_partitions_def Let_def)
  have devs: "sys_devs w1 = sys_devs w" using prepare_fd_sys_devs [OF 1] .
  have "same_disk e1 (snd (sys_fsync e1))"
    using calls_same(6) [of e1 "fst (sys_fsync e1)" "snd (sys_fsync e1)"] by simp
  then have "update_inv crc e \<Longrightarrow> update_inv crc (snd (sys_fsync e1))"
    using prepare_fd_inv [OF 1] update_inv_same by blast
  then show ?thesis using w' devs assms(2,3) Some by (cases "p = path") auto
qed

lemma prepare_luns_dev:
  assumes "prepare_luns crc stage ls err w = Some (err', w')" "sys_devs w p = Some d"
    "update_inv crc d"
  shows "\<exists>d'. sys_devs w' p = Some d' \<and> update_inv crc d' \<and> (p \<notin> set ls \<longrightarrow> d' = d)"
  using assms
proof (induction ls arbitrary: err w d)
  case (Cons l ls)
  then obtain r w1 where 1: "prepare_partitions crc stage l w = Some (r, w1)"
    and 2: "prepare_luns crc stage ls (err \<or> r \<noteq> 0) w1 = Some (err', w')"
    by auto
  obtain d1 where "sys_devs w1 p = Some d1" "update_inv crc d1" "p \<noteq> l \<longrightarrow> d1 = d"
    using prepare_partitions_dev [OF 1 Cons.prems(2,3)] by blast
  then show ?case using Cons.IH [OF 2] by force
qed simp

section \<open>The cycle of the stages, when no call fails\<close>

lemma chain_runs_done:
  assumes "dev_sched d = []" "update_inv crc d"
    and st: "hdr_state crc (hdr_block SECONDARY_GPT d) = Some st" "st \<noteq> GPT_BAD_CRC"
    and ch: "chain_entries is_ufs boot (entries PRIMARY_GPT d) (pentry_size_of d) = Some (0, es)"
  obtains d' where "gpt2_set_boot_chain crc is_ufs boot d = Some (0, d')" "dev_sched d' = []"
    "gpt_layout d'" "no_short d'" "hdr_block PRIMARY_GPT d' = hdr_block PRIMARY_GPT d"
    "entries PRIMARY_GPT d' = entries PRIMARY_GPT d" "entries SECONDARY_GPT d' = es"
    "hdr_state crc (hdr_block SECONDARY_GPT d') = Some st" "array_ok crc SECONDARY_GPT d'"
proof -
  have inv: "gpt_layout d" "no_short d"
    "GET_4_BYTES (hdr_block PRIMARY_GPT d) PARTITION_CRC_OFFSET = Some (crc (entries PRIMARY_GPT d))"
    using assms(2) by (simp_all add: update_inv_def array_ok_def)
  obtain d' where d': "gpt2_set_boot_chain crc is_ufs boot d = Some (0, d')" "dev_sched d' = []"
    using gpt2_set_boot_chain_runs [OF assms(1) inv(1,3) st(1) ch] by blast
  then have "chain_done crc es 0 d d'"
    using gpt2_set_boot_chain_effect [OF d'(1) inv(1,2)] ch by auto
  note sec = chain_done_secondary [OF this st]
  note prim = gpt2_set_boot_chain_primary [OF d'(1) inv(1,2)]
  show ?thesis using d' prim(1-4) sec(3,1,2) by (rule that)
qed

lemma set_state_runs:
  assumes "dev_sched d = []" "gpt_layout d" "no_short d"
    and "hdr_state crc (hdr_block g d) = Some st0" "st \<noteq> GPT_BAD_CRC"
  obtains d' where "gpt_set_state crc g st d = Some (0, d')" "dev_sched d' = []"
    "gpt_layout d'" "no_short d'" "\<And>g'. entries g' d' = entries g' d"
    "\<And>g'. g' \<noteq> g \<Longrightarrow> hdr_block g' d' = hdr_block g' d"
    "set_hdr crc st (hdr_block g d) = Some (hdr_block g d')"
    "hdr_state crc (hdr_block g d') = Some st" "array_ok crc g d' = array_ok crc g d"
proof -
  obtain h where "set_hdr crc st (hdr_block g d) = Some h"
    using set_hdr_total [OF assms(4)] by blast
  then have run: "gpt_set_state crc g st d = Some (0, dev_wr d (hdr_off g d) h)"
    using gpt_set_state_ok [OF assms(1) layout_ok [OF assms(2)]] assms(5) by blast
  show ?thesis
    by (rule that [OF run]) (use gpt_set_state_tables [OF run assms(2,3)] assms(1) in auto)
qed

lemma stage_main_ok:
  assumes "dev_sched d = []" "update_inv crc d" "update_phase crc d = Some UPDATE_MAIN"
    and "chain_entries is_ufs BACKUP_BOOT (entries PRIMARY_GPT d) (pentry_size_of d) = Some (0, es)"
  obtains d' where "stage_disk crc is_ufs UPDATE_MAIN d = Some (0, d')" "dev_sched d' = []"
    "update_inv crc d'" "update_phase crc d' = Some UPDATE_BACKUP"
    "entries PRIMARY_GPT d' = entries PRIMARY_GPT d" "entries SECONDARY_GPT d' = es"
    "set_hdr crc GPT_BAD_SIGNATURE (hdr_block PRIMARY_GPT d) = Some (hdr_block PRIMARY_GPT d')"
proof -
  have st: "hdr_state crc (hdr_block PRIMARY_GPT d) = Some GPT_OK"
    "hdr_state crc (hdr_block SECONDARY_GPT d) = Some GPT_OK"
    using assms(3) by (simp_all add: update_phase_iff hdr_states_iff)
  obtain d1 where 1: "gpt2_set_boot_chain crc is_ufs BACKUP_BOOT d = Some (0, d1)"
    "dev_sched d1 = []" "gpt_layout d1" "no_short d1"
    "hdr_block PRIMARY_GPT d1 = hdr_block PRIMARY_GPT d"
    "entries PRIMARY_GPT d1 = entries PRIMARY_GPT d" "entries SECONDARY_GPT d1 = es"
    "hdr_state crc (hdr_block SECONDARY_GPT d1) = Some GPT_OK" "array_ok crc SECONDARY_GPT d1"
    by (rule chain_runs_done [OF assms(1,2) st(2) _ assms(4)]) auto
  obtain d2 where 2: "gpt_set_state crc PRIMARY_GPT GPT_BAD_SIGNATURE d1 = Some (0, d2)"
    "dev_sched d2 = []" "gpt_layout d2" "no_short d2" "\<And>g'. entries g' d2 = entries g' d1"
    "\<And>g'. g' \<noteq> PRIMARY_GPT \<Longrightarrow> hdr_block g' d2 = hdr_block g' d1"
    "set_hdr crc GPT_BAD_SIGNATURE (hdr_block PRIMARY_GPT d1) = Some (hdr_block PRIMARY_GPT d2)"
    "hdr_state crc (hdr_block PRIMARY_GPT d2) = Some GPT_BAD_SIGNATURE"
    by (rule set_state_runs [OF 1(2-4), of crc PRIMARY_GPT GPT_OK GPT_BAD_SIGNATURE])
      (use 1(5) st(1) in auto)
  have run: "stage_disk crc is_ufs UPDATE_MAIN d = Some (0, d2)" using 1(1) 2(1) by simp
  show ?thesis
  proof (rule that [OF run 2(2)])
    show "update_inv crc d2" by (rule stage_disk_inv [OF run assms(2,3)])
    show "update_phase crc d2 = Some UPDATE_BACKUP"
      using 2(6,8) 1(8) by (simp add: update_phase_iff hdr_states_iff)
  qed (use 1 2 in auto)
qed

text \<open>No partition has a backup: the disk is unchanged and that is no error.\<close>

lemma stage_main_no_backup:
  assumes "dev_sched d = []" "update_inv crc d" "update_phase crc d = Some UPDATE_MAIN"
    and ch: "chain_entries is_ufs BACKUP_BOOT (entries PRIMARY_GPT d) (pentry_size_of d) = Some (1, es)"
  obtains d' where "stage_disk crc is_ufs UPDATE_MAIN d = Some (0, d')" "same_disk d d'"
proof -
  have st: "hdr_state crc (hdr_block SECONDARY_GPT d) = Some GPT_OK"
    using assms(3) by (simp add: update_phase_iff hdr_states_iff)
  have inv: "gpt_layout d" "no_short d"
    "GET_4_BYTES (hdr_block PRIMARY_GPT d) PARTITION_CRC_OFFSET = Some (crc (entries PRIMARY_GPT d))"
    using assms(2) by (simp_all add: update_inv_def array_ok_def)
  obtain d1 where d1: "gpt2_set_boot_chain crc is_ufs BACKUP_BOOT d = Some (1, d1)"
    using gpt2_set_boot_chain_runs [OF assms(1) inv(1,3) st ch] by blast
  show ?thesis
  proof (rule that)
    show "stage_disk crc is_ufs UPDATE_MAIN d = Some (0, d1)" using d1 by simp
    show "same_disk d d1" using gpt2_set_boot_chain_effect [OF d1 inv(1,2)] ch by auto
  qed
qed

lemma stage_backup_ok:
  assumes "dev_sched d = []" "update_inv crc d" "update_phase crc d = Some UPDATE_BACKUP"
  obtains d' where "stage_disk crc is_ufs UPDATE_BACKUP d = Some (0, d')" "dev_sched d' = []"
    "update_inv crc d'" "update_phase crc d' = Some UPDATE_FINALIZE"
    "entries PRIMARY_GPT d' = entries PRIMARY_GPT d"
    "entries SECONDARY_GPT d' = entries SECONDARY_GPT d"
    "set_hdr crc GPT_OK (hdr_block PRIMARY_GPT d) = Some (hdr_block PRIMARY_GPT d')"
proof -
  have st: "hdr_state crc (hdr_block PRIMARY_GPT d) = Some GPT_BAD_SIGNATURE"
    "hdr_state crc (hdr_block SECONDARY_GPT d) = Some GPT_OK"
    using assms(3) by (simp_all add: update_phase_iff hdr_states_iff)
  have inv: "gpt_layout d" "no_short d" using assms(2) by (simp_all add: update_inv_def)
  obtain d1 where 1: "gpt_set_state crc PRIMARY_GPT GPT_OK d = Some (0, d1)"
    "dev_sched d1 = []" "gpt_layout d1" "no_short d1" "\<And>g'. entries g' d1 = entries g' d"
    "\<And>g'. g' \<noteq> PRIMARY_GPT \<Longrightarrow> hdr_block g' d1 = hdr_block g' d"
    "set_hdr crc GPT_OK (hdr_block PRIMARY_GPT d) = Some (hdr_block PRIMARY_GPT d1)"
    "hdr_state crc (hdr_block PRIMARY_GPT d1) = Some GPT_OK"
    by (rule set_state_runs [OF assms(1) inv st(1), of GPT_OK]) auto
  obtain d2 where 2: "gpt_set_state crc SECONDARY_GPT GPT_BAD_SIGNATURE d1 = Some (0, d2)"
    "dev_sched d2 = []" "\<And>g'. entries g' d2 = entries g' d1"
    "\<And>g'. g' \<noteq> SECONDARY_GPT \<Longrightarrow> hdr_block g' d2 = hdr_block g' d1"
    "hdr_state crc (hdr_block SECONDARY_GPT d2) = Some GPT_BAD_SIGNATURE"
    by (rule set_state_runs [OF 1(2-4), of crc SECONDARY_GPT GPT_OK GPT_BAD_SIGNATURE])
      (use 1(6) st(2) in auto)
  have run: "stage_disk crc is_ufs UPDATE_BACKUP d = Some (0, d2)" using 1(1) 2(1) by simp
  show ?thesis
  proof (rule that [OF run 2(2)])
    show "update_inv crc d2" by (rule stage_disk_inv [OF run assms(2,3)])
    show "update_phase crc d2 = Some UPDATE_FINALIZE"
      using 2(4,5) 1(8) by (simp add: update_phase_iff hdr_states_iff)
  qed (use 1 2 in auto)
qed

lemma stage_finalize_ok:
  assumes "dev_sched d = []" "update_inv crc d" "update_phase crc d = Some UPDATE_FINALIZE"
  obtains d' where "stage_disk crc is_ufs UPDATE_FINALIZE d = Some (0, d')" "dev_sched d' = []"
    "update_inv crc d'" "update_phase crc d' = Some UPDATE_MAIN" "table_ok crc SECONDARY_GPT d'"
    "entries PRIMARY_GPT d' = entries PRIMARY_GPT d"
    "entries SECONDARY_GPT d' = entries PRIMARY_GPT d"
    "hdr_block PRIMARY_GPT d' = hdr_block PRIMARY_GPT d"
proof -
  have st: "hdr_state crc (hdr_block PRIMARY_GPT d) = Some GPT_OK"
    "hdr_state crc (hdr_block SECONDARY_GPT d) = Some GPT_BAD_SIGNATURE"
    using assms(3) by (simp_all add: update_phase_iff hdr_states_iff)
  obtain d1 where 1: "gpt2_set_boot_chain crc is_ufs NORMAL_BOOT d = Some (0, d1)"
    "dev_sched d1 = []" "gpt_layout d1" "no_short d1"
    "hdr_block PRIMARY_GPT d1 = hdr_block PRIMARY_GPT d"
    "entries PRIMARY_GPT d1 = entries PRIMARY_GPT d"
    "entries SECONDARY_GPT d1 = entries PRIMARY_GPT d"
    "hdr_state crc (hdr_block SECONDARY_GPT d1) = Some GPT_BAD_SIGNATURE"
    "array_ok crc SECONDARY_GPT d1"
    by (rule chain_runs_done [OF assms(1,2) st(2)]) (auto simp: chain_entries_def)
  obtain d2 where 2: "gpt_set_state crc SECONDARY_GPT GPT_OK d1 = Some (0, d2)"
    "dev_sched d2 = []" "\<And>g'. entries g' d2 = entries g' d1"
    "\<And>g'. g' \<noteq> SECONDARY_GPT \<Longrightarrow> hdr_block g' d2 = hdr_block g' d1"
    "hdr_state crc (hdr_block SECONDARY_GPT d2) = Some GPT_OK"
    "array_ok crc SECONDARY_GPT d2 = array_ok crc SECONDARY_GPT d1"
    by (rule set_state_runs [OF 1(2-4,8), of GPT_OK]) auto
  have run: "stage_disk crc is_ufs UPDATE_FINALIZE d = Some (0, d2)" using 1(1) 2(1) by simp
  show ?thesis
  proof (rule that [OF run 2(2)])
    show "update_inv crc d2" by (rule stage_disk_inv [OF run assms(2,3)])
    show "update_phase crc d2 = Some UPDATE_MAIN"
      using 2(4,5) 1(5) st(1) by (simp add: update_phase_iff hdr_states_iff)
    show "table_ok crc SECONDARY_GPT d2" using 2(5,6) 1(9) by (simp add: table_ok_array)
  qed (use 1 2 in auto)
qed

section \<open>The stages of one disk of the system\<close>

definition with_dev :: "system \<Rightarrow> string \<Rightarrow> blkdev \<Rightarrow> system" where
  "with_dev w path d = w\<lparr>sys_devs := (sys_devs w)(path \<mapsto> d)\<rparr>"

lemma with_dev_simps [simp]:
  "sys_devs (with_dev w path d) path = Some d" "sys_exists (with_dev w path d) = sys_exists w"
  "with_dev (with_dev w path d) path d' = with_dev w path d'"
  "gpt_utils_is_ufs_device (with_dev w path d) = gpt_utils_is_ufs_device w"
  "sys_devs w path = Some d \<Longrightarrow> with_dev w path d = w"
  by (simp_all add: with_dev_def gpt_utils_is_ufs_device_def fun_upd_idem)

text \<open>With no failing call the stage asked for is compared with the disk's phase.\<close>

lemma prepare_fd_ok:
  assumes "dev_sched d = []" "dev_ok d" "update_phase crc d = Some i"
  shows "prepare_fd crc is_ufs stage d w =
    (if stage_num stage = stage_num i - 1 then Some (0, d, w)
     else if stage \<noteq> i then Some (-1, d, w)
     else stage_switch crc is_ufs stage d w)"
proof -
  from assms(3) obtain p s where "hdr_state crc (hdr_block PRIMARY_GPT d) = Some p"
    "hdr_state crc (hdr_block SECONDARY_GPT d) = Some s" "internal_stage p s = Some i"
    by (auto simp: update_phase_def hdr_states_def)
  then show ?thesis using assms(1,2) by (simp add: prepare_fd_def gpt_get_state_ok)
qed

lemma stage_switch_no_xbl:
  "\<not> sys_exists w XBL_PRIMARY \<Longrightarrow>
    stage_switch crc is_ufs stage d w = map_option (\<lambda>(r, d). (r, d, w)) (stage_disk crc is_ufs stage d)"
  by (cases stage) (simp_all add: stage_switch_def switch_xbl_def)

lemma sys_fsync_ok: "dev_sched d = [] \<Longrightarrow> snd (sys_fsync d) = d"
  by (simp add: calls_ok)

lemma prepare_partitions_ok:
  assumes "sys_devs w path = Some d" "dev_sched d = []" "dev_ok d"
    "update_phase crc d = Some stage" "\<not> sys_exists w XBL_PRIMARY"
    "stage_disk crc (gpt_utils_is_ufs_device w) stage d = Some (r, d')" "dev_sched d' = []"
  shows "prepare_partitions crc stage path w = Some (r, with_dev w path d')"
  using assms
  by (simp add: prepare_partitions_def prepare_fd_ok stage_switch_no_xbl calls_ok with_dev_def)

text \<open>
  C3: for every schedule of failing calls without short transfers, every stage
  of prepare_boot_update leaves each disk with a table that can be booted from
  (signature, header CRC and array CRC correct), an intact primary array and
  two tables that do not overlap, if the disk was so before.
\<close>

theorem boot_update_failsafe:
  assumes "prepare_boot_update crc stage w = Some (r, w')" "sys_devs w p = Some d"
    and "update_inv crc d"
  shows "\<exists>d'. sys_devs w' p = Some d' \<and> update_inv crc d'"
proof (cases "gpt_utils_is_ufs_device w")
  case True
  then obtain ls err where "prepare_luns crc stage ls False w = Some (err, w')"
    using assms(1) by (auto simp: prepare_boot_update_def)
  then show ?thesis using prepare_luns_dev assms(2,3) by blast
next
  case False
  then show ?thesis
    using assms prepare_partitions_dev by (fastforce simp: prepare_boot_update_def)
qed

text \<open>
  C2: with no failing call and no xbl partition (so that no stage switches the
  boot LUN), the stages UPDATE_MAIN, UPDATE_BACKUP and UPDATE_FINALIZE called in
  turn on a disk with two good tables and backup partitions all return 0 and move its headers through the states the code
  expects; after the first the secondary table has the exchanged entries, and
  at the end both tables are good, the primary one is as it was before the
  update, header and entries bit for bit, and the secondary entries equal it.
\<close>

theorem boot_update_cycle:
  assumes "sys_devs w path = Some d" "dev_sched d = []" "update_inv crc d"
    and "update_phase crc d = Some UPDATE_MAIN" "\<not> sys_exists w XBL_PRIMARY"
    and "chain_entries (gpt_utils_is_ufs_device w) BACKUP_BOOT (entries PRIMARY_GPT d)
      (pentry_size_of d) = Some (0, es)"
  shows "\<exists>d1 d2 d3.
    prepare_partitions crc UPDATE_MAIN path w = Some (0, with_dev w path d1)
    \<and> update_phase crc d1 = Some UPDATE_BACKUP \<and> entries SECONDARY_GPT d1 = es
    \<and> prepare_partitions crc UPDATE_BACKUP path (with_dev w path d1) = Some (0, with_dev w path d2)
    \<and> update_phase crc d2 = Some UPDATE_FINALIZE
    \<and> prepare_partitions crc UPDATE_FINALIZE path (with_dev w path d2) = Some (0, with_dev w path d3)
    \<and> table_ok crc PRIMARY_GPT d3 \<and> table_ok crc SECONDARY_GPT d3
    \<and> hdr_block PRIMARY_GPT d3 = hdr_block PRIMARY_GPT d
    \<and> entries PRIMARY_GPT d3 = entries PRIMARY_GPT d
    \<and> entries SECONDARY_GPT d3 = entries PRIMARY_GPT d"
proof -
  let ?u = "gpt_utils_is_ufs_device w"
  obtain d1 where 1: "stage_disk crc ?u UPDATE_MAIN d = Some (0, d1)" "dev_sched d1 = []"
    "update_inv crc d1" "update_phase crc d1 = Some UPDATE_BACKUP"
    "entries PRIMARY_GPT d1 = entries PRIMARY_GPT d" "entries SECONDARY_GPT d1 = es"
    "set_hdr crc GPT_BAD_SIGNATURE (hdr_block PRIMARY_GPT d) = Some (hdr_block PRIMARY_GPT d1)"
    using stage_main_ok [OF assms(2-4,6)] by blast
  obtain d2 where 2: "stage_disk crc ?u UPDATE_BACKUP d1 = Some (0, d2)" "dev_sched d2 = []"
    "update_inv crc d2" "update_phase crc d2 = Some UPDATE_FINALIZE"
    "entries PRIMARY_GPT d2 = entries PRIMARY_GPT d1"
    "set_hdr crc GPT_OK (hdr_block PRIMARY_GPT d1) = Some (hdr_block PRIMARY_GPT d2)"
    using stage_backup_ok [OF 1(2-4)] by blast
  obtain d3 where 3: "stage_disk crc ?u UPDATE_FINALIZE d2 = Some (0, d3)" "dev_sched d3 = []"
    "update_inv crc d3" "table_ok crc SECONDARY_GPT d3" "update_phase crc d3 = Some UPDATE_MAIN"
    "entries PRIMARY_GPT d3 = entries PRIMARY_GPT d2"
    "entries SECONDARY_GPT d3 = entries PRIMARY_GPT d2"
    "hdr_block PRIMARY_GPT d3 = hdr_block PRIMARY_GPT d2"
    using stage_finalize_ok [OF 2(2-4)] by blast
  have ok: "dev_ok d" "dev_ok d1" "dev_ok d2"
    using assms(3) 1(3) 2(3) by (simp_all add: update_inv_def layout_ok)
  have "hdr_state crc (hdr_block PRIMARY_GPT d) = Some GPT_OK"
    using assms(4) by (simp add: update_phase_iff hdr_states_iff)
  then have "hdr_block PRIMARY_GPT d3 = hdr_block PRIMARY_GPT d"
    using set_hdr_restore [OF _ 1(7) 2(6)] 3(8) by simp
  moreover have "table_ok crc PRIMARY_GPT d3"
    using 3(3,5) by (simp add: update_inv_def table_ok_array update_phase_iff hdr_states_iff)
  moreover have "prepare_partitions crc UPDATE_MAIN path w = Some (0, with_dev w path d1)"
    using prepare_partitions_ok [OF assms(1,2) ok(1) assms(4,5) 1(1,2)] .
  moreover have "prepare_partitions crc UPDATE_BACKUP path (with_dev w path d1)
      = Some (0, with_dev w path d2)"
    using prepare_partitions_ok [of "with_dev w path d1" path d1, OF _ 1(2) ok(2) 1(4)] assms(5) 2
    by simp
  moreover have "prepare_partitions crc UPDATE_FINALIZE path (with_dev w path d2)
      = Some (0, with_dev w path d3)"
    using prepare_partitions_ok [of "with_dev w path d2" path d2, OF _ 2(2) ok(3) 2(4)] assms(5) 3
    by simp
  ultimately show ?thesis using 1 2 3 by auto
qed

text \<open>
  C7: a stage asked of a disk that is not in its phase changes nothing. If it is
  the stage before the phase it has been set already and the result is 0;
  otherwise it is -1, also for UPDATE_FINALIZE on a disk that is finalized.
\<close>

theorem prepare_partitions_other_phase:
  assumes "sys_devs w path = Some d" "dev_sched d = []" "dev_ok d"
    and "update_phase crc d = Some phase" "stage \<noteq> phase"
  shows "prepare_partitions crc stage path w =
    Some (if (stage, phase) \<in> {(UPDATE_MAIN, UPDATE_BACKUP), (UPDATE_BACKUP, UPDATE_FINALIZE)}
          then 0 else -1, w)"
proof -
  have "stage_num stage = stage_num phase - 1 \<longleftrightarrow>
      (stage, phase) \<in> {(UPDATE_MAIN, UPDATE_BACKUP), (UPDATE_BACKUP, UPDATE_FINALIZE)}"
    by (cases stage; cases phase) auto
  moreover have "w\<lparr>sys_devs := (sys_devs w)(path \<mapsto> d)\<rparr> = w"
    using assms(1) by (simp add: fun_upd_idem)
  ultimately show ?thesis
    using assms by (simp add: prepare_partitions_def prepare_fd_ok calls_ok)
qed

end
