(* ===== verification/Gpt_Tables.thy ===== *)
theory Gpt_Tables
  imports Gpt_Failsafe
begin

text \<open>
  What the operations of gpt-utils.cpp on partition tables promise, one by one:
  transfers to and from the device, the search for an entry, the exchange of the
  boot critical entries with their backups, the state of a header, and the
  secondary table that is made from the primary one.
\<close>

section \<open>Positions of the exchange\<close>

text \<open>
  The position an entry is exchanged with: the other of the first two entries
  with the same boot critical name.
\<close>

definition partner :: "string list \<Rightarrow> byte list list \<Rightarrow> nat \<Rightarrow> nat" where
  "partner ns es k =
     (case filter (\<lambda>n. k \<in> set (take 2 (matches_at (bytes_of n) es))) ns of
        [] \<Rightarrow> k
      | n # _ \<Rightarrow> (case matches_at (bytes_of n) es of i # j # _ \<Rightarrow> if k = i then j else i | _ \<Rightarrow> k))"

lemma matches_at_match:
  "k \<in> set (take 2 (matches_at n es)) \<Longrightarrow> k < length es \<and> entry_matches n (es ! k)"
  by (auto simp: matches_at_def dest!: in_set_takeD)

lemma swap_pair_nth:
  assumes "length es = length es0" "k < length es"
  shows "swap_pair es0 n es ! k = es ! partner [n] es0 k"
proof (cases "matches_at (bytes_of n) es0" rule: remdups_adj.cases)
  case (3 i j ps)
  have m: "i < j" "j < length es0" using matches_at_Cons2 [OF 3] by auto
  consider "k = i" | "k = j" | "k \<noteq> i" "k \<noteq> j" by blast
  then show ?thesis
    using assms 3 m by cases (simp_all add: swap_pair_def partner_def nth_list_update)
qed (use assms in \<open>simp_all add: swap_pair_def partner_def\<close>)

lemma partner_other:
  assumes "set ns \<subseteq> set PTN_SWAP_LIST" "n \<in> set PTN_SWAP_LIST" "n \<notin> set ns"
    and "k \<in> set (take 2 (matches_at (bytes_of n) es))"
  shows "partner ns es k = k"
proof -
  have "k \<notin> set (take 2 (matches_at (bytes_of m) es))" if "m \<in> set ns" for m
    using matches_at_match [OF assms(4)] matches_at_match [of k "bytes_of m" es]
      entry_matches_unique [of m n "es ! k"] assms(1-3) that by auto
  then have "filter (\<lambda>m. k \<in> set (take 2 (matches_at (bytes_of m) es))) ns = []"
    by (simp add: filter_empty_conv)
  then show ?thesis by (simp add: partner_def)
qed

lemma partner_single_in:
  assumes "partner [n] es k \<noteq> k"
  shows "k \<in> set (take 2 (matches_at (bytes_of n) es))"
    "partner [n] es k \<in> set (take 2 (matches_at (bytes_of n) es))"
  using assms by (auto simp: partner_def split: list.splits if_splits)

lemma partner_in:
  assumes "partner ns es k \<noteq> k"
  shows "\<exists>m \<in> set ns. partner ns es k = partner [m] es k"
proof (cases "filter (\<lambda>n. k \<in> set (take 2 (matches_at (bytes_of n) es))) ns")
  case Nil
  then show ?thesis using assms by (simp add: partner_def)
next
  case (Cons m ms)
  then have "m \<in> set ns" "k \<in> set (take 2 (matches_at (bytes_of m) es))"
    by (auto dest: filter_eq_ConsD)
  then show ?thesis using Cons by (intro bexI [of _ m]) (simp_all add: partner_def)
qed

lemma partner_Cons:
  "partner (n # ns) es k =
    (if k \<in> set (take 2 (matches_at (bytes_of n) es)) then partner [n] es k else partner ns es k)"
  by (simp add: partner_def)

lemma fold_swap_pair_nth:
  assumes "set ns \<subseteq> set PTN_SWAP_LIST" "distinct ns" "length es = length es0" "k < length es"
  shows "fold (swap_pair es0) ns es ! k = es ! partner ns es0 k"
  using assms
proof (induction ns arbitrary: es)
  case Nil
  then show ?case by (simp add: partner_def)
next
  case (Cons n ns)
  let ?in = "\<lambda>k. k \<in> set (take 2 (matches_at (bytes_of n) es0))"
  have n: "n \<in> set PTN_SWAP_LIST" "n \<notin> set ns" "set ns \<subseteq> set PTN_SWAP_LIST"
    using Cons.prems by auto
  have IH: "fold (swap_pair es0) (n # ns) es ! k = swap_pair es0 n es ! partner ns es0 k"
    using Cons by simp
  have kk: "partner ns es0 k < length es"
  proof (cases "partner ns es0 k = k")
    case False
    then obtain m where m: "partner ns es0 k = partner [m] es0 k" using partner_in by blast
    then have "partner ns es0 k \<in> set (take 2 (matches_at (bytes_of m) es0))"
      using partner_single_in(2) [of m es0 k] False by simp
    then show ?thesis using matches_at_match Cons.prems(3) by simp
  qed (use Cons.prems in simp)
  show ?case
  proof (cases "?in k")
    case True
    then have "partner ns es0 k = k" using partner_other n by blast
    then show ?thesis
      using True IH swap_pair_nth [OF Cons.prems(3,4), of n] by (subst partner_Cons) simp
  next
    case False
    have "\<not> ?in (partner ns es0 k)"
    proof
      assume "?in (partner ns es0 k)"
      then have p: "partner ns es0 k \<noteq> k" using False by metis
      then obtain m where m: "m \<in> set ns" "partner ns es0 k = partner [m] es0 k"
        using partner_in by blast
      then have "partner ns es0 k \<in> set (take 2 (matches_at (bytes_of m) es0))"
        using p partner_single_in(2) [of m es0 k] by simp
      then have "entry_matches (bytes_of m) (es0 ! partner ns es0 k)"
        using matches_at_match by blast
      moreover have "entry_matches (bytes_of n) (es0 ! partner ns es0 k)"
        using \<open>?in (partner ns es0 k)\<close> matches_at_match by blast
      ultimately have "m = n" using entry_matches_unique n m(1) by blast
      then show False using m(1) n(2) by simp
    qed
    then have "partner [n] es0 (partner ns es0 k) = partner ns es0 k"
      using partner_single_in(1) by blast
    then show ?thesis
      using False IH swap_pair_nth [OF Cons.prems(3) kk, of n] by (subst partner_Cons) simp
  qed
qed

lemma swap_spec_nth:
  assumes "k < length es"
  shows "swap_spec is_ufs es ! k = es ! partner (swap_names is_ufs) es k"
proof -
  have ns: "set (swap_names is_ufs) \<subseteq> set PTN_SWAP_LIST" "distinct (swap_names is_ufs)"
    using distinct_PTN_SWAP_LIST by (auto simp: swap_names_def)
  have "swap_spec is_ufs es = fold (swap_pair es) (swap_names is_ufs) es"
    using fold_swap_one_pair [OF ns(1), of es es] by (simp add: swap_spec_def)
  then show ?thesis using fold_swap_pair_nth [OF ns] assms by simp
qed

text \<open>
  C5: exchanging the boot critical entries of an array: the result is a
  rearrangement of the entries in which each stands where its partner (the entry
  with the name of its backup) stood and the others stay, it reports whether any
  backup exists, and exchanging a second time gives the first array back.
\<close>

theorem boot_chain_swap_correct:
  assumes "entries_ok es"
  shows "\<exists>r es'. gpt_boot_chain_swap is_ufs (concat es) PTN_ENTRY_SIZE = Some (r, concat es')
    \<and> r = (if \<exists>n \<in> set (swap_names is_ufs). has_backup n es then 0 else 1)
    \<and> mset es' = mset es
    \<and> es' = map (\<lambda>k. es ! partner (swap_names is_ufs) es k) [0..<length es]
    \<and> gpt_boot_chain_swap is_ufs (concat es') PTN_ENTRY_SIZE = Some (r, concat es)"
proof -
  let ?es' = "swap_spec is_ufs es"
  have ns: "set (swap_names is_ufs) \<subseteq> set PTN_SWAP_LIST" by (auto simp: swap_names_def)
  have "\<forall>n \<in> set PTN_SWAP_LIST. matches_at (bytes_of n) ?es' = matches_at (bytes_of n) es"
    using fold_swap_one_pair [OF ns, of es es] unfolding swap_spec_def by blast
  then have "n \<in> set (swap_names is_ufs) \<Longrightarrow> has_backup n ?es' = has_backup n es" for n
    using ns by (auto simp: has_backup_def)
  then have "gpt_boot_chain_swap is_ufs (concat ?es') PTN_ENTRY_SIZE =
      Some (if \<exists>n \<in> set (swap_names is_ufs). has_backup n es then 0 else 1, concat es)"
    using gpt_boot_chain_swap_entries [OF entries_ok_swap_spec [OF assms], of is_ufs is_ufs]
    by (simp add: swap_spec_involution)
  moreover have "?es' = map (\<lambda>k. es ! partner (swap_names is_ufs) es k) [0..<length es]"
    by (rule nth_equalityI) (simp_all add: swap_spec_nth)
  ultimately show ?thesis
    using gpt_boot_chain_swap_entries [OF assms, of is_ufs] mset_swap_spec [of is_ufs es] by blast
qed

text \<open>
  Looking an entry up from position \<open>k\<close> on: the pointer returned is that of
  the first entry at or after \<open>k\<close> whose name is the one asked for or the one of
  its backup, and no pointer is returned when there is none. The search always
  ends, inside the array.
\<close>

theorem pentry_seek_first:
  assumes "entries_ok es" "0 \<notin> set ptn" "length ptn \<le> 32"
  shows "\<exists>found. gpt_pentry_seek ptn (concat es) (k * PTN_ENTRY_SIZE) (length (concat es)) PTN_ENTRY_SIZE
      = Some found
    \<and> (case found of
         None \<Rightarrow> \<forall>i. k \<le> i \<and> i < length es \<longrightarrow> \<not> entry_matches ptn (es ! i)
       | Some p \<Rightarrow> \<exists>i. p = i * PTN_ENTRY_SIZE \<and> k \<le> i \<and> i < length es
           \<and> region (concat es) p PTN_ENTRY_SIZE = es ! i \<and> entry_matches ptn (es ! i)
           \<and> (\<forall>j. k \<le> j \<and> j < i \<longrightarrow> \<not> entry_matches ptn (es ! j)))"
proof -
  let ?P = "\<lambda>i. entry_matches ptn (es ! i)"
  have "length ptn + 4 \<le> MAX_GPT_NAME_SIZE div 2" using assms(3) by (simp add: MAX_GPT_NAME_SIZE_def)
  note seek = seek_entries [OF assms(1,2) this, of k]
  show ?thesis
  proof (cases "find ?P [k..<length es]")
    case None
    then have "\<forall>i. k \<le> i \<and> i < length es \<longrightarrow> \<not> ?P i" by (auto simp: find_None_iff)
    then show ?thesis using seek None by simp
  next
    case (Some i)
    then obtain m where "m < length [k..<length es]" "i = [k..<length es] ! m" "?P i"
      "\<forall>j < m. \<not> ?P ([k..<length es] ! j)"
      by (auto simp: find_Some_iff)
    then have m: "k + m < length es" "i = k + m" "?P i" "\<forall>j < m. \<not> ?P (k + j)" by auto
    have "\<not> ?P j" if "k \<le> j" "j < i" for j
      using m(4) [rule_format, of "j - k"] m(2) that by simp
    then show ?thesis
      using seek Some m(1-3) region_concat_entries [OF assms(1), of i] by auto
  qed
qed

section \<open>Transfers\<close>

text \<open>What the schedule has for the \<open>i\<close>th call from now, and the bytes of a transfer it moves.\<close>

definition outcome_at :: "blkdev \<Rightarrow> nat \<Rightarrow> outcome" where
  "outcome_at d i = (if i < length (dev_sched d) then dev_sched d ! i else Succeeds)"

fun moved :: "outcome \<Rightarrow> nat \<Rightarrow> nat" where
  "moved Succeeds n = n" | "moved Fails n = 0" | "moved (Short k) n = min k n"

lemma next_outcome_at: "next_outcome d = (outcome_at d 0, d\<lparr>dev_sched := drop 1 (dev_sched d)\<rparr>)"
  by (cases "dev_sched d") (simp_all add: next_outcome_def outcome_at_def)

lemma outcome_at_next:
  "outcome_at (d\<lparr>dev_sched := drop k (dev_sched d)\<rparr>) i = outcome_at d (k + i)"
  "outcome_at (d\<lparr>dev_bytes := bs, dev_sched := drop k (dev_sched d)\<rparr>) i = outcome_at d (k + i)"
  by (auto simp: outcome_at_def)

lemma transferred_moved: "x \<noteq> Fails \<Longrightarrow> transferred x n = moved x n"
  by (cases x) simp_all

lemma moved_le: "moved x n \<le> n"
  by (cases x) simp_all

lemma take_moved: "take (moved x n) ys = take (moved x (min n (length ys))) ys"
  by (cases x) (auto simp: min_def)

text \<open>
  C8: whatever calls fail or are cut short, \<open>blk_rw\<close> touches exactly the bytes
  from the offset on: the device is the old one with the first \<open>n\<close> bytes of the
  buffer in their place, or the buffer takes the first \<open>n\<close> bytes from there, and
  \<open>n\<close> is what the one \<open>read\<close> or \<open>write\<close> moved. The result is 0 exactly if the
  seek, the transfer and, for a write, the \<open>fsync\<close> after it succeeded (three
  calls, else two), and -1 otherwise: also if only the \<open>fsync\<close> failed and the
  bytes are there, and also 0 if fewer bytes moved than were asked for.
\<close>

theorem blk_rw_outcome:
  "\<exists>r buf' d'. blk_rw rw off buf (length buf) d = Some (r, buf', d')
    \<and> (let B = dev_bytes d; pos = nat off; room = length B - pos;
          sought = (0 \<le> off \<and> pos \<le> length B \<and> outcome_at d 0 \<noteq> Fails);
          n = (if sought then moved (outcome_at d 1) (min (length buf) room) else 0) in
      dev_bytes d' = (if rw then take pos B @ take n buf @ drop (pos + n) B else B)
      \<and> buf' = (if rw then buf else take n (drop pos B) @ drop n buf)
      \<and> r = (if sought \<and> outcome_at d 1 \<noteq> Fails
            \<and> (if rw then (buf = [] \<or> 0 < room) \<and> outcome_at d 2 \<noteq> Fails else True)
          then 0 else -1)
      \<and> (if r = 0 then dev_sched d' = drop (if rw then 3 else 2) (dev_sched d) else True))"
proof -
  let ?d1 = "d\<lparr>dev_sched := drop 1 (dev_sched d)\<rparr>"
  let ?d2 = "d\<lparr>dev_sched := drop 2 (dev_sched d)\<rparr>"
  let ?room = "length (dev_bytes d) - nat off"
  let ?n = "moved (outcome_at d 1) (min (length buf) ?room)"
  have n0: "next_outcome d = (outcome_at d 0, ?d1)" by (rule next_outcome_at)
  have n1: "next_outcome ?d1 = (outcome_at d 1, ?d2)"
    using next_outcome_at [of ?d1] by (simp add: outcome_at_next numeral_2_eq_2)
  show ?thesis
  proof (cases "0 \<le> off \<and> nat off \<le> length (dev_bytes d) \<and> outcome_at d 0 \<noteq> Fails")
    case False
    then have "lseek_SET off d = (-1, ?d1)" by (auto simp: lseek_SET_def n0 dev_size_def)
    then show ?thesis using False by (auto simp: blk_rw_def Let_def)
  next
    case sought: True
    then have lseek: "lseek_SET off d = (off, ?d1)" by (auto simp: lseek_SET_def n0 dev_size_def)
    have le: "?n \<le> ?room" "?n \<le> length buf"
      using moved_le [of "outcome_at d 1" "min (length buf) ?room"] by simp_all
    show ?thesis
    proof (cases rw)
      case False
      have "take (moved (outcome_at d 1) (length buf)) (take (length buf) (drop (nat off) (dev_bytes d)))
          = take ?n (drop (nat off) (dev_bytes d))"
        using take_moved [of "outcome_at d 1" "length buf" "drop (nat off) (dev_bytes d)"]
        by (simp add: min.absorb1 moved_le)
      then have rd: "sys_read (nat off) (length buf) ?d1 = (if outcome_at d 1 = Fails then (-1, [], ?d2)
          else (int ?n, take ?n (drop (nat off) (dev_bytes d)), ?d2))"
        unfolding sys_read_def n1 using le
        by (simp add: Let_def dev_rd_def region_def transferred_moved del: take_take)
      have "blk_rw rw off buf (length buf) d = (if outcome_at d 1 = Fails then Some (-1, buf, ?d2)
          else Some (0, take ?n (drop (nat off) (dev_bytes d)) @ drop ?n buf, ?d2))"
        unfolding blk_rw_def lseek prod.case rd using False sought le by (simp add: overwrite_def)
      moreover have "outcome_at d 1 = Fails \<Longrightarrow> ?n = 0" by simp
      ultimately show ?thesis using False sought by (simp add: Let_def)
    next
      case True
      let ?d3 = "?d2\<lparr>dev_bytes := overwrite (dev_bytes d) (nat off) (take ?n buf)\<rparr>"
      let ?d4 = "?d3\<lparr>dev_sched := drop 3 (dev_sched d)\<rparr>"
      have n2: "next_outcome ?d3 = (outcome_at d 2, ?d4)"
        using next_outcome_at [of ?d3]
        by (simp add: outcome_at_def numeral_2_eq_2 numeral_3_eq_3)
      have "take (moved (outcome_at d 1) ?room) buf = take ?n buf"
        using take_moved [of "outcome_at d 1" ?room buf] by (simp add: min.commute)
      then have w: "sys_write (nat off) (take (length buf) buf) ?d1 =
          (if outcome_at d 1 = Fails \<or> buf \<noteq> [] \<and> ?room = 0 then (-1, ?d2) else (int ?n, ?d3))"
        unfolding sys_write_def n1 using le
        by (auto simp: Let_def transferred_moved dev_wr_def dev_size_def)
      have f: "sys_fsync ?d3 = (if outcome_at d 2 = Fails then -1 else 0, ?d4)"
        unfolding sys_fsync_def n2 by simp
      have c: "(off < 0) = False" "(length buf < length buf) = False" "(int ?n < 0) = False"
        using sought by simp_all
      show ?thesis
      proof (cases "outcome_at d 1 = Fails \<or> buf \<noteq> [] \<and> ?room = 0")
        case fails: True
        then have "?n = 0" by (cases "outcome_at d 1") auto
        moreover have "blk_rw rw off buf (length buf) d = Some (-1, buf, ?d2)"
          unfolding blk_rw_def lseek prod.case w using fails True sought by simp
        ultimately show ?thesis using fails True sought by (auto simp: Let_def)
      next
        case False
        have "blk_rw rw off buf (length buf) d = Some (if outcome_at d 2 = Fails then -1 else 0, buf, ?d4)"
          by (simp only: blk_rw_def lseek prod.case w f c if_False if_True True False)
        then show ?thesis using False True sought le by (simp add: Let_def overwrite_def not_le)
      qed
    qed
  qed
qed

section \<open>States of a header\<close>

text \<open>
  C6: setting the state of a header: the other table and every array stay as
  they are, the header reads back in the state that was set, and corrupting the
  signature of a good header and repairing it gives the very same block.
\<close>

theorem set_state_read_back:
  assumes "gpt_set_state crc g st d = Some (0, d1)" "gpt_layout d" "no_short d"
    and "gpt_get_state crc g d1 = Some (0, st', d2)"
  shows "st' = st \<and> (\<forall>g'. entries g' d2 = entries g' d)
    \<and> (\<forall>g'. g' \<noteq> g \<longrightarrow> hdr_block g' d2 = hdr_block g' d)
    \<and> (hdr_state crc (hdr_block g d) = Some GPT_OK \<and> st = GPT_BAD_SIGNATURE \<longrightarrow>
        (\<forall>d3. gpt_set_state crc g GPT_OK d2 = Some (0, d3) \<longrightarrow> hdr_block g d3 = hdr_block g d))"
proof -
  have 1: "gpt_layout d1" "no_short d1" "\<forall>g'. entries g' d1 = entries g' d"
    "\<forall>g'. g' \<noteq> g \<longrightarrow> hdr_block g' d1 = hdr_block g' d"
    "set_hdr crc st (hdr_block g d) = Some (hdr_block g d1)" "hdr_state crc (hdr_block g d1) = Some st"
    using gpt_set_state_tables [OF assms(1-3)] by auto
  note get = gpt_get_state_effect [OF assms(4) layout_ok [OF 1(1)] 1(2)]
  note e2 = same_disk_entries [OF get(1)] same_disk_hdr(2) [OF get(1)]
  have "st' = st" using get(2) 1(6) by simp
  moreover have "hdr_block g d3 = hdr_block g d"
    if "hdr_state crc (hdr_block g d) = Some GPT_OK" "st = GPT_BAD_SIGNATURE"
      "gpt_set_state crc g GPT_OK d2 = Some (0, d3)" for d3
    using gpt_set_state_tables [OF that(3)] e2 1(1,2,5) no_short_same [OF 1(2) get(1)]
      set_hdr_restore [of crc "hdr_block g d" "hdr_block g d1" "hdr_block g d3"] that(1,2) by simp
  ultimately show ?thesis using 1 e2 by simp
qed

section \<open>Making the secondary table\<close>

text \<open>
  C4: making the secondary table, with any calls failing: the primary table is
  never changed, the secondary header is changed only when the primary array has
  its CRC, and on success the secondary array is the primary one, exchanged for
  the backup chain, under a header with the signature state it had and with both
  CRCs correct.
\<close>

theorem set_boot_chain_correct:
  assumes "gpt2_set_boot_chain crc is_ufs boot d = Some (r, d')" "gpt_layout d" "no_short d"
    and "hdr_state crc (hdr_block SECONDARY_GPT d) = Some st" "st \<noteq> GPT_BAD_CRC"
  shows "hdr_block PRIMARY_GPT d' = hdr_block PRIMARY_GPT d
    \<and> entries PRIMARY_GPT d' = entries PRIMARY_GPT d
    \<and> (hdr_block SECONDARY_GPT d' = hdr_block SECONDARY_GPT d \<or> array_ok crc PRIMARY_GPT d)
    \<and> (r = 0 \<longrightarrow> hdr_state crc (hdr_block SECONDARY_GPT d') = Some st
        \<and> array_ok crc SECONDARY_GPT d'
        \<and> (if boot = BACKUP_BOOT
           then gpt_boot_chain_swap is_ufs (entries PRIMARY_GPT d) (pentry_size_of d)
             = Some (0, entries SECONDARY_GPT d')
           else entries SECONDARY_GPT d' = entries PRIMARY_GPT d))"
proof -
  note prim = gpt2_set_boot_chain_primary [OF assms(1-3)]
  consider "r \<noteq> 0" "same_disk d d'"
    | es where "chain_entries is_ufs boot (entries PRIMARY_GPT d) (pentry_size_of d) = Some (0, es)"
      "array_ok crc PRIMARY_GPT d" "chain_done crc es r d d'"
    using gpt2_set_boot_chain_effect [OF assms(1-3)] by (auto simp: array_ok_def)
  then show ?thesis
  proof cases
    case 1
    then show ?thesis using prim same_disk_hdr(2) by simp
  next
    case (2 es)
    show ?thesis
    proof (cases "r = 0")
      case True
      then show ?thesis
        using 2 prim chain_done_secondary [of crc es d d' st] assms(4,5)
        by (cases boot) (auto simp: chain_entries_def)
    next
      case False
      then show ?thesis using 2(2) prim by simp
    qed
  qed
qed

end
