(* ===== verification/Gpt_Luns.thy ===== *)
theory Gpt_Luns
  imports Gpt_Failsafe
begin

text \<open>
  Which disks \<open>prepare_boot_update\<close> prepares: the list it collects holds each
  LUN of a boot critical backup partition once and stays far below the bound of
  \<open>update_data\<close>; each of them is prepared, whatever happens to the others. The
  UFS boot LUN switch writes one attribute when it reports success.
\<close>

section \<open>The list of LUNs\<close>

definition bak_lun :: "system \<Rightarrow> string \<Rightarrow> string option" where
  "bak_lun w n =
     (let buf = BOOT_DEV_DIR @ ''/'' @ n @ ''bak'' in
      if \<not> sys_exists w buf then None
      else do {
        real_path \<leftarrow> c_readlink w buf;
        if length real_path < PATH_TRUNCATE_LOC + 1
            \<or> \<not> sys_exists w (take PATH_TRUNCATE_LOC real_path) then None
        else Some (take PATH_TRUNCATE_LOC real_path)
      })"

definition valid_luns :: "update_data \<Rightarrow> string list" where
  "valid_luns dat = take (num_valid_entries dat) (lun_list dat)"

definition luns_inv :: "update_data \<Rightarrow> bool" where
  "luns_inv dat \<longleftrightarrow> length (lun_list dat) = MAX_LUNS \<and> num_valid_entries dat \<le> MAX_LUNS
     \<and> distinct (valid_luns dat) \<and> (\<forall>l \<in> set (valid_luns dat). length l = PATH_TRUNCATE_LOC)"

lemma luns_inv_start: "luns_inv no_update_data" "valid_luns no_update_data = []"
  by (simp_all add: luns_inv_def valid_luns_def no_update_data_def)

lemma length_valid_luns: "luns_inv dat \<Longrightarrow> length (valid_luns dat) = num_valid_entries dat"
  by (simp add: luns_inv_def valid_luns_def)

text \<open>Paths of one length: the prefix comparison is equality.\<close>

lemma already_listed_iff:
  assumes "luns_inv dat" "num_valid_entries dat < MAX_LUNS - 1" "length p = PATH_TRUNCATE_LOC"
  shows "already_listed p dat \<longleftrightarrow> p \<in> set (valid_luns dat)"
proof -
  have "take (length l) p = l \<longleftrightarrow> p = l" if "l \<in> set (valid_luns dat)" for l
    using that assms(1,3) by (auto simp: luns_inv_def)
  then show ?thesis using assms(2) unfolding already_listed_def valid_luns_def by metis
qed

lemma valid_luns_update:
  assumes "k < length ls"
  shows "valid_luns \<lparr>lun_list = ls[k := p], num_valid_entries = Suc k\<rparr> = take k ls @ [p]"
  using assms by (simp add: valid_luns_def take_Suc_conv_app_nth)

lemma add_lun:
  assumes "luns_inv dat" "num_valid_entries dat < MAX_LUNS - 1" "length p = PATH_TRUNCATE_LOC"
    and "sys_exists w p"
  obtains dat' where "add_lun_to_update_list w p dat = Some (0, dat')" "luns_inv dat'"
    "valid_luns dat' = (if p \<in> set (valid_luns dat) then valid_luns dat else valid_luns dat @ [p])"
proof (cases "p \<in> set (valid_luns dat)")
  case True
  then have "num_valid_entries dat \<noteq> 0"
    by (cases "num_valid_entries dat = 0") (auto simp: valid_luns_def)
  then show ?thesis
    using that [of dat] True assms already_listed_iff [OF assms(1-3)]
    by (simp add: add_lun_to_update_list_def)
next
  case False
  let ?k = "num_valid_entries dat"
  let ?dat = "\<lparr>lun_list = (lun_list dat)[?k := p], num_valid_entries = Suc ?k\<rparr>"
  have len: "length (lun_list dat) = MAX_LUNS" "?k < MAX_LUNS"
    using assms(1,2) by (simp_all add: luns_inv_def MAX_LUNS_def)
  then have v: "valid_luns ?dat = valid_luns dat @ [p]"
    using valid_luns_update [of ?k "lun_list dat" p] by (simp add: valid_luns_def)
  have "take (PATH_MAX - 1) p = p"
    using assms(3) by (simp add: LOC_values PATH_MAX_def)
  then have "add_lun_to_update_list w p dat = Some (0, ?dat)"
    using len assms(4) False already_listed_iff [OF assms(1-3)]
    by (auto simp: add_lun_to_update_list_def)
  moreover have "luns_inv ?dat"
    using assms(1,3) len False v by (auto simp: luns_inv_def)
  ultimately show ?thesis using that v False by simp
qed

lemma collect_luns_list:
  assumes "luns_inv dat" "num_valid_entries dat + length ns < MAX_LUNS"
  shows "\<exists>dat'. collect_luns w ns dat = Some dat' \<and> luns_inv dat'
    \<and> num_valid_entries dat' \<le> num_valid_entries dat + length (filter (\<lambda>n. \<not> is_xbl n) ns)
    \<and> set (valid_luns dat') = set (valid_luns dat)
      \<union> {p. \<exists>n \<in> set ns. \<not> is_xbl n \<and> bak_lun w n = Some p}"
  using assms
proof (induction ns arbitrary: dat)
  case (Cons n ns)
  let ?new = "\<lambda>ns. {p. \<exists>n \<in> set ns. \<not> is_xbl n \<and> bak_lun w n = Some p}"
  show ?case
  proof (cases "is_xbl n \<or> bak_lun w n = None")
    case True
    have "collect_luns w (n # ns) dat = collect_luns w ns dat"
      using True by (auto simp: bak_lun_def add_lun_to_update_list_def Let_def
          split: if_splits option.splits)
    moreover have "?new (n # ns) = ?new ns" using True by auto
    ultimately show ?thesis
      using Cons.IH [OF Cons.prems(1)] Cons.prems(2) by fastforce
  next
    case False
    then obtain rp where rp: "sys_exists w (BOOT_DEV_DIR @ ''/'' @ n @ ''bak'')"
      "c_readlink w (BOOT_DEV_DIR @ ''/'' @ n @ ''bak'') = Some rp"
      "\<not> length rp < PATH_TRUNCATE_LOC + 1" "sys_exists w (take PATH_TRUNCATE_LOC rp)"
      "bak_lun w n = Some (take PATH_TRUNCATE_LOC rp)" "\<not> is_xbl n"
      by (auto simp: bak_lun_def Let_def split: if_splits)
    let ?p = "take PATH_TRUNCATE_LOC rp"
    have "length ?p = PATH_TRUNCATE_LOC" "num_valid_entries dat < MAX_LUNS - 1"
      using rp(3) Cons.prems(2) by auto
    then obtain dat1 where 1: "add_lun_to_update_list w ?p dat = Some (0, dat1)" "luns_inv dat1"
      "valid_luns dat1 = (if ?p \<in> set (valid_luns dat) then valid_luns dat else valid_luns dat @ [?p])"
      using add_lun [OF Cons.prems(1)] rp(4) by metis
    have n1: "num_valid_entries dat1 \<le> num_valid_entries dat + 1"
      using arg_cong [OF 1(3), of length] length_valid_luns 1(2) Cons.prems(1)
      by (auto split: if_splits)
    have "num_valid_entries dat1 + length ns < MAX_LUNS" using n1 Cons.prems(2) by simp
    then obtain dat' where 2: "collect_luns w ns dat1 = Some dat'" "luns_inv dat'"
      "num_valid_entries dat' \<le> num_valid_entries dat1 + length (filter (\<lambda>n. \<not> is_xbl n) ns)"
      "set (valid_luns dat') = set (valid_luns dat1) \<union> ?new ns"
      using Cons.IH [OF 1(2)] by blast
    have "collect_luns w (n # ns) dat = Some dat'" using rp 1(1) 2(1) by (simp add: Let_def)
    moreover have "num_valid_entries dat' \<le> num_valid_entries dat
        + length (filter (\<lambda>n. \<not> is_xbl n) (n # ns))"
      using 2(3) n1 rp(6) by simp
    moreover have "set (valid_luns dat') = set (valid_luns dat) \<union> ?new (n # ns)"
    proof -
      have "set (valid_luns dat1) = insert ?p (set (valid_luns dat))" using 1(3) by auto
      moreover have "?new (n # ns) = insert ?p (?new ns)" using rp(5,6) by auto
      ultimately show ?thesis using 2(4) by simp
    qed
    ultimately show ?thesis using 2(2) by blast
  qed
qed simp

text \<open>
  C11: collecting the LUNs always returns, within the 26 slots of update_data: at
  most 12 entries, no path twice, and exactly the truncated link targets of the
  boot critical backup partitions that exist, xbl excepted.
\<close>

theorem collect_luns_correct:
  "\<exists>dat. collect_luns w PTN_SWAP_LIST no_update_data = Some dat
    \<and> num_valid_entries dat \<le> 12 \<and> distinct (valid_luns dat)
    \<and> set (valid_luns dat) = {p. \<exists>n \<in> set PTN_SWAP_LIST. \<not> is_xbl n \<and> bak_lun w n = Some p}"
proof -
  have "num_valid_entries no_update_data + length PTN_SWAP_LIST < MAX_LUNS"
    by (simp add: no_update_data_def PTN_SWAP_LIST_def MAX_LUNS_def)
  moreover have "length (filter (\<lambda>n. \<not> is_xbl n) PTN_SWAP_LIST) = 12"
    "num_valid_entries no_update_data = 0"
    by (simp_all add: PTN_SWAP_LIST_def is_xbl_def PTN_XBL_def no_update_data_def)
  ultimately show ?thesis
    using collect_luns_list [OF luns_inv_start(1), of PTN_SWAP_LIST w]
    by (auto simp: luns_inv_start(2) luns_inv_def)
qed

section \<open>The boot LUN switch\<close>

lemma call_fails_luns: "call_fails w = (b, w') \<Longrightarrow> sys_boot_luns w' = sys_boot_luns w"
  by (auto simp: call_fails_def split: list.splits)

lemma set_boot_lun_effect:
  assumes "set_boot_lun sg lun w = (r, w')"
  shows "r = 0 \<and> sys_boot_luns w' = sys_boot_luns w @ [(sg, lun)]
    \<or> r = -1 \<and> sys_boot_luns w' = sys_boot_luns w"
  using assms by (auto simp: set_boot_lun_def split: prod.splits if_splits dest!: call_fails_luns)

text \<open>
  The node of the boot LUN switch, written out: of the device of a partition the
  link names the disk, after \<open>/dev/block/\<close>, in three letters before the number of
  the partition, and the disk's node is the first \<open>sg\<close> entry of its directory
  under \<open>/sys/block\<close>.
\<close>

definition scsi_node_of :: "system \<Rightarrow> string \<Rightarrow> string \<Rightarrow> bool" where
  "scsi_node_of w dev node \<longleftrightarrow> (\<exists>dir disk part others n more_entries.
     sys_link w dev = Some (dir @ disk @ part)
     \<and> length dir = length ''/dev/block/'' \<and> length disk = length ''sda'' \<and> part \<noteq> ''''
     \<and> sys_dir w (''/sys/block/'' @ disk @ ''/device/scsi_generic'')
         = Some (others @ (''sg'' @ n) # more_entries)
     \<and> (\<forall>e \<in> set others. take 2 e \<noteq> ''sg'')
     \<and> node = take 4094 (''/dev/sg'' @ n))"

text \<open>The partitions of the two chains by their paths.\<close>

definition xbl_of_chain :: "boot_chain \<Rightarrow> system \<Rightarrow> string \<Rightarrow> bool" where
  "xbl_of_chain chain w dev \<longleftrightarrow>
     (case chain of
        NORMAL_BOOT \<Rightarrow> dev = ''/dev/block/platform/soc/1d84000.ufshc/by-name/xbl''
          \<or> dev = ''/dev/block/platform/soc/1d84000.ufshc/by-name/xbl_a''
            \<and> \<not> sys_exists w ''/dev/block/platform/soc/1d84000.ufshc/by-name/xbl''
      | BACKUP_BOOT \<Rightarrow> dev = ''/dev/block/platform/soc/1d84000.ufshc/by-name/xblbak''
          \<or> dev = ''/dev/block/platform/soc/1d84000.ufshc/by-name/xbl_b''
            \<and> \<not> sys_exists w ''/dev/block/platform/soc/1d84000.ufshc/by-name/xblbak'')
     \<and> sys_exists w dev"

definition xbl_pair_exists :: "system \<Rightarrow> bool" where
  "xbl_pair_exists w \<longleftrightarrow>
     sys_exists w ''/dev/block/platform/soc/1d84000.ufshc/by-name/xbl''
       \<and> sys_exists w ''/dev/block/platform/soc/1d84000.ufshc/by-name/xblbak''
     \<or> sys_exists w ''/dev/block/platform/soc/1d84000.ufshc/by-name/xbl_a''
       \<and> sys_exists w ''/dev/block/platform/soc/1d84000.ufshc/by-name/xbl_b''"

lemmas xbl_paths = XBL_PRIMARY_def XBL_BACKUP_def XBL_AB_PRIMARY_def XBL_AB_SECONDARY_def

lemma find_sg_first:
  "find_sg des = Some de \<longleftrightarrow>
     (\<exists>others n es. des = others @ de # es \<and> de = ''sg'' @ n \<and> (\<forall>e \<in> set others. take 2 e \<noteq> ''sg''))"
proof (induction des)
  case (Cons x xs)
  have sg: "take 2 x = ''sg'' \<longleftrightarrow> (\<exists>n. x = ''sg'' @ n)"
    by (cases x; cases "tl x") (auto simp: numeral_2_eq_2)
  have dot: "take 1 x = ''.'' \<Longrightarrow> take 2 x \<noteq> ''sg''" by (cases x) (auto simp: numeral_2_eq_2)
  show ?case
  proof (cases "take 2 x = ''sg''")
    case True
    have "(\<exists>others n es. x # xs = others @ de # es \<and> de = ''sg'' @ n
        \<and> (\<forall>e \<in> set others. take 2 e \<noteq> ''sg'')) \<longleftrightarrow> x = de"
      using True sg by (auto simp: Cons_eq_append_conv)
    then show ?thesis using True dot by auto
  next
    case False
    then have "(\<exists>others n es. x # xs = others @ de # es \<and> de = ''sg'' @ n
        \<and> (\<forall>e \<in> set others. take 2 e \<noteq> ''sg''))
      \<longleftrightarrow> (\<exists>others n es. xs = others @ de # es \<and> de = ''sg'' @ n
        \<and> (\<forall>e \<in> set others. take 2 e \<noteq> ''sg''))"
      using sg by (fastforce simp: Cons_eq_append_conv)
    then show ?thesis using False Cons.IH by auto
  qed
qed simp

lemma get_scsi_node_iff: "get_scsi_node_from_bootdevice w dev = Some node \<longleftrightarrow> scsi_node_of w dev node"
proof
  assume "get_scsi_node_from_bootdevice w dev = Some node"
  then obtain target des de where t: "sys_link w dev = Some target" "15 \<le> length target"
    "sys_dir w (''/sys/block/'' @ drop 11 (take 14 target) @ ''/device/scsi_generic'') = Some des"
    "find_sg des = Some de" "node = take 4094 (''/dev/'' @ de)"
    by (auto simp: get_scsi_node_from_bootdevice_def c_readlink_def LOC_values PATH_MAX_def Let_def
        min_def not_less split: option.splits if_splits)
  then obtain others n es where "des = others @ (''sg'' @ n) # es" "de = ''sg'' @ n"
    "\<forall>e \<in> set others. take 2 e \<noteq> ''sg''"
    using find_sg_first [of des de] by auto
  moreover have "target = take 11 target @ drop 11 (take 14 target) @ drop 14 target"
  proof -
    have "take 14 target = take 11 target @ drop 11 (take 14 target)"
      using append_take_drop_id [of 11 "take 14 target"] by (simp add: min_def)
    then show ?thesis by (metis append.assoc append_take_drop_id)
  qed
  ultimately show "scsi_node_of w dev node"
    using t unfolding scsi_node_of_def
    by (intro exI [of _ "take 11 target"] exI [of _ "drop 11 (take 14 target)"]
        exI [of _ "drop 14 target"] exI [of _ others] exI [of _ n] exI [of _ es]) simp
next
  assume "scsi_node_of w dev node"
  then obtain dir disk part others n es where t: "sys_link w dev = Some (dir @ disk @ part)"
    "length dir = 11" "length disk = 3" "part \<noteq> ''''"
    "sys_dir w (''/sys/block/'' @ disk @ ''/device/scsi_generic'') = Some (others @ (''sg'' @ n) # es)"
    "\<forall>e \<in> set others. take 2 e \<noteq> ''sg''" "node = take 4094 (''/dev/sg'' @ n)"
    by (auto simp: scsi_node_of_def)
  have "find_sg (others @ (''sg'' @ n) # es) = Some (''sg'' @ n)"
    unfolding find_sg_first using t(6) by blast
  moreover have "part \<noteq> '''' \<Longrightarrow> 1 \<le> length part" by (cases part) auto
  ultimately show "get_scsi_node_from_bootdevice w dev = Some node"
    using t by (simp add: get_scsi_node_from_bootdevice_def c_readlink_def LOC_values PATH_MAX_def
        Let_def)
qed

lemma xbl_boot_dev_iff:
  "xbl_boot_dev chain w = Some (lun, dev) \<longleftrightarrow>
     lun = (if chain = BACKUP_BOOT then 2 else 1) \<and> xbl_of_chain chain w dev"
  by (cases chain) (auto simp: xbl_boot_dev_def xbl_of_chain_def xbl_paths BOOT_LUN_A_ID_def
      BOOT_LUN_B_ID_def)

lemma set_boot_lun_fails:
  assumes "set_boot_lun sg lun w = (-1, w')"
  shows "True \<in> set (take 3 (sys_sched w))"
proof -
  have f: "call_fails w = (b, w1) \<Longrightarrow> sys_sched w1 = drop 1 (sys_sched w)
      \<and> (b \<longrightarrow> (\<exists>xs. sys_sched w = True # xs))" for b w w1
    by (auto simp: call_fails_def split: list.splits)
  show ?thesis
    using assms by (cases "sys_sched w"; cases "tl (sys_sched w)"; cases "tl (tl (sys_sched w))")
      (auto simp: set_boot_lun_def numeral_3_eq_3 split: prod.splits if_splits dest!: f)
qed

text \<open>
  C12: the boot LUN switch returns 0 exactly when it wrote one boot LUN
  attribute: 1 for the normal chain and 2 for the backup chain, through the scsi
  generic node of the disk that holds this chain's xbl partition (xbl or, without
  it, \<open>xbl_a\<close>; xblbak or \<open>xbl_b\<close>), and only if a pair of xbl partitions exists.
  Otherwise it returns -1, nothing was written, and a call failed or the
  partitions, the link or the node are not there.
\<close>

theorem set_xbl_boot_partition_effect:
  assumes "gpt_utils_set_xbl_boot_partition chain w = (r, w')"
  shows "r = 0 \<and> xbl_pair_exists w
      \<and> (\<exists>dev node. xbl_of_chain chain w dev \<and> scsi_node_of w dev node
        \<and> sys_boot_luns w' = sys_boot_luns w @ [(node, if chain = BACKUP_BOOT then 2 else 1)])
    \<or> r = -1 \<and> sys_boot_luns w' = sys_boot_luns w
      \<and> (True \<in> set (take 3 (sys_sched w))
        \<or> \<not> (xbl_pair_exists w \<and> (\<exists>dev node. xbl_of_chain chain w dev \<and> scsi_node_of w dev node)))"
proof -
  let ?lun = "if chain = BACKUP_BOOT then 2 else 1"
  have pair: "((\<not> sys_exists w XBL_PRIMARY \<or> \<not> sys_exists w XBL_BACKUP)
      \<and> (\<not> sys_exists w XBL_AB_PRIMARY \<or> \<not> sys_exists w XBL_AB_SECONDARY)) = (\<not> xbl_pair_exists w)"
    by (simp add: xbl_pair_exists_def xbl_paths)
  show ?thesis
  proof (cases "\<exists>dev node. xbl_pair_exists w \<and> xbl_boot_dev chain w = Some (?lun, dev)
      \<and> get_scsi_node_from_bootdevice w dev = Some node")
    case True
    then obtain dev node where t: "xbl_pair_exists w" "xbl_boot_dev chain w = Some (?lun, dev)"
      "get_scsi_node_from_bootdevice w dev = Some node" by blast
    obtain r1 w1 where 1: "set_boot_lun node ?lun w = (r1, w1)" by (cases "set_boot_lun node ?lun w")
    have "r = r1" "w' = w1"
      using assms t 1 set_boot_lun_effect [OF 1]
      unfolding gpt_utils_set_xbl_boot_partition_def pair by auto
    moreover have "xbl_of_chain chain w dev" "scsi_node_of w dev node"
      using t(2,3) by (simp_all add: xbl_boot_dev_iff get_scsi_node_iff)
    moreover have "r1 = -1 \<Longrightarrow> True \<in> set (take 3 (sys_sched w))"
      using set_boot_lun_fails 1 by blast
    ultimately show ?thesis using set_boot_lun_effect [OF 1] t(1) by blast
  next
    case False
    then have none: "\<not> (xbl_pair_exists w \<and> (\<exists>dev node. xbl_of_chain chain w dev \<and> scsi_node_of w dev node))"
      by (auto simp: xbl_boot_dev_iff get_scsi_node_iff)
    have "(r, w') = (-1, w)"
      using assms False unfolding gpt_utils_set_xbl_boot_partition_def pair
      by (auto simp: xbl_boot_dev_iff split: option.splits prod.splits if_splits)
    then show ?thesis using none by blast
  qed
qed

end
