(* ===== verification/Gpt_Total.thy ===== *)
theory Gpt_Total
  imports Gpt_Luns
begin

text \<open>
  The staged update always returns. \<open>gpt_sane\<close> adds to the invariant of the
  update what keeps every access in bounds: header sizes within a block, blocks
  that hold a header, an array of 128-byte entries. On such disks no operation
  reads or writes outside a buffer, whatever calls fail, and every stage leaves
  such disks.
\<close>

definition gpt_sane :: "crc_fun \<Rightarrow> blkdev \<Rightarrow> bool" where
  "gpt_sane crc d \<longleftrightarrow> update_inv crc d \<and> (\<forall>g. hdr_state crc (hdr_block g d) \<noteq> None)
     \<and> 92 \<le> unat (dev_blksz d) \<and> pentry_size_of d = PTN_ENTRY_SIZE
     \<and> (\<exists>es. entries_ok es \<and> entries PRIMARY_GPT d = concat es)"

lemma gpt_saneD:
  assumes "gpt_sane crc d"
  shows "update_inv crc d" "gpt_layout d" "no_short d" "dev_ok d" "92 \<le> unat (dev_blksz d)"
    "hdr_state crc (hdr_block g d) \<noteq> None"
    "chain_entries is_ufs boot (entries PRIMARY_GPT d) (pentry_size_of d) \<noteq> None"
proof -
  show "update_inv crc d" "gpt_layout d" "no_short d" "dev_ok d" "92 \<le> unat (dev_blksz d)"
    "hdr_state crc (hdr_block g d) \<noteq> None"
    using assms by (auto simp: gpt_sane_def update_inv_def layout_ok)
  show "chain_entries is_ufs boot (entries PRIMARY_GPT d) (pentry_size_of d) \<noteq> None"
    using assms gpt_boot_chain_swap_entries by (auto simp: gpt_sane_def chain_entries_def)
qed

lemma gpt_sane_same:
  assumes "same_disk d d'" "gpt_sane crc d"
  shows "gpt_sane crc d'"
  using assms same_disk_hdr(2) [OF assms(1)] same_disk_entries(2) [OF assms(1)]
    update_inv_same [of crc d d']
  by (simp add: gpt_sane_def same_diskD pentry_size_of_def)

section \<open>Each operation returns\<close>

lemma blk_rw_returns:
  assumes "length buf = len"
  obtains r buf' d' where "blk_rw rw off buf len d = Some (r, buf', d')"
  using blk_rw_defined [of len buf rw off d] assms by auto

lemma read_header_total: "read_header g d \<noteq> None"
proof -
  obtain bo d1 where 1: "ioctl_BLKSSZGET d = (bo, d1)" by (cases "ioctl_BLKSSZGET d")
  show ?thesis
  proof (cases bo)
    case None
    then show ?thesis using 1 by (simp add: read_header_def)
  next
    case (Some b)
    obtain mo d2 where 2: "c_malloc (unat b) d1 = (mo, d2)" by (cases "c_malloc (unat b) d1")
    obtain off d3 where 3: "header_offset_of g b d2 = (off, d3)" by (cases "header_offset_of g b d2")
    show ?thesis
    proof (cases mo)
      case None
      then show ?thesis using 1 2 Some by (simp add: read_header_def)
    next
      case buf: (Some buf)
      have "length buf = unat b" using 2 buf calls_results(2) by blast
      then obtain r h d4 where "blk_rw False off buf (unat b) d3 = Some (r, h, d4)"
        by (rule blk_rw_returns)
      then show ?thesis using 1 2 3 Some buf by (simp add: read_header_def)
    qed
  qed
qed

lemma gpt_get_state_total:
  assumes "dev_ok d" "no_short d" "hdr_state crc (hdr_block g d) \<noteq> None"
  shows "gpt_get_state crc g d \<noteq> None"
proof -
  obtain res d1 where rd: "read_header g d = Some (res, d1)" using read_header_total by fastforce
  show ?thesis
  proof (cases res)
    case None
    then show ?thesis using rd by (simp add: gpt_get_state_def)
  next
    case (Some p)
    then obtain blk off where "res = Some (blk, off, hdr_block g d)"
      using read_header_effect(4) [OF rd assms(1,2)] by (cases p) blast
    then have "gpt_get_state crc g d = map_option (\<lambda>st. (0, st, d1)) (hdr_state crc (hdr_block g d))"
      using rd gpt_get_state_read by blast
    then show ?thesis using assms(3) by simp
  qed
qed

lemma gpt_set_state_total:
  assumes "dev_ok d" "no_short d" "hdr_state crc (hdr_block g d) \<noteq> None"
  shows "gpt_set_state crc g st d \<noteq> None"
proof -
  obtain res d1 where rd: "read_header g d = Some (res, d1)" using read_header_total by fastforce
  show ?thesis
  proof (cases "res = None \<or> st = GPT_BAD_CRC")
    case True
    then show ?thesis using rd by (cases res) (auto simp: gpt_set_state_def)
  next
    case False
    then obtain p where "res = Some p" by auto
    then obtain off where p: "res = Some (dev_blksz d, off, hdr_block g d)"
      using read_header_effect(4) [OF rd assms(1,2)] by (cases p) blast
    obtain h where h: "set_hdr crc st (hdr_block g d) = Some h"
      using set_hdr_total assms(3) by blast
    have "length h = unat (dev_blksz d)"
      using set_hdr_fields(1) [OF h] length_hdr_block [OF assms(1)] by simp
    then obtain r h' d2 where "blk_rw True off h (unat (dev_blksz d)) d1 = Some (r, h', d2)"
      by (rule blk_rw_returns)
    then have "gpt_set_state crc g st d = Some (if r \<noteq> 0 then -1 else 0, d2)"
      using rd p h False by (auto simp: gpt_set_state_def set_hdr_def)
    then show ?thesis by simp
  qed
qed

lemma field_defined:
  assumes "p + 8 \<le> length h"
  obtains a b where "GET_4_BYTES h p = Some a" "GET_8_BYTES h p = Some b"
  using assms by (simp add: GET_4_BYTES_def GET_8_BYTES_def)

lemma write_secondary_table_total:
  assumes "dev_ok d" "no_short d" "length buf = unat (dev_blksz d)" "92 \<le> unat (dev_blksz d)"
    and "hdr_state crc (hdr_block SECONDARY_GPT d) \<noteq> None"
    and "chain_entries is_ufs boot es0 (unat sz) \<noteq> None"
  shows "write_secondary_table crc is_ufs boot (dev_blksz d) (int (hdr_off SECONDARY_GPT d))
    buf es0 sz d \<noteq> None"
proof -
  let ?hoff = "int (hdr_off SECONDARY_GPT d)" and ?n = "unat (dev_blksz d)"
  obtain r1 h d1 where rd: "blk_rw False ?hoff buf ?n d = Some (r1, h, d1)"
    using assms(3) by (rule blk_rw_returns)
  show ?thesis
  proof (cases "r1 = 0")
    case False
    then show ?thesis using rd by (simp add: write_secondary_table_def)
  next
    case True
    have h: "h = hdr_block SECONDARY_GPT d"
      using blk_rw_read_full(2) [OF rd [unfolded True] assms(2) _ assms(3)]
        hdr_off_in [OF assms(1), of SECONDARY_GPT] unfolding hdr_block_def nat_int by blast
    have lh: "length h = ?n" using h length_hdr_block [OF assms(1)] by simp
    obtain hsz where hsz: "GET_4_BYTES h HEADER_SIZE_OFFSET = Some hsz"
      using lh assms(4) field_defined [of HEADER_SIZE_OFFSET h]
      unfolding HEADER_SIZE_OFFSET_def by fastforce
    obtain lba where lba: "GET_8_BYTES h PENTRIES_OFFSET = Some lba"
      using lh assms(4) field_defined [of PENTRIES_OFFSET h] unfolding PENTRIES_OFFSET_def by fastforce
    obtain r2 es where ch: "chain_entries is_ufs boot es0 (unat sz) = Some (r2, es)"
      using assms(6) by auto
    obtain h' where h': "set_table_crc crc es h = Some h'"
      using set_table_crc_total [of crc h] assms(4,5) h lh by auto
    have "length h' = ?n" using set_table_crc_fields(1) [OF h'] lh by simp
    then obtain r3 b3 d3 where w: "blk_rw True ?hoff h' ?n d1 = Some (r3, b3, d3)"
      by (rule blk_rw_returns)
    obtain r4 b4 d4 where w2: "blk_rw True (sint (lba * ucast (dev_blksz d))) es (length es) d3
        = Some (r4, b4, d4)"
      using refl by (rule blk_rw_returns)
    obtain h1 where seal: "PUT_4_BYTES h PARTITION_CRC_OFFSET (crc es) = Some h1"
      "seal_header crc hsz h1 = Some h'"
      using h' hsz by (auto simp: set_table_crc_def)
    show ?thesis
      using rd True hsz lba ch seal w w2
      by (cases "r2 = 0"; cases "r3 = 0")
        (simp_all add: write_secondary_table_def chain_entries_def Let_def)
  qed
qed

lemma gpt2_set_boot_chain_total:
  assumes "gpt_sane crc d"
  shows "gpt2_set_boot_chain crc is_ufs boot d \<noteq> None"
proof -
  note S = gpt_saneD [OF assms]
  let ?b = "dev_blksz d" and ?P = "hdr_block PRIMARY_GPT d"
  obtain o1 n where at: "entries_at PRIMARY_GPT d = Some (o1, n)" "o1 + n \<le> dev_size d"
    using S(2) by (auto elim!: gpt_layoutE)
  obtain bo d1 where 1: "ioctl_BLKSSZGET d = (bo, d1)" by (cases "ioctl_BLKSSZGET d")
  have s1: "same_disk d d1" using 1 by (rule calls_same)
  obtain mo d2 where 2: "c_malloc (unat ?b) d1 = (mo, d2)" by (cases "c_malloc (unat ?b) d1")
  have s2: "same_disk d d2" using s1 calls_same(2) [OF 2] by (rule same_disk_trans)
  obtain off d3 where 3: "header_offset_of SECONDARY_GPT ?b d2 = (off, d3)"
    by (cases "header_offset_of SECONDARY_GPT ?b d2")
  have ok2: "dev_ok d2" "?b = dev_blksz d2" "hdr_off g d2 = hdr_off g d" for g
    using s2 S(4) by (simp_all add: same_disk_hdr same_diskD)
  note off = header_offset_of_result [OF 3 ok2(2,1)]
  have s3: "same_disk d d3" using s2 off(1) by (rule same_disk_trans)
  consider "bo = None" | "bo = Some ?b" "mo = None" | "bo = Some ?b" "off < 0" "mo \<noteq> None"
    | buf where "bo = Some ?b" "mo = Some buf" "off = int (hdr_off SECONDARY_GPT d)" "\<not> off < 0"
    using 1 calls_results(1) off(2) ok2(3) by (cases bo; cases mo; cases "off < 0"; simp; blast)
  then show ?thesis
  proof cases
    case (4 buf)
    have lb: "length buf = unat ?b" using 2 4(2) calls_results(2) by blast
    note steps = 1 2 3 4 gpt2_set_boot_chain_def Let_def
    obtain r4 h d4 where rd: "blk_rw False (uint ?b) buf (unat ?b) d3 = Some (r4, h, d4)"
      using lb by (rule blk_rw_returns)
    have s4: "same_disk d d4" using s3 blk_rw_read_same(1) [OF rd] by (rule same_disk_trans)
    show ?thesis
    proof (cases "r4 = 0")
      case False
      then show ?thesis by (simp add: steps rd)
    next
      case r4: True
      have h: "h = ?P"
        using blk_rw_read_full(2) [OF rd [unfolded r4] no_short_same [OF S(3) s3] _ lb]
          hdr_off_in [OF S(4), of PRIMARY_GPT] s3
        by (simp add: hdr_block_def hdr_off.simps same_diskD)
      have lh: "length h = unat ?b" using h length_hdr_block [OF S(4)] by simp
      obtain lba where lba: "GET_8_BYTES h PENTRIES_OFFSET = Some lba"
        using lh S(5) field_defined [of PENTRIES_OFFSET h] unfolding PENTRIES_OFFSET_def by fastforce
      obtain sz cnt where f: "GET_4_BYTES h PENTRY_SIZE_OFFSET = Some sz"
        "GET_4_BYTES h PARTITION_COUNT_OFFSET = Some cnt"
        using at h by (auto simp: entries_at_def table_length_def split: if_splits)
      obtain sum where sum: "GET_4_BYTES h PARTITION_CRC_OFFSET = Some sum"
        using lh S(5) GET_4_BYTES_defined [of h PARTITION_CRC_OFFSET]
        unfolding PARTITION_CRC_OFFSET_def by fastforce
      obtain c d5 where 5: "c_calloc (unat (cnt * sz)) d4 = (c, d5)"
        by (cases "c_calloc (unat (cnt * sz)) d4")
      have s5: "same_disk d d5" using s4 calls_same(3) [OF 5] by (rule same_disk_trans)
      have loc: "sint (lba * ucast ?b) = int o1" "unat (cnt * sz) = n"
        using at(1) f lba h
        by (auto simp: entries_at_def table_offset_def table_length_def split: if_splits)
      show ?thesis
      proof (cases c)
        case None
        then show ?thesis by (simp add: steps rd r4 lba f 5)
      next
        case c: (Some z)
        have lz: "length z = n" using calls_results(3) [OF 5 [unfolded c]] loc by simp
        obtain r6 es0 d6 where 6: "blk_rw False (int o1) z n d5 = Some (r6, es0, d6)"
          using lz by (rule blk_rw_returns)
        have s6: "same_disk d d6" using s5 blk_rw_read_same(1) [OF 6] by (rule same_disk_trans)
        have tail: "r6 = 0 \<Longrightarrow> write_secondary_table crc is_ufs boot ?b
            (int (hdr_off SECONDARY_GPT d)) h es0 sz d6 \<noteq> None"
        proof -
          assume r6: "r6 = 0"
          have "es0 = dev_rd d5 o1 n"
            using blk_rw_read_full(2) [OF 6 [unfolded r6] no_short_same [OF S(3) s5] _ lz] at(2) s5
            by (simp add: same_diskD)
          then have es0: "es0 = entries PRIMARY_GPT d"
            using at(1) s5 by (simp add: entries_def same_diskD)
          have "unat sz = pentry_size_of d" using f(1) h by (simp add: pentry_size_of_def)
          then have "chain_entries is_ufs boot es0 (unat sz) \<noteq> None" using S(7) es0 by simp
          then show ?thesis
            using write_secondary_table_total [of d6 h crc is_ufs boot es0 sz] s6 S(3-6) lh
              no_short_same [OF S(3) s6] by (simp add: same_disk_hdr same_diskD)
        qed
        then show ?thesis
          by (cases "r6 = 0"; cases "sum = crc es0") (simp_all add: steps rd r4 lba f 5 [unfolded loc(2)] c loc 6 sum)
      qed
    qed
  qed (simp_all add: 1 2 3 gpt2_set_boot_chain_def split: option.split)
qed

section \<open>Each operation leaves such a disk\<close>

lemma pentry_size_of_cong:
  assumes "length (hdr_block PRIMARY_GPT d') = length (hdr_block PRIMARY_GPT d)"
    "region (hdr_block PRIMARY_GPT d') 72 16 = region (hdr_block PRIMARY_GPT d) 72 16"
  shows "pentry_size_of d' = pentry_size_of d"
proof -
  have "region (hdr_block PRIMARY_GPT d') 84 4 = region (hdr_block PRIMARY_GPT d) 84 4"
    using assms(2) region_region [of 12 4 16 "hdr_block PRIMARY_GPT d'" 72]
      region_region [of 12 4 16 "hdr_block PRIMARY_GPT d" 72] by simp
  then show ?thesis
    using GET_4_region_cong [OF assms(1), of 84] by (simp add: pentry_size_of_def PENTRY_SIZE_OFFSET_def)
qed

lemma gpt_sane_transfer:
  assumes "gpt_sane crc d" "update_inv crc d'" "dev_blksz d' = dev_blksz d"
    and "\<And>g. hdr_state crc (hdr_block g d') \<noteq> None"
    and "entries PRIMARY_GPT d' = entries PRIMARY_GPT d" "pentry_size_of d' = pentry_size_of d"
  shows "gpt_sane crc d'"
  using assms by (simp add: gpt_sane_def)

lemma gpt_set_state_sane:
  assumes "gpt_set_state crc g st d = Some (r, d')" "gpt_sane crc d" "update_inv crc d'"
  shows "gpt_sane crc d'"
proof -
  note S = gpt_saneD [OF assms(2)]
  consider "same_disk d d'" | h where "set_hdr crc st (hdr_block g d) = Some h" "st \<noteq> GPT_BAD_CRC"
    "wrote_disk (hdr_off g d) h d d'"
    using gpt_set_state_effect(1) [OF assms(1) S(4,3)] by blast
  then show ?thesis
  proof cases
    case 1
    then show ?thesis using gpt_sane_same assms(2) by blast
  next
    case 2
    note f = set_hdr_fields [OF 2(1)]
    note w = header_written [OF S(2) 2(3) f(1,2)]
    have "hdr_state crc (hdr_block g' d') \<noteq> None" for g'
      using w(4) [of g'] set_hdr_state(1) [OF 2(1,2)] S(6) by simp
    moreover have "pentry_size_of d' = pentry_size_of d"
      using w(4) [of PRIMARY_GPT] f(1,2) by (intro pentry_size_of_cong) auto
    ultimately show ?thesis
      using gpt_sane_transfer [OF assms(2,3)] w(3) wrote_diskD(2) [OF 2(3)] by blast
  qed
qed

lemma chain_done_blksz: "gpt2_set_boot_chain crc is_ufs boot d = Some (r, d') \<Longrightarrow>
    gpt_sane crc d \<Longrightarrow> dev_blksz d' = dev_blksz d"
proof -
  assume run: "gpt2_set_boot_chain crc is_ufs boot d = Some (r, d')" and s: "gpt_sane crc d"
  note S = gpt_saneD [OF s]
  have "dev_ok d'" using gpt2_set_boot_chain_primary(1) [OF run S(2,3)] by (rule layout_ok)
  then have "unat (dev_blksz d') = unat (dev_blksz d)"
    using gpt2_set_boot_chain_primary(3) [OF run S(2,3)] length_hdr_block [of d' PRIMARY_GPT]
      length_hdr_block [OF S(4), of PRIMARY_GPT] by simp
  then show "dev_blksz d' = dev_blksz d" by (simp add: unsigned_word_eqI)
qed

lemma gpt2_set_boot_chain_sane:
  assumes "gpt2_set_boot_chain crc is_ufs boot d = Some (r, d')" "gpt_sane crc d" "update_inv crc d'"
  shows "gpt_sane crc d'"
proof -
  note S = gpt_saneD [OF assms(2)]
  note prim = gpt2_set_boot_chain_primary [OF assms(1) S(2,3)]
  have "hdr_state crc (hdr_block SECONDARY_GPT d') \<noteq> None"
    using gpt2_set_boot_chain_effect [OF assms(1) S(2,3)]
  proof (elim disjE exE conjE)
    assume "same_disk d d'"
    then show ?thesis using S(6) [of SECONDARY_GPT] by (simp add: same_disk_hdr)
  next
    fix es assume "chain_done crc es r d d'"
    then have "set_table_crc crc es (hdr_block SECONDARY_GPT d) = Some (hdr_block SECONDARY_GPT d')"
      by (simp add: chain_done_def)
    from set_table_crc_state(1) [OF this] show ?thesis by simp
  qed
  then have "hdr_state crc (hdr_block g d') \<noteq> None" for g
    using prim(3) S(6) [of PRIMARY_GPT] by (cases g) simp_all
  moreover have "pentry_size_of d' = pentry_size_of d" using prim(3) by (simp add: pentry_size_of_def)
  ultimately show ?thesis
    using gpt_sane_transfer [OF assms(2,3) chain_done_blksz [OF assms(1,2)]] prim(4) by blast
qed

section \<open>The stages\<close>

text \<open>
  One step of a stage from a sane disk: it returns, and when the invariant of the
  update holds after it the disk is sane again.
\<close>

lemma set_state_step:
  assumes "gpt_sane crc d"
  obtains r d' where "gpt_set_state crc g st d = Some (r, d')"
    "update_inv crc d' \<Longrightarrow> gpt_sane crc d'"
proof -
  have "gpt_set_state crc g st d \<noteq> None" using gpt_set_state_total gpt_saneD(3,4,6) [OF assms] by blast
  then show ?thesis using that gpt_set_state_sane [OF _ assms] by (cases "gpt_set_state crc g st d") auto
qed

lemma set_chain_step:
  assumes "gpt_sane crc d"
  obtains r d' where "gpt2_set_boot_chain crc is_ufs boot d = Some (r, d')"
    "update_inv crc d' \<Longrightarrow> gpt_sane crc d'"
proof -
  have "gpt2_set_boot_chain crc is_ufs boot d \<noteq> None" using gpt2_set_boot_chain_total assms by blast
  then show ?thesis
    using that gpt2_set_boot_chain_sane [OF _ assms] by (cases "gpt2_set_boot_chain crc is_ufs boot d") auto
qed

text \<open>After the first call of a stage the invariant holds, whatever the second does.\<close>

lemma chain_keeps_inv:
  assumes "gpt2_set_boot_chain crc is_ufs boot d = Some (r, d')" "update_inv crc d"
    "hdr_state crc (hdr_block PRIMARY_GPT d) = Some GPT_OK"
  shows "update_inv crc d'"
proof -
  have inv: "gpt_layout d" "no_short d" "array_ok crc PRIMARY_GPT d"
    using assms(2) by (simp_all add: update_inv_def)
  note prim = gpt2_set_boot_chain_primary [OF assms(1) inv(1,2)]
  then show ?thesis
    using inv(3) assms(3) array_ok_cong(1) [OF prim(3,4)] by (simp add: update_inv_def table_ok_array)
qed

lemma set_ok_keeps_inv:
  assumes "gpt_set_state crc PRIMARY_GPT GPT_OK d = Some (r, d')" "update_inv crc d"
  shows "update_inv crc d'"
proof (cases "r \<noteq> 0 \<and> same_disk d d'")
  case True
  then show ?thesis using update_inv_same assms(2) by blast
next
  case False
  have inv: "gpt_layout d" "no_short d" "array_ok crc PRIMARY_GPT d"
    using assms(2) by (simp_all add: update_inv_def)
  then show ?thesis
    using gpt_set_state_tables [OF assms(1) inv(1,2)] False by (auto simp: update_inv_def table_ok_array)
qed

lemma stage_disk_returns:
  assumes "gpt_sane crc d" "update_phase crc d = Some stage"
  shows "\<exists>r d'. stage_disk crc is_ufs stage d = Some (r, d') \<and> gpt_sane crc d'"
proof -
  have inv: "update_inv crc d" using assms(1) by (rule gpt_saneD(1))
  have all_inv: "stage_disk crc is_ufs stage d = Some (r, d') \<Longrightarrow> update_inv crc d'" for r d'
    using stage_disk_inv inv assms(2) by blast
  show ?thesis
  proof (cases stage)
    case UPDATE_MAIN
    obtain r1 d1 where 1: "gpt2_set_boot_chain crc is_ufs BACKUP_BOOT d = Some (r1, d1)"
      "update_inv crc d1 \<Longrightarrow> gpt_sane crc d1" by (rule set_chain_step [OF assms(1)]) blast
    have "hdr_state crc (hdr_block PRIMARY_GPT d) = Some GPT_OK"
      using assms(2) UPDATE_MAIN by (simp add: update_phase_iff hdr_states_iff)
    then have s1: "gpt_sane crc d1" using 1(2) chain_keeps_inv [OF 1(1) inv] by blast
    obtain r2 d2 where 2: "gpt_set_state crc PRIMARY_GPT GPT_BAD_SIGNATURE d1 = Some (r2, d2)"
      "update_inv crc d2 \<Longrightarrow> gpt_sane crc d2" by (rule set_state_step [OF s1]) blast
    show ?thesis using 1(1) 2 s1 all_inv UPDATE_MAIN by (cases "r1 = 0") auto
  next
    case UPDATE_BACKUP
    obtain r1 d1 where 1: "gpt_set_state crc PRIMARY_GPT GPT_OK d = Some (r1, d1)"
      "update_inv crc d1 \<Longrightarrow> gpt_sane crc d1" by (rule set_state_step [OF assms(1)]) blast
    have s1: "gpt_sane crc d1" using 1(2) set_ok_keeps_inv [OF 1(1) inv] by blast
    obtain r2 d2 where 2: "gpt_set_state crc SECONDARY_GPT GPT_BAD_SIGNATURE d1 = Some (r2, d2)"
      "update_inv crc d2 \<Longrightarrow> gpt_sane crc d2" by (rule set_state_step [OF s1]) blast
    show ?thesis using 1(1) 2 s1 all_inv UPDATE_BACKUP by (cases "r1 = 0") auto
  next
    case UPDATE_FINALIZE
    obtain r1 d1 where 1: "gpt2_set_boot_chain crc is_ufs NORMAL_BOOT d = Some (r1, d1)"
      "update_inv crc d1 \<Longrightarrow> gpt_sane crc d1" by (rule set_chain_step [OF assms(1)]) blast
    have "hdr_state crc (hdr_block PRIMARY_GPT d) = Some GPT_OK"
      using assms(2) UPDATE_FINALIZE by (simp add: update_phase_iff hdr_states_iff)
    then have s1: "gpt_sane crc d1" using 1(2) chain_keeps_inv [OF 1(1) inv] by blast
    obtain r2 d2 where 2: "gpt_set_state crc SECONDARY_GPT GPT_OK d1 = Some (r2, d2)"
      "update_inv crc d2 \<Longrightarrow> gpt_sane crc d2" by (rule set_state_step [OF s1]) blast
    show ?thesis using 1(1) 2 s1 all_inv UPDATE_FINALIZE by (cases "r1 < 0") auto
  qed
qed

lemma prepare_fd_returns:
  assumes "gpt_sane crc d"
  shows "\<exists>r d' w'. prepare_fd crc is_ufs stage d w = Some (r, d', w') \<and> gpt_sane crc d'"
proof -
  note S = gpt_saneD [OF assms]
  obtain r1 p d1 where 1: "gpt_get_state crc PRIMARY_GPT d = Some (r1, p, d1)"
    using gpt_get_state_total [OF S(4,3,6), of PRIMARY_GPT] by (cases "gpt_get_state crc PRIMARY_GPT d") auto
  note e1 = gpt_get_state_effect [OF 1 S(4,3)]
  have s1: "gpt_sane crc d1" using gpt_sane_same [OF e1(1) assms] .
  note S1 = gpt_saneD [OF s1]
  obtain r2 s d2 where 2: "gpt_get_state crc SECONDARY_GPT d1 = Some (r2, s, d2)"
    using gpt_get_state_total [OF S1(4,3,6), of SECONDARY_GPT] by (cases "gpt_get_state crc SECONDARY_GPT d1") auto
  note e2 = gpt_get_state_effect [OF 2 S1(4,3)]
  have s2: "gpt_sane crc d2" using gpt_sane_same [OF e2(1) s1] .
  show ?thesis
  proof (cases "r1 = 0 \<and> r2 = 0 \<and> internal_stage p s = Some stage")
    case False
    then show ?thesis
      using 1 2 s1 s2
      by (cases "r1 = 0"; cases "r2 = 0"; cases "internal_stage p s") (auto simp: prepare_fd_def)
  next
    case True
    have "update_phase crc d2 = Some stage"
      using e1(2) e2(2) True same_disk_hdr(2) [OF e1(1)] same_disk_hdr(2) [OF e2(1)]
      by (simp add: update_phase_def hdr_states_def)
    then obtain r3 d3 where "stage_disk crc is_ufs stage d2 = Some (r3, d3)" "gpt_sane crc d3"
      using stage_disk_returns [OF s2] by blast
    then have "\<exists>r d' w'. stage_switch crc is_ufs stage d2 w = Some (r, d', w') \<and> gpt_sane crc d'"
      using s2 by (auto simp: stage_switch_def split: prod.split)
    then show ?thesis using 1 2 True by (auto simp: prepare_fd_def)
  qed
qed

section \<open>All disks\<close>

definition all_sane :: "crc_fun \<Rightarrow> system \<Rightarrow> bool" where
  "all_sane crc w \<longleftrightarrow> (\<forall>p d. sys_devs w p = Some d \<longrightarrow> gpt_sane crc d)"

lemma prepare_partitions_returns:
  assumes "all_sane crc w"
  shows "\<exists>r w'. prepare_partitions crc stage path w = Some (r, w') \<and> all_sane crc w'"
proof (cases "sys_devs w path")
  case None
  then show ?thesis using assms by (simp add: prepare_partitions_def)
next
  case (Some d)
  then have "gpt_sane crc d" using assms by (simp add: all_sane_def)
  then obtain r d1 w1 where 1: "prepare_fd crc (gpt_utils_is_ufs_device w) stage d w = Some (r, d1, w1)"
    "gpt_sane crc d1"
    using prepare_fd_returns by blast
  have "same_disk d1 (snd (sys_fsync d1))"
    using calls_same(6) [of d1 "fst (sys_fsync d1)" "snd (sys_fsync d1)"] by simp
  then have "gpt_sane crc (snd (sys_fsync d1))" using gpt_sane_same 1(2) by blast
  then show ?thesis
    using Some 1(1) assms prepare_fd_sys_devs [OF 1(1)]
    by (auto simp: prepare_partitions_def all_sane_def)
qed

lemma prepare_luns_returns:
  "all_sane crc w \<Longrightarrow> \<exists>e w'. prepare_luns crc stage ls err w = Some (e, w') \<and> all_sane crc w'"
proof (induction ls arbitrary: err w)
  case (Cons l ls)
  obtain r w1 where 1: "prepare_partitions crc stage l w = Some (r, w1)" "all_sane crc w1"
    using prepare_partitions_returns [OF Cons.prems] by blast
  then show ?case using Cons.IH [OF 1(2)] by simp
qed simp

lemma collect_luns_defined: "\<exists>dat. collect_luns w PTN_SWAP_LIST no_update_data = Some dat"
proof -
  have "num_valid_entries no_update_data + length PTN_SWAP_LIST < MAX_LUNS"
    by (simp add: no_update_data_def PTN_SWAP_LIST_def MAX_LUNS_def)
  then show ?thesis using collect_luns_list [OF luns_inv_start(1)] by blast
qed

lemma prepare_boot_update_step:
  assumes "all_sane crc w"
  shows "\<exists>r w'. prepare_boot_update crc stage w = Some (r, w') \<and> all_sane crc w'"
proof (cases "gpt_utils_is_ufs_device w")
  case False
  then show ?thesis using prepare_partitions_returns [OF assms] by (simp add: prepare_boot_update_def)
next
  case True
  obtain dat where "collect_luns w PTN_SWAP_LIST no_update_data = Some dat"
    using collect_luns_defined by blast
  moreover obtain e w' where "prepare_luns crc stage (take (num_valid_entries dat) (lun_list dat)) False w
      = Some (e, w')" "all_sane crc w'"
    using prepare_luns_returns [OF assms] by blast
  ultimately show ?thesis using True by (simp add: prepare_boot_update_def)
qed

text \<open>Any sequence of stages, in any order.\<close>

fun run_stages :: "crc_fun \<Rightarrow> boot_update_stage list \<Rightarrow> system \<Rightarrow> (int list \<times> system) option" where
  "run_stages crc [] w = Some ([], w)"
| "run_stages crc (s # ss) w = do {
     (r, w) \<leftarrow> prepare_boot_update crc s w;
     (rs, w) \<leftarrow> run_stages crc ss w;
     Some (r # rs, w)
   }"

text \<open>
  C1: the update is total and stays safe over its whole life: whatever stages are
  requested, in whatever order, and whatever calls fail in them, every request
  returns (nothing is read or written outside a buffer) and every disk keeps a
  table that can be booted from, in a layout on which the next request returns
  too.
\<close>

theorem boot_update_total:
  assumes "all_sane crc w"
  shows "\<exists>rs w'. run_stages crc stages w = Some (rs, w') \<and> length rs = length stages
    \<and> (\<forall>p d. sys_devs w' p = Some d \<longrightarrow> gpt_sane crc d
        \<and> (table_ok crc PRIMARY_GPT d \<or> table_ok crc SECONDARY_GPT d))"
proof -
  have "\<exists>rs w'. run_stages crc stages w = Some (rs, w') \<and> length rs = length stages \<and> all_sane crc w'"
    using assms
  proof (induction stages arbitrary: w)
    case (Cons s ss)
    obtain r w1 where 1: "prepare_boot_update crc s w = Some (r, w1)" "all_sane crc w1"
      using prepare_boot_update_step [OF Cons.prems] by blast
    then show ?case using Cons.IH [OF 1(2)] by auto
  qed simp
  then show ?thesis by (auto simp: all_sane_def gpt_sane_def update_inv_def)
qed

end
