(* ===== verification/Gpt_Disk.thy ===== *)
theory Gpt_Disk
  imports Gpt_Failsafe
begin

text \<open>
  The \<open>gpt_disk\<close> handle of gpt-utils.cpp: \<open>gpt_disk_get_disk_info\<close> fills it from
  the disk that holds a partition, \<open>gpt_disk_get_pentry\<close> finds an entry,
  \<open>gpt_disk_update_crc\<close> recomputes the sums after the entries were changed and
  \<open>gpt_disk_commit\<close> writes the primary table back; and the map from disks to
  partitions. A device that is not there cannot be opened.
\<close>

definition GPT_DISK_INIT_MAGIC :: u32 where "GPT_DISK_INIT_MAGIC = 0xABCD"

record gpt_disk =
  hdr :: "byte list option"
  hdr_crc :: u32
  hdr_bak :: "byte list option"
  hdr_bak_crc :: u32
  pentry_arr :: "byte list option"
  pentry_arr_bak :: "byte list option"
  pentry_arr_size :: u32
  pentry_size :: u32
  pentry_arr_crc :: u32
  pentry_arr_bak_crc :: u32
  devpath :: string
  block_size :: u32
  is_initialized :: u32

definition gpt_disk_alloc :: gpt_disk where
  "gpt_disk_alloc = \<lparr>hdr = None, hdr_crc = 0, hdr_bak = None, hdr_bak_crc = 0,
     pentry_arr = None, pentry_arr_bak = None, pentry_arr_size = 0, pentry_size = 0,
     pentry_arr_crc = 0, pentry_arr_bak_crc = 0, devpath = '''', block_size = 0,
     is_initialized = 0\<rparr>"

section \<open>Partitions and their disks\<close>

text \<open>
  \<open>readlink\<close> writes over the first bytes of the buffer only; what the buffer
  held before stays behind a short link. The result is cut at the LUN's name.
\<close>

definition get_dev_path_from_partition_name ::
  "system \<Rightarrow> string \<Rightarrow> string \<Rightarrow> string option" where
  "get_dev_path_from_partition_name w partname buf =
     (if gpt_utils_is_ufs_device w then
        let path = BOOT_DEV_DIR @ ''/'' @ partname in
        if \<not> sys_exists w path then None
        else (case sys_link w path of
            None \<Rightarrow> None
          | Some l \<Rightarrow> Some (take PATH_TRUNCATE_LOC (l @ drop (length l) buf)))
      else Some ''/dev/block/mmcblk0'')"

text \<open>The \<open>std::map\<close> from disks to the partitions on them.\<close>

fun partition_map_loop ::
  "system \<Rightarrow> string list \<Rightarrow> (string \<Rightarrow> string list option) \<Rightarrow> (string \<Rightarrow> string list option)" where
  "partition_map_loop w [] m = m"
| "partition_map_loop w (p # ps) m =
     (case get_dev_path_from_partition_name w p '''' of
        None \<Rightarrow> partition_map_loop w ps m
      | Some path \<Rightarrow>
          (case m path of
             Some ptns \<Rightarrow> partition_map_loop w ps (m(path \<mapsto> ptns @ [p]))
           | None \<Rightarrow> partition_map_loop w ps (m(path \<mapsto> [p]))))"

definition gpt_utils_get_partition_map ::
  "system \<Rightarrow> string list \<Rightarrow> (string \<Rightarrow> string list option) \<Rightarrow> int \<times> (string \<Rightarrow> string list option)" where
  "gpt_utils_get_partition_map w ptn_list m =
     (if length ptn_list < 1 then (-1, m) else (0, partition_map_loop w ptn_list m))"

section \<open>Headers and entries on an open disk\<close>

definition gpt_get_block_size :: "blkdev \<Rightarrow> u32 \<times> blkdev" where
  "gpt_get_block_size d =
     (case ioctl_BLKSSZGET d of (None, d) \<Rightarrow> (0, d) | (Some b, d) \<Rightarrow> (b, d))"

definition gpt_set_header ::
  "byte list \<Rightarrow> gpt_instance \<Rightarrow> blkdev \<Rightarrow> (int \<times> blkdev) option" where
  "gpt_set_header gpt_header inst d =
     (case gpt_get_block_size d of (b, d) \<Rightarrow>
      if b = 0 then Some (-1, d)
      else (case header_offset_of inst b d of (gpt_header_offset, d) \<Rightarrow>
        if gpt_header_offset \<le> 0 then Some (-1, d)
        else (case blk_rw True gpt_header_offset gpt_header (unat b) d of
            None \<Rightarrow> None
          | Some (r, gpt_header, d) \<Rightarrow> Some (if r \<noteq> 0 then -1 else 0, d))))"

text \<open>
  After a failed \<open>malloc\<close> the code goes on with a null buffer, and the kernel
  refuses to read into it.
\<close>

definition blk_read_null :: "int \<Rightarrow> blkdev \<Rightarrow> blkdev" where
  "blk_read_null off d =
     (case lseek_SET off d of (pos, d) \<Rightarrow> if pos < 0 then d else snd (next_outcome d))"

definition read_gpt_header ::
  "gpt_instance \<Rightarrow> blkdev \<Rightarrow> (byte list option \<times> blkdev) option" where
  "read_gpt_header inst d =
     (case gpt_get_block_size d of (b, d) \<Rightarrow>
      if b = 0 then Some (None, d)
      else (case c_malloc (unat b) d of (h, d) \<Rightarrow>
        (case header_offset_of inst b d of (hdr_offset, d) \<Rightarrow>
          if hdr_offset < 0 then Some (None, d)
          else (case h of
              None \<Rightarrow> Some (None, blk_read_null hdr_offset d)
            | Some h \<Rightarrow> (case blk_rw False hdr_offset h (unat b) d of
                None \<Rightarrow> None
              | Some (r, h, d) \<Rightarrow> Some (if r \<noteq> 0 then None else Some h, d))))))"

definition gpt_get_header ::
  "string \<Rightarrow> gpt_instance \<Rightarrow> system \<Rightarrow> (byte list option \<times> system) option" where
  "gpt_get_header partname inst w =
     (case get_dev_path_from_partition_name w partname '''' of
        None \<Rightarrow> Some (None, w)
      | Some path \<Rightarrow> (case sys_devs w path of
            None \<Rightarrow> Some (None, w)
          | Some d \<Rightarrow> do {
              (h, d) \<leftarrow> read_gpt_header inst d;
              Some (h, with_dev w path d)
            }))"

definition pentries_place :: "u32 \<Rightarrow> byte list \<Rightarrow> (u64 \<times> u32) option" where
  "pentries_place b h = do {
     lba \<leftarrow> GET_8_BYTES h PENTRIES_OFFSET;
     size \<leftarrow> GET_4_BYTES h PENTRY_SIZE_OFFSET;
     count \<leftarrow> GET_4_BYTES h PARTITION_COUNT_OFFSET;
     Some (lba * ucast b, count * size)
   }"

definition gpt_get_pentry_arr ::
  "byte list \<Rightarrow> blkdev \<Rightarrow> (byte list option \<times> blkdev) option" where
  "gpt_get_pentry_arr h d =
     (case gpt_get_block_size d of (b, d) \<Rightarrow>
      if b = 0 then Some (None, d)
      else do {
        (pentries_start, pentries_arr_size) \<leftarrow> pentries_place b h;
        (case c_calloc (unat pentries_arr_size) d of
           (None, d) \<Rightarrow> Some (None, d)
         | (Some arr, d) \<Rightarrow> do {
             (rc, arr, d) \<leftarrow> blk_rw False (sint pentries_start) arr (unat pentries_arr_size) d;
             Some (if rc \<noteq> 0 then None else Some arr, d)
           })
      })"

definition gpt_set_pentry_arr ::
  "byte list \<Rightarrow> byte list \<Rightarrow> blkdev \<Rightarrow> (int \<times> blkdev) option" where
  "gpt_set_pentry_arr h arr d =
     (case gpt_get_block_size d of (b, d) \<Rightarrow>
      if b = 0 then Some (-1, d)
      else do {
        (pentries_start, pentries_arr_size) \<leftarrow> pentries_place b h;
        (rc, arr, d) \<leftarrow> blk_rw True (sint pentries_start) arr (unat pentries_arr_size) d;
        Some (if rc \<noteq> 0 then -1 else 0, d)
      })"

section \<open>The operations of the handle\<close>

text \<open>The part of \<open>gpt_disk_get_disk_info\<close> on the open descriptor.\<close>

definition disk_info_arrays ::
  "byte list \<Rightarrow> byte list \<Rightarrow> gpt_disk \<Rightarrow> blkdev \<Rightarrow> (int \<times> gpt_disk \<times> blkdev) option" where
  "disk_info_arrays h h_bak dsk d = do {
     (arr, d) \<leftarrow> gpt_get_pentry_arr h d;
     let dsk = dsk\<lparr>pentry_arr := arr\<rparr>;
     if arr = None then Some (-1, dsk, d)
     else do {
       (arr_bak, d) \<leftarrow> gpt_get_pentry_arr h_bak d;
       let dsk = dsk\<lparr>pentry_arr_bak := arr_bak\<rparr>;
       if arr_bak = None then Some (-1, dsk, d)
       else do {
         size \<leftarrow> GET_4_BYTES h PENTRY_SIZE_OFFSET;
         count \<leftarrow> GET_4_BYTES h PARTITION_COUNT_OFFSET;
         sum \<leftarrow> GET_4_BYTES h PARTITION_CRC_OFFSET;
         sum_bak \<leftarrow> GET_4_BYTES h_bak PARTITION_CRC_OFFSET;
         (case gpt_get_block_size d of (b, d) \<Rightarrow>
            Some (0, dsk\<lparr>pentry_size := size, pentry_arr_size := count * size,
              pentry_arr_crc := sum, pentry_arr_bak_crc := sum_bak, block_size := b,
              is_initialized := GPT_DISK_INIT_MAGIC\<rparr>, d))
       }
     }
   }"

definition gpt_disk_get_disk_info ::
  "crc_fun \<Rightarrow> string \<Rightarrow> gpt_disk \<Rightarrow> system \<Rightarrow> (int \<times> gpt_disk \<times> system) option" where
  "gpt_disk_get_disk_info crc dev dsk w = do {
     (h, w) \<leftarrow> gpt_get_header dev PRIMARY_GPT w;
     let dsk = dsk\<lparr>hdr := h\<rparr>;
     (case h of
        None \<Rightarrow> Some (-1, dsk, w)
      | Some h \<Rightarrow> do {
          gpt_header_size \<leftarrow> GET_4_BYTES h HEADER_SIZE_OFFSET;
          sum \<leftarrow> crc32 crc h (unat gpt_header_size);
          let dsk = dsk\<lparr>hdr_crc := sum\<rparr>;
          (h_bak, w) \<leftarrow> gpt_get_header dev PRIMARY_GPT w;
          let dsk = dsk\<lparr>hdr_bak := h_bak\<rparr>;
          (case h_bak of
             None \<Rightarrow> Some (-1, dsk, w)
           | Some h_bak \<Rightarrow> do {
               sum_bak \<leftarrow> crc32 crc h_bak (unat gpt_header_size);
               let dsk = dsk\<lparr>hdr_bak_crc := sum_bak\<rparr>;
               (case get_dev_path_from_partition_name w dev (devpath dsk) of
                  None \<Rightarrow> Some (-1, dsk, w)
                | Some path \<Rightarrow>
                    (case sys_devs w path of
                       None \<Rightarrow> Some (-1, dsk\<lparr>devpath := path\<rparr>, w)
                     | Some d \<Rightarrow> do {
                         (r, dsk, d) \<leftarrow> disk_info_arrays h h_bak (dsk\<lparr>devpath := path\<rparr>) d;
                         Some (r, dsk, with_dev w path d)
                       }))
             })
        })
   }"

text \<open>The entry as an offset into the array of the instance.\<close>

definition gpt_disk_get_pentry ::
  "gpt_disk \<Rightarrow> string \<Rightarrow> gpt_instance \<Rightarrow> nat option option" where
  "gpt_disk_get_pentry dsk partname inst =
     (if is_initialized dsk \<noteq> GPT_DISK_INIT_MAGIC then Some None
      else do {
        ptn_arr \<leftarrow> (if inst = PRIMARY_GPT then pentry_arr dsk else pentry_arr_bak dsk);
        gpt_pentry_seek (bytes_of partname) ptn_arr 0 (unat (pentry_arr_size dsk))
          (unat (pentry_size dsk))
      })"

definition gpt_disk_update_crc ::
  "crc_fun \<Rightarrow> gpt_disk \<Rightarrow> (int \<times> gpt_disk) option" where
  "gpt_disk_update_crc crc dsk =
     (if is_initialized dsk \<noteq> GPT_DISK_INIT_MAGIC then Some (-1, dsk)
      else do {
        arr \<leftarrow> pentry_arr dsk;
        arr_bak \<leftarrow> pentry_arr_bak dsk;
        h \<leftarrow> hdr dsk;
        h_bak \<leftarrow> hdr_bak dsk;
        arr_crc \<leftarrow> crc32 crc arr (unat (pentry_arr_size dsk));
        arr_bak_crc \<leftarrow> crc32 crc arr_bak (unat (pentry_arr_size dsk));
        h \<leftarrow> PUT_4_BYTES h PARTITION_CRC_OFFSET arr_crc;
        h_bak \<leftarrow> PUT_4_BYTES h_bak PARTITION_CRC_OFFSET arr_bak_crc;
        gpt_header_size \<leftarrow> GET_4_BYTES h HEADER_SIZE_OFFSET;
        h \<leftarrow> PUT_4_BYTES h HEADER_CRC_OFFSET 0;
        h_bak \<leftarrow> PUT_4_BYTES h_bak HEADER_CRC_OFFSET 0;
        sum \<leftarrow> crc32 crc h (unat gpt_header_size);
        sum_bak \<leftarrow> crc32 crc h_bak (unat gpt_header_size);
        h \<leftarrow> PUT_4_BYTES h HEADER_CRC_OFFSET sum;
        h_bak \<leftarrow> PUT_4_BYTES h_bak HEADER_CRC_OFFSET sum_bak;
        Some (0, dsk\<lparr>hdr := Some h, hdr_crc := sum, hdr_bak := Some h_bak,
          hdr_bak_crc := sum_bak, pentry_arr_crc := arr_crc, pentry_arr_bak_crc := arr_bak_crc\<rparr>)
      })"

text \<open>
  A handle without header or array (null pointers) is an error; the second is
  seen only after the header was written.
\<close>

definition gpt_disk_commit :: "gpt_disk \<Rightarrow> system \<Rightarrow> (int \<times> system) option" where
  "gpt_disk_commit dsk w =
     (if is_initialized dsk \<noteq> GPT_DISK_INIT_MAGIC then Some (-1, w)
      else (case sys_devs w (devpath dsk) of
          None \<Rightarrow> Some (-1, w)
        | Some d \<Rightarrow>
            (case hdr dsk of
               None \<Rightarrow> Some (-1, w)
             | Some h \<Rightarrow> do {
                 (r, d) \<leftarrow> gpt_set_header h PRIMARY_GPT d;
                 if r \<noteq> 0 then Some (-1, with_dev w (devpath dsk) d)
                 else (case pentry_arr dsk of
                     None \<Rightarrow> Some (-1, with_dev w (devpath dsk) d)
                   | Some arr \<Rightarrow> do {
                       (r, d) \<leftarrow> gpt_set_pentry_arr h arr d;
                       Some (if r \<noteq> 0 then -1 else 0, with_dev w (devpath dsk) d)
                     })
               })))"

section \<open>The partition map\<close>

lemma partition_map_loop_Cons:
  "partition_map_loop w (p # ps) m =
    (case get_dev_path_from_partition_name w p '''' of
       None \<Rightarrow> partition_map_loop w ps m
     | Some q \<Rightarrow> partition_map_loop w ps
         (m(q \<mapsto> (case m q of None \<Rightarrow> [] | Some old \<Rightarrow> old) @ [p])))"
  by (simp split: option.splits)

lemma partition_map_loop_eq:
  "partition_map_loop w ps m path =
    (let new = filter (\<lambda>p. get_dev_path_from_partition_name w p '''' = Some path) ps in
     if new = [] then m path
     else Some ((case m path of None \<Rightarrow> [] | Some old \<Rightarrow> old) @ new))"
proof (induction ps arbitrary: m)
  case (Cons p ps)
  show ?case
  proof (cases "get_dev_path_from_partition_name w p ''''")
    case None
    then show ?thesis using Cons.IH [of m] by simp
  next
    case (Some q)
    define m1 where "m1 = m(q \<mapsto> (case m q of None \<Rightarrow> [] | Some old \<Rightarrow> old) @ [p])"
    have "partition_map_loop w (p # ps) m path = partition_map_loop w ps m1 path"
      by (simp only: partition_map_loop_Cons Some option.case m1_def)
    moreover have "m1 path = (if q = path then Some ((case m path of None \<Rightarrow> [] | Some old \<Rightarrow> old) @ [p])
        else m path)"
      by (simp add: m1_def)
    ultimately show ?thesis
      using Cons.IH [of m1] Some by (cases "q = path") (simp_all add: Let_def)
  qed
qed simp

text \<open>
  The partition map lists under each disk exactly the given partitions on
  it, in the order given, and has no entry for other disks.
\<close>

theorem partition_map_correct:
  "snd (gpt_utils_get_partition_map w ptns Map.empty) path =
    (let on_disk = filter (\<lambda>p. get_dev_path_from_partition_name w p '''' = Some path) ptns in
     if on_disk = [] then None else Some on_disk)"
  by (cases ptns) (simp_all add: gpt_utils_get_partition_map_def partition_map_loop_eq Let_def
      del: partition_map_loop.simps(2))

section \<open>Writing back\<close>

lemma block_size_result:
  assumes "gpt_get_block_size d = (b, d')"
  shows "same_disk d d'" "b = 0 \<or> b = dev_blksz d"
  using assms calls_same(1) calls_results(1)
  by (auto simp: gpt_get_block_size_def split: prod.splits option.splits)

lemma block_size_ok: "dev_sched d = [] \<Longrightarrow> gpt_get_block_size d = (dev_blksz d, d)"
  by (simp add: gpt_get_block_size_def calls_ok)

lemma gpt_set_header_effect:
  assumes "gpt_set_header h inst d = Some (r, d')" "dev_ok d" "no_short d"
    "length h = unat (dev_blksz d)"
  shows "(r \<noteq> 0 \<and> same_disk d d') \<or> wrote_disk (hdr_off inst d) h d d'"
proof -
  obtain b d1 where 1: "gpt_get_block_size d = (b, d1)" by (cases "gpt_get_block_size d")
  note s1 = block_size_result(1) [OF 1]
  show ?thesis
  proof (cases "b = 0")
    case True
    then show ?thesis using assms(1) 1 s1 by (simp add: gpt_set_header_def)
  next
    case False
    then have b: "b = dev_blksz d" using block_size_result(2) [OF 1] by simp
    obtain off d2 where 2: "header_offset_of inst b d1 = (off, d2)"
      by (cases "header_offset_of inst b d1")
    have "b = dev_blksz d1" "dev_ok d1" "hdr_off inst d1 = hdr_off inst d"
      using s1 b assms(2) by (simp_all add: same_diskD same_disk_hdr)
    note off = header_offset_of_result [OF 2 this(1,2)] this(3)
    have s2: "same_disk d d2" using s1 off(1) by (rule same_disk_trans)
    show ?thesis
    proof (cases "off \<le> 0")
      case True
      then show ?thesis using assms(1) 1 2 False s2 by (simp add: gpt_set_header_def)
    next
      case pos: False
      then have off': "off = int (hdr_off inst d)" using off(2,3) by simp
      obtain r3 h3 where w: "blk_rw True off h (unat b) d2 = Some (r3, h3, d')"
        and r: "r = (if r3 \<noteq> 0 then -1 else 0)"
        using assms(1) 1 2 False pos by (auto simp: gpt_set_header_def split: option.splits)
      have "same_disk d2 d' \<and> r3 \<noteq> 0 \<or> 0 \<le> off \<and> wrote_disk (nat off) h d2 d'"
        using blk_rw_write_effect(1) [OF w no_short_same [OF assms(3) s2]] assms(4) b off'
          hdr_off_in [OF assms(2), of inst] s2 by (simp add: same_diskD)
      then show ?thesis
        using r off' same_disk_trans [OF s2] same_wrote_disk [OF s2] by auto
    qed
  qed
qed

lemma pentries_place_entries_at:
  assumes "pentries_place (dev_blksz d) h = Some (start, n)" "length h = length (hdr_block g d)"
    "region h 72 16 = region (hdr_block g d) 72 16" "entries_at g d = Some (off, k)"
  shows "sint start = int off" "unat n = k"
  using assms(1,4) table_fields_cong [OF assms(2,3)]
  by (auto simp: pentries_place_def entries_at_def table_offset_def table_length_def
      split: if_splits)

lemma gpt_set_pentry_arr_effect:
  assumes "gpt_set_pentry_arr h arr d = Some (r, d')" "no_short d"
    "length h = length (hdr_block g d)" "region h 72 16 = region (hdr_block g d) 72 16"
    "entries_at g d = Some (off, n)" "length arr = n" "off + n \<le> dev_size d"
  shows "(r \<noteq> 0 \<and> same_disk d d') \<or> wrote_disk off arr d d'"
proof -
  obtain b d1 where 1: "gpt_get_block_size d = (b, d1)" by (cases "gpt_get_block_size d")
  note s1 = block_size_result(1) [OF 1]
  show ?thesis
  proof (cases "b = 0")
    case True
    then show ?thesis using assms(1) 1 s1 by (simp add: gpt_set_pentry_arr_def)
  next
    case False
    then have b: "b = dev_blksz d" using block_size_result(2) [OF 1] by simp
    obtain start k r3 a3 where p: "pentries_place b h = Some (start, k)"
      and w: "blk_rw True (sint start) arr (unat k) d1 = Some (r3, a3, d')"
      and r: "r = (if r3 \<noteq> 0 then -1 else 0)"
      using assms(1) 1 False by (auto simp: gpt_set_pentry_arr_def split: option.splits)
    note pl = pentries_place_entries_at [OF p [unfolded b] assms(3-5)]
    have "same_disk d1 d' \<and> r3 \<noteq> 0 \<or> wrote_disk off arr d1 d'"
      using blk_rw_write_effect(1) [OF w no_short_same [OF assms(2) s1]] pl assms(6,7) s1
      by (auto simp: same_diskD)
    then show ?thesis using r same_disk_trans [OF s1] same_wrote_disk [OF s1] by auto
  qed
qed

text \<open>A handle that was filled from this disk and has entries of the right size.\<close>

definition handle_for :: "gpt_disk \<Rightarrow> blkdev \<Rightarrow> byte list \<Rightarrow> byte list \<Rightarrow> bool" where
  "handle_for dsk d h arr \<longleftrightarrow> hdr dsk = Some h \<and> pentry_arr dsk = Some arr
     \<and> length h = length (hdr_block PRIMARY_GPT d)
     \<and> region h 72 16 = region (hdr_block PRIMARY_GPT d) 72 16
     \<and> length arr = length (entries PRIMARY_GPT d)"

lemma length_entries:
  assumes "gpt_layout d" "entries_at g d = Some (off, n)"
  shows "length (entries g d) = n" "off + n \<le> dev_size d"
  using assms dev.rd_length [of off n d]
  by (cases g; auto simp: entries_def elim!: gpt_layoutE)+

lemma primary_entries_written:
  assumes "gpt_layout d" "entries_at PRIMARY_GPT d = Some (off, n)" "length ys = n"
    and "wrote_disk off ys d d'"
  shows "gpt_layout d'" "hdr_block g d' = hdr_block g d" "entries SECONDARY_GPT d' = entries SECONDARY_GPT d"
    "entries PRIMARY_GPT d' = ys"
proof -
  obtain o2 where lay: "dev_ok d" "entries_at SECONDARY_GPT d = Some (o2, n)"
    "2 * unat (dev_blksz d) \<le> off" "off + n \<le> o2" "o2 + n + unat (dev_blksz d) \<le> dev_size d"
    using assms(1,2) by (auto elim: gpt_layoutE)
  have fit: "off + length ys \<le> dev_size d" using lay assms(3) by simp
  note sz = wrote_disk_size [OF assms(4) fit]
  note hdr = wrote_disk_hdr [OF assms(4) fit]
  have "disjoint_regions off (length ys) (hdr_off g d) (unat (dev_blksz d))" for g
    using lay(1,3-5) assms(3) unfolding dev_ok_def disjoint_regions_def
    by (cases g; simp only: hdr_off.simps; linarith)
  then show blk: "hdr_block g d' = hdr_block g d" for g using hdr(3) by blast
  have at: "entries_at g d' = entries_at g d" for g
    by (rule entries_at_cong) (use sz blk in auto)
  show "gpt_layout d'" using assms(1) sz(2,1) at by (rule layout_transfer)
  have "disjoint_regions off (length ys) o2 n"
    using lay assms(3) by (simp add: disjoint_regions_def)
  then show "entries SECONDARY_GPT d' = entries SECONDARY_GPT d"
    using sz(4) lay(2) at by (simp add: entries_def)
  show "entries PRIMARY_GPT d' = ys" using sz(3) assms(2,3) at by (simp add: entries_def)
qed

lemma primary_header_written:
  assumes "gpt_layout d" "wrote_disk (hdr_off PRIMARY_GPT d) h d d'"
    "length h = length (hdr_block PRIMARY_GPT d)"
    "region h 72 16 = region (hdr_block PRIMARY_GPT d) 72 16"
  shows "gpt_layout d'" "entries_at g d' = entries_at g d" "entries g d' = entries g d"
    "hdr_block PRIMARY_GPT d' = h" "hdr_block SECONDARY_GPT d' = hdr_block SECONDARY_GPT d"
  using header_written [OF assms] by simp_all

text \<open>
  C10: whatever fails, committing a handle leaves the secondary table of the
  disk unchanged (it is not written at all); if it returns 0 the primary table
  is the handle's header and entries.
\<close>

theorem gpt_disk_commit_effect:
  assumes "gpt_disk_commit dsk w = Some (r, w')" "sys_devs w (devpath dsk) = Some d"
    and "gpt_layout d" "no_short d" "handle_for dsk d h arr"
  shows "\<exists>d'. w' = with_dev w (devpath dsk) d' \<and> gpt_layout d'
    \<and> hdr_block SECONDARY_GPT d' = hdr_block SECONDARY_GPT d
    \<and> entries SECONDARY_GPT d' = entries SECONDARY_GPT d
    \<and> (r = 0 \<longrightarrow> hdr_block PRIMARY_GPT d' = h \<and> entries PRIMARY_GPT d' = arr)"
proof (cases "is_initialized dsk = GPT_DISK_INIT_MAGIC")
  case False
  then show ?thesis using assms by (auto simp: gpt_disk_commit_def intro!: exI [of _ d])
next
  case init: True
  let ?w = "with_dev w (devpath dsk)"
  have hf: "hdr dsk = Some h" "pentry_arr dsk = Some arr" "length h = length (hdr_block PRIMARY_GPT d)"
    "region h 72 16 = region (hdr_block PRIMARY_GPT d) 72 16"
    "length arr = length (entries PRIMARY_GPT d)"
    using assms(5) by (simp_all add: handle_for_def)
  obtain off n where at: "entries_at PRIMARY_GPT d = Some (off, n)" and ok: "dev_ok d"
    using assms(3) by (rule gpt_layoutE)
  have la: "length arr = n" using hf(5) length_entries [OF assms(3) at] by simp
  obtain r1 d1 where 1: "gpt_set_header h PRIMARY_GPT d = Some (r1, d1)"
    and rest: "if r1 \<noteq> 0 then r = -1 \<and> w' = ?w d1
      else \<exists>r2 d2. gpt_set_pentry_arr h arr d1 = Some (r2, d2)
        \<and> r = (if r2 \<noteq> 0 then -1 else 0) \<and> w' = ?w d2"
    using assms(1,2) init hf(1,2) by (auto simp: gpt_disk_commit_def split: if_splits)
  have "length h = unat (dev_blksz d)" using hf(3) length_hdr_block [OF ok] by simp
  then have eff1: "(r1 \<noteq> 0 \<and> same_disk d d1) \<or> wrote_disk (hdr_off PRIMARY_GPT d) h d d1"
    using gpt_set_header_effect [OF 1 ok assms(4)] by blast
  have S1: "gpt_layout d1 \<and> no_short d1 \<and> hdr_block SECONDARY_GPT d1 = hdr_block SECONDARY_GPT d
      \<and> entries SECONDARY_GPT d1 = entries SECONDARY_GPT d
      \<and> entries_at PRIMARY_GPT d1 = entries_at PRIMARY_GPT d
      \<and> (r1 = 0 \<longrightarrow> hdr_block PRIMARY_GPT d1 = h)"
    using eff1
  proof
    assume s: "r1 \<noteq> 0 \<and> same_disk d d1"
    then have "same_disk d d1" by simp
    from same_disk_entries [OF this] same_disk_hdr [OF this] no_short_same [OF assms(4) this]
    show ?thesis using assms(3) s by simp
  next
    assume wd: "wrote_disk (hdr_off PRIMARY_GPT d) h d d1"
    show ?thesis
      using primary_header_written [OF assms(3) wd hf(3,4)] no_short_wrote [OF assms(4) wd] by simp
  qed
  show ?thesis
  proof (cases "r1 = 0")
    case False
    then show ?thesis using rest S1 by auto
  next
    case True
    then obtain r2 d2 where 2: "gpt_set_pentry_arr h arr d1 = Some (r2, d2)"
      "r = (if r2 \<noteq> 0 then -1 else 0)" "w' = ?w d2"
      using rest by auto
    have blk1: "hdr_block PRIMARY_GPT d1 = h" "entries_at PRIMARY_GPT d1 = Some (off, n)"
      using S1 True at by simp_all
    have "off + n \<le> dev_size d1" using length_entries(2) blk1(2) S1 by blast
    then have "(r2 \<noteq> 0 \<and> same_disk d1 d2) \<or> wrote_disk off arr d1 d2"
      using gpt_set_pentry_arr_effect [OF 2(1), of PRIMARY_GPT off n] S1 blk1 la by simp
    then have "gpt_layout d2 \<and> hdr_block SECONDARY_GPT d2 = hdr_block SECONDARY_GPT d1
      \<and> entries SECONDARY_GPT d2 = entries SECONDARY_GPT d1
      \<and> (r2 = 0 \<longrightarrow> hdr_block PRIMARY_GPT d2 = h \<and> entries PRIMARY_GPT d2 = arr)"
      using primary_entries_written [OF _ blk1(2) la] S1 blk1(1)
        same_disk_entries [of d1 d2] same_disk_hdr [of d1 d2] by auto
    then show ?thesis using 2(2,3) S1 by auto
  qed
qed

section \<open>Reading, changing and writing back, when no call fails\<close>

lemma layout_long:
  assumes "gpt_layout d"
  shows "88 \<le> unat (dev_blksz d)" "dev_blksz d \<noteq> 0" "uint (dev_blksz d) \<noteq> 0"
proof -
  have ok: "dev_ok d" using assms by (rule layout_ok)
  obtain o1 n where "entries_at PRIMARY_GPT d = Some (o1, n)" using assms by (rule gpt_layoutE)
  then show *: "88 \<le> unat (dev_blksz d)"
    using length_hdr_block [OF ok, of PRIMARY_GPT]
    by (auto simp: entries_at_def table_length_def GET_4_BYTES_def PENTRY_SIZE_OFFSET_def
        split: if_splits)
  show nz: "dev_blksz d \<noteq> 0" using * by auto
  show "uint (dev_blksz d) \<noteq> 0" using nz by (simp add: uint_0_iff)
qed

lemma read_gpt_header_ok:
  assumes "dev_sched d = []" "gpt_layout d"
  shows "read_gpt_header g d = Some (Some (hdr_block g d), d)"
  using blk_rw_read_ok [of d "int (hdr_off g d)" "unat (dev_blksz d)"
      "map (dev_junk d) [0..<unat (dev_blksz d)]"] assms
    hdr_off_in [OF layout_ok [OF assms(2)], of g] layout_long(2) [OF assms(2)]
    header_offset_of_ok [OF assms(1) layout_ok [OF assms(2)]]
  by (simp add: read_gpt_header_def block_size_ok calls_ok hdr_block_def)

lemma pentries_place_ok:
  assumes "entries_at g d = Some (off, n)" "length h = length (hdr_block g d)"
    "region h 72 16 = region (hdr_block g d) 72 16"
  obtains start k where "pentries_place (dev_blksz d) h = Some (start, k)"
    "sint start = int off" "unat k = n"
proof -
  have "\<exists>start k. pentries_place (dev_blksz d) h = Some (start, k)"
    using assms(1) table_fields_cong(2) [OF assms(2,3)]
      table_fields_cong(1) [OF assms(2,3), of "dev_blksz d"]
    by (auto simp: pentries_place_def entries_at_def table_offset_def table_length_def
        split: if_splits)
  then show ?thesis using pentries_place_entries_at [OF _ assms(2,3,1)] that by blast
qed

lemma gpt_get_pentry_arr_ok:
  assumes "dev_sched d = []" "gpt_layout d"
  shows "gpt_get_pentry_arr (hdr_block g d) d = Some (Some (entries g d), d)"
proof -
  obtain off n where at: "entries_at g d = Some (off, n)"
    using assms(2) by (cases g) (auto elim: gpt_layoutE)
  obtain start k where "pentries_place (dev_blksz d) (hdr_block g d) = Some (start, k)"
    "sint start = int off" "unat k = n"
    using pentries_place_ok [OF at] by blast
  moreover have "blk_rw False (int off) (replicate n 0) n d = Some (0, entries g d, d)"
    using blk_rw_read_ok [of d "int off" n] assms(1) length_entries [OF assms(2) at] at
    by (simp add: entries_def)
  ultimately show ?thesis
    using assms layout_long(2) [OF assms(2)]
    by (simp add: gpt_get_pentry_arr_def block_size_ok calls_ok)
qed

lemma gpt_set_header_ok:
  assumes "dev_sched d = []" "gpt_layout d" "length h = unat (dev_blksz d)"
  shows "gpt_set_header h PRIMARY_GPT d = Some (0, dev_wr d (hdr_off PRIMARY_GPT d) h)"
  using blk_rw_write_ok [of d "int (hdr_off PRIMARY_GPT d)" "unat (dev_blksz d)" h] assms
    hdr_off_in [OF layout_ok [OF assms(2)], of PRIMARY_GPT] layout_long [OF assms(2)]
    header_offset_of_ok [OF assms(1) layout_ok [OF assms(2)], of PRIMARY_GPT]
  by (simp add: gpt_set_header_def block_size_ok hdr_off.simps)

lemma gpt_set_pentry_arr_ok:
  assumes "dev_sched d = []" "gpt_layout d" "length h = length (hdr_block g d)"
    "region h 72 16 = region (hdr_block g d) 72 16" "entries_at g d = Some (off, n)"
    "length arr = n"
  shows "gpt_set_pentry_arr h arr d = Some (0, dev_wr d off arr)"
proof -
  obtain start k where "pentries_place (dev_blksz d) h = Some (start, k)"
    "sint start = int off" "unat k = n"
    using pentries_place_ok [OF assms(5,3,4)] by blast
  then show ?thesis
    using blk_rw_write_ok [of d "int off" n arr] length_entries [OF assms(2,5)] assms(1,2,6)
      layout_long(2) [OF assms(2)]
    by (simp add: gpt_set_pentry_arr_def block_size_ok)
qed

text \<open>The disk that holds a partition, ready to be read.\<close>

definition disk_of :: "system \<Rightarrow> string \<Rightarrow> string \<Rightarrow> blkdev \<Rightarrow> bool" where
  "disk_of w dev path d \<longleftrightarrow> get_dev_path_from_partition_name w dev '''' = Some path
     \<and> sys_devs w path = Some d \<and> dev_sched d = [] \<and> gpt_layout d"

lemma gpt_get_header_ok:
  assumes "disk_of w dev path d"
  shows "gpt_get_header dev g w = Some (Some (hdr_block g d), w)"
  using assms by (simp add: disk_of_def gpt_get_header_def read_gpt_header_ok)

text \<open>
  Reading a disk that is in order succeeds and fills the handle.
\<close>

lemma gpt_disk_get_disk_info_ok:
  assumes "disk_of w dev path d" "devpath dsk = ''''"
    and "hdr_state crc (hdr_block PRIMARY_GPT d) = Some st" "92 \<le> unat (dev_blksz d)"
  shows "\<exists>dsk'. gpt_disk_get_disk_info crc dev dsk w = Some (0, dsk', w)
    \<and> handle_for dsk' d (hdr_block PRIMARY_GPT d) (entries PRIMARY_GPT d)
    \<and> hdr_bak dsk' = Some (hdr_block PRIMARY_GPT d)
    \<and> pentry_arr_bak dsk' = Some (entries PRIMARY_GPT d)
    \<and> unat (pentry_arr_size dsk') = length (entries PRIMARY_GPT d)
    \<and> unat (pentry_size dsk') = pentry_size_of d
    \<and> devpath dsk' = path \<and> is_initialized dsk' = GPT_DISK_INIT_MAGIC"
proof -
  let ?h = "hdr_block PRIMARY_GPT d"
  have d: "get_dev_path_from_partition_name w dev '''' = Some path" "sys_devs w path = Some d"
    "dev_sched d = []" "gpt_layout d"
    using assms(1) by (simp_all add: disk_of_def)
  have lh: "length ?h = unat (dev_blksz d)" using length_hdr_block [OF layout_ok [OF d(4)]] .
  obtain hsz where hsz: "GET_4_BYTES ?h HEADER_SIZE_OFFSET = Some hsz" "unat hsz \<le> length ?h"
    using assms(3) by (rule hdr_state_size)
  obtain off n where at: "entries_at PRIMARY_GPT d = Some (off, n)"
    using d(4) by (rule gpt_layoutE)
  obtain size count where sc: "GET_4_BYTES ?h PENTRY_SIZE_OFFSET = Some size"
    "GET_4_BYTES ?h PARTITION_COUNT_OFFSET = Some count" "unat (count * size) = n"
    using at by (auto simp: entries_at_def table_length_def split: if_splits)
  obtain sum where sum: "GET_4_BYTES ?h PARTITION_CRC_OFFSET = Some sum"
    using assms(4) lh GET_4_BYTES_defined [of ?h PARTITION_CRC_OFFSET]
    by (cases "GET_4_BYTES ?h PARTITION_CRC_OFFSET") (auto simp: PARTITION_CRC_OFFSET_def)
  show ?thesis
    using d hsz sc sum at length_entries(1) [OF d(4) at] assms(2)
    by (simp add: gpt_disk_get_disk_info_def gpt_get_header_ok [OF assms(1)] crc32_def
        disk_info_arrays_def gpt_get_pentry_arr_ok block_size_ok Let_def handle_for_def
        pentry_size_of_def)
qed

text \<open>Recomputing the sums seals the primary header over the new entries.\<close>

lemma gpt_disk_update_crc_primary:
  assumes "is_initialized dsk = GPT_DISK_INIT_MAGIC" "hdr dsk = Some h" "hdr_bak dsk = Some hb"
    "pentry_arr dsk = Some arr" "pentry_arr_bak dsk = Some arr_bak"
    "unat (pentry_arr_size dsk) = length arr" "length arr_bak = length arr"
    "hdr_state crc h = Some st" "length hb = length h" "92 \<le> length h"
  obtains dsk' h' where "gpt_disk_update_crc crc dsk = Some (0, dsk')"
    "set_table_crc crc arr h = Some h'" "hdr dsk' = Some h'" "pentry_arr dsk' = Some arr"
    "is_initialized dsk' = GPT_DISK_INIT_MAGIC" "devpath dsk' = devpath dsk"
proof -
  obtain hsz where hsz: "GET_4_BYTES h HEADER_SIZE_OFFSET = Some hsz" "unat hsz \<le> length h"
    using assms(8) by (rule hdr_state_size)
  obtain h' where h': "set_table_crc crc arr h = Some h'"
    using set_table_crc_total [OF assms(8,10)] by blast
  have *: "GET_4_BYTES (overwrite h 88 (le_bytes4 s)) 12 = Some hsz" for s
    using hsz assms(10)
    by (simp add: GET_4_overwrite_disjoint disjoint_regions_def HEADER_SIZE_OFFSET_def)
  have "\<exists>dsk'. gpt_disk_update_crc crc dsk = Some (0, dsk') \<and> hdr dsk' = Some h'
      \<and> pentry_arr dsk' = Some arr \<and> is_initialized dsk' = GPT_DISK_INIT_MAGIC
      \<and> devpath dsk' = devpath dsk"
    using assms hsz h' *
    by (simp add: gpt_disk_update_crc_def crc32_def set_table_crc_def seal_header_def model_defs)
  then show ?thesis using that h' by blast
qed

text \<open>
  C9: reading a disk that is in order, replacing the primary entries by others
  of the same length, updating the sums and committing all return 0. Afterwards
  the primary table holds the new entries, can be booted from, and the
  secondary table is as it was.
\<close>

theorem gpt_disk_edit_commit:
  assumes "disk_of w dev path d" "devpath dsk = ''''" "92 \<le> unat (dev_blksz d)"
    and "hdr_state crc (hdr_block PRIMARY_GPT d) = Some GPT_OK"
    and "length arr = length (entries PRIMARY_GPT d)"
  shows "\<exists>dsk1 dsk2 d'. gpt_disk_get_disk_info crc dev dsk w = Some (0, dsk1, w)
    \<and> gpt_disk_update_crc crc (dsk1\<lparr>pentry_arr := Some arr\<rparr>) = Some (0, dsk2)
    \<and> gpt_disk_commit dsk2 w = Some (0, with_dev w path d')
    \<and> table_ok crc PRIMARY_GPT d' \<and> entries PRIMARY_GPT d' = arr
    \<and> hdr_block SECONDARY_GPT d' = hdr_block SECONDARY_GPT d
    \<and> entries SECONDARY_GPT d' = entries SECONDARY_GPT d"
proof -
  let ?h = "hdr_block PRIMARY_GPT d"
  have d: "sys_devs w path = Some d" "dev_sched d = []" "gpt_layout d"
    using assms(1) by (simp_all add: disk_of_def)
  have lh: "length ?h = unat (dev_blksz d)" using length_hdr_block [OF layout_ok [OF d(3)]] .
  obtain dsk1 where info: "gpt_disk_get_disk_info crc dev dsk w = Some (0, dsk1, w)"
    and 1: "handle_for dsk1 d ?h (entries PRIMARY_GPT d)" "hdr_bak dsk1 = Some ?h"
    "pentry_arr_bak dsk1 = Some (entries PRIMARY_GPT d)"
    "unat (pentry_arr_size dsk1) = length (entries PRIMARY_GPT d)"
    "devpath dsk1 = path" "is_initialized dsk1 = GPT_DISK_INIT_MAGIC"
    using gpt_disk_get_disk_info_ok [OF assms(1,2,4,3)] by blast
  obtain dsk2 h' where 2: "gpt_disk_update_crc crc (dsk1\<lparr>pentry_arr := Some arr\<rparr>) = Some (0, dsk2)"
    "set_table_crc crc arr ?h = Some h'" "hdr dsk2 = Some h'" "pentry_arr dsk2 = Some arr"
    "is_initialized dsk2 = GPT_DISK_INIT_MAGIC" "devpath dsk2 = path"
    by (rule gpt_disk_update_crc_primary [of "dsk1\<lparr>pentry_arr := Some arr\<rparr>" ?h ?h arr
          "entries PRIMARY_GPT d" crc GPT_OK])
      (use 1 assms(3-5) lh in \<open>auto simp: handle_for_def\<close>)
  note f = set_table_crc_fields [OF 2(2)]
  obtain off n where at: "entries_at PRIMARY_GPT d = Some (off, n)"
    using d(3) by (rule gpt_layoutE)
  have la: "length arr = n" using assms(5) length_entries [OF d(3) at] by simp
  define d1 where "d1 = dev_wr d (hdr_off PRIMARY_GPT d) h'"
  define d2 where "d2 = dev_wr d1 off arr"
  have w1: "wrote_disk (hdr_off PRIMARY_GPT d) h' d d1" "wrote_disk off arr d1 d2"
    by (simp_all add: wrote_disk_def d1_def d2_def)
  note p1 = primary_header_written [OF d(3) w1(1) f(1,2)]
  have at1: "entries_at PRIMARY_GPT d1 = Some (off, n)" using p1(2) at by simp
  note p2 = primary_entries_written [OF p1(1) at1 la w1(2)]
  have "gpt_set_header h' PRIMARY_GPT d = Some (0, d1)"
    using gpt_set_header_ok [OF d(2,3)] f(1) lh by (simp add: d1_def)
  moreover have "gpt_set_pentry_arr h' arr d1 = Some (0, d2)"
    using gpt_set_pentry_arr_ok [OF _ p1(1) _ _ at1 la, of h'] p1(4) d(2)
    by (simp add: d1_def d2_def)
  ultimately have "gpt_disk_commit dsk2 w = Some (0, with_dev w path d2)"
    using 2 d(1) by (simp add: gpt_disk_commit_def)
  moreover have "hdr_state crc h' = Some GPT_OK" "GET_4_BYTES h' PARTITION_CRC_OFFSET = Some (crc arr)"
    using set_table_crc_state [OF 2(2)] hdr_state_signature [OF assms(4)] by simp_all
  then have "table_ok crc PRIMARY_GPT d2" using p2(2,4) p1(4) by (simp add: table_ok_def)
  ultimately show ?thesis using info 2(1) p1 p2 by auto
qed

text \<open>
  Reading a disk that is in order succeeds and does not change it, and the
  handle holds the primary header and entries twice, the second time as the
  "backup" ones: the secondary table is never read. So an entry looked up in the
  backup array is the primary table's first match, whatever the secondary table
  holds.
\<close>

theorem gpt_disk_reads_primary:
  assumes "disk_of w dev path d" "devpath dsk = ''''" "92 \<le> unat (dev_blksz d)"
    and "hdr_state crc (hdr_block PRIMARY_GPT d) = Some st"
    and "entries PRIMARY_GPT d = concat es" "entries_ok es" "pentry_size_of d = PTN_ENTRY_SIZE"
    and "0 \<notin> set (bytes_of part)" "length part \<le> 32"
  shows "\<exists>dsk'. gpt_disk_get_disk_info crc dev dsk w = Some (0, dsk', w)
    \<and> hdr dsk' = Some (hdr_block PRIMARY_GPT d) \<and> hdr_bak dsk' = hdr dsk'
    \<and> pentry_arr dsk' = Some (concat es) \<and> pentry_arr_bak dsk' = pentry_arr dsk'
    \<and> (\<forall>inst. gpt_disk_get_pentry dsk' part inst =
        Some (map_option (\<lambda>i. i * PTN_ENTRY_SIZE)
          (find (\<lambda>i. entry_matches (bytes_of part) (es ! i)) [0..<length es])))"
proof -
  obtain dsk' where 1: "gpt_disk_get_disk_info crc dev dsk w = Some (0, dsk', w)"
    "handle_for dsk' d (hdr_block PRIMARY_GPT d) (concat es)"
    "hdr_bak dsk' = Some (hdr_block PRIMARY_GPT d)" "pentry_arr_bak dsk' = Some (concat es)"
    "unat (pentry_arr_size dsk') = length (concat es)" "unat (pentry_size dsk') = PTN_ENTRY_SIZE"
    "is_initialized dsk' = GPT_DISK_INIT_MAGIC"
    using gpt_disk_get_disk_info_ok [OF assms(1,2,4,3)] assms(5,7) by auto
  have "length (bytes_of part) + 4 \<le> MAX_GPT_NAME_SIZE div 2"
    using assms(9) by (simp add: MAX_GPT_NAME_SIZE_def)
  note seek = seek_entries [OF assms(6,8) this, of 0]
  show ?thesis
    using 1 seek by (intro exI [of _ dsk']) (simp add: handle_for_def gpt_disk_get_pentry_def)
qed

end
