(* ===== verification/Gpt_Example.thy ===== *)
theory Gpt_Example
  imports Gpt_Tables Gpt_Total Gpt_Disk
begin

text \<open>
  A small disk on which the theorems about gpt-utils.cpp are applied: blocks of
  128 bytes, the primary header in block 1, the primary array of two entries
  (\<open>abl\<close> and \<open>ablbak\<close>) in blocks 2 and 3, the secondary array in blocks 4 and 5
  and the secondary header in block 6. The checksum is the sum of the bytes.
\<close>

definition sum_crc :: crc_fun where
  "sum_crc bs = fold (\<lambda>b s. s + ucast b) bs 0"

definition demo_entry :: "string \<Rightarrow> byte list" where
  "demo_entry name = overwrite (replicate 128 0) 56 (concat (map (\<lambda>c. [c, 0]) (bytes_of name)))"

definition demo_entries :: "byte list list" where
  "demo_entries = [demo_entry ''abl'', demo_entry ''ablbak'']"

definition demo_table :: "byte list" where
  "demo_table = concat demo_entries"

text \<open>A header of the array at block \<open>lba\<close>, without its sums and with them.\<close>

definition demo_blank :: "byte \<Rightarrow> byte list" where
  "demo_blank lba = GPT_SIGNATURE @ [0, 1, 0, 92, 0, 0, 0] @ replicate 56 0 @ [lba, 0, 0, 0, 0, 0, 0, 0]
     @ [2, 0, 0, 0] @ [128, 0, 0, 0] @ replicate 40 0"

definition demo_header :: "byte \<Rightarrow> byte list" where
  "demo_header lba = (case set_table_crc sum_crc demo_table (demo_blank lba) of Some h \<Rightarrow> h)"

definition demo_disk :: blkdev where
  "demo_disk = \<lparr>dev_bytes = replicate 128 0 @ demo_header 2 @ demo_table @ demo_table @ demo_header 4,
     dev_blksz = 128, dev_junk = (\<lambda>_. 0), dev_sched = []\<rparr>"

lemma demo_primary_ok: "hdr_state sum_crc (hdr_block PRIMARY_GPT demo_disk) = Some GPT_OK"
  by code_simp

lemma demo_secondary_ok: "hdr_state sum_crc (hdr_block SECONDARY_GPT demo_disk) = Some GPT_OK"
  by code_simp

lemma demo_layout: "gpt_layout demo_disk"
  by code_simp

lemma demo_phase: "update_phase sum_crc demo_disk = Some UPDATE_MAIN"
  by code_simp

lemma demo_entries_primary: "entries PRIMARY_GPT demo_disk = demo_table"
  by code_simp

lemma demo_entries_ok: "entries_ok demo_entries"
  by code_simp

lemma demo_chain: "chain_entries True BACKUP_BOOT (entries PRIMARY_GPT demo_disk)
    (pentry_size_of demo_disk) = Some (0, concat (rev demo_entries))"
  by code_simp

lemma demo_inv: "update_inv sum_crc demo_disk"
proof -
  have "array_ok sum_crc PRIMARY_GPT demo_disk" by code_simp
  moreover have "dev_sched demo_disk = []" by (simp add: demo_disk_def)
  ultimately show ?thesis
    using demo_layout demo_primary_ok by (simp add: update_inv_def table_ok_array)
qed

text \<open>A UFS device with the disk, and A/B partitions for xbl.\<close>

definition demo_system :: system where
  "demo_system = \<lparr>sys_bootdevice = Some ''1d84000.ufshc'', sys_exists = (\<lambda>p. p \<noteq> XBL_PRIMARY),
     sys_link = (\<lambda>p. Some (if p = XBL_AB_SECONDARY then ''/dev/block/sdc1'' else ''/dev/block/sda12'')),
     sys_dir = (\<lambda>p. Some [''.'', ''..'', ''sg2'']),
     sys_devs = (\<lambda>p. if p = ''/dev/block/sda'' then Some demo_disk else None),
     sys_boot_luns = [], sys_sched = []\<rparr>"

lemma demo_ufs: "gpt_utils_is_ufs_device demo_system"
  by code_simp

lemma demo_chain': "chain_entries (gpt_utils_is_ufs_device demo_system) BACKUP_BOOT
    (entries PRIMARY_GPT demo_disk) (pentry_size_of demo_disk) = Some (0, concat (rev demo_entries))"
  by (simp only: demo_ufs demo_chain simp_thms)

lemma demo_dev: "sys_devs demo_system ''/dev/block/sda'' = Some demo_disk"
  by (simp add: demo_system_def)

lemma demo_disk_of: "disk_of demo_system ''abl'' ''/dev/block/sda'' demo_disk"
proof -
  have "get_dev_path_from_partition_name demo_system ''abl'' '''' = Some ''/dev/block/sda''"
    by code_simp
  moreover have "dev_sched demo_disk = []" by (simp add: demo_disk_def)
  ultimately show ?thesis using demo_dev demo_layout by (simp add: disk_of_def)
qed

text \<open>
  The same disk when the 24th call on it fails: in the first stage that is the
  write of the secondary array, after the secondary header was written.
\<close>

definition bad_disk :: blkdev where
  "bad_disk = demo_disk\<lparr>dev_sched := replicate 23 Succeeds @ [Fails]\<rparr>"

definition bad_system :: system where
  "bad_system = with_dev demo_system ''/dev/block/sda'' bad_disk"

lemma bad_disk_facts:
  "update_inv sum_crc bad_disk" "no_short bad_disk" "gpt_layout bad_disk"
  "gpt_sane sum_crc demo_disk" "gpt_sane sum_crc bad_disk"
proof -
  have *: "dev_bytes bad_disk = dev_bytes demo_disk" "dev_blksz bad_disk = dev_blksz demo_disk"
    by (simp_all add: bad_disk_def)
  have blk: "hdr_block g bad_disk = hdr_block g demo_disk" for g
    using * by (cases g) (simp_all add: hdr_block_def dev_rd_def hdr_off.simps dev_size_def)
  then have at: "entries_at g bad_disk = entries_at g demo_disk" for g
    using * by (simp add: entries_at_def)
  have rd: "dev_rd bad_disk = dev_rd demo_disk" using * by (intro ext) (simp add: dev_rd_def)
  have es: "entries g bad_disk = entries g demo_disk" for g unfolding entries_def at rd ..
  have sz: "dev_size bad_disk = dev_size demo_disk" using * by (simp add: dev_size_def)
  have "gpt_layout bad_disk = gpt_layout demo_disk"
    unfolding gpt_layout_def at dev_ok_def sz * ..
  then show lay: "gpt_layout bad_disk" using demo_layout by simp
  show ns: "no_short bad_disk" by (simp add: no_short_def bad_disk_def demo_disk_def)
  have "hdr_state sum_crc (hdr_block g demo_disk) \<noteq> None" for g
    using demo_primary_ok demo_secondary_ok by (cases g) simp_all
  moreover have "pentry_size_of demo_disk = PTN_ENTRY_SIZE" "92 \<le> unat (dev_blksz demo_disk)"
    by code_simp+
  ultimately show sane: "gpt_sane sum_crc demo_disk"
    using demo_inv demo_entries_ok demo_entries_primary
    by (auto simp: gpt_sane_def demo_table_def)
  show inv: "update_inv sum_crc bad_disk"
    using demo_inv lay ns blk es by (auto simp: update_inv_def table_ok_def array_ok_def)
  have "pentry_size_of bad_disk = pentry_size_of demo_disk" by (simp add: pentry_size_of_def blk)
  then show "gpt_sane sum_crc bad_disk"
    using inv sane blk es * by (simp add: gpt_sane_def)
qed

lemma systems_sane: "all_sane sum_crc demo_system" "all_sane sum_crc bad_system"
  using bad_disk_facts(4,5) by (auto simp: all_sane_def demo_system_def bad_system_def with_dev_def)

section \<open>The staged update\<close>

lemma boot_update_failsafe_witness:
  "\<exists>r w' d'. prepare_boot_update sum_crc UPDATE_MAIN bad_system = Some (r, w')
    \<and> sys_devs w' ''/dev/block/sda'' = Some d' \<and> update_inv sum_crc d'"
proof -
  obtain r w' where "prepare_boot_update sum_crc UPDATE_MAIN bad_system = Some (r, w')"
    using prepare_boot_update_step [OF systems_sane(2)] by blast
  moreover have "sys_devs bad_system ''/dev/block/sda'' = Some bad_disk"
    by (simp add: bad_system_def with_dev_def)
  ultimately show ?thesis using boot_update_failsafe bad_disk_facts(1) by blast
qed

lemma boot_update_total_witness:
  "\<exists>rs w'. run_stages sum_crc [UPDATE_MAIN, UPDATE_BACKUP, UPDATE_MAIN, UPDATE_FINALIZE] bad_system
    = Some (rs, w') \<and> length rs = 4"
  using boot_update_total [OF systems_sane(2),
      of "[UPDATE_MAIN, UPDATE_BACKUP, UPDATE_MAIN, UPDATE_FINALIZE]"] by auto

lemma boot_update_cycle_witness:
  "\<exists>d1 d2 d3. prepare_partitions sum_crc UPDATE_MAIN ''/dev/block/sda'' demo_system
      = Some (0, with_dev demo_system ''/dev/block/sda'' d1)
    \<and> entries SECONDARY_GPT d1 = concat (rev demo_entries)
    \<and> prepare_partitions sum_crc UPDATE_BACKUP ''/dev/block/sda''
        (with_dev demo_system ''/dev/block/sda'' d1) = Some (0, with_dev demo_system ''/dev/block/sda'' d2)
    \<and> prepare_partitions sum_crc UPDATE_FINALIZE ''/dev/block/sda''
        (with_dev demo_system ''/dev/block/sda'' d2) = Some (0, with_dev demo_system ''/dev/block/sda'' d3)
    \<and> entries SECONDARY_GPT d3 = concat demo_entries"
proof -
  have sched: "dev_sched demo_disk = []" by (simp add: demo_disk_def)
  have "\<not> sys_exists demo_system XBL_PRIMARY" by (simp add: demo_system_def)
  from boot_update_cycle [OF demo_dev sched demo_inv demo_phase this demo_chain']
  show ?thesis using demo_entries_primary by (auto simp: demo_table_def)
qed

lemma prepare_partitions_other_phase_witness:
  "prepare_partitions sum_crc UPDATE_FINALIZE ''/dev/block/sda'' demo_system = Some (-1, demo_system)"
proof -
  have sched: "dev_sched demo_disk = []" by (simp add: demo_disk_def)
  have ok: "dev_ok demo_disk" using demo_layout by (simp add: gpt_layout_def)
  show ?thesis
    using prepare_partitions_other_phase [OF demo_dev sched ok demo_phase, of UPDATE_FINALIZE] by simp
qed

lemma set_boot_chain_correct_witness:
  "\<exists>d'. gpt2_set_boot_chain sum_crc True BACKUP_BOOT demo_disk = Some (0, d')
    \<and> gpt_boot_chain_swap True (entries PRIMARY_GPT demo_disk) 128 = Some (0, entries SECONDARY_GPT d')"
proof -
  have sched: "dev_sched demo_disk = []" by (simp add: demo_disk_def)
  have sum: "GET_4_BYTES (hdr_block PRIMARY_GPT demo_disk) PARTITION_CRC_OFFSET
      = Some (sum_crc (entries PRIMARY_GPT demo_disk))"
    using demo_inv by (simp add: update_inv_def array_ok_def)
  have sz: "pentry_size_of demo_disk = 128" by code_simp
  obtain d' where run: "gpt2_set_boot_chain sum_crc True BACKUP_BOOT demo_disk = Some (0, d')"
    using gpt2_set_boot_chain_runs [OF sched demo_layout sum demo_secondary_ok demo_chain] by blast
  show ?thesis
    using set_boot_chain_correct [OF run demo_layout no_short_ok [OF sched] demo_secondary_ok] run sz
    by auto
qed

section \<open>Single operations\<close>

lemma boot_chain_swap_correct_witness:
  "\<exists>es'. gpt_boot_chain_swap True demo_table 128 = Some (0, concat es')
    \<and> gpt_boot_chain_swap True (concat es') 128 = Some (0, demo_table)"
proof -
  have "(\<exists>n \<in> set (swap_names True). has_backup n demo_entries)" by code_simp
  then show ?thesis
    using boot_chain_swap_correct [OF demo_entries_ok, of True]
    by (auto simp: demo_table_def PTN_ENTRY_SIZE_def)
qed

lemma pentry_seek_first_witness:
  "gpt_pentry_seek (bytes_of ''abl'') demo_table 128 256 128 = Some (Some 128)"
proof -
  have len: "length (concat demo_entries) = 256" by code_simp
  have m: "entry_matches (bytes_of ''abl'') (demo_entries ! 1)" by code_simp
  have n: "0 \<notin> set (bytes_of ''abl'')" "length (bytes_of ''abl'') \<le> 32" by code_simp+
  have two: "length demo_entries = 2" by (simp add: demo_entries_def)
  obtain found where f: "gpt_pentry_seek (bytes_of ''abl'') demo_table 128 256 128 = Some found"
    and c: "case found of None \<Rightarrow> \<forall>i. 1 \<le> i \<and> i < length demo_entries \<longrightarrow>
        \<not> entry_matches (bytes_of ''abl'') (demo_entries ! i)
      | Some p \<Rightarrow> \<exists>i. p = i * 128 \<and> 1 \<le> i \<and> i < length demo_entries
        \<and> region (concat demo_entries) p 128 = demo_entries ! i
        \<and> entry_matches (bytes_of ''abl'') (demo_entries ! i)
        \<and> (\<forall>j. 1 \<le> j \<and> j < i \<longrightarrow> \<not> entry_matches (bytes_of ''abl'') (demo_entries ! j))"
    using pentry_seek_first [OF demo_entries_ok n, of 1] unfolding len demo_table_def PTN_ENTRY_SIZE_def
    by auto
  have "found \<noteq> None" using c m two by (auto split: option.splits)
  then have "found = Some 128" using c two by auto
  then show ?thesis using f by simp
qed

text \<open>A write of three bytes of which two are moved counts as a success.\<close>

lemma blk_rw_outcome_witness:
  "\<exists>d'. blk_rw True 1 [7, 8, 9] 3
      \<lparr>dev_bytes = [1, 2, 3, 4, 5], dev_blksz = 1, dev_junk = (\<lambda>i. 0), dev_sched = [Succeeds, Short 2]\<rparr>
    = Some (0, [7, 8, 9], d') \<and> dev_bytes d' = [1, 7, 8, 4, 5]"
  using blk_rw_outcome [of True 1 "[7, 8, 9]" "\<lparr>dev_bytes = [1, 2, 3, 4, 5], dev_blksz = 1,
    dev_junk = (\<lambda>i. 0), dev_sched = [Succeeds, Short 2]\<rparr>"]
  by (auto simp: outcome_at_def numeral_3_eq_3)

lemma set_state_read_back_witness:
  "\<exists>d1 d2. gpt_set_state sum_crc PRIMARY_GPT GPT_BAD_SIGNATURE demo_disk = Some (0, d1)
    \<and> gpt_get_state sum_crc PRIMARY_GPT d1 = Some (0, GPT_BAD_SIGNATURE, d2)"
proof -
  have sched: "dev_sched demo_disk = []" by (simp add: demo_disk_def)
  obtain d1 where 1: "gpt_set_state sum_crc PRIMARY_GPT GPT_BAD_SIGNATURE demo_disk = Some (0, d1)"
    "dev_sched d1 = []" "gpt_layout d1" "hdr_state sum_crc (hdr_block PRIMARY_GPT d1) = Some GPT_BAD_SIGNATURE"
    by (rule set_state_runs [OF sched demo_layout no_short_ok [OF sched] demo_primary_ok,
          of GPT_BAD_SIGNATURE]) auto
  obtain st where 2: "gpt_get_state sum_crc PRIMARY_GPT d1 = Some (0, st, d1)"
    using gpt_get_state_ok [OF 1(2) layout_ok [OF 1(3)] 1(4)] by blast
  show ?thesis
    using set_state_read_back [OF 1(1) demo_layout no_short_ok [OF sched] 2] 1(1) 2 by auto
qed

lemma set_xbl_boot_partition_effect_witness:
  "\<exists>w' dev. gpt_utils_set_xbl_boot_partition BACKUP_BOOT demo_system = (0, w')
    \<and> xbl_of_chain BACKUP_BOOT demo_system dev \<and> sys_boot_luns w' = [(''/dev/sg2'', 2)]"
proof -
  have r: "fst (gpt_utils_set_xbl_boot_partition BACKUP_BOOT demo_system) = 0" by code_simp
  obtain w' where w: "gpt_utils_set_xbl_boot_partition BACKUP_BOOT demo_system = (0, w')"
    using r by (cases "gpt_utils_set_xbl_boot_partition BACKUP_BOOT demo_system") auto
  have "sys_boot_luns demo_system = []" by (simp add: demo_system_def)
  then obtain dev node where e: "xbl_of_chain BACKUP_BOOT demo_system dev"
    "scsi_node_of demo_system dev node" "sys_boot_luns w' = [(node, 2)]"
    using set_xbl_boot_partition_effect [OF w] by auto
  have "list_all (\<lambda>dev. get_scsi_node_from_bootdevice demo_system dev = Some ''/dev/sg2'')
      [XBL_BACKUP, XBL_AB_SECONDARY]"
    by code_simp
  then have "get_scsi_node_from_bootdevice demo_system dev = Some ''/dev/sg2''"
    using e(1) by (auto simp: xbl_of_chain_def xbl_paths)
  then have "node = ''/dev/sg2''" using e(2) by (simp flip: get_scsi_node_iff)
  then show ?thesis using w e by blast
qed

section \<open>The handle of a disk\<close>

lemma demo_92: "92 \<le> unat (dev_blksz demo_disk)"
  by (simp add: demo_disk_def)

lemma gpt_disk_reads_primary_witness:
  "\<exists>dsk'. gpt_disk_get_disk_info sum_crc ''abl'' gpt_disk_alloc demo_system = Some (0, dsk', demo_system)
    \<and> gpt_disk_get_pentry dsk' ''abl'' SECONDARY_GPT = Some (Some 0)"
proof -
  have n: "0 \<notin> set (bytes_of ''abl'')" "length ''abl'' \<le> 32"
    "pentry_size_of demo_disk = PTN_ENTRY_SIZE" "devpath gpt_disk_alloc = ''''"
    "find (\<lambda>i. entry_matches (bytes_of ''abl'') (demo_entries ! i)) [0..<length demo_entries] = Some 0"
    by code_simp+
  from gpt_disk_reads_primary [OF demo_disk_of n(4) demo_92 demo_primary_ok
      demo_entries_primary [unfolded demo_table_def] demo_entries_ok n(3,1,2)]
  show ?thesis using n(5) by auto
qed

lemma gpt_disk_edit_commit_witness:
  "\<exists>dsk1 dsk2 d'. gpt_disk_get_disk_info sum_crc ''abl'' gpt_disk_alloc demo_system
      = Some (0, dsk1, demo_system)
    \<and> gpt_disk_update_crc sum_crc (dsk1\<lparr>pentry_arr := Some (replicate 256 0)\<rparr>) = Some (0, dsk2)
    \<and> gpt_disk_commit dsk2 demo_system = Some (0, with_dev demo_system ''/dev/block/sda'' d')
    \<and> entries PRIMARY_GPT d' = replicate 256 0"
proof -
  have n: "devpath gpt_disk_alloc = ''''"
    "length (replicate 256 0 :: byte list) = length (entries PRIMARY_GPT demo_disk)"
    by code_simp+
  from gpt_disk_edit_commit [OF demo_disk_of n(1) demo_92 demo_primary_ok n(2)]
  show ?thesis by blast
qed

text \<open>A handle for the disk with an array of zeros, committed while calls fail.\<close>

definition demo_handle :: gpt_disk where
  "demo_handle = gpt_disk_alloc\<lparr>hdr := Some (hdr_block PRIMARY_GPT demo_disk),
     pentry_arr := Some (replicate 256 0), devpath := ''/dev/block/sda'',
     is_initialized := GPT_DISK_INIT_MAGIC\<rparr>"

lemma gpt_disk_commit_effect_witness:
  "\<exists>r d'. gpt_disk_commit demo_handle bad_system = Some (r, with_dev bad_system ''/dev/block/sda'' d')
    \<and> entries SECONDARY_GPT d' = entries SECONDARY_GPT bad_disk"
proof -
  have "map_option fst (gpt_disk_commit demo_handle bad_system) \<noteq> None" by code_simp
  then obtain r w' where run: "gpt_disk_commit demo_handle bad_system = Some (r, w')" by auto
  have "length (hdr_block PRIMARY_GPT demo_disk) = length (hdr_block PRIMARY_GPT bad_disk)"
    "region (hdr_block PRIMARY_GPT demo_disk) 72 16 = region (hdr_block PRIMARY_GPT bad_disk) 72 16"
    "length (replicate 256 (0 :: byte)) = length (entries PRIMARY_GPT bad_disk)"
    by code_simp+
  then have h: "handle_for demo_handle bad_disk (hdr_block PRIMARY_GPT demo_disk) (replicate 256 0)"
    by (simp add: handle_for_def demo_handle_def)
  have p: "devpath demo_handle = ''/dev/block/sda''" by (simp add: demo_handle_def)
  have "sys_devs bad_system (devpath demo_handle) = Some bad_disk" by (simp add: p bad_system_def)
  from gpt_disk_commit_effect [OF run this bad_disk_facts(3,2) h] show ?thesis
    using run by (auto simp: p)
qed

end
