(* ===== verification/Text.thy ===== *)
theory Text
  imports Prelude
begin

text \<open>
  The string functions of the standard and the Android base library the code
  calls: \<open>std::string::find\<close>, \<open>android::base::Trim\<close>, \<open>strtok\<close>, splitting at a
  delimiter; with the facts the components use of them.
\<close>

definition c_isspace :: "char \<Rightarrow> bool" where
  "c_isspace c \<longleftrightarrow> c \<in> {CHR 0x20, CHR 0x09, CHR 0x0A, CHR 0x0B, CHR 0x0C, CHR 0x0D}"

definition Trim :: "string \<Rightarrow> string" where
  "Trim s = rev (dropWhile c_isspace (rev (dropWhile c_isspace s)))"

definition starts_with :: "string \<Rightarrow> string \<Rightarrow> bool" where
  "starts_with s pre \<longleftrightarrow> take (length pre) s = pre"

definition ends_with :: "string \<Rightarrow> string \<Rightarrow> bool" where
  "ends_with s suf \<longleftrightarrow> length suf \<le> length s \<and> drop (length s - length suf) s = suf"

text \<open>The index of the first occurrence; \<open>None\<close> is \<open>npos\<close>.\<close>

fun str_find :: "string \<Rightarrow> string \<Rightarrow> nat option" where
  "str_find [] pat = (if pat = [] then Some 0 else None)"
| "str_find (c # s) pat =
     (if starts_with (c # s) pat then Some 0 else map_option Suc (str_find s pat))"

definition str_contains :: "string \<Rightarrow> string \<Rightarrow> bool" where
  "str_contains s pat \<longleftrightarrow> str_find s pat \<noteq> None"

text \<open>\<open>substr (pos, n)\<close>, with the exception for a position past the end.\<close>

definition substr :: "string \<Rightarrow> nat \<Rightarrow> nat \<Rightarrow> string option" where
  "substr s pos n = (if length s < pos then None else Some (take n (drop pos s)))"

text \<open>The first call of \<open>strtok (s, delimiter)\<close>, the null pointer when no token is left.\<close>

definition strtok_first :: "string \<Rightarrow> char \<Rightarrow> string option" where
  "strtok_first s d =
     (let t = dropWhile (\<lambda>c. c = d) s in
      if t = [] then None else Some (takeWhile (\<lambda>c. c \<noteq> d) t))"

text \<open>\<open>std::getline (stream, token, delimiter)\<close> until the stream ends.\<close>

fun getlines_acc :: "char \<Rightarrow> string \<Rightarrow> string \<Rightarrow> string list" where
  "getlines_acc d acc [] = (if acc = [] then [] else [rev acc])"
| "getlines_acc d acc (c # s) =
     (if c = d then rev acc # getlines_acc d [] s else getlines_acc d (c # acc) s)"

definition getlines :: "char \<Rightarrow> string \<Rightarrow> string list" where
  "getlines d s = getlines_acc d [] s"

section \<open>Trim\<close>

lemma Trim_Nil [simp]: "Trim [] = []"
  by (simp add: Trim_def)

lemma dropWhile_hd: "dropWhile P s \<noteq> [] \<Longrightarrow> \<not> P (hd (dropWhile P s))"
  by (rule hd_dropWhile)

lemma Trim_id:
  assumes "s = [] \<or> \<not> c_isspace (hd s) \<and> \<not> c_isspace (last s)"
  shows "Trim s = s"
proof (cases "s = []")
  case False
  then have "dropWhile c_isspace s = s" using assms by (cases s) auto
  moreover have "dropWhile c_isspace (rev s) = rev s"
    using assms False by (cases s rule: rev_cases) auto
  ultimately show ?thesis by (simp add: Trim_def)
qed simp

lemma Trim_ends:
  assumes "Trim s \<noteq> []"
  shows "\<not> c_isspace (hd (Trim s)) \<and> \<not> c_isspace (last (Trim s))"
proof -
  let ?t = "dropWhile c_isspace s"
  let ?r = "dropWhile c_isspace (rev ?t)"
  have ne: "?r \<noteq> []" "Trim s = rev ?r" using assms by (auto simp: Trim_def)
  have "\<not> c_isspace (hd ?r)" using ne(1) by (rule hd_dropWhile)
  then have l: "\<not> c_isspace (last (Trim s))" using ne by (simp add: last_rev)
  obtain u where u: "rev ?t = u @ ?r" by (metis takeWhile_dropWhile_id)
  then have t: "?t = Trim s @ rev u" using ne(2) by (metis rev_append rev_rev_ident)
  have "?t \<noteq> []" using ne(1) by (metis dropWhile.simps(1) rev.simps(1))
  then have "\<not> c_isspace (hd ?t)" by (rule hd_dropWhile)
  then have "\<not> c_isspace (hd (Trim s))" using t assms by simp
  then show ?thesis using l by blast
qed

lemma Trim_idem [simp]: "Trim (Trim s) = Trim s"
  using Trim_ends [of s] by (intro Trim_id) auto

lemma Trim_newline: "s = [] \<or> \<not> c_isspace (hd s) \<and> \<not> c_isspace (last s) \<Longrightarrow>
  Trim (s @ [CHR 0x0A]) = s"
proof -
  assume a: "s = [] \<or> \<not> c_isspace (hd s) \<and> \<not> c_isspace (last s)"
  have nl: "c_isspace (CHR 0x0A)" by (simp add: c_isspace_def)
  show ?thesis
  proof (cases "s = []")
    case True
    then show ?thesis using nl by (simp add: Trim_def)
  next
    case False
    then have "dropWhile c_isspace (s @ [CHR 0x0A]) = s @ [CHR 0x0A]"
      using a by (cases s) auto
    then have "Trim (s @ [CHR 0x0A]) = rev (dropWhile c_isspace (rev s))"
      using nl by (simp add: Trim_def)
    also have "dropWhile c_isspace (rev s) = rev s"
      using a False by (cases s rule: rev_cases) auto
    finally show ?thesis by simp
  qed
qed

section \<open>Finding\<close>

lemma starts_with_Nil [simp]: "starts_with s []"
  by (simp add: starts_with_def)

lemma starts_with_append: "starts_with (pre @ s) pre"
  by (simp add: starts_with_def)

lemma starts_with_Cons: "starts_with (c # s) (p # ps) \<longleftrightarrow> c = p \<and> starts_with s ps"
  by (simp add: starts_with_def)

lemma str_find_char:
  assumes "c \<notin> set pre"
  shows "str_find (pre @ c # s) [c] = Some (length pre)"
  using assms by (induction pre) (auto simp: starts_with_Cons)

lemma str_find_char_None: "c \<notin> set s \<Longrightarrow> str_find s [c] = None"
  by (induction s) (auto simp: starts_with_Cons)

lemma str_find_bound: "str_find s pat = Some i \<Longrightarrow> i + length pat \<le> length s"
proof (induction s arbitrary: i)
  case (Cons c s)
  have "starts_with (c # s) pat \<Longrightarrow> length pat \<le> length (c # s)"
    unfolding starts_with_def by (metis length_take min.cobounded1)
  then show ?case using Cons by (auto split: if_splits)
qed (auto split: if_splits)

lemma str_find_occurs: "str_find s pat = Some i \<Longrightarrow> starts_with (drop i s) pat"
  by (induction s arbitrary: i) (auto split: if_splits)

lemma str_find_append: "str_contains (pre @ pat @ post) pat"
proof (induction pre)
  case Nil
  have "starts_with (pat @ post) pat" by (rule starts_with_append)
  then show ?case by (cases "pat @ post") (auto simp: str_contains_def)
next
  case (Cons c pre)
  then show ?case by (auto simp: str_contains_def)
qed

lemma strtok_first_plain:
  assumes "s \<noteq> []" "d \<notin> set s"
  shows "strtok_first (s @ d # t) d = Some s"
proof -
  have "dropWhile (\<lambda>c. c = d) (s @ d # t) = s @ d # t" using assms by (cases s) auto
  moreover have "takeWhile (\<lambda>c. c \<noteq> d) (s @ d # t) = s" using assms(2) by (induction s) auto
  ultimately show ?thesis by (simp add: strtok_first_def)
qed

section \<open>Splitting\<close>

lemma getlines_acc_concat:
  assumes "d \<notin> set acc" "\<forall>l \<in> set ls. d \<notin> set l" "ls \<noteq> []"
  shows "getlines_acc d acc (concat (map (\<lambda>l. l @ [d]) ls)) =
    (rev acc @ hd ls) # tl ls"
  using assms
proof (induction ls arbitrary: acc)
  case (Cons l ls)
  have step: "getlines_acc d acc (l @ d # rest) = (rev acc @ l) # getlines_acc d [] rest"
    if "d \<notin> set l" for acc l rest
    using that by (induction l arbitrary: acc) auto
  show ?case
  proof (cases "ls = []")
    case True
    then show ?thesis using Cons.prems step [of l acc "[]"] by simp
  next
    case False
    then show ?thesis using Cons.prems Cons.IH [of "[]"] step by (cases ls) auto
  qed
qed simp

text \<open>Lines that were joined with the delimiter are found again.\<close>

lemma getlines_join:
  assumes "\<forall>l \<in> set ls. d \<notin> set l"
  shows "getlines d (concat (map (\<lambda>l. l @ [d]) ls)) = ls"
  using getlines_acc_concat [of d "[]" ls] assms by (cases ls) (auto simp: getlines_def)

end
