(* ===== verification/Sysfs.thy ===== *)
theory Sysfs
  imports Text
begin

text \<open>
  The nodes of sysfs, configfs and procfs that the services read and write. What
  a node says after a write is up to its driver: \<open>fs_driver p s contents\<close> is
  what all nodes hold after \<open>s\<close> was written to \<open>p\<close>, or \<open>None\<close> if the write is
  refused; it is a parameter of the model, any function. \<open>fs_log\<close> is the history
  of the accepted writes.

  \<open>write_log\<close> is the interface the services rely on: a write is recorded when it
  succeeds and changes nothing when it fails.
\<close>

record sysfs =
  fs_content :: "string \<Rightarrow> string option"
  fs_driver :: "string \<Rightarrow> string \<Rightarrow> (string \<Rightarrow> string option) \<Rightarrow> (string \<Rightarrow> string option) option"
  fs_openable :: "string \<Rightarrow> bool"
  fs_eof :: "string \<Rightarrow> bool"
  fs_dir :: "string \<Rightarrow> (string \<times> bool) list option"
  fs_log :: "(string \<times> string) list"

text \<open>\<open>android::base::ReadFileToString\<close> and \<open>WriteStringToFile\<close>.\<close>

definition ReadFileToString :: "sysfs \<Rightarrow> string \<Rightarrow> string option" where
  "ReadFileToString fs path = fs_content fs path"

definition WriteStringToFile :: "string \<Rightarrow> string \<Rightarrow> sysfs \<Rightarrow> bool \<times> sysfs" where
  "WriteStringToFile content path fs =
     (if \<not> fs_openable fs path then (False, fs)
      else (case fs_driver fs path content (fs_content fs) of
          None \<Rightarrow> (False, fs)
        | Some after \<Rightarrow>
            (True, fs\<lparr>fs_content := after, fs_log := fs_log fs @ [(path, content)]\<rparr>)))"

text \<open>
  \<open>fopen (path, "w")\<close>, \<open>fputs\<close>, \<open>fclose\<close>: whether the file could be opened and
  whether \<open>fputs\<close> reported an error. The text is buffered, so the driver's
  answer comes with \<open>fclose\<close>, whose result the code does not look at.
\<close>

definition fputs_node :: "string \<Rightarrow> string \<Rightarrow> sysfs \<Rightarrow> bool option \<times> sysfs" where
  "fputs_node content path fs =
     (if \<not> fs_openable fs path then (None, fs)
      else if fs_eof fs path then (Some False, fs)
      else (Some True, snd (WriteStringToFile content path fs)))"

section \<open>The interface\<close>

locale write_log =
  fixes wr :: "'v \<Rightarrow> 'k \<Rightarrow> 's \<Rightarrow> bool \<times> 's"
    and hist :: "'s \<Rightarrow> ('k \<times> 'v) list"
  assumes wr_ok: "wr v k s = (True, s') \<Longrightarrow> hist s' = hist s @ [(k, v)]"
    and wr_fail: "wr v k s = (False, s') \<Longrightarrow> s' = s"
begin

text \<open>A sequence of writes, each tried whatever happened to the ones before.\<close>

fun wr_all :: "('k \<times> 'v) list \<Rightarrow> 's \<Rightarrow> bool \<times> 's" where
  "wr_all [] s = (True, s)"
| "wr_all ((k, v) # kvs) s =
     (let (ok, s) = wr v k s; (oks, s) = wr_all kvs s in (ok \<and> oks, s))"

lemma wr_hist:
  "wr v k s = (ok, s') \<Longrightarrow> hist s' = hist s @ (if ok then [(k, v)] else [])"
  using wr_ok [of v k s s'] wr_fail [of v k s s'] by (cases ok) (simp, metis append_Nil2)

lemma wr_all_hist:
  assumes "wr_all kvs s = (ok, s')"
  shows "\<exists>done. hist s' = hist s @ done \<and> set done \<subseteq> set kvs \<and> (ok \<longleftrightarrow> length done = length kvs)
    \<and> (ok \<longrightarrow> done = kvs) \<and> length done \<le> length kvs"
  using assms
proof (induction kvs arbitrary: s ok)
  case (Cons kv kvs)
  obtain k v where kv: "kv = (k, v)" by (cases kv)
  obtain ok1 s1 where 1: "wr v k s = (ok1, s1)" by (cases "wr v k s")
  obtain ok2 where 2: "wr_all kvs s1 = (ok2, s')" and ok: "ok \<longleftrightarrow> ok1 \<and> ok2"
    using Cons.prems 1 kv by (auto split: prod.splits)
  obtain rest where r: "hist s' = hist s1 @ rest" "set rest \<subseteq> set kvs"
    "ok2 \<longleftrightarrow> length rest = length kvs" "ok2 \<longrightarrow> rest = kvs" "length rest \<le> length kvs"
    using Cons.IH [OF 2] by blast
  let ?done = "(if ok1 then [(k, v)] else []) @ rest"
  have "hist s' = hist s @ ?done" using wr_hist [OF 1] r(1) by simp
  moreover have "set ?done \<subseteq> set (kv # kvs)" using r(2) kv by auto
  moreover have "ok \<longleftrightarrow> length ?done = length (kv # kvs)" using ok r(3,5) by auto
  moreover have "ok \<longrightarrow> ?done = kv # kvs" using ok r(4) kv by auto
  moreover have "length ?done \<le> length (kv # kvs)" using r(5) by simp
  ultimately show ?case by blast
qed simp

end

interpretation fs: write_log WriteStringToFile fs_log
  by unfold_locales (auto simp: WriteStringToFile_def split: if_splits option.splits)

lemma WriteStringToFile_frame [frame_simps]:
  assumes "WriteStringToFile s p fs = (ok, fs')"
  shows "fs_openable fs' = fs_openable fs" "fs_eof fs' = fs_eof fs" "fs_dir fs' = fs_dir fs"
    "fs_driver fs' = fs_driver fs"
  using assms by (auto simp: WriteStringToFile_def split: if_splits option.splits)

lemma fputs_node_frame:
  assumes "fputs_node s p fs = (r, fs')"
  shows "fs_openable fs' = fs_openable fs" "fs_eof fs' = fs_eof fs" "fs_dir fs' = fs_dir fs"
    "fs_driver fs' = fs_driver fs"
  using assms WriteStringToFile_frame [of s p fs "fst (WriteStringToFile s p fs)"
      "snd (WriteStringToFile s p fs)"]
  by (auto simp: fputs_node_def split: if_splits)

lemma fputs_node_hist:
  assumes "fputs_node s p fs = (r, fs')"
  shows "fs_log fs' = fs_log fs \<or> r = Some True \<and> fs_log fs' = fs_log fs @ [(p, s)]"
  using assms fs.wr_hist [of s p fs "fst (WriteStringToFile s p fs)" "snd (WriteStringToFile s p fs)"]
  by (auto simp: fputs_node_def split: if_splits)

end
