(* ===== verification/Usb_Port.thy ===== *)
theory Usb_Port
  imports Sysfs
begin

text \<open>
  The USB HAL service (usb/usb/Usb.cpp): the state of the \<open>Usb\<close> object with the
  nodes and properties it reads, and its operations. Calls of the client's
  callback are recorded in \<open>usb_notified\<close>. \<open>port_order\<close> is the order in which
  the \<open>unordered_map\<close> of ports is traversed, which the library leaves open.
  \<open>role_switch_locked\<close>: another thread holds \<open>mRoleSwitchLock\<close>.
  \<open>partner_waits\<close>: how the waits for the partner's return end, in turn.
  A result of \<open>None\<close> is an access out of the bounds of a vector or a
  failed assertion of the union \<open>PortRole\<close>.
\<close>

section \<open>The interface's types\<close>

datatype status = SUCCESS | ERROR | INVALID_ARGUMENT | UNRECOGNIZED_ROLE | NOT_SUPPORTED
datatype power_role = PowerNONE | SOURCE | SINK
datatype data_role = DataNONE | HOST | DEVICE
datatype port_mode = ModeNONE | UFP | DFP | DRP | AUDIO_ACCESSORY | DEBUG_ACCESSORY
datatype port_role = powerRole power_role | dataRole data_role | mode port_mode
datatype role_tag = TpowerRole | TdataRole | Tmode

fun getTag :: "port_role \<Rightarrow> role_tag" where
  "getTag (powerRole r) = TpowerRole"
| "getTag (dataRole r) = TdataRole"
| "getTag (mode r) = Tmode"

datatype contaminant_mode = FORCE_SINK | FORCE_SOURCE | FORCE_DISABLE
datatype protection_status = ProtectionNONE | ProtectionFORCE_DISABLE
datatype detection_status = DISABLED | NOT_DETECTED | DETECTED
datatype data_status = DataUNKNOWN | ENABLED | DISABLED_FORCE
datatype brick_status = BrickUNKNOWN | BrickCONNECTED | BrickNOT_CONNECTED

record port_status =
  portName :: string
  currentDataRole :: data_role
  currentPowerRole :: power_role
  currentMode :: port_mode
  canChangeMode :: bool
  canChangeDataRole :: bool
  canChangePowerRole :: bool
  supportedModes :: "port_mode list"
  usbDataStatus :: "data_status list"
  supportedContaminantProtectionModes :: "contaminant_mode list"
  supportsEnableContaminantPresenceProtection :: bool
  contaminantProtectionStatus :: protection_status
  supportsEnableContaminantPresenceDetection :: bool
  contaminantDetectionStatus :: detection_status
  powerTransferLimited :: bool
  powerBrickStatus :: brick_status

definition empty_status :: port_status where
  "empty_status = \<lparr>portName = '''', currentDataRole = DataNONE, currentPowerRole = PowerNONE,
     currentMode = ModeNONE, canChangeMode = False, canChangeDataRole = False,
     canChangePowerRole = False, supportedModes = [], usbDataStatus = [],
     supportedContaminantProtectionModes = [],
     supportsEnableContaminantPresenceProtection = False,
     contaminantProtectionStatus = ProtectionNONE,
     supportsEnableContaminantPresenceDetection = False,
     contaminantDetectionStatus = DISABLED, powerTransferLimited = False,
     powerBrickStatus = BrickUNKNOWN\<rparr>"

datatype usb_event =
    notifyPortStatusChange "port_status list" status
  | notifyRoleSwitchStatus string port_role status int
  | notifyEnableUsbDataStatus string bool status int
  | notifyEnableUsbDataWhileDockedStatus string status int
  | notifyContaminantEnabledStatus string bool status int
  | notifyQueryPortStatus string status int
  | notifyLimitPowerTransferStatus string bool status int
  | notifyResetUsbPortStatus string status int

datatype wait_end = Timedout | Woken bool

record usb =
  usb_fs :: sysfs
  usb_props :: "string \<Rightarrow> string option"
  mCallback :: "nat option"
  mPartnerUp :: bool
  mUsbDataEnabled :: bool
  poll_running :: bool
  thread_calls :: "bool list"
  role_switch_locked :: bool
  partner_waits :: "wait_end list"
  port_order :: "(string \<times> bool) list \<Rightarrow> (string \<times> bool) list"
  usb_notified :: "(nat \<times> usb_event) list"

text \<open>
  The constructor, in an environment that gives the other fields; the four
  pthread calls that set the condition variable up may fail, and then the
  process aborts.
\<close>

definition Usb_init :: "bool \<Rightarrow> bool \<Rightarrow> bool \<Rightarrow> bool \<Rightarrow> usb \<Rightarrow> usb option" where
  "Usb_init attr_init setclock cond_init attr_destroy env =
     (if \<not> attr_init then None
      else if \<not> setclock then None
      else if \<not> cond_init then None
      else if \<not> attr_destroy then None
      else Some (env\<lparr>mCallback := None, mPartnerUp := False, mUsbDataEnabled := True,
        poll_running := False\<rparr>))"

section \<open>Names of nodes and properties\<close>

definition kGadgetName :: string where "kGadgetName = ''a600000.dwc3''"
definition PULLUP_PATH :: string where "PULLUP_PATH = ''/config/usb_gadget/g1/UDC''"
definition USB_DATA_PATH :: string where
  "USB_DATA_PATH = ''/sys/devices/platform/soc/a600000.ssusb/usb_data_enabled''"
definition USB_POWER_LIMIT_PATH :: string where
  "USB_POWER_LIMIT_PATH = ''/sys/devices/platform/soc/c440000.qcom,spmi/spmi-0/spmi0-00/c440000.qcom,spmi:qcom,pm6150@0:qcom,usb-pdphy@1700/usbpd0/''"
definition SINK_CURRENT_LIMIT_PATH :: string where
  "SINK_CURRENT_LIMIT_PATH = USB_POWER_LIMIT_PATH @ ''usb_limit_sink_current''"
definition SINK_LIMIT_ENABLE_PATH :: string where
  "SINK_LIMIT_ENABLE_PATH = USB_POWER_LIMIT_PATH @ ''usb_limit_sink_enable''"
definition SOURCE_LIMIT_ENABLE_PATH :: string where
  "SOURCE_LIMIT_ENABLE_PATH = USB_POWER_LIMIT_PATH @ ''usb_limit_source_enable''"
definition kConsole :: string where "kConsole = ''init.svc.console''"
definition kDetectedPath :: string where
  "kDetectedPath = ''/sys/class/power_supply/usb/moisture_detected''"
definition kDisableContatminantDetection :: string where
  "kDisableContatminantDetection = ''vendor.usb.contaminantdisable''"
definition kEnabledPath :: string where
  "kEnabledPath = ''/sys/class/power_supply/usb/moisture_detection_enabled''"
definition kTypecPath :: string where "kTypecPath = ''/sys/class/typec''"
definition UEVENT_MSG_LEN :: nat where "UEVENT_MSG_LEN = 2048"

definition GetProperty :: "usb \<Rightarrow> string \<Rightarrow> string \<Rightarrow> string" where
  "GetProperty u key dflt = (case usb_props u key of None \<Rightarrow> dflt | Some v \<Rightarrow> v)"

section \<open>Writing nodes and notifying\<close>

definition usb_write :: "string \<Rightarrow> string \<Rightarrow> usb \<Rightarrow> bool \<times> usb" where
  "usb_write content path u =
     (case WriteStringToFile content path (usb_fs u) of (ok, fs) \<Rightarrow> (ok, u\<lparr>usb_fs := fs\<rparr>))"

definition notify :: "usb_event \<Rightarrow> usb \<Rightarrow> usb" where
  "notify ev u =
     (case mCallback u of
        None \<Rightarrow> u
      | Some cb \<Rightarrow> u\<lparr>usb_notified := usb_notified u @ [(cb, ev)]\<rparr>)"

definition status_of :: "bool \<Rightarrow> status" where
  "status_of ok = (if ok then SUCCESS else ERROR)"

section \<open>Roles\<close>

definition appendRoleNodeHelper :: "string \<Rightarrow> role_tag \<Rightarrow> string" where
  "appendRoleNodeHelper port tag =
     (let node = ''/sys/class/typec/'' @ port in
      case tag of
        TdataRole \<Rightarrow> node @ ''/data_role''
      | TpowerRole \<Rightarrow> node @ ''/power_role''
      | Tmode \<Rightarrow> node @ ''/port_type'')"

fun convertRoletoString :: "port_role \<Rightarrow> string" where
  "convertRoletoString (powerRole SOURCE) = ''source''"
| "convertRoletoString (powerRole SINK) = ''sink''"
| "convertRoletoString (dataRole HOST) = ''host''"
| "convertRoletoString (dataRole DEVICE) = ''device''"
| "convertRoletoString (mode UFP) = ''sink''"
| "convertRoletoString (mode DFP) = ''source''"
| "convertRoletoString _ = ''none''"

text \<open>
  \<open>substr (first + 1, last - first - 1)\<close>: with \<open>]\<close> before \<open>[\<close> the length wraps
  around and the rest of the string is taken.
\<close>

definition extractRole :: "string \<Rightarrow> string" where
  "extractRole roleName =
     (case (str_find roleName ''['', str_find roleName '']'') of
        (Some i, Some j) \<Rightarrow>
          (if i < j then take (j - i - 1) (drop (i + 1) roleName) else drop (i + 1) roleName)
      | _ \<Rightarrow> roleName)"

definition switchToDrp :: "string \<Rightarrow> usb \<Rightarrow> usb" where
  "switchToDrp port u =
     u\<lparr>usb_fs := snd (fputs_node ''dual'' (appendRoleNodeHelper port Tmode) (usb_fs u))\<rparr>"

text \<open>
  The wait after the label \<open>wait_again\<close>: a wakeup with the partner still down
  waits again, each time for the full timeout. After the listed wakeups the
  wait times out.
\<close>

fun wait_partner :: "wait_end list \<Rightarrow> bool \<times> wait_end list" where
  "wait_partner [] = (False, [])"
| "wait_partner (Timedout # ws) = (False, ws)"
| "wait_partner (Woken up # ws) = (if up then (True, ws) else wait_partner ws)"

definition switchMode :: "string \<Rightarrow> port_role \<Rightarrow> usb \<Rightarrow> bool \<times> usb" where
  "switchMode port in_role u =
     (case fputs_node (convertRoletoString in_role) (appendRoleNodeHelper port (getTag in_role))
             (usb_fs u) of
        (None, fs) \<Rightarrow> (False, switchToDrp port (u\<lparr>usb_fs := fs\<rparr>))
      | (Some written, fs) \<Rightarrow>
          let u = u\<lparr>usb_fs := fs, mPartnerUp := False\<rparr> in
          if \<not> written then (False, switchToDrp port u)
          else (case wait_partner (partner_waits u) of (up, ws) \<Rightarrow>
            let u = u\<lparr>partner_waits := ws, mPartnerUp := up\<rparr> in
            if up then (True, u) else (False, switchToDrp port u)))"

definition switchRole :: "string \<Rightarrow> port_role \<Rightarrow> int \<Rightarrow> usb \<Rightarrow> usb" where
  "switchRole port in_role transactionId u =
     (let filename = appendRoleNodeHelper port (getTag in_role) in
      case (if getTag in_role = Tmode then switchMode port in_role u
            else (case fputs_node (convertRoletoString in_role) filename (usb_fs u) of
                (None, fs) \<Rightarrow> (False, u\<lparr>usb_fs := fs\<rparr>)
              | (Some ok, fs) \<Rightarrow>
                  (case (ok, ReadFileToString fs filename) of
                     (True, Some written) \<Rightarrow>
                       (extractRole (Trim written) = convertRoletoString in_role, u\<lparr>usb_fs := fs\<rparr>)
                   | _ \<Rightarrow> (False, u\<lparr>usb_fs := fs\<rparr>)))) of
        (roleSwitch, u) \<Rightarrow>
          notify (notifyRoleSwitchStatus port in_role (status_of roleSwitch) transactionId) u)"

section \<open>The status of the ports\<close>

definition getAccessoryConnected :: "sysfs \<Rightarrow> string \<Rightarrow> string option" where
  "getAccessoryConnected fs port =
     map_option Trim
       (ReadFileToString fs (''/sys/class/typec/'' @ port @ ''-partner/accessory_mode''))"

fun no_role :: "port_role \<Rightarrow> port_role" where
  "no_role (powerRole r) = powerRole PowerNONE"
| "no_role (dataRole r) = dataRole DataNONE"
| "no_role (mode r) = mode ModeNONE"

text \<open>The node a role is read from: the mode is read from the data role.\<close>

definition role_node :: "string \<Rightarrow> role_tag \<Rightarrow> string" where
  "role_node port tag = ''/sys/class/typec/'' @ port @
     (if tag = TpowerRole then ''/power_role'' else ''/data_role'')"

text \<open>What the text of a role node makes of the current role.\<close>

definition set_role :: "string \<Rightarrow> port_role \<Rightarrow> status \<times> port_role" where
  "set_role roleName r =
     (if roleName = ''source'' then (SUCCESS, powerRole SOURCE)
      else if roleName = ''sink'' then (SUCCESS, powerRole SINK)
      else if roleName = ''host'' then
        (SUCCESS, if getTag r = TdataRole then dataRole HOST else mode DFP)
      else if roleName = ''device'' then
        (SUCCESS, if getTag r = TdataRole then dataRole DEVICE else mode UFP)
      else if roleName \<noteq> ''none'' then (UNRECOGNIZED_ROLE, r)
      else (SUCCESS, r))"

definition getCurrentRoleHelper ::
  "sysfs \<Rightarrow> string \<Rightarrow> bool \<Rightarrow> port_role \<Rightarrow> status \<times> port_role" where
  "getCurrentRoleHelper fs port connected currentRole =
     (let r = no_role currentRole;
          from_node = (case ReadFileToString fs (role_node port (getTag r)) of
              None \<Rightarrow> (ERROR, r)
            | Some roleName \<Rightarrow> set_role (extractRole (Trim roleName)) r)
      in
      if \<not> connected then (SUCCESS, r)
      else if getTag r = Tmode then
        (case getAccessoryConnected fs port of
           None \<Rightarrow> (ERROR, r)
         | Some accessory \<Rightarrow>
             if accessory = ''analog_audio'' then (SUCCESS, mode AUDIO_ACCESSORY)
             else if accessory = ''debug'' then (SUCCESS, mode DEBUG_ACCESSORY)
             else from_node)
      else from_node)"

text \<open>The map of the ports as an association list, in the order of insertion.\<close>

fun map_set :: "string \<Rightarrow> bool \<Rightarrow> (string \<times> bool) list \<Rightarrow> (string \<times> bool) list" where
  "map_set k v [] = [(k, v)]"
| "map_set k v ((k', v') # m) = (if k' = k then (k, v) # m else (k', v') # map_set k v m)"

fun port_names_loop ::
  "(string \<times> bool) list \<Rightarrow> (string \<times> bool) list \<Rightarrow> (string \<times> bool) list option" where
  "port_names_loop [] names = Some names"
| "port_names_loop ((d_name, is_link) # eps) names =
     (if \<not> is_link then port_names_loop eps names
      else if \<not> str_contains d_name ''-partner'' then
        port_names_loop eps (if d_name \<in> fst ` set names then names else names @ [(d_name, False)])
      else
        (case strtok_first d_name (CHR ''-'') of
           None \<Rightarrow> None
         | Some port \<Rightarrow> port_names_loop eps (map_set port True names)))"

definition getTypeCPortNamesHelper :: "sysfs \<Rightarrow> (status \<times> (string \<times> bool) list) option" where
  "getTypeCPortNamesHelper fs =
     (case fs_dir fs kTypecPath of
        None \<Rightarrow> Some (ERROR, [])
      | Some eps \<Rightarrow> map_option (\<lambda>names. (SUCCESS, names)) (port_names_loop eps []))"

definition canSwitchRoleHelper :: "sysfs \<Rightarrow> string \<Rightarrow> bool" where
  "canSwitchRoleHelper fs port =
     (case ReadFileToString fs (''/sys/class/typec/'' @ port
         @ ''-partner/supports_usb_power_delivery'') of
        None \<Rightarrow> False
      | Some supportsPD \<Rightarrow> Trim supportsPD = ''yes'')"

fun get_powerRole :: "port_role \<Rightarrow> power_role option" where
  "get_powerRole (powerRole r) = Some r" | "get_powerRole _ = None"
fun get_dataRole :: "port_role \<Rightarrow> data_role option" where
  "get_dataRole (dataRole r) = Some r" | "get_dataRole _ = None"
fun get_mode :: "port_role \<Rightarrow> port_mode option" where
  "get_mode (mode r) = Some r" | "get_mode _ = None"

text \<open>One iteration of the loop over the ports: the status, and whether to go on.\<close>

definition port_status_of ::
  "sysfs \<Rightarrow> bool \<Rightarrow> string \<times> bool \<Rightarrow> (bool \<times> port_status) option" where
  "port_status_of fs data_enabled port = do {
     let st = empty_status\<lparr>portName := fst port\<rparr>;
     (case getCurrentRoleHelper fs (fst port) (snd port) (powerRole PowerNONE) of (s, r) \<Rightarrow>
      if s \<noteq> SUCCESS then Some (False, st)
      else do {
        pr \<leftarrow> get_powerRole r;
        let st = st\<lparr>currentPowerRole := pr\<rparr>;
        (case getCurrentRoleHelper fs (fst port) (snd port) (dataRole DataNONE) of (s, r) \<Rightarrow>
         if s \<noteq> SUCCESS then Some (False, st)
         else do {
           dr \<leftarrow> get_dataRole r;
           let st = st\<lparr>currentDataRole := dr\<rparr>;
           (case getCurrentRoleHelper fs (fst port) (snd port) (mode ModeNONE) of (s, r) \<Rightarrow>
            if s \<noteq> SUCCESS then Some (False, st)
            else do {
              m \<leftarrow> get_mode r;
              let can = (if snd port then canSwitchRoleHelper fs (fst port) else False);
              Some (True, st\<lparr>currentMode := m, canChangeMode := True, canChangeDataRole := can,
                canChangePowerRole := can, supportedModes := [DRP],
                usbDataStatus := [if data_enabled then ENABLED else DISABLED_FORCE],
                powerBrickStatus := BrickUNKNOWN\<rparr>)
            })
         })
      })
   }"

text \<open>The vector has been resized, so the ports after a failing one are empty.\<close>

fun port_status_loop ::
  "sysfs \<Rightarrow> bool \<Rightarrow> (string \<times> bool) list \<Rightarrow> (status \<times> port_status list) option" where
  "port_status_loop fs data_enabled [] = Some (SUCCESS, [])"
| "port_status_loop fs data_enabled (p # ps) = do {
     (go_on, st) \<leftarrow> port_status_of fs data_enabled p;
     if \<not> go_on then Some (ERROR, st # replicate (length ps) empty_status)
     else do {
       (s, sts) \<leftarrow> port_status_loop fs data_enabled ps;
       Some (s, st # sts)
     }
   }"

definition getPortStatusHelper :: "usb \<Rightarrow> (status \<times> port_status list) option" where
  "getPortStatusHelper u = do {
     (result, names) \<leftarrow> getTypeCPortNamesHelper (usb_fs u);
     if result = SUCCESS then
       port_status_loop (usb_fs u) (mUsbDataEnabled u) (port_order u names)
     else Some (ERROR, [])
   }"

text \<open>The queries below access element 0 of the vector, whatever its size.\<close>

definition queryMoistureDetectionStatus ::
  "sysfs \<Rightarrow> port_status list \<Rightarrow> (status \<times> port_status list) option" where
  "queryMoistureDetectionStatus fs sts =
     (case sts of
        [] \<Rightarrow> None
      | st # rest \<Rightarrow>
          let st = st\<lparr>supportedContaminantProtectionModes :=
                  supportedContaminantProtectionModes st @ [FORCE_DISABLE],
                contaminantProtectionStatus := ProtectionNONE,
                contaminantDetectionStatus := DISABLED,
                supportsEnableContaminantPresenceDetection := True,
                supportsEnableContaminantPresenceProtection := False\<rparr> in
          (case ReadFileToString fs kEnabledPath of
             None \<Rightarrow> Some (ERROR, st # rest)
           | Some enabled \<Rightarrow>
               if Trim enabled = ''1'' then
                 (case ReadFileToString fs kDetectedPath of
                    None \<Rightarrow> Some (ERROR, st # rest)
                  | Some s \<Rightarrow>
                      if Trim s = ''1'' then
                        Some (SUCCESS, st\<lparr>contaminantDetectionStatus := DETECTED,
                          contaminantProtectionStatus := ProtectionFORCE_DISABLE\<rparr> # rest)
                      else Some (SUCCESS, st\<lparr>contaminantDetectionStatus := NOT_DETECTED\<rparr> # rest))
               else Some (SUCCESS, st # rest)))"

definition queryPowerTransferStatus ::
  "sysfs \<Rightarrow> port_status list \<Rightarrow> (status \<times> port_status list) option" where
  "queryPowerTransferStatus fs sts =
     (case ReadFileToString fs SINK_LIMIT_ENABLE_PATH of
        None \<Rightarrow> Some (ERROR, sts)
      | Some enabled \<Rightarrow>
          (case sts of
             [] \<Rightarrow> None
           | st # rest \<Rightarrow>
               Some (SUCCESS, st\<lparr>powerTransferLimited := (Trim enabled = ''1'')\<rparr> # rest)))"

definition queryVersionHelper :: "usb \<Rightarrow> (port_status list \<times> usb) option" where
  "queryVersionHelper u = do {
     (s, sts) \<leftarrow> getPortStatusHelper u;
     (sm, sts) \<leftarrow> queryMoistureDetectionStatus (usb_fs u) sts;
     (sp, sts) \<leftarrow> queryPowerTransferStatus (usb_fs u) sts;
     Some (sts, notify (notifyPortStatusChange sts s) u)
   }"

section \<open>The operations of the service\<close>

definition enableUsbData :: "string \<Rightarrow> bool \<Rightarrow> int \<Rightarrow> usb \<Rightarrow> usb option" where
  "enableUsbData port in_enable transactionId u =
     (case (case ReadFileToString (usb_fs u) PULLUP_PATH of
              None \<Rightarrow> (True, u)
            | Some pullup \<Rightarrow>
                if in_enable then
                  (if Trim pullup \<noteq> kGadgetName then usb_write kGadgetName PULLUP_PATH u
                   else (True, u))
                else
                  (if Trim pullup = kGadgetName then usb_write ''none'' PULLUP_PATH u
                   else (True, u))) of (ok1, u) \<Rightarrow>
      (case usb_write (if in_enable then ''1'' else ''0'') USB_DATA_PATH u of (ok2, u) \<Rightarrow>
        let result = (ok1 \<and> ok2);
            u = (if result then u\<lparr>mUsbDataEnabled := in_enable\<rparr> else u);
            u = notify (notifyEnableUsbDataStatus port in_enable (status_of result) transactionId) u
        in map_option snd (queryVersionHelper u)))"

definition enableUsbDataWhileDocked :: "string \<Rightarrow> int \<Rightarrow> usb \<Rightarrow> usb option" where
  "enableUsbDataWhileDocked port transactionId u =
     map_option snd (queryVersionHelper
       (notify (notifyEnableUsbDataWhileDockedStatus port NOT_SUPPORTED transactionId) u))"

definition resetUsbPort :: "string \<Rightarrow> int \<Rightarrow> usb \<Rightarrow> usb" where
  "resetUsbPort port transactionId u =
     (case usb_write ''none'' PULLUP_PATH u of (ok, u) \<Rightarrow>
        notify (notifyResetUsbPortStatus port (status_of ok) transactionId) u)"

definition limitPowerTransfer :: "string \<Rightarrow> bool \<Rightarrow> int \<Rightarrow> usb \<Rightarrow> usb option" where
  "limitPowerTransfer port in_limit transactionId u =
     (case (if in_limit then usb_write ''0'' SINK_CURRENT_LIMIT_PATH u else (True, u)) of (ok1, u) \<Rightarrow>
     (case usb_write (if in_limit then ''1'' else ''0'') SINK_LIMIT_ENABLE_PATH u of (ok2, u) \<Rightarrow>
     (case usb_write (if in_limit then ''1'' else ''0'') SOURCE_LIMIT_ENABLE_PATH u of (ok3, u) \<Rightarrow>
        let sessionFail = (\<not> ok1 \<or> \<not> ok2 \<or> \<not> ok3);
            u = (if transactionId \<ge> 0
                 then notify (notifyLimitPowerTransferStatus port in_limit
                   (status_of (\<not> sessionFail)) transactionId) u
                 else u)
        in map_option snd (queryVersionHelper u))))"

definition queryPortStatus :: "int \<Rightarrow> usb \<Rightarrow> usb option" where
  "queryPortStatus transactionId u =
     map_option (\<lambda>(sts, u). notify (notifyQueryPortStatus ''all'' SUCCESS transactionId) u)
       (queryVersionHelper u)"

definition enableContaminantPresenceDetection ::
  "string \<Rightarrow> bool \<Rightarrow> int \<Rightarrow> usb \<Rightarrow> usb option" where
  "enableContaminantPresenceDetection port in_enable transactionId u =
     (let disable = GetProperty u kDisableContatminantDetection '''';
          console = GetProperty u kConsole '''' in
      case (if console \<noteq> ''running'' \<and> disable \<noteq> ''true''
            then usb_write (if in_enable then ''1'' else ''0'') kEnabledPath u
            else (True, u)) of (success, u) \<Rightarrow>
        map_option snd (queryVersionHelper
          (notify (notifyContaminantEnabledStatus port in_enable (status_of success) transactionId)
             u)))"

section \<open>The uevent thread\<close>

text \<open>\<open>(add)(.*)(-partner)\<close>: the dot matches no line terminator.\<close>

definition partner_added :: "string \<Rightarrow> bool" where
  "partner_added cp \<longleftrightarrow> starts_with cp ''add'' \<and> ends_with cp ''-partner'' \<and> 11 \<le> length cp
     \<and> (\<forall>c \<in> set (drop 3 (take (length cp - 8) cp)). c \<noteq> CHR 0x0A \<and> c \<noteq> CHR 0x0D)"

definition typec_change :: "string \<Rightarrow> bool" where
  "typec_change cp \<longleftrightarrow> starts_with cp ''DEVTYPE=typec_''
     \<or> starts_with cp ''POWER_SUPPLY_MOISTURE_DETECTED''"

fun drp_if_unconnected :: "port_status list \<Rightarrow> usb \<Rightarrow> usb" where
  "drp_if_unconnected [] u = u"
| "drp_if_unconnected (st # sts) u = drp_if_unconnected sts
     (if fs_dir (usb_fs u) (''/sys/class/typec/'' @ portName st @ ''-partner'') = None
      then switchToDrp (portName st) u else u)"

text \<open>The message as its NUL terminated strings, up to the first empty one.\<close>

fun uevent_lines :: "string list \<Rightarrow> usb \<Rightarrow> usb option" where
  "uevent_lines [] u = Some u"
| "uevent_lines (cp # cps) u =
     (if cp = [] then Some u
      else if partner_added cp then uevent_lines cps (u\<lparr>mPartnerUp := True\<rparr>)
      else if typec_change cp then
        (case queryVersionHelper u of
           None \<Rightarrow> None
         | Some (sts, u) \<Rightarrow>
             Some (if role_switch_locked u then u else drp_if_unconnected sts u))
      else uevent_lines cps u)"

definition split_nul :: "string \<Rightarrow> string list" where
  "split_nul msg = getlines (CHR 0x00) msg"

text \<open>\<open>n\<close> is the result of the receive call, with \<open>msg\<close> its \<open>n\<close> bytes.\<close>

definition uevent_event :: "int \<Rightarrow> string \<Rightarrow> usb \<Rightarrow> usb option" where
  "uevent_event n msg u =
     (if n \<le> 0 then Some u
      else if n \<ge> int UEVENT_MSG_LEN then Some u
      else uevent_lines (split_nul (take (nat n) msg @ [CHR 0x00, CHR 0x00])) u)"

text \<open>
  The thread, over what its calls of \<open>epoll_wait\<close> give: an interruption (by the
  signal that sets \<open>destroyThread\<close>, or another), an error, or messages, during
  whose handling the signal may come too. The result says if the thread ended;
  it has not when the list is used up.
\<close>

datatype poll = Interrupted bool | PollError | Messages "(int \<times> string) list" bool

fun uevent_events :: "(int \<times> string) list \<Rightarrow> usb \<Rightarrow> usb option" where
  "uevent_events [] u = Some u"
| "uevent_events ((n, msg) # evs) u = do { u \<leftarrow> uevent_event n msg u; uevent_events evs u }"

fun work_loop :: "poll list \<Rightarrow> usb \<Rightarrow> (bool \<times> usb) option" where
  "work_loop [] u = Some (False, u)"
| "work_loop (Interrupted destroyThread # ps) u =
     (if destroyThread then Some (True, u) else work_loop ps u)"
| "work_loop (PollError # ps) u = Some (True, u)"
| "work_loop (Messages evs destroyThread # ps) u = do {
     u \<leftarrow> uevent_events evs u;
     if destroyThread then Some (True, u) else work_loop ps u
   }"

definition work :: "bool \<Rightarrow> bool \<Rightarrow> bool \<Rightarrow> poll list \<Rightarrow> usb \<Rightarrow> (bool \<times> usb) option" where
  "work socket_open epoll_open added ps u =
     (if \<not> socket_open then Some (True, u)
      else if \<not> epoll_open then Some (True, u)
      else if \<not> added then Some (True, u)
      else work_loop ps u)"

text \<open>
  Registering the callback starts the thread, clearing it stops the thread.
  \<open>thread_calls\<close> says which of the pthread calls fail.
\<close>

definition thread_call :: "usb \<Rightarrow> bool \<times> usb" where
  "thread_call u =
     (case thread_calls u of [] \<Rightarrow> (True, u) | ok # oks \<Rightarrow> (ok, u\<lparr>thread_calls := oks\<rparr>))"

definition setCallback :: "nat option \<Rightarrow> usb \<Rightarrow> usb" where
  "setCallback in_callback u =
     (if (mCallback u = None \<and> in_callback = None) \<or> (mCallback u \<noteq> None \<and> in_callback \<noteq> None)
      then u\<lparr>mCallback := in_callback\<rparr>
      else
        let u = u\<lparr>mCallback := in_callback\<rparr> in
        (case thread_call u of (ok, u) \<Rightarrow>
          if in_callback = None then (if ok then u\<lparr>poll_running := False\<rparr> else u)
          else if \<not> ok then u\<lparr>mCallback := None\<rparr>
          else u\<lparr>poll_running := True\<rparr>))"

end
