(* ===== verification/Usb_Laws.thy ===== *)
theory Usb_Laws
  imports Usb_Port
begin

text \<open>
  What the USB service promises: which nodes it writes and what it reports of
  that (through the interface \<open>write_log\<close>), when a role switch counts as done,
  what the port status says, and that the callback and its thread go together.
\<close>

interpretation usb_log: write_log usb_write "\<lambda>u. fs_log (usb_fs u)"
proof unfold_locales
  fix s p and u u' :: usb
  show "usb_write s p u = (True, u') \<Longrightarrow> fs_log (usb_fs u') = fs_log (usb_fs u) @ [(p, s)]"
    by (auto simp: usb_write_def split: prod.splits intro: fs.wr_ok)
  show "usb_write s p u = (False, u') \<Longrightarrow> u' = u"
    by (auto simp: usb_write_def split: prod.splits dest!: fs.wr_fail)
qed

section \<open>What the operations leave unchanged\<close>

lemma usb_write_frame [frame_simps]:
  assumes "usb_write s p u = (ok, u')"
  shows "mCallback u' = mCallback u" "usb_notified u' = usb_notified u"
    "mUsbDataEnabled u' = mUsbDataEnabled u"
  using assms by (auto simp: usb_write_def split: prod.splits)

lemma wr_all_frame:
  assumes "usb_log.wr_all plan u = (ok, u')"
  shows "mCallback u' = mCallback u" "usb_notified u' = usb_notified u"
    "mUsbDataEnabled u' = mUsbDataEnabled u"
  using assms
proof (induction plan arbitrary: u ok)
  case (Cons kv plan)
  {
    case 1
    then show ?case using Cons.IH(1) by (cases kv) (auto split: prod.splits simp: frame_simps)
  next
    case 2
    then show ?case using Cons.IH(2) by (cases kv) (auto split: prod.splits simp: frame_simps)
  next
    case 3
    then show ?case using Cons.IH(3) by (cases kv) (auto split: prod.splits simp: frame_simps)
  }
qed auto

lemma notify_sel [simp]:
  "usb_fs (notify ev u) = usb_fs u" "mCallback (notify ev u) = mCallback u"
  "mUsbDataEnabled (notify ev u) = mUsbDataEnabled u" "mPartnerUp (notify ev u) = mPartnerUp u"
  "role_switch_locked (notify ev u) = role_switch_locked u"
  "usb_notified (notify ev u) = usb_notified u @ (case mCallback u of None \<Rightarrow> [] | Some cb \<Rightarrow> [(cb, ev)])"
  by (auto simp: notify_def split: option.splits)

lemma queryVersionHelper_frame:
  assumes "queryVersionHelper u = Some (sts, u')"
  obtains st where "u' = notify (notifyPortStatusChange sts st) u"
  using assms by (auto simp: queryVersionHelper_def)

section \<open>Writes and their report\<close>

text \<open>The writes an operation is to make, given what the nodes say.\<close>

definition usb_data_plan :: "bool \<Rightarrow> usb \<Rightarrow> (string \<times> string) list" where
  "usb_data_plan on u =
     (case ReadFileToString (usb_fs u) PULLUP_PATH of
        None \<Rightarrow> []
      | Some pullup \<Rightarrow>
          if on \<and> Trim pullup \<noteq> kGadgetName then [(PULLUP_PATH, kGadgetName)]
          else if \<not> on \<and> Trim pullup = kGadgetName then [(PULLUP_PATH, ''none'')]
          else [])
     @ [(USB_DATA_PATH, if on then ''1'' else ''0'')]"

definition limit_plan :: "bool \<Rightarrow> (string \<times> string) list" where
  "limit_plan limit = (if limit then [(SINK_CURRENT_LIMIT_PATH, ''0'')] else [])
     @ [(SINK_LIMIT_ENABLE_PATH, if limit then ''1'' else ''0''),
        (SOURCE_LIMIT_ENABLE_PATH, if limit then ''1'' else ''0'')]"

lemma enableUsbData_plan:
  "enableUsbData port on tid u =
    (case usb_log.wr_all (usb_data_plan on u) u of (result, u) \<Rightarrow>
       let u = (if result then u\<lparr>mUsbDataEnabled := on\<rparr> else u) in
       map_option snd (queryVersionHelper
         (notify (notifyEnableUsbDataStatus port on (status_of result) tid) u)))"
  by (auto simp: enableUsbData_def usb_data_plan_def Let_def split: option.splits prod.splits)

lemma limitPowerTransfer_plan:
  "limitPowerTransfer port limit tid u =
    (case usb_log.wr_all (limit_plan limit) u of (result, u) \<Rightarrow>
       map_option snd (queryVersionHelper
         (if tid \<ge> 0 then notify (notifyLimitPowerTransferStatus port limit (status_of result) tid) u
          else u)))"
  by (cases limit) (simp_all add: limitPowerTransfer_def limit_plan_def Let_def split_def conj_ac)

text \<open>
  C13: turning USB data on or off makes the planned writes, in order, each at
  most once; the client is told SUCCESS, and the remembered state changes,
  exactly if all of them were accepted. Then the port status is reported.
\<close>

theorem enableUsbData_effect:
  assumes "enableUsbData port on tid u = Some u'" "mCallback u = Some cb"
  shows "\<exists>made sts st. fs_log (usb_fs u') = fs_log (usb_fs u) @ made
    \<and> set made \<subseteq> set (usb_data_plan on u) \<and> length made \<le> length (usb_data_plan on u)
    \<and> mUsbDataEnabled u' = (if made = usb_data_plan on u then on else mUsbDataEnabled u)
    \<and> usb_notified u' = usb_notified u @
        [(cb, notifyEnableUsbDataStatus port on (status_of (made = usb_data_plan on u)) tid),
         (cb, notifyPortStatusChange sts st)]"
proof -
  obtain ok u1 where 1: "usb_log.wr_all (usb_data_plan on u) u = (ok, u1)"
    by (cases "usb_log.wr_all (usb_data_plan on u) u")
  obtain made where made: "fs_log (usb_fs u1) = fs_log (usb_fs u) @ made"
    "set made \<subseteq> set (usb_data_plan on u)" "length made \<le> length (usb_data_plan on u)"
    "ok \<longleftrightarrow> made = usb_data_plan on u"
    using usb_log.wr_all_hist [OF 1] by auto
  define u2 where "u2 = notify (notifyEnableUsbDataStatus port on (status_of ok) tid)
    (if ok then u1\<lparr>mUsbDataEnabled := on\<rparr> else u1)"
  have "map_option snd (queryVersionHelper u2) = Some u'"
    using assms(1) 1 by (simp add: enableUsbData_plan u2_def Let_def)
  then obtain sts st where "u' = notify (notifyPortStatusChange sts st) u2"
    by (auto elim: queryVersionHelper_frame)
  then show ?thesis
    using made wr_all_frame [OF 1] assms(2) by (auto simp: u2_def)
qed

text \<open>
  Limiting power transfer writes the limit nodes in order, the current
  limit first and only when limiting; a client transaction (not negative) is
  told SUCCESS exactly if every write was accepted, and any other call is not
  reported.
\<close>

theorem limitPowerTransfer_effect:
  assumes "limitPowerTransfer port limit tid u = Some u'" "mCallback u = Some cb"
  shows "\<exists>made sts st. fs_log (usb_fs u') = fs_log (usb_fs u) @ made
    \<and> set made \<subseteq> set (limit_plan limit) \<and> length made \<le> length (limit_plan limit)
    \<and> mUsbDataEnabled u' = mUsbDataEnabled u
    \<and> usb_notified u' = usb_notified u @
        (if tid \<ge> 0 then
           [(cb, notifyLimitPowerTransferStatus port limit (status_of (made = limit_plan limit)) tid)]
         else []) @ [(cb, notifyPortStatusChange sts st)]"
proof -
  obtain ok u1 where 1: "usb_log.wr_all (limit_plan limit) u = (ok, u1)"
    by (cases "usb_log.wr_all (limit_plan limit) u")
  obtain made where made: "fs_log (usb_fs u1) = fs_log (usb_fs u) @ made"
    "set made \<subseteq> set (limit_plan limit)" "length made \<le> length (limit_plan limit)"
    "ok \<longleftrightarrow> made = limit_plan limit"
    using usb_log.wr_all_hist [OF 1] by auto
  define u2 where "u2 = (if tid \<ge> 0
    then notify (notifyLimitPowerTransferStatus port limit (status_of ok) tid) u1 else u1)"
  have "map_option snd (queryVersionHelper u2) = Some u'"
    using assms(1) 1 by (simp add: limitPowerTransfer_plan u2_def)
  then obtain sts st where "u' = notify (notifyPortStatusChange sts st) u2"
    by (auto elim: queryVersionHelper_frame)
  then show ?thesis
    using made wr_all_frame [OF 1] assms(2) by (auto simp: u2_def)
qed

section \<open>Role switches\<close>



lemma extractRole_bracketed:
  assumes "CHR ''['' \<notin> set pre" "CHR '']'' \<notin> set (pre @ r)"
  shows "extractRole (pre @ ''['' @ r @ '']'' @ post) = r"
proof -
  have "str_find (pre @ CHR ''['' # r @ CHR '']'' # post) ''['' = Some (length pre)"
    using assms(1) by (rule str_find_char)
  moreover have "str_find ((pre @ CHR ''['' # r) @ CHR '']'' # post) '']''
      = Some (length (pre @ CHR ''['' # r))"
    using assms(2) by (intro str_find_char) auto
  ultimately show ?thesis by (simp add: extractRole_def)
qed




fun spurious :: "wait_end \<Rightarrow> bool" where
  "spurious (Woken up) \<longleftrightarrow> \<not> up"
| "spurious Timedout \<longleftrightarrow> False"

lemma wait_partner_iff:
  "fst (wait_partner ws) \<longleftrightarrow> (\<exists>rest. dropWhile spurious ws = Woken True # rest)"
  by (induction ws rule: wait_partner.induct) auto

lemma fst_switchMode:
  "fst (switchMode port r u) \<longleftrightarrow>
    (let node = appendRoleNodeHelper port (getTag r) in
     fs_openable (usb_fs u) node \<and> \<not> fs_eof (usb_fs u) node
     \<and> (\<exists>ws. dropWhile spurious (partner_waits u) = Woken True # ws))"
  unfolding wait_partner_iff [symmetric]
  by (auto simp: switchMode_def fputs_node_def Let_def split: prod.splits option.splits if_splits)


lemma WriteStringToFile_accepted:
  assumes "fs_openable fs p" "\<And>c. fs_driver fs p s c \<noteq> None"
  shows "fs_log (snd (WriteStringToFile s p fs)) = fs_log fs @ [(p, s)]"
  using assms(1) assms(2) [of "fs_content fs"] by (auto simp: WriteStringToFile_def)

text \<open>
  C15: a mode switch succeeds exactly if the mode was written and the partner
  came back before a wait timed out, however many wakeups without the partner
  came first. When it fails on a node that takes the text "dual", writing that
  is the last thing done: the port is dual role again.
\<close>

theorem switchMode_outcome:
  assumes "switchMode port (mode m) u = (ok, u')" "node = appendRoleNodeHelper port Tmode"
  shows "(ok \<longleftrightarrow> fs_openable (usb_fs u) node \<and> \<not> fs_eof (usb_fs u) node
      \<and> (\<exists>ws. dropWhile spurious (partner_waits u) = Woken True # ws))
    \<and> (ok \<or> \<not> fs_openable (usb_fs u) node \<or> fs_eof (usb_fs u) node
      \<or> (\<exists>c. fs_driver (usb_fs u) node ''dual'' c = None)
      \<or> (\<exists>before. fs_log (usb_fs u') = before @ [(node, ''dual'')]))"
proof
  show "ok \<longleftrightarrow> fs_openable (usb_fs u) node \<and> \<not> fs_eof (usb_fs u) node
      \<and> (\<exists>ws. dropWhile spurious (partner_waits u) = Woken True # ws)"
    using fst_switchMode [of port "mode m" u] assms by (simp add: Let_def)
  show "ok \<or> \<not> fs_openable (usb_fs u) node \<or> fs_eof (usb_fs u) node
      \<or> (\<exists>c. fs_driver (usb_fs u) node ''dual'' c = None)
      \<or> (\<exists>before. fs_log (usb_fs u') = before @ [(node, ''dual'')])"
  proof (rule ccontr)
    assume a: "\<not> ?thesis"
    obtain fs1 where 1: "fputs_node (convertRoletoString (mode m)) node (usb_fs u) = (Some True, fs1)"
      using a by (simp add: fputs_node_def)
    note frame = fputs_node_frame [OF 1]
    obtain up ws where 2: "wait_partner (partner_waits u) = (up, ws)"
      by (cases "wait_partner (partner_waits u)")
    have "usb_fs u' = snd (WriteStringToFile ''dual'' node fs1)"
      using assms 1 2 a frame
      by (auto simp: switchMode_def switchToDrp_def Let_def fputs_node_def split: if_splits)
    moreover have "fs_log (snd (WriteStringToFile ''dual'' node fs1)) = fs_log fs1 @ [(node, ''dual'')]"
      using a frame by (intro WriteStringToFile_accepted) auto
    ultimately show False using a by auto
  qed
qed

section \<open>The ports\<close>

text \<open>What the directory says of the ports: a link per port and per partner.\<close>

definition port_listed :: "(string \<times> bool) list \<Rightarrow> string \<Rightarrow> bool" where
  "port_listed eps p \<longleftrightarrow> (p, True) \<in> set eps \<and> \<not> str_contains p ''-partner''"

definition partner_listed :: "(string \<times> bool) list \<Rightarrow> string \<Rightarrow> bool" where
  "partner_listed eps p \<longleftrightarrow> (\<exists>d. (d, True) \<in> set eps \<and> str_contains d ''-partner''
     \<and> strtok_first d (CHR ''-'') = Some p)"

lemma map_of_map_set: "map_of (map_set k v m) = (map_of m)(k \<mapsto> v)"
  by (induction m) (auto simp: fun_eq_iff)

lemma map_set_keys: "fst ` set (map_set k v m) = insert k (fst ` set m)"
proof (induction m)
  case (Cons kv m)
  then show ?case by (cases kv; cases "fst kv = k") (simp_all add: insert_commute)
qed simp

lemma map_set_distinct: "distinct (map fst m) \<Longrightarrow> distinct (map fst (map_set k v m))"
proof (induction m)
  case (Cons kv m)
  obtain k' v' where kv: "kv = (k', v')" by (cases kv)
  show ?case
  proof (cases "k' = k")
    case True
    then show ?thesis using Cons.prems kv by simp
  next
    case False
    then have "k' \<notin> fst ` set (map_set k v m)"
      unfolding map_set_keys using Cons.prems kv by simp
    then show ?thesis using Cons False kv by simp
  qed
qed simp

lemma port_names_loop_spec:
  assumes "port_names_loop eps names = Some res"
  shows "map_of res p = (if partner_listed eps p then Some True
      else if map_of names p \<noteq> None then map_of names p
      else if port_listed eps p then Some False else None)"
  using assms
proof (induction eps arbitrary: names)
  case Nil
  then show ?case by (simp add: partner_listed_def port_listed_def)
next
  case (Cons ep eps)
  obtain d lnk where ep: "ep = (d, lnk)" by (cases ep)
  consider "\<not> lnk" | "lnk" "\<not> str_contains d ''-partner''" | "lnk" "str_contains d ''-partner''"
    by blast
  then show ?case
  proof cases
    case 1
    then have "partner_listed (ep # eps) p \<longleftrightarrow> partner_listed eps p"
      "port_listed (ep # eps) p \<longleftrightarrow> port_listed eps p"
      using ep by (auto simp: partner_listed_def port_listed_def)
    then show ?thesis using Cons.IH [of names] Cons.prems ep 1 by simp
  next
    case 2
    define names1 where "names1 = (if d \<in> fst ` set names then names else names @ [(d, False)])"
    have "port_names_loop eps names1 = Some res" using Cons.prems ep 2 by (simp add: names1_def)
    note IH = Cons.IH [OF this]
    have l: "partner_listed (ep # eps) p \<longleftrightarrow> partner_listed eps p"
      "port_listed (ep # eps) p \<longleftrightarrow> p = d \<or> port_listed eps p"
      using ep 2 by (auto simp: partner_listed_def port_listed_def)
    have key: "d \<in> fst ` set names \<longleftrightarrow> map_of names d \<noteq> None"
      by (simp add: map_of_eq_None_iff)
    have "map_of names1 p = (if map_of names p \<noteq> None then map_of names p
        else if p = d then Some False else None)"
      unfolding key names1_def by (auto simp: map_add_def split: option.splits)
    then show ?thesis using IH l by auto
  next
    case 3
    then obtain q where q: "strtok_first d (CHR ''-'') = Some q"
      and loop: "port_names_loop eps (map_set q True names) = Some res"
      using Cons.prems ep by (auto split: option.splits)
    have l: "partner_listed (ep # eps) p \<longleftrightarrow> p = q \<or> partner_listed eps p"
      "port_listed (ep # eps) p \<longleftrightarrow> port_listed eps p"
      using ep 3 q by (auto simp: partner_listed_def port_listed_def)
    then show ?thesis using Cons.IH [OF loop] by (simp add: map_of_map_set)
  qed
qed

lemma port_names_loop_distinct:
  "port_names_loop eps names = Some res \<Longrightarrow> distinct (map fst names) \<Longrightarrow> distinct (map fst res)"
proof (induction eps names rule: port_names_loop.induct)
  case (2 d lnk eps names)
  then show ?case
    by (auto split: if_splits option.splits intro: map_set_distinct)
qed simp

text \<open>
  C16: the ports found are exactly the links of the typec directory that are not
  partners, together with the ports that have a partner; a port counts as
  connected exactly if it has a partner link, whatever the order of the
  directory, and none is listed twice.
\<close>

theorem getTypeCPortNames_correct:
  assumes "getTypeCPortNamesHelper fs = Some (SUCCESS, names)" "fs_dir fs kTypecPath = Some eps"
  shows "distinct (map fst names)
    \<and> map_of names p = (if partner_listed eps p then Some True
        else if port_listed eps p then Some False else None)"
proof -
  have "port_names_loop eps [] = Some names"
    using assms by (auto simp: getTypeCPortNamesHelper_def)
  then show ?thesis
    using port_names_loop_spec [of eps "[]" names p] port_names_loop_distinct [of eps "[]" names]
    by simp
qed

section \<open>The port status\<close>

lemma no_role_idem: "no_role (powerRole PowerNONE) = powerRole PowerNONE"
  "no_role (dataRole DataNONE) = dataRole DataNONE" "no_role (mode ModeNONE) = mode ModeNONE"
  by simp_all

text \<open>What one port's status says when it could be read.\<close>

definition status_says :: "sysfs \<Rightarrow> bool \<Rightarrow> string \<times> bool \<Rightarrow> port_status \<Rightarrow> bool" where
  "status_says fs on port st \<longleftrightarrow>
     portName st = fst port
     \<and> (\<not> snd port \<longrightarrow> currentPowerRole st = PowerNONE \<and> currentDataRole st = DataNONE
          \<and> currentMode st = ModeNONE \<and> \<not> canChangeDataRole st)
     \<and> canChangeDataRole st = canChangePowerRole st
     \<and> (canChangeDataRole st \<longrightarrow> canSwitchRoleHelper fs (fst port))
     \<and> usbDataStatus st = [if on then ENABLED else DISABLED_FORCE]"

lemma port_status_of_says:
  assumes "port_status_of fs on port = Some (True, st)"
  shows "status_says fs on port st"
proof -
  obtain s1 r1 where 1: "getCurrentRoleHelper fs (fst port) (snd port) (powerRole PowerNONE) = (s1, r1)"
    by (cases "getCurrentRoleHelper fs (fst port) (snd port) (powerRole PowerNONE)")
  obtain s2 r2 where 2: "getCurrentRoleHelper fs (fst port) (snd port) (dataRole DataNONE) = (s2, r2)"
    by (cases "getCurrentRoleHelper fs (fst port) (snd port) (dataRole DataNONE)")
  obtain s3 r3 where 3: "getCurrentRoleHelper fs (fst port) (snd port) (mode ModeNONE) = (s3, r3)"
    by (cases "getCurrentRoleHelper fs (fst port) (snd port) (mode ModeNONE)")
  have unconnected: "r1 = powerRole PowerNONE" "r2 = dataRole DataNONE" "r3 = mode ModeNONE"
    if "\<not> snd port"
    using that 1 2 3 by (simp_all add: getCurrentRoleHelper_def Let_def)
  obtain pr dr m where "get_powerRole r1 = Some pr" "get_dataRole r2 = Some dr" "get_mode r3 = Some m"
    and "st = empty_status\<lparr>portName := fst port, currentPowerRole := pr, currentDataRole := dr,
      currentMode := m, canChangeMode := True,
      canChangeDataRole := snd port \<and> canSwitchRoleHelper fs (fst port),
      canChangePowerRole := snd port \<and> canSwitchRoleHelper fs (fst port), supportedModes := [DRP],
      usbDataStatus := [if on then ENABLED else DISABLED_FORCE], powerBrickStatus := BrickUNKNOWN\<rparr>"
    using assms 1 2 3 by (cases "snd port") (auto simp: port_status_of_def Let_def split: if_splits)
  then show ?thesis using unconnected by (cases "snd port") (auto simp: status_says_def)
qed

lemma port_status_loop_says:
  assumes "port_status_loop fs on ps = Some (SUCCESS, sts)"
  shows "list_all2 (status_says fs on) ps sts"
  using assms
proof (induction ps arbitrary: sts)
  case (Cons p ps)
  then show ?case
    by (auto split: prod.splits if_splits intro: port_status_of_says)
qed simp

lemma port_status_loop_length:
  "port_status_loop fs on ps = Some (s, sts) \<Longrightarrow> length sts = length ps"
  by (induction ps arbitrary: s sts) (auto split: prod.splits if_splits)

text \<open>The queries keep the vector's length and the fields above.\<close>

lemma queries_keep:
  assumes "queryMoistureDetectionStatus fs sts = Some (s, sts')"
  shows "list_all2 (status_says fs on) ps sts \<Longrightarrow> list_all2 (status_says fs on) ps sts'"
  using assms
  by (cases ps)
    (auto simp: queryMoistureDetectionStatus_def status_says_def Let_def
      split: list.splits option.splits if_splits)

lemma power_query_keeps:
  assumes "queryPowerTransferStatus fs sts = Some (s, sts')"
  shows "list_all2 (status_says fs on) ps sts \<Longrightarrow> list_all2 (status_says fs on) ps sts'"
  using assms
  by (cases ps)
    (auto simp: queryPowerTransferStatus_def status_says_def split: list.splits option.splits)

text \<open>
  C17: a port status reported as SUCCESS has one element per port, in the order
  of the map; it names the port, a port without partner has no role and cannot
  change roles, roles can be changed only where the partner supports power
  delivery, and the data status says whether USB data is enabled.
\<close>

theorem port_status_correct:
  assumes "queryVersionHelper u = Some (sts, u')" "mCallback u = Some cb"
    and "usb_notified u' = usb_notified u @ [(cb, notifyPortStatusChange sts SUCCESS)]"
    and "getTypeCPortNamesHelper (usb_fs u) = Some (SUCCESS, names)"
  shows "list_all2 (status_says (usb_fs u) (mUsbDataEnabled u)) (port_order u names) sts"
proof -
  obtain s sts1 sm sts2 sp where 1: "getPortStatusHelper u = Some (s, sts1)"
    and 2: "queryMoistureDetectionStatus (usb_fs u) sts1 = Some (sm, sts2)"
    and 3: "queryPowerTransferStatus (usb_fs u) sts2 = Some (sp, sts)"
    and 4: "u' = notify (notifyPortStatusChange sts s) u"
    using assms(1) by (auto simp: queryVersionHelper_def)
  have "s = SUCCESS" using 4 assms(2,3) by simp
  then have "port_status_loop (usb_fs u) (mUsbDataEnabled u) (port_order u names)
      = Some (SUCCESS, sts1)"
    using 1 assms(4) by (simp add: getPortStatusHelper_def)
  then show ?thesis using port_status_loop_says queries_keep [OF 2] power_query_keeps [OF 3] by blast
qed

text \<open>
  Without a typec directory, or with no port in it, the status query
  accesses element 0 of an empty vector: no call that reports the status has a
  defined result then.
\<close>

theorem port_status_needs_port:
  assumes "fs_dir (usb_fs u) kTypecPath = None \<or> fs_dir (usb_fs u) kTypecPath = Some []"
    and "port_order u [] = []"
  shows "queryVersionHelper u = None \<and> queryPortStatus tid u = None"
proof -
  have "queryVersionHelper u = None"
    using assms
    by (auto simp: queryVersionHelper_def getPortStatusHelper_def getTypeCPortNamesHelper_def
        queryMoistureDetectionStatus_def)
  then show ?thesis by (simp add: queryPortStatus_def)
qed

section \<open>Reading a role\<close>

lemma dropWhile_prefix:
  assumes "m \<noteq> []" "\<not> P (hd m)"
  shows "\<exists>pre'. dropWhile P (pre @ m) = pre' @ m \<and> set pre' \<subseteq> set pre"
proof (induction pre)
  case Nil
  then show ?case using assms by (cases m) auto
next
  case (Cons c pre)
  then obtain pre' where "dropWhile P (pre @ m) = pre' @ m" "set pre' \<subseteq> set pre" by blast
  then show ?case
    by (cases "P c") (auto intro: exI [of _ pre'] exI [of _ "c # pre"])
qed

lemma Trim_around:
  assumes "m \<noteq> []" "\<not> c_isspace (hd m)" "\<not> c_isspace (last m)"
  shows "\<exists>pre' post'. Trim (pre @ m @ post) = pre' @ m @ post' \<and> set pre' \<subseteq> set pre"
proof -
  obtain pre' where 1: "dropWhile c_isspace (pre @ m @ post) = pre' @ m @ post" "set pre' \<subseteq> set pre"
    using dropWhile_prefix [of "m @ post" c_isspace pre] assms by auto
  have "rev (pre' @ m @ post) = rev post @ (rev m @ rev pre')" by simp
  moreover have "rev m @ rev pre' \<noteq> []" "\<not> c_isspace (hd (rev m @ rev pre'))"
    using assms by (simp_all add: hd_append hd_rev)
  ultimately obtain q where "dropWhile c_isspace (rev (pre' @ m @ post)) = q @ rev m @ rev pre'"
    using dropWhile_prefix [of "rev m @ rev pre'" c_isspace "rev post"] by auto
  then have "Trim (pre @ m @ post) = pre' @ m @ rev q" using 1 by (simp add: Trim_def)
  then show ?thesis using 1(2) by blast
qed

text \<open>
  When the role node of a connected port marks a role in brackets among
  the others, as the typec class does, that role is what the status says of
  it, for the power role and for the data role.
\<close>

theorem getCurrentRole_marked:
  assumes "fs_content fs (role_node port (getTag r)) = Some (pre @ ''['' @ convertRoletoString r @ '']'' @ post)"
    and "CHR ''['' \<notin> set pre" "CHR '']'' \<notin> set pre"
    and "r \<in> {powerRole SOURCE, powerRole SINK, dataRole HOST, dataRole DEVICE}"
  shows "getCurrentRoleHelper fs port True (no_role r) = (SUCCESS, r)"
proof -
  let ?m = "''['' @ convertRoletoString r @ '']''"
  have "\<not> c_isspace (hd ?m)" "\<not> c_isspace (last ?m)" "?m \<noteq> []"
    by (auto simp: c_isspace_def)
  then obtain pre' post' where t: "Trim (pre @ ?m @ post) = pre' @ ?m @ post'" "set pre' \<subseteq> set pre"
    using Trim_around by blast
  have "CHR '']'' \<notin> set (convertRoletoString r)" using assms(4) by auto
  then have "extractRole (Trim (pre @ ?m @ post)) = convertRoletoString r"
    using extractRole_bracketed [of pre' "convertRoletoString r" post'] assms(2,3) t by auto
  then show ?thesis
    using assms(1,4)
    by (auto simp: getCurrentRoleHelper_def ReadFileToString_def set_role_def Let_def)
qed

section \<open>Uevents\<close>

lemma drp_if_unconnected_frame:
  "usb_notified (drp_if_unconnected sts u) = usb_notified u"
  "mPartnerUp (drp_if_unconnected sts u) = mPartnerUp u"
  by (induction sts u rule: drp_if_unconnected.induct) (auto simp: switchToDrp_def)

lemma queryVersionHelper_fs:
  assumes "queryVersionHelper u = Some (sts, u')"
  shows "usb_fs u' = usb_fs u" "role_switch_locked u' = role_switch_locked u"
    "mPartnerUp u' = mPartnerUp u" "mCallback u' = mCallback u"
  using assms by (auto elim: queryVersionHelper_frame)

lemma uevent_lines_partner:
  "uevent_lines cps u = Some u' \<Longrightarrow>
    mPartnerUp u' = (mPartnerUp u \<or> (\<exists>cp \<in> set (takeWhile (\<lambda>cp. cp \<noteq> [] \<and> \<not> (typec_change cp \<and> \<not> partner_added cp)) cps).
      partner_added cp))"
proof (induction cps arbitrary: u)
  case (Cons cp cps)
  show ?case
  proof (cases "cp \<noteq> [] \<and> typec_change cp \<and> \<not> partner_added cp")
    case True
    then show ?thesis
      using Cons.prems
      by (auto simp: drp_if_unconnected_frame split: option.splits if_splits
          dest!: queryVersionHelper_fs(3))
  next
    case False
    then show ?thesis using Cons by (auto split: if_splits)
  qed
qed simp

lemma uevent_lines_locked:
  assumes "uevent_lines cps u = Some u'" "role_switch_locked u"
  shows "usb_fs u' = usb_fs u"
  using assms
proof (induction cps arbitrary: u)
  case (Cons cp cps)
  then show ?case
    by (auto split: if_splits option.splits dest: queryVersionHelper_fs(1,2))
qed simp

lemma role_lock_kept:
  "role_switch_locked (drp_if_unconnected sts u) = role_switch_locked u"
  by (induction sts u rule: drp_if_unconnected.induct) (auto simp: switchToDrp_def usb_write_def)

lemma uevent_lines_lock:
  "uevent_lines cps u = Some u' \<Longrightarrow> role_switch_locked u' = role_switch_locked u"
  by (induction cps u rule: uevent_lines.induct)
    (auto simp: role_lock_kept queryVersionHelper_fs(2) split: if_splits option.splits)

lemma uevent_event_locked:
  assumes "uevent_event n msg u = Some u'" "role_switch_locked u"
  shows "usb_fs u' = usb_fs u" "role_switch_locked u'"
  using assms uevent_lines_locked uevent_lines_lock
  by (auto simp: uevent_event_def split: if_splits)

text \<open>
  C18: handling a uevent marks the partner as returned exactly if one of the
  message's strings before the first port change announces a partner, and it
  writes no node while a role switch is in progress.
\<close>

theorem uevent_event_effect:
  assumes "uevent_event n msg u = Some u'" "0 < n" "n < int UEVENT_MSG_LEN"
    and "cps = takeWhile (\<lambda>cp. cp \<noteq> [] \<and> \<not> (typec_change cp \<and> \<not> partner_added cp))
      (split_nul (take (nat n) msg @ [CHR 0x00, CHR 0x00]))"
  shows "(mPartnerUp u' \<longleftrightarrow> mPartnerUp u \<or> (\<exists>cp \<in> set cps. partner_added cp))
    \<and> (\<not> role_switch_locked u \<or> usb_fs u' = usb_fs u)"
proof -
  have "uevent_lines (split_nul (take (nat n) msg @ [CHR 0x00, CHR 0x00])) u = Some u'"
    using assms(1-3) by (simp add: uevent_event_def)
  then show ?thesis
    using uevent_lines_partner uevent_lines_locked assms(4) by blast
qed

section \<open>The callback and its thread\<close>

fun stops :: "poll \<Rightarrow> bool" where
  "stops (Interrupted destroyThread) = destroyThread"
| "stops PollError = True"
| "stops (Messages evs destroyThread) = destroyThread"

fun messages :: "poll \<Rightarrow> (int \<times> string) list" where
  "messages (Messages evs destroyThread) = evs"
| "messages _ = []"

definition until_stop :: "poll list \<Rightarrow> poll list" where
  "until_stop ps = takeWhile (\<lambda>p. \<not> stops p) ps @ take 1 (dropWhile (\<lambda>p. \<not> stops p) ps)"

lemma until_stop_Cons: "until_stop (p # ps) = p # (if stops p then [] else until_stop ps)"
  by (simp add: until_stop_def)

lemma uevent_events_append:
  "uevent_events (xs @ ys) u = Option.bind (uevent_events xs u) (uevent_events ys)"
  by (induction xs u rule: uevent_events.induct) (auto split: Option.bind_splits)

lemma work_loop_events:
  "work_loop ps u = map_option (\<lambda>u'. (\<exists>p \<in> set ps. stops p, u'))
     (uevent_events (concat (map messages (until_stop ps))) u)"
proof (induction ps u rule: work_loop.induct)
  case (1 u)
  show ?case by (simp add: until_stop_def)
next
  case (4 evs destroyThread ps u)
  then show ?case
    by (cases "uevent_events evs u") (auto simp: until_stop_Cons uevent_events_append)
qed (simp_all add: until_stop_Cons)

lemma uevent_events_locked:
  assumes "uevent_events evs u = Some u'" "role_switch_locked u"
  shows "usb_fs u' = usb_fs u"
  using assms
proof (induction evs u rule: uevent_events.induct)
  case (2 n msg evs u)
  then obtain u1 where 1: "uevent_event n msg u = Some u1" "uevent_events evs u1 = Some u'" by auto
  have "usb_fs u1 = usb_fs u" "role_switch_locked u1"
    using uevent_event_locked [OF 1(1) 2(3)] by auto
  then show ?case using 2(1) 1 by simp
qed simp

text \<open>
  C19: the uevent thread handles the messages it is given one after the other, in
  their order, all of those before the first stop (the signal of the callback's
  removal, or a failing wait) and of the batch during which the signal comes,
  and none after it; it ends exactly at a stop. While a role switch is in
  progress it writes no node, whatever the messages.
\<close>

theorem work_events:
  "work True True True ps u = map_option (\<lambda>u'. (\<exists>p \<in> set ps. stops p, u'))
     (uevent_events (concat (map messages (until_stop ps))) u)
   \<and> (\<forall>ended u'. work True True True ps u = Some (ended, u') \<and> role_switch_locked u
        \<longrightarrow> usb_fs u' = usb_fs u)"
  using uevent_events_locked by (auto simp: work_def work_loop_events)

definition thread_inv :: "usb \<Rightarrow> bool" where
  "thread_inv u \<longleftrightarrow> (mCallback u \<noteq> None \<longrightarrow> poll_running u)"

lemma setCallback_inv: "thread_inv u \<Longrightarrow> thread_inv (setCallback cb u)"
proof -
  assume i: "thread_inv u"
  obtain ok u1 where 1: "thread_call (u\<lparr>mCallback := cb\<rparr>) = (ok, u1)"
    by (cases "thread_call (u\<lparr>mCallback := cb\<rparr>)")
  have "mCallback u1 = cb" "poll_running u1 = poll_running u"
    using 1 by (auto simp: thread_call_def split: list.splits)
  then show ?thesis using i 1 by (auto simp: setCallback_def thread_inv_def Let_def)
qed

text \<open>
  From the start of the service, whatever callbacks are set in turn and
  whichever pthread calls fail, the uevent thread has been started, and not been
  stopped since, while a callback is set; replacing one callback by another
  starts and stops nothing.
\<close>

theorem setCallback_thread:
  assumes "Usb_init attr_init setclock cond_init attr_destroy env = Some u0"
    and "u = fold setCallback cbs u0"
  shows "thread_inv u \<and> (mCallback u = None \<or> setCallback (Some cb) u = u\<lparr>mCallback := Some cb\<rparr>)"
proof
  have "thread_inv u0"
    using assms(1) by (auto simp: Usb_init_def thread_inv_def split: if_splits)
  then show "thread_inv u"
    unfolding assms(2) by (induction cbs arbitrary: u0) (auto intro: setCallback_inv)
  show "mCallback u = None \<or> setCallback (Some cb) u = u\<lparr>mCallback := Some cb\<rparr>"
    by (auto simp: setCallback_def)
qed

end
