(* ===== verification/Usb_Example.thy ===== *)
theory Usb_Example
  imports Usb_Laws
begin

text \<open>
  A service with one port and a partner on it, every node accepting what is
  written to it, on which the theorems about the USB service are applied; and the
  same device after its ports are gone.
\<close>

definition demo_nodes :: "(string \<times> string) list" where
  "demo_nodes = [(PULLUP_PATH, ''a600000.dwc3''),
     (''/sys/class/typec/port0/power_role'', ''source [sink]''),
     (''/sys/class/typec/port0/data_role'', ''host [device]''),
     (''/sys/class/typec/port0-partner/accessory_mode'', ''none''),
     (''/sys/class/typec/port0-partner/supports_usb_power_delivery'', ''yes''),
     (kEnabledPath, ''1''), (kDetectedPath, ''0''), (SINK_LIMIT_ENABLE_PATH, ''1'')]"

definition demo_fs :: sysfs where
  "demo_fs = \<lparr>fs_content = map_of demo_nodes, fs_driver = (\<lambda>p s c. Some (c(p \<mapsto> s))),
     fs_openable = (\<lambda>p. True), fs_eof = (\<lambda>p. False),
     fs_dir = (\<lambda>p. if p = kTypecPath
       then Some [(''.'', False), (''port0'', True), (''port0-partner'', True)] else None),
     fs_log = []\<rparr>"

definition demo_usb :: usb where
  "demo_usb = \<lparr>usb_fs = demo_fs, usb_props = (\<lambda>k. None), mCallback = Some 1, mPartnerUp = False,
     mUsbDataEnabled = True, poll_running = True, thread_calls = [], role_switch_locked = False,
     partner_waits = [Woken False, Woken True], port_order = (\<lambda>ps. ps), usb_notified = []\<rparr>"

lemma demo_callback: "mCallback demo_usb = Some 1"
  by (simp add: demo_usb_def)

lemma enableUsbData_effect_witness:
  "\<exists>u'. enableUsbData ''port0'' False 7 demo_usb = Some u'
    \<and> fs_log (usb_fs u') = [(PULLUP_PATH, ''none''), (USB_DATA_PATH, ''0'')]"
proof -
  have "map_option mUsbDataEnabled (enableUsbData ''port0'' False 7 demo_usb) = Some False"
    by code_simp
  then obtain u' where u': "enableUsbData ''port0'' False 7 demo_usb = Some u'"
    "\<not> mUsbDataEnabled u'" by auto
  have d: "usb_data_plan False demo_usb = [(PULLUP_PATH, ''none''), (USB_DATA_PATH, ''0'')]"
    "fs_log (usb_fs demo_usb) = []" "mUsbDataEnabled demo_usb"
    by code_simp+
  show ?thesis
    using enableUsbData_effect [OF u'(1) demo_callback] u' d by (auto split: if_splits)
qed

lemma limitPowerTransfer_effect_witness:
  "\<exists>u'. limitPowerTransfer ''port0'' True (-1) demo_usb = Some u'
    \<and> (\<exists>sts st. usb_notified u' = [(1, notifyPortStatusChange sts st)])"
proof -
  have "limitPowerTransfer ''port0'' True (-1) demo_usb \<noteq> None" by code_simp
  then obtain u' where u': "limitPowerTransfer ''port0'' True (-1) demo_usb = Some u'" by auto
  have "usb_notified demo_usb = []" by (simp add: demo_usb_def)
  then show ?thesis using limitPowerTransfer_effect [OF u' demo_callback] u' by auto
qed


lemma switchMode_outcome_witness: "fst (switchMode ''port0'' (mode UFP) demo_usb)"
proof -
  obtain ok u' where run: "switchMode ''port0'' (mode UFP) demo_usb = (ok, u')"
    by (metis surj_pair)
  have "fs_openable (usb_fs demo_usb) (appendRoleNodeHelper ''port0'' Tmode)"
    "\<not> fs_eof (usb_fs demo_usb) (appendRoleNodeHelper ''port0'' Tmode)"
    "dropWhile spurious (partner_waits demo_usb) = [Woken True]"
    by code_simp+
  then show ?thesis using switchMode_outcome [OF run refl] run by auto
qed

lemma demo_names: "getTypeCPortNamesHelper (usb_fs demo_usb) = Some (SUCCESS, [(''port0'', True)])"
  by code_simp

lemma getTypeCPortNames_correct_witness:
  "map_of [(''port0'', True)] ''port0'' = Some True
    \<and> partner_listed [(''.'', False), (''port0'', True), (''port0-partner'', True)] ''port0''"
proof -
  have e: "fs_dir (usb_fs demo_usb) kTypecPath
      = Some [(''.'', False), (''port0'', True), (''port0-partner'', True)]"
    by (simp add: demo_usb_def demo_fs_def)
  show ?thesis
    using getTypeCPortNames_correct [OF demo_names e, of "''port0''"] by (auto split: if_splits)
qed

lemma port_status_correct_witness:
  "\<exists>sts u'. queryVersionHelper demo_usb = Some (sts, u')
    \<and> list_all2 (status_says (usb_fs demo_usb) True) [(''port0'', True)] sts"
proof -
  have "map_option fst (getPortStatusHelper demo_usb) = Some SUCCESS" by code_simp
  moreover have "queryVersionHelper demo_usb \<noteq> None" by code_simp
  ultimately obtain sts u' where q: "queryVersionHelper demo_usb = Some (sts, u')"
    "u' = notify (notifyPortStatusChange sts SUCCESS) demo_usb"
    by (auto simp: queryVersionHelper_def)
  then have "usb_notified u' = usb_notified demo_usb @ [(1, notifyPortStatusChange sts SUCCESS)]"
    by (simp add: demo_callback)
  from port_status_correct [OF q(1) demo_callback this demo_names] q(1) show ?thesis
    by (auto simp: demo_usb_def)
qed

lemma port_status_needs_port_witness:
  "queryPortStatus 1 (demo_usb\<lparr>usb_fs := demo_fs\<lparr>fs_dir := (\<lambda>p. Some [])\<rparr>\<rparr>) = None"
  using port_status_needs_port [of "demo_usb\<lparr>usb_fs := demo_fs\<lparr>fs_dir := (\<lambda>p. Some [])\<rparr>\<rparr>" 1]
  by (simp add: demo_usb_def)

lemma getCurrentRole_marked_witness:
  "getCurrentRoleHelper demo_fs ''port0'' True (powerRole PowerNONE) = (SUCCESS, powerRole SINK)"
proof -
  have "fs_content demo_fs (role_node ''port0'' (getTag (powerRole SINK)))
      = Some (''source '' @ ''['' @ convertRoletoString (powerRole SINK) @ '']'' @ '''')"
    by code_simp
  from getCurrentRole_marked [OF this] show ?thesis by simp
qed

definition demo_uevent :: string where
  "demo_uevent = ''add@/devices/typec/port0/port0-partner'' @ [CHR 0x00] @ ''DEVTYPE=typec_partner''"

lemma uevent_event_effect_witness:
  "\<exists>u'. uevent_event (int (length demo_uevent)) demo_uevent demo_usb = Some u' \<and> mPartnerUp u'"
proof -
  let ?n = "int (length demo_uevent)"
  let ?cps = "takeWhile (\<lambda>cp. cp \<noteq> [] \<and> \<not> (typec_change cp \<and> \<not> partner_added cp))
      (split_nul (take (nat ?n) demo_uevent @ [CHR 0x00, CHR 0x00]))"
  have e: "uevent_event ?n demo_uevent demo_usb \<noteq> None" "0 < ?n" "?n < int UEVENT_MSG_LEN"
    "list_ex partner_added ?cps"
    by code_simp+
  then obtain u' where u': "uevent_event ?n demo_uevent demo_usb = Some u'" by auto
  show ?thesis using uevent_event_effect [OF u' e(2,3) refl] u' e(4) by (auto simp: list_ex_iff)
qed

lemma setCallback_thread_witness:
  "\<exists>u0. Usb_init True True True True demo_usb = Some u0
    \<and> thread_inv (fold setCallback [None, Some 2, Some 3] u0)"
proof -
  obtain u0 where u0: "Usb_init True True True True demo_usb = Some u0"
    by (simp add: Usb_init_def)
  then show ?thesis using setCallback_thread [OF u0 refl, of "[None, Some 2, Some 3]"] by blast
qed

text \<open>A batch of messages, then the signal: what comes after it is not handled.\<close>

definition demo_polls :: "poll list" where
  "demo_polls = [Messages [(int (length demo_uevent), demo_uevent)] True, PollError]"

definition locked_usb :: usb where
  "locked_usb = demo_usb\<lparr>role_switch_locked := True\<rparr>"

lemma work_events_witness:
  "\<exists>u'. work True True True demo_polls locked_usb = Some (True, u') \<and> usb_fs u' = demo_fs"
proof -
  have "work True True True demo_polls locked_usb \<noteq> None" by code_simp
  then obtain e u' where w: "work True True True demo_polls locked_usb = Some (e, u')" by auto
  have "\<exists>p \<in> set demo_polls. stops p" "role_switch_locked locked_usb" "usb_fs locked_usb = demo_fs"
    by (simp_all add: demo_polls_def locked_usb_def demo_usb_def)
  with work_events [of demo_polls locked_usb] w have "e" "usb_fs u' = demo_fs"
    by (auto simp: map_option_case split: option.splits)
  with w show ?thesis by simp
qed

end
