(* ===== verification/Usb_Gadget.thy ===== *)
theory Usb_Gadget
  imports Text
begin

text \<open>
  The USB gadget service (usb/gadget/UsbGadget.cpp). The configfs work is done by
  libpixelusb, which is not in the repository: the record \<open>pixelusb\<close> holds its
  functions as parameters of the model, over a state \<open>'s\<close> that the model does
  not look into. Calls of the client's callback are recorded.
\<close>

datatype gadget_status = SUCCESS | ERROR | FUNCTIONS_APPLIED | FUNCTIONS_NOT_APPLIED
  | CONFIGURATION_NOT_SUPPORTED

section \<open>The functions of a gadget\<close>

definition FUNCTION_NONE :: u64 where [model_defs]: "FUNCTION_NONE = 0"
definition ADB :: u64 where [model_defs]: "ADB = 1"
definition ACCESSORY :: u64 where [model_defs]: "ACCESSORY = 2"
definition MTP :: u64 where [model_defs]: "MTP = 4"
definition MIDI :: u64 where [model_defs]: "MIDI = 8"
definition PTP :: u64 where [model_defs]: "PTP = 16"
definition RNDIS :: u64 where [model_defs]: "RNDIS = 32"
definition AUDIO_SOURCE :: u64 where [model_defs]: "AUDIO_SOURCE = 64"

definition user_build :: "string \<Rightarrow> bool" where
  "user_build v \<longleftrightarrow> v = ''user'' \<or> v = ''''"

text \<open>
  The \<open>switch\<close> of \<open>validateAndSetVidPid\<close>: the vendor and product id, or nothing
  for a combination that is not supported. In most cases some vendor functions
  have an id of their own, and any others are refused on a build that is not
  \<open>user\<close>; the accessory and audio cases take any vendor functions.
\<close>

definition ids :: "(string \<times> string) list \<Rightarrow> string \<Rightarrow> string \<Rightarrow> (string \<times> string) option" where
  "ids vendor_pids user_pid v =
     (case map_of vendor_pids v of
        Some pid \<Rightarrow> Some (''0x05C6'', pid)
      | None \<Rightarrow> if \<not> user_build v then None else Some (''0x18d1'', user_pid))"

definition vid_pid :: "u64 \<Rightarrow> string \<Rightarrow> (string \<times> string) option" where
  "vid_pid functions v =
     (if functions = MTP then ids [(''diag'', ''0x901B'')] ''0x4ee1'' v
      else if functions = ADB OR MTP then ids [(''diag'', ''0x903A'')] ''0x4ee2'' v
      else if functions = RNDIS then
        ids [(''diag'', ''0x902C''), (''serial_cdev,diag'', ''0x90B5''),
             (''diag,diag_mdm,qdss,qdss_mdm,serial_cdev,dpl_gsi'', ''0x90E6'')] ''0x4ee3'' v
      else if functions = ADB OR RNDIS then
        ids [(''diag'', ''0x902D''), (''serial_cdev,diag'', ''0x90B6''),
             (''diag,diag_mdm,qdss,qdss_mdm,serial_cdev,dpl_gsi'', ''0x90E7'')] ''0x4ee4'' v
      else if functions = PTP then ids [] ''0x4ee5'' v
      else if functions = ADB OR PTP then ids [] ''0x4ee6'' v
      else if functions = ADB then
        ids [(''diag'', ''0x901D''), (''diag,serial_cdev,rmnet_gsi'', ''0x9091''),
             (''diag,serial_cdev'', ''0x901F''),
             (''diag,serial_cdev,rmnet_gsi,dpl_gsi,qdss'', ''0x90DB''),
             (''diag,diag_mdm,qdss,qdss_mdm,serial_cdev,dpl_gsi,rmnet_gsi'', ''0x90E5'')]
          ''0x4ee7'' v
      else if functions = MIDI then ids [] ''0x4ee8'' v
      else if functions = ADB OR MIDI then ids [] ''0x4ee9'' v
      else if functions = ACCESSORY then Some (''0x18d1'', ''0x2d00'')
      else if functions = ADB OR ACCESSORY then Some (''0x18d1'', ''0x2d01'')
      else if functions = AUDIO_SOURCE then Some (''0x18d1'', ''0x2d02'')
      else if functions = ADB OR AUDIO_SOURCE then Some (''0x18d1'', ''0x2d03'')
      else if functions = ACCESSORY OR AUDIO_SOURCE then Some (''0x18d1'', ''0x2d04'')
      else if functions = ADB OR ACCESSORY OR AUDIO_SOURCE then Some (''0x18d1'', ''0x2d05'')
      else None)"

section \<open>The library and the state\<close>

record 's pixelusb =
  getVendorFunctions :: "'s \<Rightarrow> string"
  setVidPid :: "string \<Rightarrow> string \<Rightarrow> 's \<Rightarrow> gadget_status \<times> 's"
  resetGadget :: "'s \<Rightarrow> gadget_status \<times> 's"
  isMonitorRunning :: "'s \<Rightarrow> bool"
  monitor_reset :: "'s \<Rightarrow> 's"
  addGenericAndroidFunctions :: "u64 \<Rightarrow> 's \<Rightarrow> (gadget_status \<times> bool \<times> int) \<times> 's"
  linkFunction :: "string \<Rightarrow> int \<Rightarrow> 's \<Rightarrow> bool \<times> 's"
  addAdb :: "int \<Rightarrow> 's \<Rightarrow> (gadget_status \<times> int) \<times> 's"
  write_pullup :: "string \<Rightarrow> 's \<Rightarrow> bool \<times> 's"
  startMonitor :: "'s \<Rightarrow> 's"
  waitForPullUp :: "u64 \<Rightarrow> 's \<Rightarrow> (bool \<times> bool list) \<times> 's"

record 's gadget =
  mCurrentUsbFunctions :: u64
  mCurrentUsbFunctionsApplied :: bool
  gadget_lib :: 's
  gadget_notified :: "(u64 \<times> gadget_status) list"

definition kGadgetName_gadget :: string where "kGadgetName_gadget = ''a600000.dwc3''"

text \<open>
  The constructor checks that the kernel's configfs is set up. It does not set
  the members: they start with whatever the memory held.
\<close>

definition UsbGadget_init :: "bool \<Rightarrow> u64 \<Rightarrow> bool \<Rightarrow> 's \<Rightarrow> 's gadget option" where
  "UsbGadget_init os_desc_readable functions applied lib =
     (if \<not> os_desc_readable then None
      else Some \<lparr>mCurrentUsbFunctions = functions, mCurrentUsbFunctionsApplied = applied,
        gadget_lib = lib, gadget_notified = []\<rparr>)"

definition gadget_notify :: "bool \<Rightarrow> u64 \<Rightarrow> gadget_status \<Rightarrow> 's gadget \<Rightarrow> 's gadget" where
  "gadget_notify has_callback functions st g =
     (if has_callback then g\<lparr>gadget_notified := gadget_notified g @ [(functions, st)]\<rparr> else g)"

definition on_lib :: "('s \<Rightarrow> 'r \<times> 's) \<Rightarrow> 's gadget \<Rightarrow> 'r \<times> 's gadget" where
  "on_lib f g = (case f (gadget_lib g) of (r, s) \<Rightarrow> (r, g\<lparr>gadget_lib := s\<rparr>))"

definition currentFunctionsAppliedCallback :: "bool \<Rightarrow> 's gadget \<Rightarrow> 's gadget" where
  "currentFunctionsAppliedCallback functionsApplied g =
     g\<lparr>mCurrentUsbFunctionsApplied := functionsApplied\<rparr>"

section \<open>The operations\<close>

definition getCurrentUsbFunctions :: "'s gadget \<Rightarrow> u64 \<times> gadget_status" where
  "getCurrentUsbFunctions g =
     (mCurrentUsbFunctions g,
      if mCurrentUsbFunctionsApplied g then FUNCTIONS_APPLIED else FUNCTIONS_NOT_APPLIED)"

definition tearDownGadget :: "'s pixelusb \<Rightarrow> 's gadget \<Rightarrow> gadget_status \<times> 's gadget" where
  "tearDownGadget L g =
     (case on_lib (resetGadget L) g of (st, g) \<Rightarrow>
      if st \<noteq> SUCCESS then (ERROR, g)
      else if isMonitorRunning L (gadget_lib g)
        then (SUCCESS, g\<lparr>gadget_lib := monitor_reset L (gadget_lib g)\<rparr>)
      else (SUCCESS, g))"

definition validateAndSetVidPid :: "'s pixelusb \<Rightarrow> u64 \<Rightarrow> 's gadget \<Rightarrow> gadget_status \<times> 's gadget" where
  "validateAndSetVidPid L functions g =
     (case vid_pid functions (getVendorFunctions L (gadget_lib g)) of
        None \<Rightarrow> (CONFIGURATION_NOT_SUPPORTED, g)
      | Some (vid, pid) \<Rightarrow> on_lib (setVidPid L vid pid) g)"

definition gadget_reset :: "'s pixelusb \<Rightarrow> 's gadget \<Rightarrow> gadget_status \<times> 's gadget" where
  "gadget_reset L g =
     (case on_lib (write_pullup L ''none'') g of (ok, g) \<Rightarrow>
      if \<not> ok then (ERROR, g)
      else (case on_lib (write_pullup L kGadgetName_gadget) g of (ok, g) \<Rightarrow>
        if \<not> ok then (ERROR, g) else (SUCCESS, g)))"

text \<open>The configfs function a token of the vendor functions stands for.\<close>

definition vendor_link :: "string \<Rightarrow> string option" where
  "vendor_link t =
     (if t = ''diag'' then Some ''diag.diag''
      else if t = ''diag_mdm'' then Some ''diag.diag_mdm''
      else if t = ''qdss'' then Some ''qdss.qdss''
      else if t = ''qdss_mdm'' then Some ''qdss.qdss_mdm''
      else if t = ''serial_cdev'' then Some ''cser.dun.0''
      else if t = ''dpl_gsi'' then Some ''gsi.dpl''
      else if t = ''rmnet_gsi'' then Some ''gsi.rmnet''
      else None)"

text \<open>\<open>strtok\<close> with a comma: the pieces between commas, the empty ones skipped.\<close>

definition strtok_commas :: "string \<Rightarrow> string list" where
  "strtok_commas s = filter (\<lambda>t. t \<noteq> []) (getlines (CHR '','') s)"

fun link_vendor ::
  "'s pixelusb \<Rightarrow> string list \<Rightarrow> int \<Rightarrow> 's gadget \<Rightarrow> (gadget_status \<times> int) \<times> 's gadget" where
  "link_vendor L [] i g = ((SUCCESS, i), g)"
| "link_vendor L (t # ts) i g =
     (case vendor_link t of
        None \<Rightarrow> link_vendor L ts i g
      | Some f \<Rightarrow>
          (case on_lib (linkFunction L f i) g of (failed, g) \<Rightarrow>
             if failed then ((ERROR, i + 1), g) else link_vendor L ts (i + 1) g))"

definition setupFunctions ::
  "'s pixelusb \<Rightarrow> u64 \<Rightarrow> bool \<Rightarrow> u64 \<Rightarrow> 's gadget \<Rightarrow> gadget_status \<times> 's gadget" where
  "setupFunctions L functions has_callback timeout g =
     (case on_lib (addGenericAndroidFunctions L functions) g of ((st, ffsEnabled, i), g) \<Rightarrow>
      if st \<noteq> SUCCESS then (ERROR, g)
      else (case link_vendor L (strtok_commas (getVendorFunctions L (gadget_lib g))) i g of
        ((st, i), g) \<Rightarrow>
        if st \<noteq> SUCCESS then (ERROR, g)
        else (case (if functions AND ADB \<noteq> 0
                    then (case on_lib (addAdb L i) g of ((st, i), g) \<Rightarrow> ((st, True), g))
                    else ((SUCCESS, ffsEnabled), g)) of ((st, ffsEnabled), g) \<Rightarrow>
          if st \<noteq> SUCCESS then (ERROR, g)
          else if \<not> ffsEnabled then
            (case on_lib (write_pullup L kGadgetName_gadget) g of (ok, g) \<Rightarrow>
             if \<not> ok then (ERROR, g)
             else (SUCCESS, gadget_notify has_callback functions SUCCESS
               (g\<lparr>mCurrentUsbFunctionsApplied := True\<rparr>)))
          else
            let g = g\<lparr>gadget_lib := startMonitor L (gadget_lib g)\<rparr> in
            if \<not> has_callback then (SUCCESS, g)
            else (case on_lib (waitForPullUp L timeout) g of ((pullup, applied), g) \<Rightarrow>
              let g = fold currentFunctionsAppliedCallback applied g in
              (SUCCESS, gadget_notify True functions (if pullup then SUCCESS else ERROR) g)))))"

definition setCurrentUsbFunctions ::
  "'s pixelusb \<Rightarrow> u64 \<Rightarrow> bool \<Rightarrow> u64 \<Rightarrow> 's gadget \<Rightarrow> 's gadget" where
  "setCurrentUsbFunctions L functions has_callback timeout g =
     (let g = g\<lparr>mCurrentUsbFunctions := functions, mCurrentUsbFunctionsApplied := False\<rparr> in
      case tearDownGadget L g of (st, g) \<Rightarrow>
      if st \<noteq> SUCCESS then gadget_notify has_callback functions st g
      else if functions = FUNCTION_NONE then gadget_notify has_callback functions SUCCESS g
      else (case validateAndSetVidPid L functions g of (st, g) \<Rightarrow>
        if st \<noteq> SUCCESS then gadget_notify has_callback functions st g
        else (case setupFunctions L functions has_callback timeout g of (st, g) \<Rightarrow>
          if st \<noteq> SUCCESS then gadget_notify has_callback functions st g else g)))"

section \<open>The identifiers\<close>

text \<open>Whose product id it is: the functions and, unless it is Google's, the vendor's.\<close>

definition id_table :: "(string \<times> u64 \<times> string) list" where
  "id_table =
    [(''0x901B'', MTP, ''diag''), (''0x4ee1'', MTP, ''user''),
     (''0x903A'', ADB OR MTP, ''diag''), (''0x4ee2'', ADB OR MTP, ''user''),
     (''0x902C'', RNDIS, ''diag''), (''0x90B5'', RNDIS, ''serial_cdev,diag''),
     (''0x90E6'', RNDIS, ''diag,diag_mdm,qdss,qdss_mdm,serial_cdev,dpl_gsi''),
     (''0x4ee3'', RNDIS, ''user''),
     (''0x902D'', ADB OR RNDIS, ''diag''), (''0x90B6'', ADB OR RNDIS, ''serial_cdev,diag''),
     (''0x90E7'', ADB OR RNDIS, ''diag,diag_mdm,qdss,qdss_mdm,serial_cdev,dpl_gsi''),
     (''0x4ee4'', ADB OR RNDIS, ''user''), (''0x4ee5'', PTP, ''user''),
     (''0x4ee6'', ADB OR PTP, ''user''), (''0x901D'', ADB, ''diag''),
     (''0x9091'', ADB, ''diag,serial_cdev,rmnet_gsi''), (''0x901F'', ADB, ''diag,serial_cdev''),
     (''0x90DB'', ADB, ''diag,serial_cdev,rmnet_gsi,dpl_gsi,qdss''),
     (''0x90E5'', ADB, ''diag,diag_mdm,qdss,qdss_mdm,serial_cdev,dpl_gsi,rmnet_gsi''),
     (''0x4ee7'', ADB, ''user''), (''0x4ee8'', MIDI, ''user''), (''0x4ee9'', ADB OR MIDI, ''user''),
     (''0x2d00'', ACCESSORY, ''user''), (''0x2d01'', ADB OR ACCESSORY, ''user''),
     (''0x2d02'', AUDIO_SOURCE, ''user''), (''0x2d03'', ADB OR AUDIO_SOURCE, ''user''),
     (''0x2d04'', ACCESSORY OR AUDIO_SOURCE, ''user''),
     (''0x2d05'', ADB OR ACCESSORY OR AUDIO_SOURCE, ''user'')]"

lemma distinct_pids: "distinct (map fst id_table)"
  by code_simp

definition owned :: "u64 \<Rightarrow> string \<Rightarrow> string \<times> string \<Rightarrow> bool" where
  "owned f v p \<longleftrightarrow> (\<exists>owner. (snd p, f, owner) \<in> set id_table \<and> (fst p = ''0x18d1'' \<or> owner = v))"

lemma owned_google: "(pid, f, ''user'') \<in> set id_table \<Longrightarrow> owned f v (''0x18d1'', pid)"
  by (auto simp: owned_def)

lemma ids_owned:
  assumes "ids ps u v = Some p" "(u, f, ''user'') \<in> set id_table"
    and "list_all (\<lambda>(v', pid). (pid, f, v') \<in> set id_table) ps"
  shows "owned f v p"
proof (cases "map_of ps v")
  case None
  then show ?thesis using assms(1,2) by (auto simp: ids_def owned_def split: if_splits)
next
  case (Some pid)
  then have "(pid, f, v) \<in> set id_table"
    using assms(3) map_of_SomeD [OF Some] by (auto simp: list_all_iff)
  then show ?thesis using assms(1) Some by (auto simp: ids_def owned_def)
qed

lemma vid_pid_owned: "vid_pid f v = Some p \<Longrightarrow> owned f v p"
  unfolding vid_pid_def
  apply (split if_split_asm, (hypsubst, rule ids_owned, assumption, code_simp, code_simp))+
   apply (split if_split_asm, (simp only: option.inject, hypsubst, rule owned_google, code_simp))+
  apply simp
  done

text \<open>
  C20: no two function combinations share an identifier: a product id that is
  set tells the functions, and under the Qualcomm vendor id also the vendor
  functions.
\<close>

theorem vid_pid_injective:
  assumes "vid_pid f v = Some p" "vid_pid f' v' = Some p"
  shows "f = f' \<and> (fst p = ''0x18d1'' \<or> v = v')"
proof -
  obtain o1 o2 where "(snd p, f, o1) \<in> set id_table" "(snd p, f', o2) \<in> set id_table"
    and v: "fst p = ''0x18d1'' \<or> o1 = v \<and> o2 = v'"
    using vid_pid_owned [OF assms(1)] vid_pid_owned [OF assms(2)] by (auto simp: owned_def)
  then have "f = f' \<and> o1 = o2"
    using eq_key_imp_eq_value [OF distinct_pids, of "snd p" "(f, o1)" "(f', o2)"] by simp
  then show ?thesis using v by auto
qed

section \<open>Setting the functions\<close>

text \<open>The library's calls change the library's state only.\<close>

definition only_lib :: "'s gadget \<Rightarrow> 's gadget \<Rightarrow> bool" where
  "only_lib g g' \<longleftrightarrow> mCurrentUsbFunctions g' = mCurrentUsbFunctions g
     \<and> mCurrentUsbFunctionsApplied g' = mCurrentUsbFunctionsApplied g
     \<and> gadget_notified g' = gadget_notified g"

lemma only_lib_trans: "only_lib g g' \<Longrightarrow> only_lib g' g'' \<Longrightarrow> only_lib g g''"
  by (simp add: only_lib_def)

lemma on_lib_only: "on_lib f g = (r, g') \<Longrightarrow> only_lib g g'"
  by (auto simp: on_lib_def only_lib_def split: prod.splits)

lemma link_vendor_only: "link_vendor L ts i g = (r, g') \<Longrightarrow> only_lib g g'"
proof (induction ts arbitrary: i g r)
  case (Cons t ts)
  show ?case
  proof (cases "vendor_link t")
    case None
    then show ?thesis using Cons by simp
  next
    case (Some f)
    obtain failed g1 where 1: "on_lib (linkFunction L f i) g = (failed, g1)"
      by (cases "on_lib (linkFunction L f i) g")
    show ?thesis
    proof (cases failed)
      case True
      then show ?thesis using Cons.prems Some 1 on_lib_only [OF 1] by simp
    next
      case False
      then have "link_vendor L ts (i + 1) g1 = (r, g')" using Cons.prems Some 1 by simp
      then show ?thesis using Cons.IH on_lib_only [OF 1] only_lib_trans by blast
    qed
  qed
qed (simp add: only_lib_def)

lemma tearDown_only: "tearDownGadget L g = (st, g') \<Longrightarrow> only_lib g g' \<and> (st = SUCCESS \<or> st = ERROR)"
  by (auto simp: tearDownGadget_def only_lib_def split: prod.splits if_splits
      dest!: on_lib_only)

lemma validate_only: "validateAndSetVidPid L f g = (st, g') \<Longrightarrow> only_lib g g'"
  by (auto simp: validateAndSetVidPid_def only_lib_def split: option.splits prod.splits
      dest: on_lib_only [unfolded only_lib_def])

lemma fold_applied_notified:
  "gadget_notified (fold currentFunctionsAppliedCallback bs g) = gadget_notified g"
  "mCurrentUsbFunctions (fold currentFunctionsAppliedCallback bs g) = mCurrentUsbFunctions g"
  by (induction bs arbitrary: g) (simp_all add: currentFunctionsAppliedCallback_def)

text \<open>A setup that fails tells the client nothing; one that succeeds tells it once.\<close>

lemma setupFunctions_notified:
  assumes "setupFunctions L f cb t g = (st, g')"
  shows "mCurrentUsbFunctions g' = mCurrentUsbFunctions g
    \<and> (if st = SUCCESS \<and> cb then \<exists>st'. st' \<in> {SUCCESS, ERROR}
          \<and> gadget_notified g' = gadget_notified g @ [(f, st')]
       else gadget_notified g' = gadget_notified g)"
proof -
  obtain st1 ffs i g1 where 1: "on_lib (addGenericAndroidFunctions L f) g = ((st1, ffs, i), g1)"
    by (metis surj_pair)
  note o1 = on_lib_only [OF 1, unfolded only_lib_def]
  show ?thesis
  proof (cases "st1 = SUCCESS")
    case False
    then show ?thesis using assms 1 o1 by (auto simp: setupFunctions_def)
  next
    case st1: True
    let ?ts = "strtok_commas (getVendorFunctions L (gadget_lib g1))"
    obtain st2 i2 g2 where 2: "link_vendor L ?ts i g1 = ((st2, i2), g2)" by (metis surj_pair)
    note o2 = link_vendor_only [OF 2, unfolded only_lib_def]
    show ?thesis
    proof (cases "st2 = SUCCESS")
      case False
      then show ?thesis using assms 1 st1 2 o1 o2 by (auto simp: setupFunctions_def)
    next
      case st2: True
      obtain st3 ffs3 g3 where 3: "(if f AND ADB \<noteq> 0
          then (case on_lib (addAdb L i2) g2 of ((st, i), g) \<Rightarrow> ((st, True), g))
          else ((SUCCESS, ffs), g2)) = ((st3, ffs3), g3)"
        by (metis surj_pair)
      have o3: "only_lib g2 g3"
        using 3 by (auto simp: only_lib_def split: if_splits prod.splits
            dest!: on_lib_only [unfolded only_lib_def])
      have g3: "gadget_notified g3 = gadget_notified g" "mCurrentUsbFunctions g3 = mCurrentUsbFunctions g"
        using o1 o2 o3 by (auto simp: only_lib_def)
      note steps = setupFunctions_def 1 st1 2 st2 3
      show ?thesis
      proof (cases "st3 = SUCCESS")
        case False
        then show ?thesis using assms g3 by (auto simp: steps)
      next
        case st3: True
        show ?thesis
        proof (cases ffs3)
          case False
          obtain ok g4 where 4: "on_lib (write_pullup L kGadgetName_gadget) g3 = (ok, g4)"
            by (metis surj_pair)
          show ?thesis
            using assms g3 on_lib_only [OF 4] False st3
            by (auto simp: steps 4 only_lib_def gadget_notify_def split: if_splits)
        next
          case True
          let ?g = "g3\<lparr>gadget_lib := startMonitor L (gadget_lib g3)\<rparr>"
          obtain up bs g4 where 4: "on_lib (waitForPullUp L t) ?g = ((up, bs), g4)"
            by (metis surj_pair)
          show ?thesis
            using assms g3 on_lib_only [OF 4] True st3
            by (auto simp: steps 4 only_lib_def gadget_notify_def fold_applied_notified Let_def
                split: if_splits)
        qed
      qed
    qed
  qed
qed

text \<open>
  C21: whatever the library's calls return, setting the functions remembers
  them and tells a client that gave a callback exactly once about these
  functions, and a client that gave none nothing. A combination that has no
  identifier is refused as not supported, once the old gadget is torn down.
\<close>

theorem setCurrentUsbFunctions_answers:
  assumes "g' = setCurrentUsbFunctions L f cb t g" "tearDownGadget L
    (g\<lparr>mCurrentUsbFunctions := f, mCurrentUsbFunctionsApplied := False\<rparr>) = (st, g1)"
  shows "mCurrentUsbFunctions g' = f
    \<and> (\<exists>answer. gadget_notified g' = gadget_notified g @ (if cb then [(f, answer)] else [])
        \<and> (st \<noteq> SUCCESS \<or> f = FUNCTION_NONE
            \<or> vid_pid f (getVendorFunctions L (gadget_lib g1)) \<noteq> None
            \<or> answer = CONFIGURATION_NOT_SUPPORTED \<and> gadget_lib g' = gadget_lib g1))"
proof -
  have o1: "mCurrentUsbFunctions g1 = f" "gadget_notified g1 = gadget_notified g"
    using tearDown_only [OF assms(2)] by (simp_all add: only_lib_def)
  show ?thesis
  proof (cases "st \<noteq> SUCCESS \<or> f = FUNCTION_NONE")
    case True
    then show ?thesis
      using assms o1 by (auto simp: setCurrentUsbFunctions_def gadget_notify_def Let_def)
  next
    case False
    obtain st2 g2 where 2: "validateAndSetVidPid L f g1 = (st2, g2)" by (metis surj_pair)
    have o2: "mCurrentUsbFunctions g2 = f" "gadget_notified g2 = gadget_notified g"
      using validate_only [OF 2] o1 by (simp_all add: only_lib_def)
    show ?thesis
    proof (cases "st2 = SUCCESS")
      case False
      then show ?thesis
        using assms 2 o2 \<open>\<not> (st \<noteq> SUCCESS \<or> f = FUNCTION_NONE)\<close>
        by (auto simp: setCurrentUsbFunctions_def gadget_notify_def Let_def
            validateAndSetVidPid_def split: option.splits)
    next
      case st2: True
      obtain st3 g3 where 3: "setupFunctions L f cb t g2 = (st3, g3)" by (metis surj_pair)
      have "vid_pid f (getVendorFunctions L (gadget_lib g1)) \<noteq> None"
        using 2 st2 by (auto simp: validateAndSetVidPid_def split: option.splits)
      then show ?thesis
        using assms 2 st2 3 o2 setupFunctions_notified [OF 3] False
        by (auto simp: setCurrentUsbFunctions_def gadget_notify_def Let_def split: if_splits)
    qed
  qed
qed

section \<open>A library on which it is applied\<close>

text \<open>Every call succeeds, the pull-up is reported at once, no vendor functions.\<close>

definition demo_lib :: "unit pixelusb" where
  "demo_lib = \<lparr>getVendorFunctions = (\<lambda>s. ''''), setVidPid = (\<lambda>v p s. (SUCCESS, s)),
     resetGadget = (\<lambda>s. (SUCCESS, s)), isMonitorRunning = (\<lambda>s. False), monitor_reset = (\<lambda>s. s),
     addGenericAndroidFunctions = (\<lambda>f s. ((SUCCESS, False, 0), s)),
     linkFunction = (\<lambda>n i s. (False, s)), addAdb = (\<lambda>i s. ((SUCCESS, i), s)),
     write_pullup = (\<lambda>n s. (True, s)), startMonitor = (\<lambda>s. s),
     waitForPullUp = (\<lambda>t s. ((True, [True]), s))\<rparr>"

definition demo_gadget :: "unit gadget" where
  "demo_gadget = \<lparr>mCurrentUsbFunctions = MTP, mCurrentUsbFunctionsApplied = True,
     gadget_lib = (), gadget_notified = []\<rparr>"

lemma vid_pid_injective_witness: "\<exists>f v. vid_pid f v = vid_pid RNDIS ''diag'' \<and> f = RNDIS \<and> v = ''diag''"
proof -
  have p: "vid_pid RNDIS ''diag'' = Some (''0x05C6'', ''0x902C'')" by code_simp
  have "RNDIS = RNDIS \<and> (fst (''0x05C6'', ''0x902C'') = ''0x18d1'' \<or> ''diag'' = ''diag'')"
    using vid_pid_injective [OF p p] .
  then show ?thesis by simp
qed

lemma setCurrentUsbFunctions_answers_witness:
  "\<exists>answer. gadget_notified (setCurrentUsbFunctions demo_lib (ADB OR RNDIS OR MTP) True 0 demo_gadget)
    = [(ADB OR RNDIS OR MTP, answer)] \<and> answer = CONFIGURATION_NOT_SUPPORTED"
proof -
  let ?f = "ADB OR RNDIS OR MTP"
  let ?g = "demo_gadget\<lparr>mCurrentUsbFunctions := ?f, mCurrentUsbFunctionsApplied := False\<rparr>"
  have t: "tearDownGadget demo_lib ?g = (SUCCESS, ?g)"
    by (simp add: tearDownGadget_def demo_lib_def on_lib_def demo_gadget_def)
  have n: "vid_pid ?f (getVendorFunctions demo_lib (gadget_lib ?g)) = None" "?f \<noteq> FUNCTION_NONE"
    "gadget_notified demo_gadget = []"
    by code_simp+
  show ?thesis
    using setCurrentUsbFunctions_answers [OF refl t, of True 0] n by auto
qed

end
