(* ===== verification/Numbers.thy ===== *)
theory Numbers
  imports Text
begin

text \<open>
  Numbers in texts: digits of a base up to 16, printing with and without leading
  zeros, and the C library's \<open>strtoul\<close> and \<open>strtoull\<close> for 64 bit longs; what was
  printed is read back.
\<close>

section \<open>Digits of a base\<close>

definition digit_of :: "char \<Rightarrow> nat option" where
  "digit_of c = (let n = of_char c in
     if 48 \<le> n \<and> n \<le> 57 then Some (n - 48)
     else if 97 \<le> n \<and> n \<le> 102 then Some (n - 87)
     else if 65 \<le> n \<and> n \<le> 70 then Some (n - 55) else None)"

definition digit_char :: "nat \<Rightarrow> char" where
  "digit_char k = (if k < 10 then char_of (48 + k) else char_of (87 + k))"

definition is_base_digit :: "nat \<Rightarrow> char \<Rightarrow> bool" where
  "is_base_digit b c = (case digit_of c of None \<Rightarrow> False | Some k \<Rightarrow> k < b)"

definition base_value :: "nat \<Rightarrow> string \<Rightarrow> nat" where
  "base_value b ds = foldl (\<lambda>n c. b * n + (case digit_of c of None \<Rightarrow> 0 | Some k \<Rightarrow> k)) 0 ds"

function show_base :: "nat \<Rightarrow> nat \<Rightarrow> string" where
  "show_base b n = (if n < b \<or> b < 2 then [digit_char n]
     else show_base b (n div b) @ [digit_char (n mod b)])"
  by auto
termination
  by (relation "measure snd") auto

declare show_base.simps [simp del]

text \<open>The minimal width, filled with zeros: \<open>%0<w>o\<close> and \<open>%0<w>d\<close>.\<close>

definition zero_pad :: "nat \<Rightarrow> string \<Rightarrow> string" where
  "zero_pad w s = replicate (w - length s) (CHR ''0'') @ s"

lemma digit_of_char: "k < 16 \<Longrightarrow> digit_of (digit_char k) = Some k"
  by (simp add: digit_of_def digit_char_def Let_def)

lemma digit_char_base: "k < b \<Longrightarrow> b \<le> 16 \<Longrightarrow> is_base_digit b (digit_char k)"
  by (simp add: is_base_digit_def digit_of_char)

lemma is_base_digit_mono: "is_base_digit b c \<Longrightarrow> b \<le> b' \<Longrightarrow> is_base_digit b' c"
  by (auto simp: is_base_digit_def split: option.splits)

lemma base_digit_plain:
  assumes "is_base_digit b c"
  shows "\<not> c_isspace c \<and> c \<noteq> CHR ''-'' \<and> c \<noteq> CHR ''+'' \<and> c \<noteq> CHR '':'' \<and> c \<noteq> CHR '','' \<and> c \<noteq> CHR 0x00"
proof -
  have "digit_of c \<noteq> None"
    using assms by (auto simp: is_base_digit_def split: option.splits)
  then show ?thesis by (auto simp: digit_of_def c_isspace_def)
qed

lemma show_base_digits: "2 \<le> b \<Longrightarrow> b \<le> 16 \<Longrightarrow> list_all (is_base_digit b) (show_base b n)"
proof (induction b n rule: show_base.induct)
  case (1 b n)
  show ?case
  proof (cases "n < b")
    case True
    then show ?thesis using 1 by (subst show_base.simps) (simp add: digit_char_base)
  next
    case False
    then show ?thesis using 1 by (subst show_base.simps) (simp add: digit_char_base)
  qed
qed

lemma show_base_nonempty [simp]: "show_base b n \<noteq> []"
  by (subst show_base.simps) simp

lemma base_value_Nil [simp]: "base_value b [] = 0"
  by (simp add: base_value_def)

lemma base_value_snoc:
  "base_value b (ds @ [c]) = b * base_value b ds + (case digit_of c of None \<Rightarrow> 0 | Some k \<Rightarrow> k)"
  by (simp add: base_value_def)

lemma base_value_zeros: "base_value b (replicate k (CHR ''0'') @ ds) = base_value b ds"
proof -
  have "foldl (\<lambda>n c. b * n + (case digit_of c of None \<Rightarrow> 0 | Some k \<Rightarrow> k)) 0 (replicate k (CHR ''0'')) = 0"
    by (induction k) (simp_all add: digit_of_def)
  then show ?thesis by (simp add: base_value_def)
qed

lemma base_value_show: "2 \<le> b \<Longrightarrow> b \<le> 16 \<Longrightarrow> base_value b (show_base b n) = n"
proof (induction b n rule: show_base.induct)
  case (1 b n)
  show ?case
  proof (cases "n < b")
    case True
    then show ?thesis
      using 1 base_value_snoc [of b "[]" "digit_char n"]
      by (subst show_base.simps) (simp add: digit_of_char)
  next
    case False
    have "n mod b < b" using 1(2) by simp
    then have "digit_of (digit_char (n mod b)) = Some (n mod b)"
      using 1(3) by (intro digit_of_char) simp
    then show ?thesis using 1 False by (subst show_base.simps) (simp add: base_value_snoc)
  qed
qed

lemma base_value_less: "list_all (is_base_digit b) ds \<Longrightarrow> base_value b ds < b ^ length ds"
proof (induction ds rule: rev_induct)
  case (snoc d ds)
  then obtain k where "digit_of d = Some k" "k < b"
    by (auto simp: is_base_digit_def split: option.splits)
  moreover have "b * (base_value b ds + 1) \<le> b * b ^ length ds"
    using snoc by (intro mult_le_mono2) simp
  ultimately show ?case by (simp add: base_value_snoc algebra_simps)
qed simp

lemma base_value_pad: "base_value b (zero_pad w s) = base_value b s"
  by (simp add: zero_pad_def base_value_zeros)

lemma zero_pad_digits: "0 < b \<Longrightarrow> list_all (is_base_digit b) s \<Longrightarrow> list_all (is_base_digit b) (zero_pad w s)"
  by (simp add: zero_pad_def list_all_length nth_append is_base_digit_def digit_of_def)

lemma length_zero_pad: "length s \<le> w \<Longrightarrow> length (zero_pad w s) = w"
  by (simp add: zero_pad_def)

text \<open>How many digits a number takes.\<close>

lemma show_base_length: "2 \<le> b \<Longrightarrow> n < b ^ w \<Longrightarrow> 0 < w \<Longrightarrow> length (show_base b n) \<le> w"
proof (induction b n arbitrary: w rule: show_base.induct)
  case (1 b n)
  show ?case
  proof (cases "n < b")
    case True
    then show ?thesis using 1 by (subst show_base.simps) simp
  next
    case False
    then obtain w' where w: "w = Suc w'" "0 < w'"
      using 1 by (cases w; cases "w - 1") auto
    have "n div b < b ^ w'"
      using 1(3) w 1(2) by (simp add: less_mult_imp_div_less mult.commute)
    then have "length (show_base b (n div b)) \<le> w'" using 1 w False by simp
    then show ?thesis using False 1(2) w by (subst show_base.simps) simp
  qed
qed

section \<open>Decimal numbers\<close>

abbreviation is_digit :: "char \<Rightarrow> bool" where "is_digit \<equiv> is_base_digit 10"
abbreviation digits_value :: "string \<Rightarrow> nat" where "digits_value \<equiv> base_value 10"
abbreviation show_nat :: "nat \<Rightarrow> string" where "show_nat \<equiv> show_base 10"

lemmas digit_no_space = base_digit_plain [of 10]
lemmas show_nat_digits = show_base_digits [of 10, simplified]
lemmas digits_value_show = base_value_show [of 10, simplified]

text \<open>
  \<open>strtoul\<close> and \<open>strtoull\<close> in base 10: blanks, a sign, digits; what follows is not
  looked at. Too large a number becomes the maximum, a minus sign negates.
\<close>

definition strtoull :: "string \<Rightarrow> u64" where
  "strtoull s =
     (let s = dropWhile c_isspace s;
          neg = (s \<noteq> [] \<and> hd s = CHR ''-'');
          s = (if s \<noteq> [] \<and> (hd s = CHR ''-'' \<or> hd s = CHR ''+'') then tl s else s);
          v = digits_value (takeWhile is_digit s)
      in if 2 ^ 64 \<le> v then -1 else if neg then - of_nat v else of_nat v)"

lemma takeWhile_digits:
  "list_all P ds \<Longrightarrow> rest = [] \<or> \<not> P (hd rest) \<Longrightarrow> takeWhile P (ds @ rest) = ds"
  by (induction ds) (cases rest; auto)+

lemma strtoull_show:
  assumes "rest = [] \<or> \<not> is_digit (hd rest)"
  shows "strtoull (show_nat (unat x) @ rest) = x"
proof -
  obtain c cs where s: "show_nat (unat x) = c # cs" by (cases "show_nat (unat x)") auto
  have d: "list_all is_digit (c # cs)" "digits_value (c # cs) = unat x"
    using show_nat_digits [of "unat x"] digits_value_show [of "unat x"] by (simp_all add: s)
  then have "\<not> c_isspace c \<and> c \<noteq> CHR ''-'' \<and> c \<noteq> CHR ''+''" using digit_no_space [of c] by simp
  moreover have "takeWhile is_digit (c # cs @ rest) = c # cs"
    using takeWhile_digits [OF d(1) assms] by simp
  moreover have "unat x < 2 ^ 64" using unsigned_less [of x] by simp
  ultimately show ?thesis using d by (simp add: strtoull_def s)
qed

section \<open>Splitting at a delimiter\<close>

text \<open>\<open>android::base::Split\<close>: empty parts are kept, and there is at least one.\<close>

fun Split :: "string \<Rightarrow> char \<Rightarrow> string list" where
  "Split [] d = [[]]"
| "Split (c # s) d =
     (if c = d then [] # Split s d
      else (case Split s d of [] \<Rightarrow> [[c]] | w # ws \<Rightarrow> (c # w) # ws))"

lemma Split_none: "d \<notin> set s \<Longrightarrow> Split s d = [s]"
  by (induction s) auto

lemma Split_two: "d \<notin> set a \<Longrightarrow> d \<notin> set b \<Longrightarrow> Split (a @ d # b) d = [a, b]"
  by (induction a) (auto simp: Split_none)

end
