(* ===== verification/Vibrator_Hw.thy ===== *)
theory Vibrator_Hw
  imports Numbers
begin

text \<open>
  The hardware side of the vibrator service (vibrator/common/HardwareBase,
  vibrator/common/utils.h, vibrator/drv2624/Hardware.h): \<open>HwApi\<close>, the kernel
  driver's nodes as file streams with the record of the last calls, and \<open>HwCal\<close>,
  the calibration file and the properties.

  A stream is its open file (or none) and its state, good or failed; \<open>hw_accepts\<close>
  says which values the driver takes and \<open>hw_writes\<close> is the history of what it
  took.
\<close>

datatype hw_node = Autocal | OlLraPeriod | Activate | Duration | HwState | RtpInput | Mode
  | Sequencer | Scale | CtrlLoop | LpTrigger | LraWaveShape | OdClamp | UsbTemp

datatype hw_value = Str string | Num int

definition RECORDS_SIZE :: nat where "RECORDS_SIZE = 32"

record hwapi =
  hw_open :: "hw_node \<Rightarrow> bool"
  hw_good :: "hw_node \<Rightarrow> bool"
  hw_accepts :: "hw_node \<Rightarrow> hw_value \<Rightarrow> bool"
  hw_usb_temp :: "int option"
  hw_writes :: "(hw_node \<times> hw_value) list"
  hw_records :: "(string \<times> hw_value \<times> hw_node) option list"

section \<open>HwApiBase\<close>

definition hw_record :: "string \<Rightarrow> hw_value \<Rightarrow> hw_node \<Rightarrow> hwapi \<Rightarrow> hwapi" where
  "hw_record func value n h = h\<lparr>hw_records := tl (hw_records h @ [Some (func, value, n)])\<rparr>"

definition hw_has :: "hw_node \<Rightarrow> hwapi \<Rightarrow> bool" where
  "hw_has n h = hw_good h n"

text \<open>A failed write clears the state of the stream, also of one without a file.\<close>

definition hw_set :: "hw_value \<Rightarrow> hw_node \<Rightarrow> hwapi \<Rightarrow> bool \<times> hwapi" where
  "hw_set value n h =
     (let ok = (hw_good h n \<and> hw_open h n \<and> hw_accepts h n value);
          h = (if ok then h\<lparr>hw_writes := hw_writes h @ [(n, value)]\<rparr>
               else h\<lparr>hw_good := (hw_good h)(n := True)\<rparr>)
      in (ok, hw_record ''set'' value n h))"

text \<open>Reading a number; the value read stays 0 when nothing can be read.\<close>

definition hw_get :: "hw_node \<Rightarrow> hwapi \<Rightarrow> bool \<times> int \<times> hwapi" where
  "hw_get n h =
     (let v = (if hw_good h n \<and> hw_open h n then hw_usb_temp h else None);
          x = (case v of None \<Rightarrow> 0 | Some x \<Rightarrow> x);
          h = h\<lparr>hw_good := (hw_good h)(n := True)\<rparr>
      in (v \<noteq> None, x, hw_record ''get'' (Num x) n h))"

text \<open>
  \<open>HwApi::Create\<close>: every stream is opened, and the three that are required must
  have a file.
\<close>

definition HwApi_Create ::
  "(hw_node \<Rightarrow> bool) \<Rightarrow> (hw_node \<Rightarrow> hw_value \<Rightarrow> bool) \<Rightarrow> int option \<Rightarrow> hwapi option" where
  "HwApi_Create files accepts temp =
     (if files Activate \<and> files Duration \<and> files HwState
      then Some \<lparr>hw_open = files, hw_good = files, hw_accepts = accepts, hw_usb_temp = temp,
        hw_writes = [], hw_records = replicate RECORDS_SIZE None\<rparr>
      else None)"

lemma hw_set_ok:
  "hw_set v n h = (True, h') \<Longrightarrow> hw_writes h' = hw_writes h @ [(n, v)]"
  "hw_set v n h = (False, h') \<Longrightarrow> hw_writes h' = hw_writes h"
  by (auto simp: hw_set_def hw_record_def Let_def split: if_splits)

lemma hw_set_frame [frame_simps]:
  assumes "hw_set v n h = (ok, h')"
  shows "hw_open h' = hw_open h" "hw_accepts h' = hw_accepts h" "hw_usb_temp h' = hw_usb_temp h"
    "n' \<noteq> n \<Longrightarrow> hw_good h' n' = hw_good h n'" "hw_good h' n"
  using assms by (auto simp: hw_set_def hw_record_def Let_def split: if_splits)

section \<open>The record of calls\<close>

text \<open>
  A bounded log: putting in at one end drops the oldest at the other, so the
  last calls are kept, in order, and the size never changes.
\<close>

locale bounded_log =
  fixes put :: "'r \<Rightarrow> 's \<Rightarrow> 's"
    and kept :: "'s \<Rightarrow> 'r option list"
    and size :: nat
  assumes put_kept: "length (kept s) = size \<Longrightarrow> kept (put r s) = tl (kept s @ [Some r])"
    and size_pos: "0 < size"
begin

lemma put_size: "length (kept s) = size \<Longrightarrow> length (kept (put r s)) = size"
  using size_pos by (simp add: put_kept)

lemma fold_put_kept:
  "length (kept s) = size \<Longrightarrow>
    kept (fold put rs s) = drop (length rs) (kept s @ map Some rs)"
proof (induction rs arbitrary: s)
  case (Cons r rs)
  have "kept (fold put (r # rs) s) = drop (length rs) (tl (kept s @ [Some r]) @ map Some rs)"
    using Cons.IH [of "put r s"] Cons.prems put_size put_kept by simp
  also have "tl (kept s @ [Some r]) @ map Some rs = tl (kept s @ map Some (r # rs))"
    using Cons.prems size_pos by (cases "kept s") auto
  finally show ?case by (simp only: length_Cons drop_Suc)
qed simp

lemma fold_put_size: "length (kept s) = size \<Longrightarrow> length (kept (fold put rs s)) = size"
  by (induction rs arbitrary: s) (auto simp: put_size)

end

interpretation records: bounded_log "\<lambda>(func, value, n). hw_record func value n" hw_records RECORDS_SIZE
  by unfold_locales (auto simp: hw_record_def RECORDS_SIZE_def)

text \<open>
  The record of the hardware calls always holds 32 entries, and they are
  the last 32 calls in the order they were made (empty ones first while there
  have been fewer).
\<close>

theorem records_last_calls:
  assumes "HwApi_Create files accepts temp = Some h"
  shows "hw_records (fold (\<lambda>(func, value, n). hw_record func value n) calls h)
    = drop (length calls) (replicate 32 None @ map Some calls)"
proof -
  have "hw_records h = replicate RECORDS_SIZE None"
    using assms by (auto simp: HwApi_Create_def split: if_splits)
  then show ?thesis
    using records.fold_put_kept [of h calls] by (simp add: RECORDS_SIZE_def)
qed

section \<open>HwCal\<close>

definition util_trim :: "string \<Rightarrow> string" where
  "util_trim s =
     (let w = (\<lambda>c. c = CHR 0x20 \<or> c = CHR 0x09) in
      rev (dropWhile w (rev (dropWhile w s))))"

text \<open>\<open>std::getline\<close> of the rest of a stream: fails when nothing is left.\<close>

definition split_key :: "string \<Rightarrow> (string \<times> string) option" where
  "split_key line =
     (let key = takeWhile (\<lambda>c. c \<noteq> CHR '':'') line;
          rest = drop (length key + 1) line
      in if rest = [] then None else Some (key, rest))"

fun read_cal :: "string list \<Rightarrow> (string \<Rightarrow> string option) \<Rightarrow> (string \<Rightarrow> string option)" where
  "read_cal [] m = m"
| "read_cal (line # lines) m =
     (if line = [] \<or> hd line = CHR ''#'' then read_cal lines m
      else (case split_key line of
          None \<Rightarrow> read_cal lines m
        | Some (key, value) \<Rightarrow> read_cal lines (m(util_trim key \<mapsto> util_trim value))))"

text \<open>
  The calibration data and the properties; a property's value is what the
  property service's parser makes of it, if it is set to a number.
\<close>

record hwcal =
  cal_data :: "string \<Rightarrow> string option"
  cal_uint_prop :: "string \<Rightarrow> u32 option"
  cal_bool_prop :: "string \<Rightarrow> bool option"
  cal_prefix :: string

definition HwCal_init ::
  "string \<Rightarrow> (string \<Rightarrow> u32 option) \<Rightarrow> (string \<Rightarrow> bool option) \<Rightarrow> string \<Rightarrow> hwcal" where
  "HwCal_init calfile uints bools prefix =
     \<lparr>cal_data = read_cal (getlines (CHR 0x0A) calfile) Map.empty,
      cal_uint_prop = uints, cal_bool_prop = bools, cal_prefix = prefix\<rparr>"

definition getProperty_uint :: "string \<Rightarrow> u32 \<Rightarrow> hwcal \<Rightarrow> u32" where
  "getProperty_uint key defval c =
     (case cal_uint_prop c (cal_prefix c @ key) of None \<Rightarrow> defval | Some v \<Rightarrow> v)"

definition getProperty_bool :: "string \<Rightarrow> bool \<Rightarrow> hwcal \<Rightarrow> bool" where
  "getProperty_bool key defval c =
     (case cal_bool_prop c (cal_prefix c @ key) of None \<Rightarrow> defval | Some v \<Rightarrow> v)"

text \<open>
  \<open>stream >> value\<close> for a 32 bit unsigned number, then the whole text must have
  been read: blanks, a sign, digits. A value that does not fit fails; with a
  minus sign it is negated modulo \<open>2 ^ 32\<close>.
\<close>

definition parse_u32 :: "string \<Rightarrow> u32 option" where
  "parse_u32 s =
     (let s = dropWhile c_isspace s;
          neg = (s \<noteq> [] \<and> hd s = CHR ''-'');
          ds = (if s \<noteq> [] \<and> (hd s = CHR ''-'' \<or> hd s = CHR ''+'') then tl s else s)
      in if ds = [] \<or> \<not> list_all is_digit ds \<or> 2 ^ 32 \<le> digits_value ds then None
         else Some (if neg then - of_nat (digits_value ds) else of_nat (digits_value ds)))"

definition getPersist_string :: "string \<Rightarrow> hwcal \<Rightarrow> string option" where
  "getPersist_string key c = cal_data c key"

definition getPersist_u32 :: "string \<Rightarrow> hwcal \<Rightarrow> u32 option" where
  "getPersist_u32 key c = Option.bind (cal_data c key) parse_u32"

definition getLraPeriod :: "hwcal \<Rightarrow> u32" where
  "getLraPeriod c = (case getPersist_u32 ''lra_period'' c of None \<Rightarrow> 262 | Some v \<Rightarrow> v)"

definition getCloseLoopThreshold :: "hwcal \<Rightarrow> u32" where
  "getCloseLoopThreshold c = getProperty_uint ''closeloop.threshold'' (-1) c"

definition getDynamicConfig :: "hwcal \<Rightarrow> bool" where
  "getDynamicConfig c = getProperty_bool ''config.dynamic'' False c"

definition getLongFrequencyShift :: "hwcal \<Rightarrow> u32" where
  "getLongFrequencyShift c = getProperty_uint ''long.frequency.shift'' 10 c"

definition getShortVoltageMax :: "hwcal \<Rightarrow> u32" where
  "getShortVoltageMax c = getProperty_uint ''short.voltage'' 107 c"

definition getLongVoltageMax :: "hwcal \<Rightarrow> u32" where
  "getLongVoltageMax c = getProperty_uint ''long.voltage'' 107 c"

definition getClickDuration :: "hwcal \<Rightarrow> u32" where
  "getClickDuration c = getProperty_uint ''click.duration'' 6 c"

definition getTickDuration :: "hwcal \<Rightarrow> u32" where
  "getTickDuration c = getProperty_uint ''tick.duration'' 2 c"

definition getDoubleClickDuration :: "hwcal \<Rightarrow> u32" where
  "getDoubleClickDuration c = 144"

definition getHeavyClickDuration :: "hwcal \<Rightarrow> u32" where
  "getHeavyClickDuration c = getProperty_uint ''heavyclick.duration'' 8 c"

definition getEffectShape :: "hwcal \<Rightarrow> u32" where
  "getEffectShape c = getProperty_uint ''effect.shape'' (-1) c"

definition getSteadyShape :: "hwcal \<Rightarrow> u32" where
  "getSteadyShape c = getProperty_uint ''steady.shape'' (-1) c"

definition getTriggerEffectSupport :: "hwcal \<Rightarrow> u32" where
  "getTriggerEffectSupport c = getProperty_uint ''lptrigger'' 1 c"

section \<open>Calibration data is read back\<close>

definition cal_blank :: "char \<Rightarrow> bool" where
  "cal_blank c \<longleftrightarrow> c = CHR 0x20 \<or> c = CHR 0x09"

text \<open>
  A line of a calibration file: one that says nothing (empty, a comment, or
  without a colon), or a key and a value with any blanks around them.
\<close>

datatype cal_line = Skipped string | Entry string string string string string string

fun cal_line_text :: "cal_line \<Rightarrow> string" where
  "cal_line_text (Skipped s) = s"
| "cal_line_text (Entry a k b c v d) = a @ k @ b @ '':'' @ c @ v @ d"

text \<open>
  Keys and values are not empty and have no blank at their ends; there may be
  blanks within, and colons and number signs in a value.
\<close>

definition cal_word :: "string \<Rightarrow> bool" where
  "cal_word s \<longleftrightarrow> s \<noteq> [] \<and> \<not> cal_blank (hd s) \<and> \<not> cal_blank (last s) \<and> CHR 0x0A \<notin> set s"

fun cal_line_ok :: "cal_line \<Rightarrow> bool" where
  "cal_line_ok (Skipped s) \<longleftrightarrow> CHR 0x0A \<notin> set s \<and> (s = [] \<or> hd s = CHR ''#'' \<or> CHR '':'' \<notin> set s)"
| "cal_line_ok (Entry a k b c v d) \<longleftrightarrow> cal_word k \<and> cal_word v \<and> hd k \<noteq> CHR ''#''
     \<and> CHR '':'' \<notin> set k \<and> list_all cal_blank (a @ b @ c @ d)"

fun cal_entries :: "cal_line list \<Rightarrow> (string \<times> string) list" where
  "cal_entries [] = []"
| "cal_entries (Skipped s # ls) = cal_entries ls"
| "cal_entries (Entry a k b c v d # ls) = (k, v) # cal_entries ls"

lemma dropWhile_blanks:
  assumes "list_all cal_blank a" "s \<noteq> []" "\<not> cal_blank (hd s)"
  shows "dropWhile cal_blank (a @ s @ b) = s @ b"
  using assms by (induction a) (auto simp: dropWhile_append, cases s, auto)

lemma util_trim_blanks:
  assumes "list_all cal_blank a" "cal_word s" "list_all cal_blank b"
  shows "util_trim (a @ s @ b) = s"
proof -
  have w: "(\<lambda>c. c = CHR 0x20 \<or> c = CHR 0x09) = cal_blank" by (auto simp: cal_blank_def)
  have s: "s \<noteq> []" "\<not> cal_blank (hd s)" "\<not> cal_blank (last s)" using assms(2) by (auto simp: cal_word_def)
  have "list_all cal_blank (rev b)" using assms(3) by (auto simp: list_all_iff)
  from dropWhile_blanks [OF this, of "rev s" "[]"] s
  have "dropWhile cal_blank (rev b @ rev s) = rev s" by (simp add: hd_rev)
  then show ?thesis
    using dropWhile_blanks [OF assms(1) s(1,2), of b] by (simp add: util_trim_def Let_def w)
qed

lemma blanks_no:
  "list_all cal_blank a \<Longrightarrow> CHR '':'' \<notin> set a \<and> CHR 0x0A \<notin> set a \<and> (a = [] \<or> hd a \<noteq> CHR ''#'')"
proof -
  assume a: "list_all cal_blank a"
  have n: "\<not> cal_blank (CHR '':'')" "\<not> cal_blank (CHR 0x0A)" "\<not> cal_blank (CHR ''#'')"
    by (simp_all add: cal_blank_def)
  then have "CHR '':'' \<notin> set a" "CHR 0x0A \<notin> set a" "CHR ''#'' \<notin> set a"
    using a by (auto simp: list_all_iff)
  then show ?thesis by (cases a) auto
qed

lemma split_key_line:
  assumes "CHR '':'' \<notin> set key" "rest \<noteq> []"
  shows "split_key (key @ '':'' @ rest) = Some (key, rest)"
proof -
  have "takeWhile (\<lambda>c. c \<noteq> CHR '':'') (key @ '':'' @ rest) = key"
    using assms(1) by (auto simp: takeWhile_append)
  then show ?thesis using assms(2) by (simp add: split_key_def Let_def)
qed

lemma split_key_none: "CHR '':'' \<notin> set line \<Longrightarrow> split_key line = None"
proof -
  assume "CHR '':'' \<notin> set line"
  then have e: "takeWhile (\<lambda>c. c \<noteq> CHR '':'') line = line"
    by (auto simp: takeWhile_eq_all_conv)
  show ?thesis unfolding split_key_def Let_def e by simp
qed

lemma read_cal_lines:
  assumes "list_all cal_line_ok ls"
  shows "read_cal (map cal_line_text ls) m = m ++ map_of (rev (cal_entries ls))"
  using assms
proof (induction ls arbitrary: m rule: cal_entries.induct)
  case (2 s ls)
  then have "read_cal (map cal_line_text (Skipped s # ls)) m = read_cal (map cal_line_text ls) m"
    by (auto simp: split_key_none)
  then show ?case using 2 by simp
next
  case (3 a k b c v d ls)
  then have ok: "cal_word k" "cal_word v" "hd k \<noteq> CHR ''#''" "CHR '':'' \<notin> set k"
    "list_all cal_blank a" "list_all cal_blank b" "list_all cal_blank c" "list_all cal_blank d"
    by simp_all
  have "CHR '':'' \<notin> set (a @ k @ b)" using ok(4) blanks_no ok(5,6) by auto
  from split_key_line [OF this, of "c @ v @ d"] ok(2)
  have "split_key (cal_line_text (Entry a k b c v d)) = Some (a @ k @ b, c @ v @ d)"
    by (simp add: cal_word_def)
  moreover have "cal_line_text (Entry a k b c v d) \<noteq> []" "hd (cal_line_text (Entry a k b c v d)) \<noteq> CHR ''#''"
    using ok(1,3) blanks_no [OF ok(5)] by (auto simp: cal_word_def hd_append)
  ultimately have "read_cal (map cal_line_text (Entry a k b c v d # ls)) m
      = read_cal (map cal_line_text ls) (m(k \<mapsto> v))"
    using util_trim_blanks [OF ok(5,1,6)] util_trim_blanks [OF ok(7,2,8)] by simp
  also have "\<dots> = m(k \<mapsto> v) ++ map_of (rev (cal_entries ls))"
    by (rule "3.IH") (use "3.prems" in auto)
  also have "\<dots> = m ++ map_of (rev (cal_entries (Entry a k b c v d # ls)))"
    by (simp add: map_add_assoc [symmetric])
  finally show ?case .
qed simp

text \<open>
  C34: a calibration file is read back as its entries, the last one of a key
  counting: keys and values without the blanks around them but with those inside
  (several numbers in a value), and comments, empty lines and lines without a
  colon say nothing.
\<close>

theorem HwCal_reads_file:
  assumes "list_all cal_line_ok ls"
  shows "cal_data (HwCal_init (concat (map (\<lambda>l. cal_line_text l @ [CHR 0x0A]) ls)) uints bools prefix)
    = map_of (rev (cal_entries ls))"
proof -
  have "CHR 0x0A \<notin> set (cal_line_text l)" if "cal_line_ok l" for l
    using that blanks_no by (cases l) (auto simp: cal_word_def)
  then have "\<forall>l \<in> set (map cal_line_text ls). CHR 0x0A \<notin> set l"
    using assms by (auto simp: list_all_iff)
  then have "getlines (CHR 0x0A) (concat (map (\<lambda>l. l @ [CHR 0x0A]) (map cal_line_text ls)))
      = map cal_line_text ls"
    by (rule getlines_join)
  then show ?thesis
    using read_cal_lines [OF assms, of Map.empty] by (simp add: HwCal_init_def comp_def)
qed

end
