(* ===== verification/Vibrator.thy ===== *)
theory Vibrator
  imports Vibrator_Hw Complex_Main
begin

text \<open>
  The vibrator service (vibrator/drv2624/Vibrator.cpp) over \<open>HwApi\<close> and \<open>HwCal\<close>.

  The voltage formulas of the constructor are floating point computations and
  are not modelled: \<open>vib_formulas\<close> holds their results as parameters (the clamp
  of effect \<open>i\<close> before the range check, the level of steady vibration). The
  amplitude is the exact value of the \<open>float\<close> argument, a rational, and \<open>fl\<close> is
  the rounding of its product to a \<open>float\<close>. A division by zero and an access
  out of the bounds of the clamp array have no result.
\<close>

datatype vib_status = Ok | EX_ILLEGAL_STATE | EX_ILLEGAL_ARGUMENT | EX_UNSUPPORTED_OPERATION
datatype effect = CLICK | DOUBLE_CLICK | TICK | THUD | POP | HEAVY_CLICK | RINGTONE | TEXTURE_TICK
datatype strength = LIGHT | MEDIUM | STRONG | OtherStrength
datatype vib_mode = RTP_MODE | WAVEFORM_MODE

record vib_config =
  shape :: u32
  odClamp :: "u32 list"
  olLraPeriod :: u32

record vibrator =
  mHwApi :: hwapi
  mCloseLoopThreshold :: u32
  mSteadyConfig :: "vib_config option"
  mEffectConfig :: "vib_config option"
  mClickDuration :: u32
  mTickDuration :: u32
  mDoubleClickDuration :: u32
  mHeavyClickDuration :: u32
  mEffectTargetOdClamp :: "u32 list"
  mSteadyTargetOdClamp :: u32
  mSteadyOlLraPeriod :: u32
  mSteadyOlLraPeriodShift :: u32
  mDynamicConfig :: bool

record vib_formulas =
  effect_clamp :: "string \<Rightarrow> u32 \<Rightarrow> nat \<Rightarrow> u32 option"
  steady_level :: "string \<Rightarrow> u32 \<Rightarrow> u32 option"

definition TEMP_UPPER_BOUND :: int where "TEMP_UPPER_BOUND = 10000"
definition TEMP_LOWER_BOUND :: int where "TEMP_LOWER_BOUND = 5000"
definition STEADY_VOLTAGE_LOWER_BOUND :: u32 where "STEADY_VOLTAGE_LOWER_BOUND = 90"

definition vset :: "hw_value \<Rightarrow> hw_node \<Rightarrow> vibrator \<Rightarrow> bool \<times> vibrator" where
  "vset value n v = (case hw_set value n (mHwApi v) of (ok, h) \<Rightarrow> (ok, v\<lparr>mHwApi := h\<rparr>))"

definition vput :: "hw_value \<Rightarrow> hw_node \<Rightarrow> vibrator \<Rightarrow> vibrator" where
  "vput value n v = snd (vset value n v)"

definition num :: "u32 \<Rightarrow> hw_value" where
  "num x = Num (uint x)"

section \<open>The constructor\<close>

definition freqPeriodFormula :: "u32 \<Rightarrow> u32 option" where
  "freqPeriodFormula x = (if 24615 * x = 0 then None else Some (1000000000 div (24615 * x)))"

text \<open>
  The clamps of the five effects, with the coefficients of the calibration when
  they can be read: the formula takes the period through \<open>freqPeriodFormula\<close>.
  Only the last one is checked for its range.
\<close>

definition effect_clamps :: "vib_formulas \<Rightarrow> hwcal \<Rightarrow> u32 \<Rightarrow> u32 \<Rightarrow> u32 list option" where
  "effect_clamps F c lraPeriod shortVoltageMax =
     map_option (\<lambda>cl. cl[4 := (if cl ! 4 \<le> 0 \<or> cl ! 4 > 161 then shortVoltageMax else cl ! 4)])
       (case getPersist_string ''haptic_coefficient'' c of
          None \<Rightarrow> Some (replicate 5 shortVoltageMax)
        | Some coeffs \<Rightarrow>
            if effect_clamp F coeffs lraPeriod 0 = None then Some (replicate 5 shortVoltageMax)
            else (case freqPeriodFormula lraPeriod of
                None \<Rightarrow> None
              | Some _ \<Rightarrow> Some (map (\<lambda>i. case effect_clamp F coeffs lraPeriod i of
                    None \<Rightarrow> shortVoltageMax | Some x \<Rightarrow> x) [0..<5])))"

definition steady_clamp :: "vib_formulas \<Rightarrow> hwcal \<Rightarrow> u32 \<Rightarrow> u32" where
  "steady_clamp F c longVoltageMax =
     (case getPersist_string ''vibration_amp_max'' c of
        None \<Rightarrow> longVoltageMax
      | Some amp \<Rightarrow>
          (case steady_level F amp longVoltageMax of
             None \<Rightarrow> longVoltageMax
           | Some level \<Rightarrow>
               if level < STEADY_VOLTAGE_LOWER_BOUND then STEADY_VOLTAGE_LOWER_BOUND else level))"

definition shape_or :: "u32 \<Rightarrow> u32 \<Rightarrow> u32" where
  "shape_or dflt s = (if s = -1 then dflt else s)"

definition dynamic_config :: "vib_formulas \<Rightarrow> hwcal \<Rightarrow> u32 \<Rightarrow> vibrator \<Rightarrow> vibrator option" where
  "dynamic_config F c lraPeriod v = do {
     clamps \<leftarrow> effect_clamps F c lraPeriod (getShortVoltageMax c);
     let steady = steady_clamp F c (getLongVoltageMax c);
     freq \<leftarrow> freqPeriodFormula lraPeriod;
     shifted \<leftarrow> freqPeriodFormula (freq - getLongFrequencyShift c);
     Some (v\<lparr>mEffectTargetOdClamp := clamps,
       mEffectConfig := Some \<lparr>shape = shape_or 1 (getEffectShape c), odClamp = clamps,
         olLraPeriod = lraPeriod\<rparr>,
       mSteadyTargetOdClamp := steady,
       mSteadyConfig := Some \<lparr>shape = shape_or 0 (getSteadyShape c), odClamp = [steady],
         olLraPeriod = lraPeriod\<rparr>,
       mSteadyOlLraPeriod := lraPeriod, mSteadyOlLraPeriodShift := shifted\<rparr>)
   }"

definition Vibrator_init :: "vib_formulas \<Rightarrow> hwcal \<Rightarrow> hwapi \<Rightarrow> vibrator option" where
  "Vibrator_init F c h = do {
     let v = \<lparr>mHwApi = h, mCloseLoopThreshold = getCloseLoopThreshold c, mSteadyConfig = None,
       mEffectConfig = None, mClickDuration = getClickDuration c,
       mTickDuration = getTickDuration c, mDoubleClickDuration = getDoubleClickDuration c,
       mHeavyClickDuration = getHeavyClickDuration c, mEffectTargetOdClamp = replicate 5 0,
       mSteadyTargetOdClamp = 0, mSteadyOlLraPeriod = 0, mSteadyOlLraPeriodShift = 0,
       mDynamicConfig = getDynamicConfig c\<rparr>;
     let v = vput (Num 1) HwState v;
     let v = (case getPersist_string ''autocal'' c of
         None \<Rightarrow> v | Some autocal \<Rightarrow> vput (Str autocal) Autocal v);
     let lraPeriod = getLraPeriod c;
     v \<leftarrow> (if mDynamicConfig v then dynamic_config F c lraPeriod v
          else Some (vput (num lraPeriod) OlLraPeriod v));
     Some (vput (num (getTriggerEffectSupport c)) LpTrigger v)
   }"

section \<open>The operations\<close>

definition getCapabilities :: "vibrator \<Rightarrow> int" where
  "getCapabilities v = (if hw_has RtpInput (mHwApi v) then 4 else 0)"

definition on_config :: "vib_config option \<Rightarrow> nat \<Rightarrow> vibrator \<Rightarrow> vibrator option" where
  "on_config config volOffset v =
     (case config of
        None \<Rightarrow> Some v
      | Some cfg \<Rightarrow>
          let v = vput (num (shape cfg)) LraWaveShape v in
          if length (odClamp cfg) \<le> volOffset then None
          else
            let v = vput (num (odClamp cfg ! volOffset)) OdClamp v in
            Some (vput (num (olLraPeriod cfg)) OlLraPeriod v))"

fun mode_text :: "vib_mode \<Rightarrow> string" where
  "mode_text RTP_MODE = ''rtp''" | "mode_text WAVEFORM_MODE = ''waveform''"

definition on_mode ::
  "u32 \<Rightarrow> vib_mode \<Rightarrow> vib_config option \<Rightarrow> nat \<Rightarrow> vibrator \<Rightarrow> (vib_status \<times> vibrator) option" where
  "on_mode timeoutMs m config volOffset v =
     (let close = (m = RTP_MODE \<and> timeoutMs > mCloseLoopThreshold v);
          v = vput (Num (if close then 0 else 1)) CtrlLoop v in
      case vset (num timeoutMs) Duration v of (ok, v) \<Rightarrow>
      if \<not> ok then Some (EX_ILLEGAL_STATE, v)
      else (case on_config config volOffset (vput (Str (mode_text m)) Mode v) of
          None \<Rightarrow> None
        | Some v \<Rightarrow>
            (case vset (Num 1) Activate v of (ok, v) \<Rightarrow>
               Some (if ok then Ok else EX_ILLEGAL_STATE, v))))"

text \<open>
  The steady configuration follows the temperature, with a dead band between.
  The code goes through \<open>mSteadyConfig\<close> without a test for null; that has no
  result.
\<close>

definition steady_for_temp :: "int \<Rightarrow> vibrator \<Rightarrow> vibrator option" where
  "steady_for_temp usbTemp v =
     (if usbTemp > TEMP_UPPER_BOUND then
        (case mSteadyConfig v of
           None \<Rightarrow> None
         | Some cfg \<Rightarrow> Some (v\<lparr>mSteadyConfig := Some (cfg\<lparr>odClamp := [mSteadyTargetOdClamp v],
             olLraPeriod := mSteadyOlLraPeriod v\<rparr>)\<rparr>))
      else if usbTemp < TEMP_LOWER_BOUND then
        (case mSteadyConfig v of
           None \<Rightarrow> None
         | Some cfg \<Rightarrow> Some (v\<lparr>mSteadyConfig := Some (cfg\<lparr>odClamp := [STEADY_VOLTAGE_LOWER_BOUND],
             olLraPeriod := mSteadyOlLraPeriodShift v\<rparr>)\<rparr>))
      else Some v)"

definition on :: "u32 \<Rightarrow> bool \<Rightarrow> vibrator \<Rightarrow> (vib_status \<times> vibrator) option" where
  "on timeoutMs has_callback v =
     (if has_callback then Some (EX_UNSUPPORTED_OPERATION, v)
      else
        (case (if mDynamicConfig v then
            (case hw_get UsbTemp (mHwApi v) of (ok, usbTemp, h) \<Rightarrow>
              steady_for_temp usbTemp (v\<lparr>mHwApi := h\<rparr>))
          else Some v)
         of None \<Rightarrow> None
          | Some v \<Rightarrow> on_mode timeoutMs RTP_MODE (mSteadyConfig v) 0 v))"

definition off :: "vibrator \<Rightarrow> vib_status \<times> vibrator" where
  "off v = (case vset (Num 0) Activate v of (ok, v) \<Rightarrow> (if ok then Ok else EX_ILLEGAL_STATE, v))"

text \<open>\<open>std::round\<close>: to the nearest integer, halves away from zero.\<close>

definition c_round :: "rat \<Rightarrow> int" where
  "c_round x = (if 0 \<le> x then \<lfloor>x + 1 / 2\<rfloor> else - \<lfloor>- x + 1 / 2\<rfloor>)"

definition rtp_input :: "(rat \<Rightarrow> rat) \<Rightarrow> rat \<Rightarrow> int" where
  "rtp_input fl amplitude = c_round (fl (amplitude * 127))"

definition setAmplitude :: "(rat \<Rightarrow> rat) \<Rightarrow> rat \<Rightarrow> vibrator \<Rightarrow> vib_status \<times> vibrator" where
  "setAmplitude fl amplitude v =
     (if amplitude \<le> 0 \<or> amplitude > 1 then (EX_ILLEGAL_ARGUMENT, v)
      else (case vset (Num (rtp_input fl amplitude)) RtpInput v of (ok, v) \<Rightarrow>
        (if ok then Ok else EX_ILLEGAL_STATE, v)))"

definition setExternalControl :: "bool \<Rightarrow> vib_status" where
  "setExternalControl enabled = EX_UNSUPPORTED_OPERATION"

definition getSupportedEffects :: "effect list" where
  "getSupportedEffects = [TEXTURE_TICK, TICK, CLICK, HEAVY_CLICK, DOUBLE_CLICK]"

fun strength_offset :: "strength \<Rightarrow> nat option" where
  "strength_offset LIGHT = Some 0"
| "strength_offset MEDIUM = Some 1"
| "strength_offset STRONG = Some 1"
| "strength_offset OtherStrength = None"

text \<open>Sequence, duration and clamp index of an effect, given the strength's offset.\<close>

fun effect_params :: "effect \<Rightarrow> nat \<Rightarrow> vibrator \<Rightarrow> (string \<times> u32 \<times> nat) option" where
  "effect_params TEXTURE_TICK vol v = Some (''2 0'', mTickDuration v, 0)"
| "effect_params CLICK vol v = Some (''1 0'', mClickDuration v, vol + 2)"
| "effect_params DOUBLE_CLICK vol v = Some (''3 0'', mDoubleClickDuration v, vol + 2)"
| "effect_params TICK vol v = Some (''2 0'', mTickDuration v, vol + 1)"
| "effect_params HEAVY_CLICK vol v = Some (''4 0'', mHeavyClickDuration v, vol + 3)"
| "effect_params _ vol v = None"

definition performEffect ::
  "effect \<Rightarrow> strength \<Rightarrow> vibrator \<Rightarrow> (vib_status \<times> u32 option \<times> vibrator) option" where
  "performEffect e s v =
     (case strength_offset s of
        None \<Rightarrow> Some (EX_UNSUPPORTED_OPERATION, None, v)
      | Some vol \<Rightarrow>
          (case effect_params e vol v of
             None \<Rightarrow> Some (EX_UNSUPPORTED_OPERATION, None, v)
           | Some (sequence, timeMS, volOffset) \<Rightarrow>
               (case on_mode timeMS WAVEFORM_MODE (mEffectConfig v) volOffset
                   (vput (Str sequence) Sequencer v) of
                  None \<Rightarrow> None
                | Some (st, v) \<Rightarrow> Some (st, if st = Ok then Some timeMS else None, v))))"

definition perform ::
  "effect \<Rightarrow> strength \<Rightarrow> bool \<Rightarrow> vibrator \<Rightarrow> (vib_status \<times> u32 option \<times> vibrator) option" where
  "perform e s has_callback v =
     (if has_callback then Some (EX_UNSUPPORTED_OPERATION, None, v) else performEffect e s v)"

section \<open>What is written, and when\<close>

text \<open>The writes the driver has taken.\<close>

abbreviation writes :: "vibrator \<Rightarrow> (hw_node \<times> hw_value) list" where
  "writes v \<equiv> hw_writes (mHwApi v)"

lemma vset_writes:
  assumes "vset x n v = (ok, v')"
  shows "writes v' = writes v @ (if ok then [(n, x)] else [])"
  using assms hw_set_ok [of x n "mHwApi v"]
  by (cases "hw_set x n (mHwApi v)") (auto simp: vset_def)

lemma vset_frame:
  assumes "vset x n v = (ok, v')"
  shows "v' = v\<lparr>mHwApi := mHwApi v'\<rparr>"
  using assms by (cases "hw_set x n (mHwApi v)") (auto simp: vset_def)

lemma vput_writes:
  "\<exists>made. writes (vput x n v) = writes v @ made \<and> set made \<subseteq> {(n, x)}"
  using vset_writes [of x n v "fst (vset x n v)" "vput x n v"]
  by (auto simp: vput_def split: if_splits)

lemma vput_sel [simp]:
  "mEffectConfig (vput x n v) = mEffectConfig v" "mSteadyConfig (vput x n v) = mSteadyConfig v"
  "mDynamicConfig (vput x n v) = mDynamicConfig v" "mClickDuration (vput x n v) = mClickDuration v"
  "mCloseLoopThreshold (vput x n v) = mCloseLoopThreshold v"
  "mSteadyTargetOdClamp (vput x n v) = mSteadyTargetOdClamp v"
  by (simp_all add: vput_def vset_def split: prod.splits)

lemma on_config_writes:
  assumes "on_config cfg k v = Some v'"
  shows "\<exists>made. writes v' = writes v @ made \<and> fst ` set made \<subseteq> {LraWaveShape, OdClamp, OlLraPeriod}"
proof (cases cfg)
  case None
  then show ?thesis using assms by (simp add: on_config_def)
next
  case (Some c)
  let ?v1 = "vput (num (shape c)) LraWaveShape v"
  let ?v2 = "vput (num (odClamp c ! k)) OdClamp ?v1"
  have v': "v' = vput (num (olLraPeriod c)) OlLraPeriod ?v2"
    using assms Some by (auto simp: on_config_def Let_def split: if_splits)
  obtain a b e where "writes ?v1 = writes v @ a" "set a \<subseteq> {(LraWaveShape, num (shape c))}"
    "writes ?v2 = writes ?v1 @ b" "set b \<subseteq> {(OdClamp, num (odClamp c ! k))}"
    "writes v' = writes ?v2 @ e" "set e \<subseteq> {(OlLraPeriod, num (olLraPeriod c))}"
    using vput_writes unfolding v' by metis
  then show ?thesis by (intro exI [of _ "a @ b @ e"]) auto
qed

text \<open>
  C23: the motor is started only after its duration was accepted: when turning
  on reports success the duration is the last-but-some write and the activation
  the last one, with nothing but the mode and the waveform settings between;
  otherwise the motor has not been activated. Closed loop is chosen exactly for
  real-time playback longer than the threshold.
\<close>

theorem on_mode_order:
  assumes "on_mode t m cfg k v = Some (st, v')"
  shows "(st = Ok \<and> (\<exists>pre mid. writes v' = writes v @ pre @ [(Duration, num t)] @ mid @ [(Activate, Num 1)]
      \<and> set pre \<subseteq> {(CtrlLoop, Num (if m = RTP_MODE \<and> t > mCloseLoopThreshold v then 0 else 1))}
      \<and> fst ` set mid \<subseteq> {Mode, LraWaveShape, OdClamp, OlLraPeriod}))
    \<or> (st = EX_ILLEGAL_STATE \<and> (\<exists>made. writes v' = writes v @ made \<and> Activate \<notin> fst ` set made))"
proof -
  let ?loop = "Num (if m = RTP_MODE \<and> t > mCloseLoopThreshold v then 0 else 1)"
  let ?v1 = "vput ?loop CtrlLoop v"
  obtain pre where pre: "writes ?v1 = writes v @ pre" "set pre \<subseteq> {(CtrlLoop, ?loop)}"
    using vput_writes by blast
  obtain ok2 v2 where 2: "vset (num t) Duration ?v1 = (ok2, v2)" by (metis surj_pair)
  note w2 = vset_writes [OF 2]
  show ?thesis
  proof (cases ok2)
    case False
    then have "st = EX_ILLEGAL_STATE" "v' = v2"
      using assms 2 by (simp_all add: on_mode_def Let_def)
    then show ?thesis using w2 pre False by auto
  next
    case True
    let ?v3 = "vput (Str (mode_text m)) Mode v2"
    obtain v4 ok5 where 4: "on_config cfg k ?v3 = Some v4" and 5: "vset (Num 1) Activate v4 = (ok5, v')"
      and st: "st = (if ok5 then Ok else EX_ILLEGAL_STATE)"
      using assms 2 True by (auto simp: on_mode_def Let_def split: option.splits prod.splits)
    obtain a where a: "writes ?v3 = writes v2 @ a" "set a \<subseteq> {(Mode, Str (mode_text m))}"
      using vput_writes by blast
    obtain b where b: "writes v4 = writes ?v3 @ b" "fst ` set b \<subseteq> {LraWaveShape, OdClamp, OlLraPeriod}"
      using on_config_writes [OF 4] by blast
    have mid: "fst ` set (a @ b) \<subseteq> {Mode, LraWaveShape, OdClamp, OlLraPeriod}"
      using a(2) b(2) by auto
    have w4: "writes v4 = writes v @ pre @ [(Duration, num t)] @ a @ b"
      using b(1) a(1) w2 pre(1) True by simp
    show ?thesis
    proof (cases ok5)
      case True
      then have "writes v' = writes v @ pre @ [(Duration, num t)] @ (a @ b) @ [(Activate, Num 1)]"
        using vset_writes [OF 5] w4 by simp
      then have "st = Ok \<and> (\<exists>pre mid. writes v' = writes v @ pre @ [(Duration, num t)] @ mid @ [(Activate, Num 1)]
          \<and> set pre \<subseteq> {(CtrlLoop, ?loop)} \<and> fst ` set mid \<subseteq> {Mode, LraWaveShape, OdClamp, OlLraPeriod})"
        using st True pre(2) mid by (intro conjI exI [of _ pre] exI [of _ "a @ b"]) simp_all
      then show ?thesis by (rule disjI1)
    next
      case False
      then have "writes v' = writes v @ (pre @ [(Duration, num t)] @ a @ b)"
        using vset_writes [OF 5] w4 by simp
      moreover have "Activate \<notin> fst ` set (pre @ [(Duration, num t)] @ a @ b)"
        using pre(2) mid by auto
      ultimately show ?thesis using st False by auto
    qed
  qed
qed

section \<open>No clamp is read out of bounds, no null configuration is used\<close>

definition vib_inv :: "vibrator \<Rightarrow> bool" where
  "vib_inv v \<longleftrightarrow> (mDynamicConfig v \<longrightarrow> mSteadyConfig v \<noteq> None) \<and>
     (case mEffectConfig v of None \<Rightarrow> True | Some cfg \<Rightarrow> length (odClamp cfg) = 5)
     \<and> (case mSteadyConfig v of None \<Rightarrow> True | Some cfg \<Rightarrow> length (odClamp cfg) = 1)"

lemma vib_inv_hw: "vib_inv (v\<lparr>mHwApi := h\<rparr>) = vib_inv v"
  by (simp add: vib_inv_def)

lemma vib_inv_vset: "vset x n v = (ok, v') \<Longrightarrow> vib_inv v' = vib_inv v"
  using vset_frame [of x n v ok v'] vib_inv_hw [of "mHwApi v'" v] by simp

lemma vib_inv_vput [simp]: "vib_inv (vput x n v) = vib_inv v"
  by (simp add: vib_inv_def)

lemma on_config_defined:
  assumes "case cfg of None \<Rightarrow> True | Some c \<Rightarrow> k < length (odClamp c)"
  shows "\<exists>v'. on_config cfg k v = Some v' \<and> (vib_inv v \<longrightarrow> vib_inv v')"
  using assms by (cases cfg) (auto simp: on_config_def Let_def)

lemma on_mode_defined:
  assumes "case cfg of None \<Rightarrow> True | Some c \<Rightarrow> k < length (odClamp c)" "vib_inv v"
  shows "\<exists>st v'. on_mode t m cfg k v = Some (st, v') \<and> vib_inv v'"
proof -
  let ?v1 = "vput (Num (if m = RTP_MODE \<and> t > mCloseLoopThreshold v then 0 else 1)) CtrlLoop v"
  obtain ok2 v2 where 2: "vset (num t) Duration ?v1 = (ok2, v2)" by (metis surj_pair)
  have i2: "vib_inv v2" using vib_inv_vset [OF 2] assms(2) by simp
  obtain v3 where 3: "on_config cfg k (vput (Str (mode_text m)) Mode v2) = Some v3" "vib_inv v3"
    using on_config_defined [OF assms(1)] i2 by (metis vib_inv_vput)
  obtain ok4 v4 where 4: "vset (Num 1) Activate v3 = (ok4, v4)" by (metis surj_pair)
  have "vib_inv v4" using vib_inv_vset [OF 4] 3(2) by simp
  then show ?thesis using 2 3(1) 4 i2 by (auto simp: on_mode_def Let_def)
qed

lemma steady_for_temp_inv:
  assumes "vib_inv v" "mDynamicConfig v"
  shows "\<exists>v'. steady_for_temp temp v = Some v' \<and> vib_inv v'"
  using assms by (auto simp: steady_for_temp_def vib_inv_def)

lemma on_defined:
  assumes "vib_inv v"
  shows "\<exists>st v'. on t cb v = Some (st, v') \<and> vib_inv v'"
proof (cases cb)
  case True
  then show ?thesis using assms by (simp add: on_def)
next
  case False
  obtain v1 where v1: "(if mDynamicConfig v then
      (case hw_get UsbTemp (mHwApi v) of (ok, temp, h) \<Rightarrow> steady_for_temp temp (v\<lparr>mHwApi := h\<rparr>))
    else Some v) = Some v1" and i1: "vib_inv v1"
  proof (cases "mDynamicConfig v")
    case True
    obtain ok temp h where "hw_get UsbTemp (mHwApi v) = (ok, temp, h)" by (metis prod_cases3)
    moreover obtain v1 where "steady_for_temp temp (v\<lparr>mHwApi := h\<rparr>) = Some v1" "vib_inv v1"
      using steady_for_temp_inv [of "v\<lparr>mHwApi := h\<rparr>" temp] assms True by (auto simp: vib_inv_hw)
    ultimately show ?thesis using that True by simp
  next
    case False
    then show ?thesis using that assms by simp
  qed
  have "case mSteadyConfig v1 of None \<Rightarrow> True | Some c \<Rightarrow> 0 < length (odClamp c)"
    using i1 by (auto simp: vib_inv_def split: option.splits)
  from on_mode_defined [OF this i1] show ?thesis
    using False by (auto simp: on_def v1)
qed

lemma performEffect_defined:
  assumes "vib_inv v"
  shows "\<exists>st t v'. performEffect e s v = Some (st, t, v') \<and> vib_inv v'"
proof (cases "strength_offset s")
  case None
  then show ?thesis using assms by (simp add: performEffect_def)
next
  case (Some vol)
  then have vol: "vol \<le> 1" by (cases s) auto
  show ?thesis
  proof (cases "effect_params e vol v")
    case None
    then show ?thesis using Some assms by (simp add: performEffect_def)
  next
    case (Some p)
    then obtain sq tm k where p: "effect_params e vol v = Some (sq, tm, k)" by (cases p) auto
    then have "k \<le> 4" using vol by (cases e) auto
    then have "case mEffectConfig v of None \<Rightarrow> True | Some c \<Rightarrow> k < length (odClamp c)"
      using assms by (auto simp: vib_inv_def split: option.splits)
    from on_mode_defined [OF this, of "vput (Str sq) Sequencer v" tm WAVEFORM_MODE] assms
    obtain st v' where "on_mode tm WAVEFORM_MODE (mEffectConfig v) k (vput (Str sq) Sequencer v)
        = Some (st, v')" "vib_inv v'"
      by auto
    then show ?thesis
      using p \<open>strength_offset s = Some vol\<close> by (auto simp: performEffect_def)
  qed
qed

lemma dynamic_config_inv: "dynamic_config F c p v = Some v' \<Longrightarrow> vib_inv v'"
proof -
  have "effect_clamps F c p q = Some cl \<Longrightarrow> length cl = 5" for q cl
    by (auto simp: effect_clamps_def split: option.splits if_splits)
  then show "dynamic_config F c p v = Some v' \<Longrightarrow> vib_inv v'"
    by (auto simp: dynamic_config_def vib_inv_def Let_def bind_Some_iff)
qed

lemma Vibrator_init_inv:
  assumes "Vibrator_init F c h = Some v"
  shows "vib_inv v"
proof -
  define v0 where "v0 = \<lparr>mHwApi = h, mCloseLoopThreshold = getCloseLoopThreshold c,
    mSteadyConfig = None, mEffectConfig = None, mClickDuration = getClickDuration c,
    mTickDuration = getTickDuration c, mDoubleClickDuration = getDoubleClickDuration c,
    mHeavyClickDuration = getHeavyClickDuration c, mEffectTargetOdClamp = replicate 5 0,
    mSteadyTargetOdClamp = 0, mSteadyOlLraPeriod = 0, mSteadyOlLraPeriodShift = 0,
    mDynamicConfig = getDynamicConfig c\<rparr>"
  define v1 where "v1 = (case getPersist_string ''autocal'' c of
    None \<Rightarrow> vput (Num 1) HwState v0 | Some s \<Rightarrow> vput (Str s) Autocal (vput (Num 1) HwState v0))"
  obtain v2 where 2: "(if mDynamicConfig v1 then dynamic_config F c (getLraPeriod c) v1
      else Some (vput (num (getLraPeriod c)) OlLraPeriod v1)) = Some v2"
    and v: "v = vput (num (getTriggerEffectSupport c)) LpTrigger v2"
    using assms unfolding Vibrator_init_def Let_def v0_def [symmetric] v1_def [symmetric]
    by (auto simp: bind_Some_iff)
  have "vib_inv v2"
  proof (cases "mDynamicConfig v1")
    case True
    then show ?thesis using 2 by (auto intro: dynamic_config_inv)
  next
    case False
    have "mSteadyConfig v1 = None" "mEffectConfig v1 = None"
      by (simp_all add: v1_def v0_def split: option.split)
    then have "vib_inv v1" using False by (simp add: vib_inv_def)
    then show ?thesis using False 2 by auto
  qed
  then show ?thesis by (simp add: v)
qed

text \<open>The states of the service: after the constructor, any calls of the client.\<close>

inductive vib_reachable :: "vibrator \<Rightarrow> bool" where
  init: "Vibrator_init F c h = Some v \<Longrightarrow> vib_reachable v"
| step_on: "vib_reachable v \<Longrightarrow> on t cb v = Some (st, v') \<Longrightarrow> vib_reachable v'"
| step_off: "vib_reachable v \<Longrightarrow> off v = (st, v') \<Longrightarrow> vib_reachable v'"
| step_amplitude: "vib_reachable v \<Longrightarrow> setAmplitude fl a v = (st, v') \<Longrightarrow> vib_reachable v'"
| step_perform: "vib_reachable v \<Longrightarrow> perform e s cb v = Some (st, dur, v') \<Longrightarrow> vib_reachable v'"

lemma vib_reachable_inv: "vib_reachable v \<Longrightarrow> vib_inv v"
proof (induction rule: vib_reachable.induct)
  case (init F c h v)
  then show ?case by (rule Vibrator_init_inv)
next
  case (step_on v t cb st v')
  then show ?case using on_defined [of v t cb] by auto
next
  case (step_off v st v')
  then show ?case using vib_inv_vset by (auto simp: off_def split: prod.splits)
next
  case (step_amplitude v fl a st v')
  then show ?case using vib_inv_vset by (auto simp: setAmplitude_def split: prod.splits if_splits)
next
  case (step_perform v e s cb st dur v')
  then show ?case using performEffect_defined [of v e s] by (auto simp: perform_def split: if_splits)
qed

text \<open>
  C22: in every state the service can reach, each call returns: no sequence of
  turning on, effects, amplitudes and turning off reads a voltage clamp outside
  its array, and the steady configuration that turning on changes by the
  temperature is there whenever it is used. An effect whose callback, strength or kind is not supported
  changes nothing.
\<close>

theorem vibrator_calls_return:
  assumes "vib_reachable v"
  shows "on t cb v \<noteq> None \<and> (\<exists>st dur v'. perform e s cb v = Some (st, dur, v')
    \<and> (cb \<or> strength_offset s = None \<or> e \<notin> set getSupportedEffects
        \<longrightarrow> st = EX_UNSUPPORTED_OPERATION \<and> v' = v)
    \<and> (st = Ok \<longleftrightarrow> dur \<noteq> None))"
proof
  have inv: "vib_inv v" using assms by (rule vib_reachable_inv)
  show "on t cb v \<noteq> None" using on_defined [OF inv, of t cb] by auto
  obtain st dur v' where p: "performEffect e s v = Some (st, dur, v')"
    using performEffect_defined [OF inv] by blast
  have "st = Ok \<longleftrightarrow> dur \<noteq> None"
    using p by (auto simp: performEffect_def split: option.splits if_splits)
  moreover have "strength_offset s = None \<or> e \<notin> set getSupportedEffects \<Longrightarrow>
      st = EX_UNSUPPORTED_OPERATION \<and> v' = v"
    using p by (cases e; cases s) (auto simp: performEffect_def getSupportedEffects_def)
  ultimately show "\<exists>st dur v'. perform e s cb v = Some (st, dur, v')
    \<and> (cb \<or> strength_offset s = None \<or> e \<notin> set getSupportedEffects
        \<longrightarrow> st = EX_UNSUPPORTED_OPERATION \<and> v' = v)
    \<and> (st = Ok \<longleftrightarrow> dur \<noteq> None)"
    using p by (cases cb) (auto simp: perform_def)
qed

section \<open>Amplitudes\<close>

text \<open>
  With a rounding to \<open>float\<close> that is monotone and exact for 0 and 127,
  every amplitude that is accepted becomes a real-time input between 0 and 127
  that fits its 8 bits, and a larger amplitude never a smaller one.
\<close>

theorem rtp_input_range:
  assumes "mono fl" "fl 0 = 0" "fl 127 = 127" "0 < a" "a \<le> b" "b \<le> 1"
  shows "0 \<le> rtp_input fl a \<and> rtp_input fl a \<le> rtp_input fl b \<and> rtp_input fl b \<le> 127"
proof -
  have "0 \<le> a * 127" "a * 127 \<le> b * 127" "b * 127 \<le> 127" using assms(4-6) by simp_all
  then have m: "fl 0 \<le> fl (a * 127)" "fl (a * 127) \<le> fl (b * 127)" "fl (b * 127) \<le> fl 127"
    using assms(1) by (simp_all add: monoD)
  have r: "c_round x = \<lfloor>x + 1 / 2\<rfloor>" if "0 \<le> x" for x using that by (simp add: c_round_def)
  have x: "0 \<le> fl (a * 127)" "0 \<le> fl (b * 127)" "fl (b * 127) \<le> 127" using m assms(2,3) by linarith+
  have "0 \<le> \<lfloor>fl (a * 127) + 1 / 2\<rfloor>" using x(1) by (simp add: le_floor_iff)
  moreover have "\<lfloor>fl (a * 127) + 1 / 2\<rfloor> \<le> \<lfloor>fl (b * 127) + 1 / 2\<rfloor>"
    using m(2) by (intro floor_mono) simp
  moreover have "\<lfloor>fl (b * 127) + 1 / 2\<rfloor> \<le> 127" using x(3) by (simp add: floor_le_iff)
  ultimately show ?thesis using x by (simp add: rtp_input_def r)
qed

text \<open>
  On a device without the real-time input node, the capability to control
  the amplitude appears after the first attempt to set one, which fails.
\<close>

theorem capability_after_failure:
  assumes "HwApi_Create files accepts temp = Some h" "mHwApi v = h" "\<not> files RtpInput"
    "0 < a" "a \<le> 1"
  shows "getCapabilities v = 0 \<and> fst (setAmplitude fl a v) = EX_ILLEGAL_STATE
    \<and> getCapabilities (snd (setAmplitude fl a v)) = 4"
proof -
  have "\<not> hw_good h RtpInput"
    using assms(1,3) by (auto simp: HwApi_Create_def Let_def split: if_splits)
  then have no: "\<not> hw_good (mHwApi v) RtpInput" by (simp add: assms(2))
  then show ?thesis
    using assms(4,5)
    by (simp add: getCapabilities_def setAmplitude_def vset_def hw_set_def hw_has_def hw_record_def Let_def)
qed

end
