(* ===== verification/Vibrator_Dump.thy ===== *)
theory Vibrator_Dump
  imports Vibrator
begin

text \<open>
  What the vibrator service prints for a bug report (\<open>Vibrator::dump\<close> and the two
  \<open>debug\<close> functions it calls), and the calls it refuses because the driver has no
  such feature. The text is the list of its lines. The environment gives the
  kernel's debug files, the list of properties and the calibration file.
\<close>

section \<open>Decimal numbers\<close>

definition show_int :: "int \<Rightarrow> string" where
  "show_int x = (if x < 0 then ''-'' @ show_nat (nat (- x)) else show_nat (nat x))"

definition show_u32 :: "u32 \<Rightarrow> string" where
  "show_u32 x = show_nat (unat x)"

text \<open>
  A 32 bit number that is printed in decimal, with blanks before it as in a
  calibration file, is read back as the same number.
\<close>

theorem parse_show_u32:
  assumes "list_all c_isspace pad"
  shows "parse_u32 (pad @ show_u32 x) = Some x"
proof -
  obtain c cs where s: "show_nat (unat x) = c # cs"
    by (cases "show_nat (unat x)") auto
  have d: "list_all is_digit (c # cs)" "digits_value (c # cs) = unat x"
    using show_nat_digits [of "unat x"] digits_value_show [of "unat x"] by (simp_all add: s)
  then have "\<not> c_isspace c \<and> c \<noteq> CHR ''-'' \<and> c \<noteq> CHR ''+''" using digit_no_space by simp
  moreover have "dropWhile c_isspace (pad @ c # cs) = dropWhile c_isspace (c # cs)"
    using assms by (induction pad) auto
  moreover have "unat x < 2 ^ 32" using unsigned_less [of x] by simp
  ultimately show ?thesis
    using d by (simp add: parse_u32_def show_u32_def s)
qed

section \<open>The debug functions\<close>

fun node_name :: "hw_node \<Rightarrow> string" where
  "node_name Autocal = ''device/autocal''"
| "node_name OlLraPeriod = ''device/ol_lra_period''"
| "node_name Activate = ''activate''"
| "node_name Duration = ''duration''"
| "node_name HwState = ''state''"
| "node_name RtpInput = ''device/rtp_input''"
| "node_name Mode = ''device/mode''"
| "node_name Sequencer = ''device/set_sequencer''"
| "node_name Scale = ''device/scale''"
| "node_name CtrlLoop = ''device/ctrl_loop''"
| "node_name LpTrigger = ''device/lp_trigger_effect''"
| "node_name LraWaveShape = ''device/lra_wave_shape''"
| "node_name OdClamp = ''device/od_clamp''"
| "node_name UsbTemp = ''/sys/devices/virtual/thermal/tz-by-name/usbc-therm-monitor/temp''"

fun show_value :: "hw_value \<Rightarrow> string" where
  "show_value (Str s) = s" | "show_value (Num x) = show_int x"

definition QUOTE :: char where "QUOTE = CHR 0x27"

definition record_text :: "string \<times> hw_value \<times> hw_node \<Rightarrow> string" where
  "record_text r = (case r of (func, value, n) \<Rightarrow>
     func @ '' '' @ [QUOTE] @ node_name n @ [QUOTE] @ '' = '' @ [QUOTE] @ show_value value @ [QUOTE])"

fun print_records :: "(string \<times> hw_value \<times> hw_node) option list \<Rightarrow> string list" where
  "print_records [] = []"
| "print_records (None # rs) = print_records rs"
| "print_records (Some r # rs) = (''    '' @ record_text r) # print_records rs"

text \<open>The debug files by path, with their lines.\<close>

fun print_files :: "(string \<times> string list) list \<Rightarrow> string list" where
  "print_files [] = []"
| "print_files ((path, ls) # fs) =
     (''  '' @ path @ '':'') # map (\<lambda>l. ''    '' @ l) ls @ print_files fs"

definition HwApi_debug :: "(string \<times> string list) list \<Rightarrow> hwapi \<Rightarrow> string list" where
  "HwApi_debug files h =
     [''Kernel:''] @ print_files files @ [''  Records:''] @ print_records (hw_records h)"

fun print_properties :: "string \<Rightarrow> (string \<times> string) list \<Rightarrow> string list" where
  "print_properties prefix [] = []"
| "print_properties prefix ((key, value) # ps) =
     (if take (min (length key) (length prefix)) key = prefix
      then [''  '' @ key @ '':'', ''    '' @ value] else [])
     @ print_properties prefix ps"

definition HwCal_debug :: "(string \<times> string) list \<Rightarrow> string \<Rightarrow> string list \<Rightarrow> hwcal \<Rightarrow> string list" where
  "HwCal_debug props path calfile c =
     [''Properties:''] @ print_properties (cal_prefix c) props @ [''''] @ [''Persist:'']
     @ [''  '' @ path @ '':''] @ map (\<lambda>l. ''    '' @ l) calfile"

section \<open>The dump\<close>

text \<open>The five effect clamps and the first steady one are read from their arrays.\<close>

definition dump_effect :: "vib_config \<Rightarrow> string list option" where
  "dump_effect cfg =
     (if length (odClamp cfg) < 5 then None
      else Some [''  Effect Shape: '' @ show_u32 (shape cfg),
        ''  Effect OD Clamp: '' @ show_u32 (odClamp cfg ! 0) @ '' '' @ show_u32 (odClamp cfg ! 1)
          @ '' '' @ show_u32 (odClamp cfg ! 2) @ '' '' @ show_u32 (odClamp cfg ! 3)
          @ '' '' @ show_u32 (odClamp cfg ! 4),
        ''  Effect OL LRA Period: '' @ show_u32 (olLraPeriod cfg)])"

definition dump_steady :: "vib_config \<Rightarrow> string list option" where
  "dump_steady cfg =
     (if odClamp cfg = [] then None
      else Some [''  Steady Shape: '' @ show_u32 (shape cfg),
        ''  Steady OD Clamp: '' @ show_u32 (odClamp cfg ! 0),
        ''  Steady OL LRA Period: '' @ show_u32 (olLraPeriod cfg)])"

definition dump_config :: "(vib_config \<Rightarrow> string list option) \<Rightarrow> vib_config option \<Rightarrow> string list option" where
  "dump_config f cfg = (case cfg of None \<Rightarrow> Some [] | Some c \<Rightarrow> f c)"

definition dump :: "int \<Rightarrow> string list \<Rightarrow> string list \<Rightarrow> vibrator \<Rightarrow> string list option" where
  "dump fd hw_lines cal_lines v =
     (if fd < 0 then Some []
      else do {
        steady \<leftarrow> dump_config dump_steady (mSteadyConfig v);
        effect \<leftarrow> dump_config dump_effect (mEffectConfig v);
        Some ([''AIDL:'', ''  Close Loop Thresh: '' @ show_u32 (mCloseLoopThreshold v)]
          @ steady @ effect
          @ [''  Click Duration: '' @ show_u32 (mClickDuration v),
             ''  Tick Duration: '' @ show_u32 (mTickDuration v),
             ''  Double Click Duration: '' @ show_u32 (mDoubleClickDuration v),
             ''  Heavy Click Duration: '' @ show_u32 (mHeavyClickDuration v), '''']
          @ hw_lines @ [''''] @ cal_lines)
      })"

lemma print_records_eq:
  "print_records rs = map (\<lambda>r. ''    '' @ record_text r) (List.map_filter (\<lambda>r. r) rs)"
  by (induction rs rule: print_records.induct) (simp_all add: map_filter_simps)

lemma map_filter_calls:
  "List.map_filter (\<lambda>r. r) (drop (length calls) (replicate n None @ map Some calls))
    = drop (length calls - n) calls"
proof -
  have "List.map_filter (\<lambda>r. r) (replicate k None @ map Some xs) = xs" for k and xs :: "'a list"
    by (induction k) (simp_all add: map_filter_simps map_filter_def comp_def)
  then show ?thesis by (simp add: drop_map)
qed

text \<open>
  The debug text of the driver shows, after the kernel's files, the last 32
  calls in their order (all of them while there were fewer), one line each, and
  nothing for the places of the record that are still empty.
\<close>

theorem HwApi_debug_calls:
  assumes "HwApi_Create accepts_open accepts temp = Some h"
    and "h' = fold (\<lambda>(func, value, n). hw_record func value n) calls h"
  shows "HwApi_debug files h' = [''Kernel:''] @ print_files files @ [''  Records:'']
    @ map (\<lambda>r. ''    '' @ record_text r) (drop (length calls - 32) calls)"
proof -
  have "hw_records h = replicate 32 None"
    using assms(1) by (auto simp: HwApi_Create_def RECORDS_SIZE_def split: if_splits)
  then have "hw_records h' = drop (length calls) (replicate 32 None @ map Some calls)"
    using records.fold_put_kept [of h calls] assms(2) by (simp add: RECORDS_SIZE_def)
  then show ?thesis
    by (simp only: HwApi_debug_def print_records_eq map_filter_calls)
qed

text \<open>
  In every state the service can reach a dump to an open file returns, with
  the calibrated clamps read inside their arrays: it names the configured
  values, then what the driver and the calibration print.
\<close>

theorem dump_returns:
  assumes "vib_reachable v" "0 \<le> fd"
  shows "\<exists>own. dump fd hw_lines cal_lines v = Some (own @ hw_lines @ [''''] @ cal_lines)
    \<and> (mSteadyConfig v = None \<and> mEffectConfig v = None \<longrightarrow> length own = 7)
    \<and> (mSteadyConfig v \<noteq> None \<and> mEffectConfig v \<noteq> None \<longrightarrow> length own = 13)"
proof -
  have inv: "vib_inv v" using assms(1) by (rule vib_reachable_inv)
  have "\<exists>ls. dump_config dump_steady (mSteadyConfig v) = Some ls
      \<and> length ls = (if mSteadyConfig v = None then 0 else 3)"
    using inv by (auto simp: dump_config_def dump_steady_def vib_inv_def split: option.splits)
  moreover have "\<exists>ls. dump_config dump_effect (mEffectConfig v) = Some ls
      \<and> length ls = (if mEffectConfig v = None then 0 else 3)"
    using inv by (auto simp: dump_config_def dump_effect_def vib_inv_def split: option.splits)
  ultimately obtain s e where
    "dump_config dump_steady (mSteadyConfig v) = Some s" "length s = (if mSteadyConfig v = None then 0 else 3)"
    "dump_config dump_effect (mEffectConfig v) = Some e" "length e = (if mEffectConfig v = None then 0 else 3)"
    by blast
  then show ?thesis using assms(2) by (simp add: dump_def)
qed

section \<open>Calls the driver has no feature for\<close>

datatype vib_call = GetSupportedAlwaysOnEffects | AlwaysOnEnable int effect strength
  | AlwaysOnDisable int | GetCompositionDelayMax | GetCompositionSizeMax
  | GetSupportedPrimitives | GetPrimitiveDuration int | Compose "int list" bool
  | GetResonantFrequency | GetQFactor | GetFrequencyResolution | GetFrequencyMinimum
  | GetBandwidthAmplitudeMap | GetPwlePrimitiveDurationMax | GetPwleCompositionSizeMax
  | GetSupportedBraking | ComposePwle "int list" bool

definition unsupported_call :: "vib_call \<Rightarrow> vibrator \<Rightarrow> vib_status \<times> vibrator" where
  "unsupported_call c v = (EX_UNSUPPORTED_OPERATION, v)"

end
