(* ===== verification/Vibrator_Example.thy ===== *)
theory Vibrator_Example
  imports Vibrator_Dump
begin

text \<open>A vibrator with all nodes, and one without the real-time input node.\<close>

definition all_nodes :: hwapi where
  "all_nodes = \<lparr>hw_open = (\<lambda>n. True), hw_good = (\<lambda>n. True), hw_accepts = (\<lambda>n v. True),
     hw_usb_temp = Some 20000, hw_writes = [], hw_records = replicate RECORDS_SIZE None\<rparr>"

definition plain_cal :: hwcal where
  "plain_cal = \<lparr>cal_data = Map.empty, cal_uint_prop = Map.empty,
     cal_bool_prop = (\<lambda>k. if k = ''config.dynamic'' then Some True else None), cal_prefix = ''''\<rparr>"

definition no_formulas :: vib_formulas where
  "no_formulas = \<lparr>effect_clamp = (\<lambda>s p i. None), steady_level = (\<lambda>s m. None)\<rparr>"

lemma all_nodes_created: "HwApi_Create (\<lambda>n. True) (\<lambda>n v. True) (Some 20000) = Some all_nodes"
  by (simp add: HwApi_Create_def all_nodes_def)

lemma records_last_calls_witness:
  "hw_records (fold (\<lambda>(func, value, n). hw_record func value n)
      [(''set'', Num 1, Duration), (''set'', Num 1, Activate)] all_nodes)
    = replicate 30 None @ [Some (''set'', Num 1, Duration), Some (''set'', Num 1, Activate)]"
  using records_last_calls [OF all_nodes_created, of "[(''set'', Num 1, Duration), (''set'', Num 1, Activate)]"]
  by (simp add: numeral_eq_Suc)

lemma HwCal_reads_file_witness:
  "cal_data (HwCal_init (''# drv2624'' @ [CHR 0x0A] @ '' lra_period : 262'' @ [CHR 0x0A]
    @ ''autocal: 1 2 3 '' @ [CHR 0x0A]) Map.empty Map.empty '''')
    = [''autocal'' \<mapsto> ''1 2 3'', ''lra_period'' \<mapsto> ''262'']"
proof -
  have "list_all cal_line_ok [Skipped ''# drv2624'', Entry '' '' ''lra_period'' '' '' '' '' ''262'' '''',
      Entry '''' ''autocal'' '''' '' '' ''1 2 3'' '' '']"
    by (simp add: cal_word_def cal_blank_def)
  from HwCal_reads_file [OF this, of Map.empty Map.empty "''''"]
  show ?thesis by (simp add: fun_upd_twist)
qed

definition demo_vib :: vibrator where
  "demo_vib = (case Vibrator_init no_formulas plain_cal all_nodes of Some v \<Rightarrow> v)"

lemma demo_vib_init: "Vibrator_init no_formulas plain_cal all_nodes = Some demo_vib"
proof -
  have "Vibrator_init no_formulas plain_cal all_nodes \<noteq> None" by code_simp
  then show ?thesis by (auto simp: demo_vib_def)
qed

text \<open>A state without waveform configuration, as when it is not dynamic.\<close>

definition plain_vib :: vibrator where
  "plain_vib = \<lparr>mHwApi = all_nodes, mCloseLoopThreshold = 20, mSteadyConfig = None,
     mEffectConfig = None, mClickDuration = 6, mTickDuration = 2, mDoubleClickDuration = 144,
     mHeavyClickDuration = 8, mEffectTargetOdClamp = replicate 5 0, mSteadyTargetOdClamp = 0,
     mSteadyOlLraPeriod = 0, mSteadyOlLraPeriodShift = 0, mDynamicConfig = False\<rparr>"

lemma on_mode_order_witness:
  "\<exists>pre mid v'. on_mode 1000 RTP_MODE None 0 plain_vib = Some (Ok, v')
    \<and> writes v' = pre @ [(Duration, num 1000)] @ mid @ [(Activate, Num 1)]"
proof -
  have "map_option fst (on_mode 1000 RTP_MODE None 0 plain_vib) = Some Ok"
    by (simp add: on_mode_def vset_def vput_def hw_set_def hw_record_def on_config_def plain_vib_def
        all_nodes_def Let_def)
  then obtain v' where run: "on_mode 1000 RTP_MODE None 0 plain_vib = Some (Ok, v')" by auto
  have "writes plain_vib = []" by (simp add: plain_vib_def all_nodes_def)
  then show ?thesis using on_mode_order [OF run] run by auto
qed

lemma vibrator_calls_return_witness:
  "\<exists>st dur v'. on 500 False (snd (off demo_vib)) \<noteq> None
    \<and> perform POP STRONG False (snd (off demo_vib)) = Some (st, dur, v')
    \<and> st = EX_UNSUPPORTED_OPERATION"
proof -
  have "vib_reachable demo_vib" using demo_vib_init by (rule vib_reachable.init)
  then have "vib_reachable (snd (off demo_vib))"
    using vib_reachable.step_off [of demo_vib "fst (off demo_vib)"] by simp
  from vibrator_calls_return [OF this, of 500 False POP STRONG] show ?thesis
    by (auto simp: getSupportedEffects_def)
qed

lemma rtp_input_range_witness: "rtp_input (\<lambda>x. x) (1 / 2) \<le> rtp_input (\<lambda>x. x) 1"
proof -
  have "mono (\<lambda>x :: rat. x)" by (simp add: mono_def)
  then show ?thesis using rtp_input_range [of "\<lambda>x. x" "1 / 2" 1] by simp
qed

lemma capability_after_failure_witness:
  "\<exists>v. getCapabilities v = 0 \<and> getCapabilities (snd (setAmplitude (\<lambda>x. x) (1 / 2) v)) = 4"
proof -
  let ?f = "\<lambda>n. n \<noteq> RtpInput"
  obtain h where h: "HwApi_Create ?f (\<lambda>n v. True) None = Some h"
    by (simp add: HwApi_Create_def)
  let ?v = "demo_vib\<lparr>mHwApi := h\<rparr>"
  show ?thesis
    using capability_after_failure [OF h, of ?v "1 / 2" "\<lambda>x. x"] by (intro exI [of _ ?v]) simp
qed

lemma parse_show_u32_witness: "parse_u32 ('' '' @ show_u32 262) = Some 262"
proof -
  have "list_all c_isspace '' ''" by (simp add: c_isspace_def)
  then show ?thesis by (rule parse_show_u32)
qed

lemma HwApi_debug_calls_witness:
  "HwApi_debug [(''dev'', [''x''])] (hw_record ''set'' (Num 1) Activate all_nodes)
    = [''Kernel:'', ''  dev:'', ''    x'', ''  Records:'',
       ''    '' @ record_text (''set'', Num 1, Activate)]"
  using HwApi_debug_calls [OF all_nodes_created, of _ "[(''set'', Num 1, Activate)]" "[(''dev'', [''x''])]"]
  by simp

lemma dump_returns_witness:
  "\<exists>own. dump 5 [''Kernel:''] [''Persist:''] demo_vib = Some (own @ [''Kernel:'', '''', ''Persist:''])"
proof -
  have "vib_reachable demo_vib" using demo_vib_init by (rule vib_reachable.init)
  then show ?thesis using dump_returns [of demo_vib 5 "[''Kernel:'']" "[''Persist:'']"] by auto
qed

end
