(* ===== verification/Rail_Data.thy ===== *)
theory Rail_Data
  imports Sysfs Numbers
begin

text \<open>
  The power rails of the on-device power monitor (powerstats/RailDataProvider.cpp):
  the devices, the rails they measure, the readings and the stream of readings.

  \<open>odpm\<close> is \<open>OnDeviceMmt\<close>. The map \<open>railsInfo\<close> is an association list without
  duplicate names; \<open>fmqSynchronized\<close> is everything the message queue has taken,
  \<open>pollThread\<close> the variables of the polling thread (\<open>sps\<close>, \<open>numSamples\<close>,
  \<open>currSamples\<close>, and whether it has left its loop). Every operation and every
  turn of the thread holds the lock, so each is one step. Unsigned longs have 64
  bits. Accesses outside a vector have no result.
\<close>

datatype status = SUCCESS | NOT_SUPPORTED | INVALID_INPUT | FILESYSTEM_ERROR
  | INSUFFICIENT_RESOURCES

record rail_data =
  devicePath :: string
  index :: u32
  subsysName :: string
  samplingRate :: u32

record energy_data =
  e_index :: u32
  e_timestamp :: u64
  e_energy :: u64

record rail_info =
  i_index :: u32
  i_railName :: string
  i_subsysName :: string
  i_samplingRate :: u32

record odpm =
  hwEnabled :: bool
  devicePaths :: "string list"
  railsInfo :: "(string \<times> rail_data) list"
  reading :: "energy_data list"
  fmqSynchronized :: "energy_data list option"
  pollThread :: "(u32 \<times> u32 \<times> u32 \<times> bool) option"

definition kIioDirRoot :: string where "kIioDirRoot = ''/sys/bus/iio/devices/''"
definition kDeviceName :: string where "kDeviceName = ''microchip,pac1934''"
definition kDeviceType :: string where "kDeviceType = ''iio:device''"
definition MAX_SAMPLING_RATE :: u32 where "MAX_SAMPLING_RATE = 10"
definition MAX_QUEUE_SIZE :: nat where "MAX_QUEUE_SIZE = 8192"
definition MAX_FILE_PATH_LEN :: nat where "MAX_FILE_PATH_LEN = 128"
definition MAX_DEVICE_NAME_LEN :: nat where "MAX_DEVICE_NAME_LEN = 64"

section \<open>Finding the monitors\<close>

text \<open>
  \<open>devName\<close> is the buffer of 64 characters: a shorter name file replaces only
  its beginning, and the comparison does not look at how much was read.
\<close>

fun findNodes :: "sysfs \<Rightarrow> string list \<Rightarrow> string \<Rightarrow> string list" where
  "findNodes fs [] devName = []"
| "findNodes fs (d_name # ds) devName =
     (if d_name \<noteq> ''.'' \<and> d_name \<noteq> ''..'' \<and> length d_name > length kDeviceType
         \<and> take (length kDeviceType) d_name = kDeviceType then
        (let filePath = take (MAX_FILE_PATH_LEN - 1) (d_name @ ''/'' @ ''name'') in
         case fs_content fs (kIioDirRoot @ filePath) of
           None \<Rightarrow> findNodes fs ds devName
         | Some name \<Rightarrow>
             let got = take MAX_DEVICE_NAME_LEN name;
                 devName = got @ drop (length got) devName;
                 path = take (MAX_FILE_PATH_LEN - 1) (kIioDirRoot @ ''/'' @ d_name) in
             (if take (length kDeviceName) devName = kDeviceName
              then path # findNodes fs ds devName else findNodes fs ds devName))
      else findNodes fs ds devName)"

definition findIioPowerMonitorNodes :: "sysfs \<Rightarrow> string \<Rightarrow> string list" where
  "findIioPowerMonitorNodes fs devName =
     (case fs_dir fs kIioDirRoot of None \<Rightarrow> [] | Some es \<Rightarrow> findNodes fs (map fst es) devName)"

section \<open>The rails\<close>

definition emplace :: "string \<Rightarrow> rail_data \<Rightarrow> (string \<times> rail_data) list \<Rightarrow> (string \<times> rail_data) list" where
  "emplace k v m = (if k \<in> fst ` set m then m else m @ [(k, v)])"

definition rail_line ::
  "string \<Rightarrow> u32 \<Rightarrow> string \<Rightarrow> (string \<times> rail_data) list \<times> u32 \<Rightarrow> (string \<times> rail_data) list \<times> u32" where
  "rail_line path rate line st =
     (case Split line (CHR '':'') of
        [name, subsys] \<Rightarrow>
          (emplace name \<lparr>devicePath = path, index = snd st, subsysName = subsys, samplingRate = rate\<rparr>
             (fst st), snd st + 1)
      | _ \<Rightarrow> st)"

fun parsePowerRails ::
  "sysfs \<Rightarrow> string list \<Rightarrow> (string \<times> rail_data) list \<times> u32 \<Rightarrow> (string \<times> rail_data) list \<times> u32" where
  "parsePowerRails fs [] st = st"
| "parsePowerRails fs (path # paths) st =
     (case ReadFileToString fs (path @ ''/sampling_rate'') of
        None \<Rightarrow> parsePowerRails fs paths st
      | Some data \<Rightarrow>
          let rate = ucast (strtoull data) :: u32 in
          if rate = 0 \<or> ucast rate = (- 1 :: u64) then st
          else (case ReadFileToString fs (path @ ''/enabled_rails'') of
              None \<Rightarrow> parsePowerRails fs paths st
            | Some data \<Rightarrow>
                parsePowerRails fs paths (fold (rail_line path rate) (getlines (CHR 0x0A) data) st)))"

text \<open>The constructor: \<open>devName\<close> is what the stack held in the place of the buffer.\<close>

definition RailDataProvider_init :: "sysfs \<Rightarrow> string \<Rightarrow> odpm" where
  "RailDataProvider_init fs devName =
     (let paths = findIioPowerMonitorNodes fs devName;
          (rails, numRails) = parsePowerRails fs paths ([], 0);
          enabled = (\<not> (paths = [] \<or> numRails = 0))
      in \<lparr>hwEnabled = enabled, devicePaths = paths, railsInfo = rails,
           reading = (if enabled
             then replicate (unat numRails) \<lparr>e_index = 0, e_timestamp = 0, e_energy = 0\<rparr> else []),
           fmqSynchronized = None, pollThread = None\<rparr>)"

section \<open>The readings\<close>

text \<open>The time comes first, on a line of one word; then every line is a rail's.\<close>

fun energy_lines :: "string list \<Rightarrow> u64 \<Rightarrow> bool \<Rightarrow> odpm \<Rightarrow> (int \<times> odpm) option" where
  "energy_lines [] timestamp timestampRead o1 = Some (0, o1)"
| "energy_lines (line # ls) timestamp timestampRead o1 =
     (let words = Split line (CHR '','') in
      if \<not> timestampRead then
        (if length words = 1 then energy_lines ls (strtoull (hd words)) True o1
         else energy_lines ls timestamp False o1)
      else if length words = 2 then
        (case map_of (railsInfo o1) (words ! 0) of
           None \<Rightarrow> energy_lines ls timestamp True o1
         | Some rail \<Rightarrow>
             if unat (index rail) < length (reading o1) then
               energy_lines ls timestamp True (o1\<lparr>reading := (reading o1)[unat (index rail) :=
                 \<lparr>e_index = index rail, e_timestamp = timestamp, e_energy = strtoull (words ! 1)\<rparr>]\<rparr>)
             else None)
      else Some (- 1, o1))"

definition parseIioEnergyNode :: "sysfs \<Rightarrow> string \<Rightarrow> odpm \<Rightarrow> (int \<times> odpm) option" where
  "parseIioEnergyNode fs devName o1 =
     (case ReadFileToString fs (devName @ ''/energy_value'') of
        None \<Rightarrow> Some (- 1, o1)
      | Some data \<Rightarrow> energy_lines (getlines (CHR 0x0A) data) 0 False o1)"

fun energy_nodes :: "sysfs \<Rightarrow> string list \<Rightarrow> odpm \<Rightarrow> (status \<times> odpm) option" where
  "energy_nodes fs [] o1 = Some (SUCCESS, o1)"
| "energy_nodes fs (path # paths) o1 = do {
     (r, o1) \<leftarrow> parseIioEnergyNode fs path o1;
     if r < 0 then Some (FILESYSTEM_ERROR, o1) else energy_nodes fs paths o1
   }"

definition parseIioEnergyNodes :: "sysfs \<Rightarrow> odpm \<Rightarrow> (status \<times> odpm) option" where
  "parseIioEnergyNodes fs o1 =
     (if \<not> hwEnabled o1 then Some (NOT_SUPPORTED, o1) else energy_nodes fs (devicePaths o1) o1)"

section \<open>The operations of the client\<close>

definition no_info :: rail_info where
  "no_info = \<lparr>i_index = 0, i_railName = '''', i_subsysName = '''', i_samplingRate = 0\<rparr>"

definition no_energy :: energy_data where
  "no_energy = \<lparr>e_index = 0, e_timestamp = 0, e_energy = 0\<rparr>"

fun fill_info :: "(string \<times> rail_data) list \<Rightarrow> rail_info list \<Rightarrow> rail_info list option" where
  "fill_info [] rInfo = Some rInfo"
| "fill_info ((name, rail) # rails) rInfo =
     (if unat (index rail) < length rInfo then
        fill_info rails (rInfo[unat (index rail) :=
          \<lparr>i_index = index rail, i_railName = name, i_subsysName = subsysName rail,
           i_samplingRate = samplingRate rail\<rparr>])
      else None)"

definition getRailInfo :: "odpm \<Rightarrow> (rail_info list \<times> status) option" where
  "getRailInfo o1 =
     (if \<not> hwEnabled o1 then Some ([], NOT_SUPPORTED)
      else map_option (\<lambda>v. (v, SUCCESS))
        (fill_info (railsInfo o1) (replicate (length (railsInfo o1)) no_info)))"

fun pick :: "u32 list \<Rightarrow> energy_data list \<Rightarrow> energy_data list option" where
  "pick [] rs = Some []"
| "pick (i # is) rs =
     (if length rs \<le> unat i then None else map_option ((#) (rs ! unat i)) (pick is rs))"

definition getEnergyData ::
  "sysfs \<Rightarrow> u32 list \<Rightarrow> odpm \<Rightarrow> ((energy_data list \<times> status) \<times> odpm) option" where
  "getEnergyData fs railIndices o1 = do {
     (ret, o1) \<leftarrow> parseIioEnergyNodes fs o1;
     if ret \<noteq> SUCCESS then Some (([], ret), o1)
     else if railIndices = [] then
       (if length (reading o1) \<le> length (railsInfo o1) then
          Some ((reading o1 @ replicate (length (railsInfo o1) - length (reading o1)) no_energy,
            SUCCESS), o1)
        else None)
     else (case pick railIndices (reading o1) of
         None \<Rightarrow> Some (([], INVALID_INPUT), o1)
       | Some eVal \<Rightarrow> Some ((eVal, SUCCESS), o1))
   }"

text \<open>\<open>queue_valid\<close>: whether the queue could be made. The result is what the client is told.\<close>

definition streamEnergyData ::
  "u32 \<Rightarrow> u32 \<Rightarrow> bool \<Rightarrow> odpm \<Rightarrow> (u32 \<times> nat \<times> status) \<times> odpm" where
  "streamEnergyData timeMs rate queue_valid o1 =
     (if fmqSynchronized o1 \<noteq> None then ((0, 0, INSUFFICIENT_RESOURCES), o1)
      else
        let sps = min rate MAX_SAMPLING_RATE;
            numSamples = timeMs * sps div 1000 in
        if \<not> queue_valid then ((0, 0, INSUFFICIENT_RESOURCES), o1)
        else ((numSamples, length (reading o1), SUCCESS),
          o1\<lparr>fmqSynchronized := Some [], pollThread := Some (sps, numSamples, 0, False)\<rparr>))"

text \<open>
  One turn of the polling thread, from one release of the lock to the next: it
  computes the sleep time first (a division by the samples per second), and
  clears the queue when it has left the loop. \<open>room\<close> is whether the queue gets room
  for the readings before the timeout of the write (the client reads from it
  meanwhile); more readings than the queue is long never fit. The thread does
  not look at the result of the write: the sample counts either way.
\<close>

definition writeBlocking :: "bool \<Rightarrow> energy_data list \<Rightarrow> energy_data list \<Rightarrow> energy_data list" where
  "writeBlocking room rs q = (if room \<and> length rs \<le> MAX_QUEUE_SIZE then q @ rs else q)"

definition poll_turn :: "sysfs \<Rightarrow> bool \<Rightarrow> bool \<Rightarrow> odpm \<Rightarrow> odpm option" where
  "poll_turn fs room slept o1 =
     (case pollThread o1 of
        None \<Rightarrow> Some o1
      | Some (sps, numSamples, currSamples, left_loop) \<Rightarrow>
          if sps = 0 then None
          else if left_loop \<or> \<not> currSamples < numSamples
            then Some (o1\<lparr>fmqSynchronized := None, pollThread := None\<rparr>)
          else do {
            (ret, o1) \<leftarrow> parseIioEnergyNodes fs o1;
            if ret = SUCCESS then do {
              q \<leftarrow> fmqSynchronized o1;
              Some (o1\<lparr>fmqSynchronized := Some (writeBlocking room (reading o1) q),
                pollThread := Some (sps, numSamples, currSamples + 1, \<not> slept)\<rparr>)
            }
            else Some (o1\<lparr>pollThread := Some (sps, numSamples, currSamples, True)\<rparr>)
          })"

end
