(* ===== verification/Rail_Laws.thy ===== *)
theory Rail_Laws
  imports Rail_Data
begin

text \<open>
  What the rail data provider promises: the map of rails against the list of the
  names in the files, with their duplicates (\<open>rail_names\<close>); the invariant of the
  reachable states; when the calls have a defined result; the readings; the
  polling thread.
\<close>

section \<open>The rails and their names\<close>

fun rail_names :: "sysfs \<Rightarrow> string list \<Rightarrow> string list" where
  "rail_names fs [] = []"
| "rail_names fs (path # paths) =
     (case ReadFileToString fs (path @ ''/sampling_rate'') of
        None \<Rightarrow> rail_names fs paths
      | Some data \<Rightarrow>
          if (ucast (strtoull data) :: u32) = 0 then []
          else (case ReadFileToString fs (path @ ''/enabled_rails'') of
              None \<Rightarrow> rail_names fs paths
            | Some data \<Rightarrow>
                map hd (filter (\<lambda>ws. length ws = 2)
                  (map (\<lambda>l. Split l (CHR '':'')) (getlines (CHR 0x0A) data)))
                @ rail_names fs paths))"

text \<open>\<open>railsInfo\<close> and the counter after the names \<open>ns\<close> have been seen.\<close>

definition rails_of :: "(string \<times> rail_data) list \<times> u32 \<Rightarrow> string list \<Rightarrow> bool" where
  "rails_of st ns \<longleftrightarrow> snd st = of_nat (length ns) \<and> map fst (fst st) = rev (remdups (rev ns))
     \<and> (\<forall>(name, rail) \<in> set (fst st). \<exists>i<length ns. ns ! i = name \<and> index rail = of_nat i)"

lemma rails_of_emplace:
  assumes "rails_of (m, n) ns"
  shows "rails_of (emplace name \<lparr>devicePath = p, index = n, subsysName = s, samplingRate = r\<rparr> m, n + 1)
    (ns @ [name])"
proof -
  have keys: "map fst m = rev (remdups (rev ns))" "n = of_nat (length ns)"
    using assms by (simp_all add: rails_of_def)
  then have "fst ` set m = set ns"
    by (metis list.set_map set_remdups set_rev)
  moreover have "\<exists>i<length (ns @ [name]). (ns @ [name]) ! i = k \<and> index rail = of_nat i"
    if "(k, rail) \<in> set m" for k rail
    using assms that by (force simp: rails_of_def nth_append)
  moreover have "\<exists>i<length (ns @ [name]). (ns @ [name]) ! i = name \<and> n = of_nat i"
    using keys(2) by (intro exI [of _ "length ns"]) simp
  ultimately show ?thesis
    using keys by (auto simp: rails_of_def emplace_def)
qed

lemma rails_of_lines:
  assumes "rails_of st ns"
  shows "rails_of (fold (rail_line p r) ls st) (ns @ map hd (filter (\<lambda>ws. length ws = 2)
    (map (\<lambda>l. Split l (CHR '':'')) ls)))"
  using assms
proof (induction ls arbitrary: st ns)
  case (Cons l ls)
  show ?case
  proof (cases "length (Split l (CHR '':'')) = 2")
    case True
    then obtain a b where w: "Split l (CHR '':'') = [a, b]"
      by (metis One_nat_def Suc_1 length_0_conv length_Suc_conv)
    have "rails_of (rail_line p r l st) (ns @ [a])"
      using rails_of_emplace [of "fst st" "snd st" ns] Cons.prems by (simp add: rail_line_def w)
    from Cons.IH [OF this] show ?thesis by (simp add: w)
  next
    case False
    then have "rail_line p r l st = st"
      by (auto simp: rail_line_def split: list.split)
    then show ?thesis using Cons False by simp
  qed
qed simp

lemma no_max_rate: "ucast (r :: u32) \<noteq> (- 1 :: u64)"
proof
  assume "ucast r = (- 1 :: u64)"
  then have "unat (ucast r :: u64) = unat (- 1 :: u64)" by simp
  have "unat r < 2 ^ 32" using unsigned_less [of r, where ?'a = nat] by simp
  then have "unat (ucast r :: u64) < 2 ^ 32"
    by (simp add: unsigned_ucast_eq take_bit_eq_mod)
  moreover note \<open>unat (ucast r :: u64) = unat (- 1 :: u64)\<close>
  ultimately show False by (simp add: unsigned_minus_1_eq_mask mask_eq_exp_minus_1)
qed

lemma parse_rails_of:
  "rails_of st ns \<Longrightarrow> rails_of (parsePowerRails fs paths st) (ns @ rail_names fs paths)"
proof (induction fs paths st arbitrary: ns rule: parsePowerRails.induct)
  case (2 fs path paths st)
  show ?case
  proof (cases "ReadFileToString fs (path @ ''/sampling_rate'')")
    case None
    then show ?thesis using 2 by simp
  next
    case (Some data)
    show ?thesis
    proof (cases "(ucast (strtoull data) :: u32) = 0")
      case True
      then show ?thesis using 2 Some by simp
    next
      case False
      show ?thesis
      proof (cases "ReadFileToString fs (path @ ''/enabled_rails'')")
        case None
        then show ?thesis using 2 Some False by (simp add: no_max_rate)
      next
        case (Some d2)
        from 2(3) [OF \<open>ReadFileToString fs (path @ ''/sampling_rate'') = Some data\<close> refl _ Some
            rails_of_lines [OF 2(4)]]
        show ?thesis
          using Some False \<open>ReadFileToString fs (path @ ''/sampling_rate'') = Some data\<close>
          by (simp add: no_max_rate)
      qed
    qed
  qed
qed simp

lemma rails_of_keys:
  assumes "rails_of (m, n) ns"
  shows "distinct (map fst m)" "set (map fst m) = set ns" "length m \<le> length ns"
    "length m = length ns \<longleftrightarrow> distinct ns" "distinct ns \<Longrightarrow> map fst m = ns"
proof -
  have k: "map fst m = rev (remdups (rev ns))" using assms by (simp add: rails_of_def)
  show "distinct (map fst m)" "set (map fst m) = set ns" "distinct ns \<Longrightarrow> map fst m = ns"
    by (simp_all add: k distinct_remdups_id)
  have l: "length m = length (remdups (rev ns))" by (metis k length_map length_rev)
  show "length m \<le> length ns" using length_remdups_leq [of "rev ns"] by (simp add: l)
  have "length (remdups (rev ns)) = length (rev ns) \<longleftrightarrow> remdups (rev ns) = rev ns"
    using length_remdups_eq by blast
  then show "length m = length ns \<longleftrightarrow> distinct ns" by (simp add: l remdups_id_iff_distinct)
qed

lemma rails_of_index:
  assumes "rails_of (m, n) ns" "length ns < 2 ^ 32" "(name, rail) \<in> set m"
  shows "unat (index rail) < length ns" "ns ! unat (index rail) = name"
proof -
  obtain i where "i < length ns" "ns ! i = name" "index rail = of_nat i"
    using assms(1,3) by (auto simp: rails_of_def)
  moreover from this have "unat (index rail) = i"
    using assms(2) by (simp add: unat_of_nat take_bit_eq_mod)
  ultimately show "unat (index rail) < length ns" "ns ! unat (index rail) = name" by simp_all
qed

section \<open>Reading the energy\<close>

lemma energy_lines_total:
  assumes "\<forall>rail \<in> snd ` set (railsInfo s). unat (index rail) < length (reading s)"
  shows "\<exists>r rs. energy_lines ls t b s = Some (r, s\<lparr>reading := rs\<rparr>) \<and> length rs = length (reading s)"
  using assms
proof (induction ls t b s rule: energy_lines.induct)
  case (1 t b s)
  then show ?case by (intro exI [of _ 0] exI [of _ "reading s"]) simp
next
  case (2 l ls t b s)
  show ?case
  proof (cases b)
    case False
    then show ?thesis using 2(1,2,5) by (cases "length (Split l (CHR '','')) = 1") simp_all
  next
    case True
    show ?thesis
    proof (cases "length (Split l (CHR '','')) = 2")
      case two: True
      show ?thesis
      proof (cases "map_of (railsInfo s) (Split l (CHR '','') ! 0)")
        case None
        then show ?thesis using 2(3,5) True two by simp
      next
        case (Some rail)
        then have i: "unat (index rail) < length (reading s)"
          using 2(5) by (force dest: map_of_SomeD)
        let ?s = "s\<lparr>reading := (reading s)[unat (index rail) := \<lparr>e_index = index rail,
          e_timestamp = t, e_energy = strtoull (Split l (CHR '','') ! 1)\<rparr>]\<rparr>"
        have "\<exists>r rs. energy_lines ls t True ?s = Some (r, ?s\<lparr>reading := rs\<rparr>)
            \<and> length rs = length (reading ?s)"
          using 2(4) [OF refl _ two Some i] True 2(5) by simp
        then show ?thesis using True two Some i by simp
      qed
    next
      case False
      then show ?thesis using True by (intro exI [of _ "- 1"] exI [of _ "reading s"]) simp
    qed
  qed
qed

lemma energy_nodes_total:
  assumes "\<forall>rail \<in> snd ` set (railsInfo s). unat (index rail) < length (reading s)"
  shows "\<exists>r rs. energy_nodes fs ps s = Some (r, s\<lparr>reading := rs\<rparr>) \<and> length rs = length (reading s)
    \<and> r \<in> {SUCCESS, FILESYSTEM_ERROR}"
  using assms
proof (induction ps arbitrary: s)
  case Nil
  then show ?case by (auto intro!: exI [of _ "reading s"])
next
  case (Cons p ps)
  have "\<exists>r rs. parseIioEnergyNode fs p s = Some (r, s\<lparr>reading := rs\<rparr>) \<and> length rs = length (reading s)"
    using energy_lines_total [OF Cons.prems]
    by (auto simp: parseIioEnergyNode_def split: option.split intro!: exI [of _ "reading s"])
  then obtain r rs where 1: "parseIioEnergyNode fs p s = Some (r, s\<lparr>reading := rs\<rparr>)"
    "length rs = length (reading s)"
    by blast
  show ?case
  proof (cases "r < 0")
    case True
    then show ?thesis using 1 by (auto intro!: exI [of _ rs])
  next
    case False
    have "\<exists>r' rs'. energy_nodes fs ps (s\<lparr>reading := rs\<rparr>) = Some (r', s\<lparr>reading := rs\<rparr>\<lparr>reading := rs'\<rparr>)
        \<and> length rs' = length rs \<and> r' \<in> {SUCCESS, FILESYSTEM_ERROR}"
      using Cons.IH [of "s\<lparr>reading := rs\<rparr>"] Cons.prems 1(2) by simp
    then show ?thesis using 1 False by auto
  qed
qed

lemma parse_nodes_total:
  assumes "hwEnabled s \<Longrightarrow> \<forall>rail \<in> snd ` set (railsInfo s). unat (index rail) < length (reading s)"
  shows "\<exists>r rs. parseIioEnergyNodes fs s = Some (r, s\<lparr>reading := rs\<rparr>) \<and> length rs = length (reading s)
    \<and> (r = SUCCESS \<longrightarrow> hwEnabled s) \<and> r \<noteq> INVALID_INPUT"
proof (cases "hwEnabled s")
  case True
  then show ?thesis
    using energy_nodes_total [OF assms [OF True], of fs "devicePaths s"]
    by (auto simp: parseIioEnergyNodes_def)
next
  case False
  then show ?thesis by (auto simp: parseIioEnergyNodes_def intro!: exI [of _ "reading s"])
qed

section \<open>The states of the provider\<close>

text \<open>
  The states after the constructor found the rails \<open>ns\<close>, under the client's
  calls and the turns of the polling thread in any order; the files may change
  between them. (Fewer than \<open>2 ^ 32\<close> lines: the counter of rails does not wrap.)
\<close>

inductive rail_reachable :: "string list \<Rightarrow> odpm \<Rightarrow> bool" where
  init: "ns = rail_names fs (findIioPowerMonitorNodes fs devName) \<Longrightarrow> length ns < 2 ^ 32 \<Longrightarrow>
    rail_reachable ns (RailDataProvider_init fs devName)"
| energy: "rail_reachable ns s \<Longrightarrow> getEnergyData fs is s = Some (answer, s') \<Longrightarrow> rail_reachable ns s'"
| stream: "rail_reachable ns s \<Longrightarrow> streamEnergyData ms rate valid s = (answer, s') \<Longrightarrow>
    rail_reachable ns s'"
| turn: "rail_reachable ns s \<Longrightarrow> poll_turn fs room slept s = Some s' \<Longrightarrow> rail_reachable ns s'"

definition stream_inv :: "odpm \<Rightarrow> bool" where
  "stream_inv s \<longleftrightarrow> (case pollThread s of
       None \<Rightarrow> fmqSynchronized s = None
     | Some (sps, numSamples, currSamples, left_loop) \<Rightarrow>
         sps \<le> MAX_SAMPLING_RATE \<and> currSamples \<le> numSamples
         \<and> (\<exists>q. fmqSynchronized s = Some q \<and> length q \<le> unat currSamples * length (reading s)))"

definition rail_inv :: "string list \<Rightarrow> odpm \<Rightarrow> bool" where
  "rail_inv ns s \<longleftrightarrow> rails_of (railsInfo s, of_nat (length ns)) ns \<and> length ns < 2 ^ 32
     \<and> length (reading s) = (if hwEnabled s then length ns else 0) \<and> stream_inv s"

lemma rail_inv_bound:
  "rail_inv ns s \<Longrightarrow> hwEnabled s \<Longrightarrow> \<forall>rail \<in> snd ` set (railsInfo s). unat (index rail) < length (reading s)"
  by (auto simp: rail_inv_def dest: rails_of_index(1))

lemma rail_inv_reading:
  "rail_inv ns s \<Longrightarrow> length rs = length (reading s) \<Longrightarrow> rail_inv ns (s\<lparr>reading := rs\<rparr>)"
  by (auto simp: rail_inv_def stream_inv_def split: option.splits)

lemma getEnergyData_step:
  assumes "rail_inv ns s" "getEnergyData fs is s = Some (answer, s')"
  shows "rail_inv ns s'"
proof -
  obtain r rs where 1: "parseIioEnergyNodes fs s = Some (r, s\<lparr>reading := rs\<rparr>)"
    "length rs = length (reading s)"
    using parse_nodes_total [OF rail_inv_bound [OF assms(1)]] by blast
  then have "s' = s\<lparr>reading := rs\<rparr>"
    using assms(2) by (auto simp: getEnergyData_def split: if_splits option.splits)
  then show ?thesis using rail_inv_reading [OF assms(1) 1(2)] by simp
qed

lemma poll_turn_step:
  assumes "rail_inv ns s" "poll_turn fs room slept s = Some s'"
  shows "rail_inv ns s'"
proof (cases "pollThread s")
  case None
  then show ?thesis using assms by (simp add: poll_turn_def)
next
  case (Some t)
  obtain sps num cur l where t: "pollThread s = Some (sps, num, cur, l)" using Some by (cases t) auto
  show ?thesis
  proof (cases "l \<or> \<not> cur < num")
    case True
    then show ?thesis
      using assms t by (auto simp: poll_turn_def rail_inv_def stream_inv_def split: if_splits)
  next
    case False
    obtain r rs where 1: "parseIioEnergyNodes fs s = Some (r, s\<lparr>reading := rs\<rparr>)"
      "length rs = length (reading s)"
      using parse_nodes_total [OF rail_inv_bound [OF assms(1)]] by blast
    obtain q where q: "fmqSynchronized s = Some q" "length q \<le> unat cur * length (reading s)"
      using assms(1) t by (auto simp: rail_inv_def stream_inv_def)
    have cur: "cur < num" using False by simp
    then have "unat cur < unat num" by (simp add: word_less_nat_alt)
    moreover have "unat num < 2 ^ 32" using unsigned_less [of num, where ?'a = nat] by simp
    ultimately have "unat cur + 1 < 2 ^ 32" by linarith
    then have "unat (cur + 1) = unat cur + 1" by (simp add: unat_word_ariths(1))
    moreover have "cur + 1 \<le> num" using cur by (simp add: inc_le)
    ultimately show ?thesis
      using assms 1 q t False
      by (auto simp: poll_turn_def rail_inv_def stream_inv_def writeBlocking_def split: if_splits)
  qed
qed

lemma RailDataProvider_init_inv:
  assumes "ns = rail_names fs (findIioPowerMonitorNodes fs devName)" "length ns < 2 ^ 32"
  shows "rail_inv ns (RailDataProvider_init fs devName)"
proof -
  let ?ps = "findIioPowerMonitorNodes fs devName"
  obtain m n where p: "parsePowerRails fs ?ps ([], 0) = (m, n)" by (metis surj_pair)
  have "rails_of ([], 0) []" by (simp add: rails_of_def)
  from parse_rails_of [OF this, of fs ?ps] have r: "rails_of (m, n) ns" by (simp add: p assms(1))
  then have n: "n = of_nat (length ns)" by (simp add: rails_of_def)
  then have "unat n = length ns" using assms(2) by (simp add: unat_of_nat take_bit_eq_mod)
  then show ?thesis
    using r n assms(2)
    by (auto simp: RailDataProvider_init_def Let_def p rail_inv_def stream_inv_def)
qed

lemma rail_reachable_inv: "rail_reachable ns s \<Longrightarrow> rail_inv ns s"
proof (induction rule: rail_reachable.induct)
  case (init ns fs devName)
  then show ?case by (rule RailDataProvider_init_inv)
next
  case (energy ns s fs "is" answer s')
  then show ?case using getEnergyData_step by blast
next
  case (stream ns s ms rate valid answer s')
  then show ?case
    by (auto simp: streamEnergyData_def rail_inv_def stream_inv_def Let_def split: if_splits)
next
  case (turn ns s fs room slept s')
  then show ?case using poll_turn_step by blast
qed

section \<open>What the client gets\<close>

definition info_of :: "string \<times> rail_data \<Rightarrow> rail_info" where
  "info_of e = \<lparr>i_index = index (snd e), i_railName = fst e, i_subsysName = subsysName (snd e),
     i_samplingRate = samplingRate (snd e)\<rparr>"

lemma fill_info_in_order:
  "\<forall>j<length m. unat (index (snd (m ! j))) = length pre + j \<Longrightarrow>
    fill_info m (pre @ replicate (length m) no_info) = Some (pre @ map info_of m)"
proof (induction m arbitrary: pre)
  case (Cons e m)
  obtain name rail where e: "e = (name, rail)" by (cases e)
  have i: "unat (index rail) = length pre" using Cons.prems e by force
  have "\<forall>j<length m. unat (index (snd (m ! j))) = length (pre @ [info_of e]) + j"
    using Cons.prems by force
  from Cons.IH [OF this] show ?case
    by (simp add: e i list_update_append info_of_def)
qed simp

text \<open>
  C32: when no two rails of the files have the same name, the client is told of
  every rail under its name, in the order of the files, with the index of its
  place.
\<close>

theorem rail_info_correct:
  assumes "rail_reachable ns s" "hwEnabled s" "distinct ns"
  shows "\<exists>v. getRailInfo s = Some (v, SUCCESS) \<and> map i_railName v = ns
    \<and> map i_index v = map of_nat [0..<length ns]"
proof -
  have inv: "rails_of (railsInfo s, of_nat (length ns)) ns" "length ns < 2 ^ 32"
    using rail_reachable_inv [OF assms(1)] by (simp_all add: rail_inv_def)
  let ?m = "railsInfo s"
  have k: "map fst ?m = ns" "length ?m = length ns"
    using rails_of_keys [OF inv(1)] assms(3) by simp_all
  have idx: "unat (index (snd (?m ! j))) = j" if "j < length ?m" for j
  proof -
    have "(fst (?m ! j), snd (?m ! j)) \<in> set ?m" using that by simp
    from rails_of_index [OF inv this]
    have "unat (index (snd (?m ! j))) < length ns" "ns ! unat (index (snd (?m ! j))) = ns ! j"
      using k(1) that by auto
    then show ?thesis using assms(3) that k(2) by (simp add: nth_eq_iff_index_eq)
  qed
  then have f: "fill_info ?m (replicate (length ?m) no_info) = Some (map info_of ?m)"
    using fill_info_in_order [of ?m "[]"] by simp
  have "index (snd (?m ! j)) = of_nat j" if "j < length ?m" for j
    using idx [OF that] by (metis of_nat_unat ucast_id)
  then have "map i_index (map info_of ?m) = map of_nat [0..<length ns]"
    using k(2) by (intro nth_equalityI) (simp_all add: info_of_def)
  moreover have "map i_railName (map info_of ?m) = ns"
    using k(1) by (simp add: info_of_def comp_def)
  ultimately show ?thesis using f assms(2) by (auto simp: getRailInfo_def)
qed

lemma pick_None: "pick is rs = None \<longleftrightarrow> (\<exists>i \<in> set is. length rs \<le> unat i)"
  by (induction "is") auto

lemma pick_Some: "pick is rs = Some es \<Longrightarrow> es = map (\<lambda>i. rs ! unat i) is"
  by (induction "is" arbitrary: es) (auto split: if_splits)

text \<open>
  C30: in every state the service can reach, reading the files returns, and a
  request for given rails is answered: with the error of the reading, as invalid
  exactly if one of the indices is not that of a rail, else with the readings at
  these indices. A request for all rails is answered with all readings exactly if
  no two rails of the files have the same name: with duplicates more readings
  are copied than the answer has room for, and there is no defined result.
\<close>

theorem energy_request_defined:
  assumes "rail_reachable ns s"
  shows "\<exists>r s1. parseIioEnergyNodes fs s = Some (r, s1)
    \<and> (if is = [] then getEnergyData fs is s = (if r \<noteq> SUCCESS then Some (([], r), s1)
          else if distinct ns then Some ((reading s1, SUCCESS), s1) else None)
       else getEnergyData fs is s = Some (if r \<noteq> SUCCESS then ([], r)
          else if \<exists>i \<in> set is. length ns \<le> unat i then ([], INVALID_INPUT)
          else (map (\<lambda>i. reading s1 ! unat i) is, SUCCESS), s1))"
proof -
  have inv: "rail_inv ns s" using assms by (rule rail_reachable_inv)
  obtain r rs where 1: "parseIioEnergyNodes fs s = Some (r, s\<lparr>reading := rs\<rparr>)"
    "length rs = length (reading s)" "r = SUCCESS \<longrightarrow> hwEnabled s"
    using parse_nodes_total [OF rail_inv_bound [OF inv], of fs] by auto
  have len: "length rs = length ns" if "r = SUCCESS"
    using inv 1(2,3) that by (simp add: rail_inv_def)
  have keys: "length (railsInfo s) \<le> length ns" "length (railsInfo s) = length ns \<longleftrightarrow> distinct ns"
    using inv rails_of_keys(3,4) by (auto simp: rail_inv_def)
  have "getEnergyData fs [] s = (if r \<noteq> SUCCESS then Some (([], r), s\<lparr>reading := rs\<rparr>)
      else if distinct ns then Some ((rs, SUCCESS), s\<lparr>reading := rs\<rparr>) else None)"
    using 1 len keys by (auto simp: getEnergyData_def)
  moreover have "getEnergyData fs is s = Some (if r \<noteq> SUCCESS then ([], r)
      else if \<exists>i \<in> set is. length ns \<le> unat i then ([], INVALID_INPUT)
      else (map (\<lambda>i. rs ! unat i) is, SUCCESS), s\<lparr>reading := rs\<rparr>)" if "is \<noteq> []"
    using 1 len that pick_None [of "is" rs] pick_Some [of "is" rs]
    by (cases "pick is rs") (auto simp: getEnergyData_def)
  ultimately show ?thesis using 1(1) by (intro exI [of _ r] exI [of _ "s\<lparr>reading := rs\<rparr>"]) simp
qed

section \<open>The stream\<close>

text \<open>Turns of the thread, each with the files, whether the queue gets room and whether the sleep is whole.\<close>

fun run_turns :: "(sysfs \<times> bool \<times> bool) list \<Rightarrow> odpm \<Rightarrow> odpm option" where
  "run_turns [] s = Some s"
| "run_turns ((fs, room, slept) # ts) s = do { s \<leftarrow> poll_turn fs room slept s; run_turns ts s }"

definition turns_left :: "odpm \<Rightarrow> nat" where
  "turns_left s = (case pollThread s of
       None \<Rightarrow> 0
     | Some (sps, num, cur, l) \<Rightarrow> (if l then 1 else unat num - unat cur + 1))"

lemma poll_turn_progress:
  assumes "rail_inv ns s" "\<forall>sps num cur l. pollThread s = Some (sps, num, cur, l) \<longrightarrow> sps \<noteq> 0"
  shows "\<exists>s'. poll_turn fs room slept s = Some s' \<and> turns_left s' \<le> turns_left s - 1
    \<and> (\<forall>sps num cur l. pollThread s' = Some (sps, num, cur, l) \<longrightarrow> sps \<noteq> 0)"
proof (cases "pollThread s")
  case None
  then show ?thesis by (simp add: poll_turn_def turns_left_def)
next
  case (Some t)
  obtain sps num cur l where t: "pollThread s = Some (sps, num, cur, l)" using Some by (cases t) auto
  then have sps: "sps \<noteq> 0" using assms(2) by blast
  show ?thesis
  proof (cases "l \<or> \<not> cur < num")
    case True
    then show ?thesis using t sps by (simp add: poll_turn_def turns_left_def)
  next
    case False
    obtain r rs where 1: "parseIioEnergyNodes fs s = Some (r, s\<lparr>reading := rs\<rparr>)"
      using parse_nodes_total [OF rail_inv_bound [OF assms(1)]] by blast
    obtain q where q: "fmqSynchronized s = Some q"
      using assms(1) t by (auto simp: rail_inv_def stream_inv_def)
    have "unat cur < unat num" using False by (simp add: word_less_nat_alt)
    moreover have "unat num < 2 ^ 32" using unsigned_less [of num, where ?'a = nat] by simp
    ultimately have "unat cur + 1 < 2 ^ 32" by linarith
    then have "unat (cur + 1) = unat cur + 1" by (simp add: unat_word_ariths(1))
    then show ?thesis
      using t sps False 1 q \<open>unat cur < unat num\<close>
      by (cases "r = SUCCESS"; cases slept) (auto simp: poll_turn_def turns_left_def)
  qed
qed

lemma run_turns_end:
  assumes "rail_inv ns s" "\<forall>sps num cur l. pollThread s = Some (sps, num, cur, l) \<longrightarrow> sps \<noteq> 0"
  shows "\<exists>s'. run_turns ts s = Some s' \<and> rail_inv ns s' \<and> turns_left s' \<le> turns_left s - length ts"
  using assms
proof (induction ts s rule: run_turns.induct)
  case (2 fs room slept ts s)
  obtain s1 where 1: "poll_turn fs room slept s = Some s1" "turns_left s1 \<le> turns_left s - 1"
    "\<forall>sps num cur l. pollThread s1 = Some (sps, num, cur, l) \<longrightarrow> sps \<noteq> 0"
    using poll_turn_progress [OF 2(2,3)] by blast
  obtain s2 where "run_turns ts s1 = Some s2" "rail_inv ns s2" "turns_left s2 \<le> turns_left s1 - length ts"
    using 2(1) [OF 1(1) poll_turn_step [OF 2(2) 1(1)] 1(3)] by blast
  then show ?case using 1 by auto
qed simp

text \<open>
  C29: while a stream runs another one is refused. A stream that is accepted, for
  a sampling rate that is not 0, is over after as many turns of its thread as it
  has samples and one more, whatever the files, the queue and the sleeps do, and then the
  next one is accepted. A rate of 0 is accepted too, and makes the thread divide
  by zero.
\<close>

theorem stream_ends:
  assumes "rail_reachable ns s" "streamEnergyData ms rate True s = ((n, rails, SUCCESS), s1)"
  shows "(\<forall>ms' rate' valid. snd (snd (fst (streamEnergyData ms' rate' valid s1))) = INSUFFICIENT_RESOURCES)
    \<and> (rate \<noteq> 0 \<longrightarrow> (\<forall>ts. unat n + 1 \<le> length ts \<longrightarrow>
         (\<exists>s'. run_turns ts s1 = Some s' \<and> fmqSynchronized s' = None \<and> pollThread s' = None
          \<and> (\<forall>ms' rate'. snd (snd (fst (streamEnergyData ms' rate' True s'))) = SUCCESS))))
    \<and> (rate = 0 \<longrightarrow> poll_turn fs room slept s1 = None)"
proof -
  have inv: "rail_inv ns s1"
    using rail_reachable.stream [OF assms] by (rule rail_reachable_inv)
  have s1: "fmqSynchronized s1 = Some []" "pollThread s1 = Some (min rate MAX_SAMPLING_RATE, n, 0, False)"
    using assms(2) by (auto simp: streamEnergyData_def Let_def split: if_splits)
  have "\<exists>s'. run_turns ts s1 = Some s' \<and> fmqSynchronized s' = None \<and> pollThread s' = None"
    if "rate \<noteq> 0" "unat n + 1 \<le> length ts" for ts
  proof -
    have "min rate MAX_SAMPLING_RATE \<noteq> 0" using that(1) by (simp add: min_def MAX_SAMPLING_RATE_def)
    then obtain s' where r: "run_turns ts s1 = Some s'" "rail_inv ns s'"
      "turns_left s' \<le> turns_left s1 - length ts"
      using run_turns_end [OF inv, of ts] s1(2) by auto
    then have "turns_left s' = 0" using that(2) s1(2) by (simp add: turns_left_def)
    then have "pollThread s' = None" by (auto simp: turns_left_def split: option.splits if_splits)
    then show ?thesis using r(1,2) by (auto simp: rail_inv_def stream_inv_def)
  qed
  moreover have "rate = 0 \<longrightarrow> poll_turn fs room slept s1 = None"
    using s1 by (simp add: poll_turn_def min_def)
  ultimately show ?thesis
    using s1 by (auto simp: streamEnergyData_def Let_def)
qed

section \<open>Readings of a file\<close>

definition energy_text :: "u64 \<Rightarrow> (string \<times> u64) list \<Rightarrow> string" where
  "energy_text t es = concat (map (\<lambda>l. l @ [CHR 0x0A])
     (show_nat (unat t) # map (\<lambda>(n, e). n @ CHR '','' # show_nat (unat e)) es))"

lemma digits_no_char:
  "d \<in> {CHR 0x0A, CHR '',''} \<Longrightarrow> d \<notin> set (show_nat k)"
  using show_nat_digits [of k] digit_no_space by (auto simp: list_all_iff c_isspace_def)

definition energy_step :: "u64 \<Rightarrow> string \<times> u64 \<Rightarrow> odpm \<Rightarrow> odpm" where
  "energy_step t p s =
     (let rail = the (map_of (railsInfo s) (fst p)) in
      s\<lparr>reading := (reading s)[unat (index rail) :=
        \<lparr>e_index = index rail, e_timestamp = t, e_energy = snd p\<rparr>]\<rparr>)"

lemma energy_step_frame [simp]:
  "railsInfo (energy_step t p s) = railsInfo s"
  "length (reading (energy_step t p s)) = length (reading s)"
  "s\<lparr>reading := reading (energy_step t p s)\<rparr> = energy_step t p s"
  by (simp_all add: energy_step_def Let_def)

lemma energy_fold_frame:
  "\<exists>rs. fold (energy_step t) es s = s\<lparr>reading := rs\<rparr> \<and> length rs = length (reading s)"
proof (induction es arbitrary: s)
  case Nil
  then show ?case by (intro exI [of _ "reading s"]) simp
next
  case (Cons p es)
  obtain rs where "fold (energy_step t) es (energy_step t p s) = energy_step t p s\<lparr>reading := rs\<rparr>"
    "length rs = length (reading (energy_step t p s))"
    using Cons by blast
  moreover obtain rs' where "energy_step t p s = s\<lparr>reading := rs'\<rparr>" "length rs' = length (reading s)"
    by (simp add: energy_step_def [of t p s] Let_def)
  ultimately show ?case by (intro exI [of _ rs]) simp
qed

lemma energy_lines_of:
  assumes "\<forall>(n, e) \<in> set es. CHR '','' \<notin> set n \<and> n \<in> fst ` set (railsInfo s)"
    and "\<forall>rail \<in> snd ` set (railsInfo s). unat (index rail) < length (reading s)"
  shows "energy_lines (map (\<lambda>(n, e). n @ CHR '','' # show_nat (unat e)) es) t True s
    = Some (0, fold (energy_step t) es s)"
  using assms
proof (induction es arbitrary: s)
  case (Cons p es)
  obtain n e where p: "p = (n, e)" by (cases p)
  have n: "CHR '','' \<notin> set n" "n \<in> fst ` set (railsInfo s)" using Cons.prems(1) p by auto
  then obtain rail where rail: "map_of (railsInfo s) n = Some rail"
    by (meson map_of_eq_None_iff not_None_eq)
  then have i: "unat (index rail) < length (reading s)"
    using Cons.prems(2) by (force dest: map_of_SomeD)
  have w: "Split (n @ CHR '','' # show_nat (unat e)) (CHR '','') = [n, show_nat (unat e)]"
    using n digits_no_char by (intro Split_two) auto
  have "strtoull (show_nat (unat e)) = e" using strtoull_show [of "[]" e] by simp
  then have "energy_lines ((n @ CHR '','' # show_nat (unat e)) # ls) t True s
      = energy_lines ls t True (energy_step t p s)" for ls
    using w rail i by (simp add: energy_step_def [of t "(n, e)" s] p)
  moreover have "energy_lines (map (\<lambda>(n, e). n @ CHR '','' # show_nat (unat e)) es) t True (energy_step t p s)
      = Some (0, fold (energy_step t) es (energy_step t p s))"
    using Cons.prems by (intro Cons.IH) simp_all
  ultimately show ?case by (simp add: p)
qed simp

lemma energy_fold_reading:
  assumes "distinct (map fst (railsInfo s))" "distinct (map fst es)"
    and "\<forall>(n, e) \<in> set es. n \<in> fst ` set (railsInfo s)"
    and "inj_on (\<lambda>e. unat (index (snd e))) (set (railsInfo s))"
    and "\<forall>rail \<in> snd ` set (railsInfo s). unat (index rail) < length (reading s)"
    and "(n, rail) \<in> set (railsInfo s)"
  shows "reading (fold (energy_step t) es s) ! unat (index rail) =
    (case map_of es n of
       None \<Rightarrow> reading s ! unat (index rail)
     | Some e \<Rightarrow> \<lparr>e_index = index rail, e_timestamp = t, e_energy = e\<rparr>)"
  using assms
proof (induction es arbitrary: s)
  case (Cons p es)
  obtain n0 e0 where p: "p = (n0, e0)" by (cases p)
  let ?s = "energy_step t p s"
  have IH: "reading (fold (energy_step t) es ?s) ! unat (index rail) =
    (case map_of es n of
       None \<Rightarrow> reading ?s ! unat (index rail)
     | Some e \<Rightarrow> \<lparr>e_index = index rail, e_timestamp = t, e_energy = e\<rparr>)"
    using Cons.prems by (intro Cons.IH) simp_all
  obtain rail0 where r0: "map_of (railsInfo s) n0 = Some rail0" "(n0, rail0) \<in> set (railsInfo s)"
    using Cons.prems(3) p by (metis (mono_tags, lifting) case_prodD list.set_intros(1) map_of_SomeD
        map_of_eq_None_iff not_None_eq)
  have i: "unat (index rail) < length (reading s)" "unat (index rail0) < length (reading s)"
    using Cons.prems(5,6) r0(2) by force+
  show ?case
  proof (cases "n = n0")
    case True
    then have "rail = rail0" using Cons.prems(1,6) r0(1) by (simp add: map_of_eq_Some_iff)
    moreover have "map_of es n = None"
      using Cons.prems(2) True p by (auto simp: map_of_eq_None_iff)
    ultimately show ?thesis using IH True i r0(1) by (simp add: p energy_step_def [of t "(n0, e0)" s])
  next
    case False
    then have "unat (index rail) \<noteq> unat (index rail0)"
      using inj_onD [OF Cons.prems(4), of "(n, rail)" "(n0, rail0)"] Cons.prems(6) r0(2) by auto
    then have "reading ?s ! unat (index rail) = reading s ! unat (index rail)"
      using r0(1) by (simp add: p energy_step_def [of t "(n0, e0)" s])
    then show ?thesis using IH False by (simp add: p split: option.split)
  qed
qed simp

lemma rails_of_inj:
  assumes "rails_of (m, n) ns" "length ns < 2 ^ 32"
  shows "inj_on (\<lambda>e. unat (index (snd e))) (set m)"
proof (rule inj_onI)
  fix a b assume "a \<in> set m" "b \<in> set m" "unat (index (snd a)) = unat (index (snd b))"
  then have "fst a = fst b"
    using rails_of_index(2) [OF assms, of "fst a" "snd a"] rails_of_index(2) [OF assms, of "fst b" "snd b"]
    by simp
  then show "a = b"
    using rails_of_keys(1) [OF assms(1)] \<open>a \<in> set m\<close> \<open>b \<in> set m\<close>
    by (metis eq_key_imp_eq_value prod.collapse)
qed

lemma energy_file_parse:
  assumes "rail_inv ns s" "hwEnabled s"
    and "ReadFileToString fs (path @ ''/energy_value'') = Some (energy_text t es)"
    and "\<forall>(n, e) \<in> set es. n \<in> set ns \<and> CHR '','' \<notin> set n \<and> CHR 0x0A \<notin> set n"
  shows "parseIioEnergyNode fs path s = Some (0, fold (energy_step t) es s)"
    "\<forall>(n, e) \<in> set es. n \<in> fst ` set (railsInfo s)"
proof -
  have r: "rails_of (railsInfo s, of_nat (length ns)) ns" using assms(1) by (simp add: rail_inv_def)
  show known: "\<forall>(n, e) \<in> set es. n \<in> fst ` set (railsInfo s)"
    using assms(4) rails_of_keys(2) [OF r] by auto
  let ?ls = "map (\<lambda>(n, e). n @ CHR '','' # show_nat (unat e)) es"
  have "\<forall>l \<in> set (show_nat (unat t) # ?ls). CHR 0x0A \<notin> set l"
    using assms(4) digits_no_char by auto
  then have "getlines (CHR 0x0A) (energy_text t es) = show_nat (unat t) # ?ls"
    unfolding energy_text_def by (rule getlines_join)
  moreover have "Split (show_nat (unat t)) (CHR '','') = [show_nat (unat t)]"
    using digits_no_char by (intro Split_none) simp
  moreover have "strtoull (show_nat (unat t)) = t" using strtoull_show [of "[]" t] by simp
  moreover have "energy_lines ?ls t True s = Some (0, fold (energy_step t) es s)"
    using assms(4) known rail_inv_bound [OF assms(1,2)] by (intro energy_lines_of) auto
  ultimately show "parseIioEnergyNode fs path s = Some (0, fold (energy_step t) es s)"
    using assms(3) by (simp add: parseIioEnergyNode_def)
qed

text \<open>
  C31: a file of energy values as the driver writes it (the time, then a line
  "name,value" for rails that are known, none twice) is read without error, and
  each of these rails then has the value and the time of the file at its index;
  the other rails keep their reading.
\<close>

theorem energy_file_read:
  assumes "rail_reachable ns s" "hwEnabled s"
    and "ReadFileToString fs (path @ ''/energy_value'') = Some (energy_text t es)"
    and "\<forall>(n, e) \<in> set es. n \<in> set ns \<and> CHR '','' \<notin> set n \<and> CHR 0x0A \<notin> set n" "distinct (map fst es)"
  shows "\<exists>rs. parseIioEnergyNode fs path s = Some (0, s\<lparr>reading := rs\<rparr>) \<and> length rs = length ns
    \<and> (\<forall>(n, rail) \<in> set (railsInfo s). rs ! unat (index rail) =
        (case map_of es n of
           None \<Rightarrow> reading s ! unat (index rail)
         | Some e \<Rightarrow> \<lparr>e_index = index rail, e_timestamp = t, e_energy = e\<rparr>))"
proof -
  have inv: "rail_inv ns s" using assms(1) by (rule rail_reachable_inv)
  then have r: "rails_of (railsInfo s, of_nat (length ns)) ns" "length ns < 2 ^ 32"
    "length (reading s) = length ns"
    using assms(2) by (simp_all add: rail_inv_def)
  note p = energy_file_parse [OF inv assms(2-4)]
  obtain rs where rs: "fold (energy_step t) es s = s\<lparr>reading := rs\<rparr>" "length rs = length (reading s)"
    using energy_fold_frame by blast
  have "reading (fold (energy_step t) es s) ! unat (index rail) =
      (case map_of es n of
         None \<Rightarrow> reading s ! unat (index rail)
       | Some e \<Rightarrow> \<lparr>e_index = index rail, e_timestamp = t, e_energy = e\<rparr>)"
    if "(n, rail) \<in> set (railsInfo s)" for n rail
    using energy_fold_reading [OF rails_of_keys(1) [OF r(1)] assms(5) p(2) rails_of_inj [OF r(1,2)]
        rail_inv_bound [OF inv assms(2)] that] .
  then show ?thesis using p(1) rs r(3) by (intro exI [of _ rs]) auto
qed

end
