(* ===== verification/Rail_Example.thy ===== *)
theory Rail_Example
  imports Rail_Laws
begin

text \<open>
  Power monitors on which the theorems apply: one with two rails, and one whose
  file names the same rail twice.
\<close>

definition LF :: string where "LF = [CHR 0x0A]"

definition rail_fs :: "string \<Rightarrow> string \<Rightarrow> sysfs" where
  "rail_fs names energy = \<lparr>fs_content = map_of [
       (''/sys/bus/iio/devices/iio:device0/name'', ''microchip,pac1934'' @ LF),
       (''/sys/bus/iio/devices//iio:device0/sampling_rate'', ''1024'' @ LF),
       (''/sys/bus/iio/devices//iio:device0/enabled_rails'', names),
       (''/sys/bus/iio/devices//iio:device0/energy_value'', energy)],
     fs_driver = (\<lambda>p s c. None), fs_openable = (\<lambda>p. False), fs_eof = (\<lambda>p. False),
     fs_dir = (\<lambda>p. if p = kIioDirRoot
       then Some [(''.'', False), (''iio:device0'', True)] else None),
     fs_log = []\<rparr>"

definition two_rails :: string where
  "two_rails = ''CPU:S4M_VDD'' @ LF @ ''DDR:S1C_VDD'' @ LF"
definition same_rails :: string where
  "same_rails = ''CPU:S4M_VDD'' @ LF @ ''CPU:S1C_VDD'' @ LF"

definition rail_energy :: string where
  "rail_energy = energy_text 77 [(''CPU'', 5)]"

definition two_fs :: sysfs where "two_fs = rail_fs two_rails rail_energy"
definition same_fs :: sysfs where "same_fs = rail_fs same_rails rail_energy"
definition buffer :: string where "buffer = replicate 64 (CHR 0x00)"

definition two_odpm :: odpm where "two_odpm = RailDataProvider_init two_fs buffer"
definition same_odpm :: odpm where "same_odpm = RailDataProvider_init same_fs buffer"

lemma nodes:
  "findIioPowerMonitorNodes two_fs buffer = [''/sys/bus/iio/devices//iio:device0'']"
  "findIioPowerMonitorNodes same_fs buffer = [''/sys/bus/iio/devices//iio:device0'']"
  by code_simp+

lemma rate: "ucast (strtoull (''1024'' @ LF)) = (1024 :: u32)"
  by (simp add: strtoull_def LF_def c_isspace_def is_base_digit_def digit_of_def base_value_def)

lemma names_split:
  "map (\<lambda>l. Split l (CHR '':'')) (getlines (CHR 0x0A) two_rails) = [[''CPU'', ''S4M_VDD''], [''DDR'', ''S1C_VDD'']]"
  "map (\<lambda>l. Split l (CHR '':'')) (getlines (CHR 0x0A) same_rails) = [[''CPU'', ''S4M_VDD''], [''CPU'', ''S1C_VDD'']]"
  by code_simp+

lemma contents:
  "ReadFileToString (rail_fs names energy) (''/sys/bus/iio/devices//iio:device0'' @ ''/sampling_rate'') = Some (''1024'' @ LF)"
  "ReadFileToString (rail_fs names energy) (''/sys/bus/iio/devices//iio:device0'' @ ''/enabled_rails'') = Some names"
  "ReadFileToString (rail_fs names energy) (''/sys/bus/iio/devices//iio:device0'' @ ''/energy_value'') = Some energy"
  by (simp_all add: ReadFileToString_def rail_fs_def)

lemma rate_not_max: "ucast (1024 :: u32) \<noteq> (- 1 :: u64)"
  by (rule no_max_rate)

lemma two_names: "rail_names two_fs (findIioPowerMonitorNodes two_fs buffer) = [''CPU'', ''DDR'']"
  unfolding nodes rail_names.simps contents(1,2) [of two_rails rail_energy, folded two_fs_def]
    option.case rate names_split by simp

lemma same_names: "rail_names same_fs (findIioPowerMonitorNodes same_fs buffer) = [''CPU'', ''CPU'']"
  unfolding nodes rail_names.simps contents(1,2) [of same_rails rail_energy, folded same_fs_def]
    option.case rate names_split by simp

lemma two_reachable: "rail_reachable [''CPU'', ''DDR''] two_odpm"
  unfolding two_odpm_def by (rule rail_reachable.init) (simp_all add: two_names)

lemma same_reachable: "rail_reachable [''CPU'', ''CPU''] same_odpm"
  unfolding same_odpm_def by (rule rail_reachable.init) (simp_all add: same_names)

lemma enabled:
  assumes "findIioPowerMonitorNodes fs buffer = [p]" "rail_names fs [p] = [a, b]"
  shows "hwEnabled (RailDataProvider_init fs buffer)"
    "fmqSynchronized (RailDataProvider_init fs buffer) = None"
    "devicePaths (RailDataProvider_init fs buffer) = [p]"
proof -
  have "rails_of ([], 0) []" by (simp add: rails_of_def)
  from parse_rails_of [OF this, of fs "[p]"] have "snd (parsePowerRails fs [p] ([], 0)) = 2"
    using assms(2) by (simp add: rails_of_def del: parsePowerRails.simps)
  then obtain m where "parsePowerRails fs [p] ([], 0) = (m, 2)"
    by (metis prod.collapse)
  then show "hwEnabled (RailDataProvider_init fs buffer)"
    "fmqSynchronized (RailDataProvider_init fs buffer) = None"
    "devicePaths (RailDataProvider_init fs buffer) = [p]"
    unfolding RailDataProvider_init_def assms(1) Let_def
    by (simp_all del: parsePowerRails.simps)
qed

lemmas two_enabled = enabled [OF nodes(1) two_names [unfolded nodes], folded two_odpm_def]
lemmas same_enabled = enabled [OF nodes(2) same_names [unfolded nodes], folded same_odpm_def]

lemma rail_info_correct_witness:
  "\<exists>v. getRailInfo two_odpm = Some (v, SUCCESS) \<and> map i_railName v = [''CPU'', ''DDR'']"
  using rail_info_correct [OF two_reachable two_enabled(1)] by auto

lemma energy_request_defined_witness:
  "getEnergyData same_fs [] same_odpm = None
   \<and> (\<exists>s. getEnergyData same_fs [2] same_odpm = Some (([], INVALID_INPUT), s))"
proof -
  have "ReadFileToString same_fs (''/sys/bus/iio/devices//iio:device0'' @ ''/energy_value'')
      = Some (energy_text 77 [(''CPU'', 5)])"
    unfolding same_fs_def contents rail_energy_def ..
  from energy_file_parse(1) [OF rail_reachable_inv [OF same_reachable] same_enabled(1) this]
  have "\<exists>s1. parseIioEnergyNodes same_fs same_odpm = Some (SUCCESS, s1)"
    by (simp add: parseIioEnergyNodes_def same_enabled)
  then obtain s1 where p: "parseIioEnergyNodes same_fs same_odpm = Some (SUCCESS, s1)" by blast
  show ?thesis
    using energy_request_defined [OF same_reachable, of same_fs "[]"]
      energy_request_defined [OF same_reachable, of same_fs "[2]"] p by auto
qed

lemma stream_ends_witness:
  "\<exists>s1. streamEnergyData 2000 1 True two_odpm = ((2, 2, SUCCESS), s1)
    \<and> (\<exists>s'. run_turns (replicate 3 (two_fs, True, True)) s1 = Some s' \<and> pollThread s' = None)"
proof -
  have "length (reading two_odpm) = 2"
    using rail_reachable_inv [OF two_reachable] two_enabled(1) by (simp add: rail_inv_def)
  then have "fst (streamEnergyData 2000 1 True two_odpm) = (2, 2, SUCCESS)"
    by (simp add: streamEnergyData_def two_enabled Let_def MAX_SAMPLING_RATE_def min_def)
  then obtain s1 where s: "streamEnergyData 2000 1 True two_odpm = ((2, 2, SUCCESS), s1)"
    by (cases "streamEnergyData 2000 1 True two_odpm") auto
  have "unat (2 :: u32) + 1 \<le> length (replicate 3 (two_fs, True, True))" by simp
  then show ?thesis using stream_ends [OF two_reachable s] s by fastforce
qed

lemma energy_file_read_witness:
  "\<exists>rs. parseIioEnergyNode two_fs ''/sys/bus/iio/devices//iio:device0'' two_odpm
      = Some (0, two_odpm\<lparr>reading := rs\<rparr>) \<and> length rs = 2"
proof -
  have "ReadFileToString two_fs (''/sys/bus/iio/devices//iio:device0'' @ ''/energy_value'')
      = Some (energy_text 77 [(''CPU'', 5)])"
    unfolding two_fs_def contents rail_energy_def ..
  from energy_file_read [OF two_reachable two_enabled(1) this] show ?thesis by auto
qed

end
