(* ===== verification/Dump_Actions.thy ===== *)
theory Dump_Actions
  imports Prelude
begin

text \<open>
  The report of dumpstate/DumpstateDevice.cpp as data: which files are copied to
  it and which commands write to it, in order. A command is its title, its
  arguments and its timeout in seconds, if it has one of its own.
\<close>

datatype dump_act =
    DumpFile string string
  | RunCommand string "string list" "nat option"

definition sh :: "string \<Rightarrow> string \<Rightarrow> dump_act" where
  "sh title cmd = RunCommand title [''/vendor/bin/sh'', ''-c'', cmd] None"

definition TOUCH :: string where
  "TOUCH = ''/sys/bus/i2c/drivers/fts/1-0049''"

section \<open>The parts of the report\<close>

definition touch_force :: "dump_act list" where
  "touch_force =
    [sh ''Force Set AP as Bus Owner''
      ''echo A0 01 > /proc/fts/driver_test && cat /proc/fts/driver_test'']"

definition touch_spi :: "dump_act list" where
  "touch_spi =
    [DumpFile ''STM touch firmware version'' (TOUCH @ ''/appid''),
     DumpFile ''STM touch status'' (TOUCH @ ''/status''),
     sh ''Mutual Raw''
      (''echo 13 00 01 > '' @ TOUCH @ ''/stm_fts_cmd && cat '' @ TOUCH @ ''/stm_fts_cmd''),
     sh ''Mutual Strength''
      (''echo 17 01 > '' @ TOUCH @ ''/stm_fts_cmd && cat '' @ TOUCH @ ''/stm_fts_cmd''),
     sh ''Self Raw''
      (''echo 15 00 01> '' @ TOUCH @ ''/stm_fts_cmd && cat '' @ TOUCH @ ''/stm_fts_cmd'')]"

definition touch_test :: "dump_act list" where
  "touch_test =
    [sh ''Lock Normal Active Mode''
      ''echo 16 A0 03 00 > /proc/fts/driver_test && cat /proc/fts/driver_test'',
     sh ''Mutual Raw Data''
      ''echo 23 00 > /proc/fts/driver_test && cat /proc/fts/driver_test'',
     sh ''Mutual Baseline Data''
      ''echo 23 03 > /proc/fts/driver_test && cat /proc/fts/driver_test'',
     sh ''Mutual Strength Data''
      ''echo 23 02 > /proc/fts/driver_test && cat /proc/fts/driver_test'',
     sh ''Self Raw Data''
      ''echo 24 00 > /proc/fts/driver_test && cat /proc/fts/driver_test'',
     sh ''Self Baseline Data''
      ''echo 24 03 > /proc/fts/driver_test && cat /proc/fts/driver_test'',
     sh ''Self Strength Data''
      ''echo 24 02 > /proc/fts/driver_test && cat /proc/fts/driver_test'',
     sh ''Mutual Compensation''
      ''echo 32 10 > /proc/fts/driver_test && cat /proc/fts/driver_test'',
     sh ''Self Compensation''
      ''echo 33 12 > /proc/fts/driver_test && cat /proc/fts/driver_test'',
     sh ''Golden MS Raw''
      ''echo 34 > /proc/fts/driver_test && cat /proc/fts/driver_test'',
     sh ''Packaging Plant - HW reset''
      ''echo 01 FA 20 00 00 24 80 > /proc/fts/driver_test'',
     sh ''Packaging Plant - Hibernate Memory''
      ''echo 01 FA 20 00 00 68 08 > /proc/fts/driver_test'',
     sh ''Packaging Plant - Read 10 bytes from Address 0x00043F28''
      ''echo 02 FA 00 04 3F 28 00 0A 00 > /proc/fts/driver_test && cat /proc/fts/driver_test'']"

definition touch_ito :: "dump_act list" where
  "touch_ito =
    [sh ''ITO Raw''
      (''echo 01 > '' @ TOUCH @ ''/stm_fts_cmd && cat '' @ TOUCH @ ''/stm_fts_cmd'')]"

definition touch_restore :: "dump_act list" where
  "touch_restore =
    [sh ''Restore Bus Owner''
      ''echo A0 00 > /proc/fts/driver_test && cat /proc/fts/driver_test'']"

text \<open>\<open>readable\<close> is \<open>access (path, R_OK)\<close>; the commands before a test may change it.\<close>

definition DumpTouch :: "(dump_act list \<Rightarrow> string \<Rightarrow> bool) \<Rightarrow> dump_act list" where
  "DumpTouch readable =
     (let acts = touch_force;
          acts = acts @ (if readable acts (TOUCH @ ''/appid'') then touch_spi else []);
          acts = acts @ (if readable acts ''/proc/fts/driver_test'' then touch_test else []);
          acts = acts @ (if readable acts (TOUCH @ ''/stm_fts_cmd'') then touch_ito else [])
      in acts @ touch_restore)"

definition DumpSensorLog :: "(string \<Rightarrow> bool) \<Rightarrow> dump_act list" where
  "DumpSensorLog readable =
     (if readable ''/data/vendor/sensors/log/sensor_log.txt''
      then [DumpFile ''sensor log'' ''/data/vendor/sensors/log/sensor_log.txt''] else [])
     @ (if readable ''/data/vendor/sensors/log/sensor_lastlog.txt''
        then [DumpFile ''sensor lastlog'' ''/data/vendor/sensors/log/sensor_lastlog.txt''] else [])"

definition DumpDisplay :: "dump_act list" where
  "DumpDisplay =
    [DumpFile ''PANEL VENDOR NAME'' ''/sys/class/panel_info/panel0/panel_vendor_name'',
     DumpFile ''PANEL SN'' ''/sys/class/panel_info/panel0/serial_number'',
     DumpFile ''PANEL EXTRA INFO'' ''/sys/class/panel_info/panel0/panel_extinfo'']"

definition DumpF2FS :: "dump_act list" where
  "DumpF2FS =
    [DumpFile ''F2FS'' ''/dev/fscklogs/fsck'',
     sh ''F2FS - fsck time (ms)''
      ''getprop ro.boottime.init.fsck.data'',
     sh ''F2FS - checkpoint=disable time (ms)''
      ''getprop ro.boottime.init.mount.data'']"

definition DumpUFS :: "dump_act list" where
  "DumpUFS =
    [DumpFile ''UFS model'' ''/sys/block/sda/device/model'',
     DumpFile ''UFS rev'' ''/sys/block/sda/device/rev'',
     DumpFile ''UFS size'' ''/sys/block/sda/size'',
     DumpFile ''UFS Slow IO Read'' ''/dev/sys/block/bootdevice/slowio_read_cnt'',
     DumpFile ''UFS Slow IO Write'' ''/dev/sys/block/bootdevice/slowio_write_cnt'',
     DumpFile ''UFS Slow IO Unmap'' ''/dev/sys/block/bootdevice/slowio_unmap_cnt'',
     DumpFile ''UFS Slow IO Sync'' ''/dev/sys/block/bootdevice/slowio_sync_cnt'',
     sh ''UFS health''
      (''for f in $(find /dev/sys/block/bootdevice/health -type f); do if ['' @
       ''[ -r $f && -f $f ]'' @ '']; then echo --- $f; cat $f; echo '' @ [CHR 0x27] @ [CHR 0x27] @
       ''; fi; done''),
     sh ''UFS err_stats''
      (''path='' @ [CHR 0x22] @ ''/dev/sys/block/bootdevice/err_stats'' @ [CHR 0x22] @
       ''; for node in '' @ [CHR 0x60] @ ''ls $path/err_*'' @ [CHR 0x60] @ ''; do printf '' @
       [CHR 0x22] @ ''%s:%d'' @ [CHR 0x5C] @ ''n'' @ [CHR 0x22] @
       '' $(basename $node) $(cat $node); done;''),
     sh ''UFS io_stats''
      (''path='' @ [CHR 0x22] @ ''/dev/sys/block/bootdevice/io_stats'' @ [CHR 0x22] @ ''; printf '' @
       [CHR 0x22] @ [CHR 0x5C] @ ''t'' @ [CHR 0x5C] @ ''t%-10s %-10s %-10s %-10s %-10s %-10s'' @
       [CHR 0x5C] @ ''n'' @ [CHR 0x22] @
       '' ReadCnt ReadBytes WriteCnt WriteBytes RWCnt RWBytes; str=$(cat $path/*_start); arr=($str); '' @
       ''printf '' @ [CHR 0x22] @ ''Started: '' @ [CHR 0x5C] @
       ''t%-10s %-10s %-10s %-10s %-10s %-10s'' @ [CHR 0x5C] @ ''n'' @ [CHR 0x22] @
       '' ${arr[1]} ${arr[0]} ${arr[5]} ${arr[4]} ${arr[3]} ${arr[2]}; str=$(cat $path/*_complete); '' @
       ''arr=($str); printf '' @ [CHR 0x22] @ ''Completed: '' @ [CHR 0x5C] @
       ''t%-10s %-10s %-10s %-10s %-10s %-10s'' @ [CHR 0x5C] @ ''n'' @ [CHR 0x22] @
       '' ${arr[1]} ${arr[0]} ${arr[5]} ${arr[4]} ${arr[3]} ${arr[2]}; str=$(cat $path/*_maxdiff); '' @
       ''arr=($str); printf '' @ [CHR 0x22] @ ''MaxDiff: '' @ [CHR 0x5C] @
       ''t%-10s %-10s %-10s %-10s %-10s %-10s'' @ [CHR 0x5C] @ ''n'' @ [CHR 0x5C] @ ''n'' @
       [CHR 0x22] @ '' ${arr[1]} ${arr[0]} ${arr[5]} ${arr[4]} ${arr[3]} ${arr[2]}; ''),
     sh ''UFS req_stats''
      (''path='' @ [CHR 0x22] @ ''/dev/sys/block/bootdevice/req_stats'' @ [CHR 0x22] @
       ''; printf '' @ [CHR 0x22] @ [CHR 0x5C] @ ''t%-10s %-10s %-10s %-10s %-10s %-10s %-10s'' @
       [CHR 0x5C] @ ''n'' @ [CHR 0x22] @ '' All Write Read Read'' @ [CHR 0x5C] @ ''(urg'' @
       [CHR 0x5C] @ '') Write'' @ [CHR 0x5C] @ ''(urg'' @ [CHR 0x5C] @
       '') Flush Discard; str=$(cat $path/*_min); arr=($str); printf '' @ [CHR 0x22] @ ''Min:'' @
       [CHR 0x5C] @ ''t%-10s %-10s %-10s %-10s %-10s %-10s %-10s'' @ [CHR 0x5C] @ ''n'' @
       [CHR 0x22] @
       '' ${arr[0]} ${arr[3]} ${arr[6]} ${arr[4]} ${arr[5]} ${arr[2]} ${arr[1]}; str=$(cat $path/*_max); '' @
       ''arr=($str); printf '' @ [CHR 0x22] @ ''Max:'' @ [CHR 0x5C] @
       ''t%-10s %-10s %-10s %-10s %-10s %-10s %-10s'' @ [CHR 0x5C] @ ''n'' @ [CHR 0x22] @
       '' ${arr[0]} ${arr[3]} ${arr[6]} ${arr[4]} ${arr[5]} ${arr[2]} ${arr[1]}; str=$(cat $path/*_avg); '' @
       ''arr=($str); printf '' @ [CHR 0x22] @ ''Avg.:'' @ [CHR 0x5C] @
       ''t%-10s %-10s %-10s %-10s %-10s %-10s %-10s'' @ [CHR 0x5C] @ ''n'' @ [CHR 0x22] @
       '' ${arr[0]} ${arr[3]} ${arr[6]} ${arr[4]} ${arr[5]} ${arr[2]} ${arr[1]}; str=$(cat $path/*_sum); '' @
       ''arr=($str); printf '' @ [CHR 0x22] @ ''Count:'' @ [CHR 0x5C] @
       ''t%-10s %-10s %-10s %-10s %-10s %-10s %-10s'' @ [CHR 0x5C] @ ''n'' @ [CHR 0x5C] @ ''n'' @
       [CHR 0x22] @ '' ${arr[0]} ${arr[3]} ${arr[6]} ${arr[4]} ${arr[5]} ${arr[2]} ${arr[1]};'')]"

definition DumpPower :: "dump_act list" where
  "DumpPower =
    [sh ''Power Stats Times''
      (''echo -n '' @ [CHR 0x22] @ ''Boot: '' @ [CHR 0x22] @
       '' && /vendor/bin/uptime -s && echo -n '' @ [CHR 0x22] @ ''Now: '' @ [CHR 0x22] @
       '' && date''),
     DumpFile ''Sleep Stats'' ''/sys/power/system_sleep/stats'',
     DumpFile ''Power Management Stats'' ''/sys/power/rpmh_stats/master_stats'',
     DumpFile ''WLAN Power Stats'' ''/sys/kernel/wlan/power_stats'']"

definition board_first :: "dump_act list" where
  "board_first =
    [RunCommand ''VENDOR PROPERTIES'' [''/vendor/bin/getprop''] None,
     DumpFile ''CPU present'' ''/sys/devices/system/cpu/present'',
     DumpFile ''CPU online'' ''/sys/devices/system/cpu/online'',
     DumpFile ''Bootloader Log'' ''/proc/bldrlog'']"

definition board_rest :: "dump_act list" where
  "board_rest =
    [sh ''Temperatures''
      (''for f in /sys/class/thermal/thermal* ; do type='' @ [CHR 0x60] @ ''cat $f/type'' @
       [CHR 0x60] @ '' ; temp='' @ [CHR 0x60] @ ''cat $f/temp'' @ [CHR 0x60] @ '' ; echo '' @
       [CHR 0x22] @ ''$type: $temp'' @ [CHR 0x22] @ '' ; done''),
     sh ''Cooling Device Current State''
      (''for f in /sys/class/thermal/cooling* ; do type='' @ [CHR 0x60] @ ''cat $f/type'' @
       [CHR 0x60] @ '' ; temp='' @ [CHR 0x60] @ ''cat $f/cur_state'' @ [CHR 0x60] @ '' ; echo '' @
       [CHR 0x22] @ ''$type: $temp'' @ [CHR 0x22] @ '' ; done''),
     sh ''LMH info''
      (''for f in /sys/bus/platform/drivers/msm_lmh_dcvs/*qcom,limits-dcvs@*/lmh_freq_limit; '' @
       ''do state='' @ [CHR 0x60] @ ''cat $f'' @ [CHR 0x60] @ '' ; echo '' @ [CHR 0x22] @
       ''$f: $state'' @ [CHR 0x22] @ '' ; done''),
     sh ''CPU time-in-state''
      (''for cpu in /sys/devices/system/cpu/cpu*; do f=$cpu/cpufreq/stats/time_in_state; if [ '' @
       ''! -f $f ]; then continue; fi; echo $f:; cat $f; done''),
     sh ''CPU cpuidle''
      (''for cpu in /sys/devices/system/cpu/cpu*; do for d in $cpu/cpuidle/state*; do if [ ! '' @
       ''-d $d ]; then continue; fi; echo '' @ [CHR 0x22] @ ''$d: '' @ [CHR 0x60] @ ''cat $d/name'' @
       [CHR 0x60] @ '' '' @ [CHR 0x60] @ ''cat $d/desc'' @ [CHR 0x60] @ '' '' @ [CHR 0x60] @
       ''cat $d/time'' @ [CHR 0x60] @ '' '' @ [CHR 0x60] @ ''cat $d/usage'' @ [CHR 0x60] @
       [CHR 0x22] @ ''; done; done''),
     sh ''Airbrush debug info''
      (''for f in '' @ [CHR 0x60] @ ''ls /sys/devices/platform/soc/c84000.i2c/i2c-4/4-0066/@'' @
       ''('' @ ''*curr|temperature|vbat|total_power)'' @ [CHR 0x60] @ ''; do echo '' @ [CHR 0x22] @
       ''$f: '' @ [CHR 0x60] @ ''cat $f'' @ [CHR 0x60] @ [CHR 0x22] @ '' ; done''),
     sh ''TRICKLE-DEFEND Config''
      ('' cd /sys/devices/platform/soc/soc:google,battery/power_supply/battery/; echo '' @
       [CHR 0x22] @ ''bd_trickle_enable: '' @ [CHR 0x60] @ ''cat bd_trickle_enable'' @ [CHR 0x60] @
       [CHR 0x22] @ ''; echo '' @ [CHR 0x22] @ ''bd_trickle_cnt: '' @ [CHR 0x60] @
       ''cat bd_trickle_cnt'' @ [CHR 0x60] @ [CHR 0x22] @ '';  echo '' @ [CHR 0x22] @
       ''bd_trickle_recharge_soc: '' @ [CHR 0x60] @ ''cat bd_trickle_recharge_soc'' @ [CHR 0x60] @
       [CHR 0x22] @ '';  echo '' @ [CHR 0x22] @ ''bd_trickle_dry_run: '' @ [CHR 0x60] @
       ''cat bd_trickle_dry_run'' @ [CHR 0x60] @ [CHR 0x22] @ '';  echo '' @ [CHR 0x22] @
       ''bd_trickle_reset_sec: '' @ [CHR 0x60] @ ''cat bd_trickle_reset_sec'' @ [CHR 0x60] @
       [CHR 0x22]),
     sh ''DWELL-DEFEND Config''
      ('' cd /sys/devices/platform/soc/soc:google,charger/; for f in '' @ [CHR 0x60] @
       ''ls charge_s*'' @ [CHR 0x60] @ '' ; do echo '' @ [CHR 0x22] @ ''$f: '' @ [CHR 0x60] @
       ''cat $f'' @ [CHR 0x60] @ [CHR 0x22] @ '' ; done''),
     sh ''TEMP-DEFEND Config''
      ('' cd /sys/devices/platform/soc/soc:google,charger/; for f in '' @ [CHR 0x60] @ ''ls bd_*'' @
       [CHR 0x60] @ '' ; do echo '' @ [CHR 0x22] @ ''$f: '' @ [CHR 0x60] @ ''cat $f'' @ [CHR 0x60] @
       [CHR 0x22] @ '' ; done''),
     sh ''USB Device Descriptors''
      (''cd /sys/bus/usb/devices/1-1 && cat product && cat bcdDevice; cat descriptors | od -t '' @
       ''x1 -w16 -N96''),
     sh ''Power supply properties''
      (''for f in '' @ [CHR 0x60] @ ''ls /sys/class/power_supply/*/uevent'' @ [CHR 0x60] @
       '' ; do echo '' @ [CHR 0x22] @ ''------ $f'' @ [CHR 0x5C] @ ''n'' @ [CHR 0x60] @ ''cat $f'' @
       [CHR 0x60] @ [CHR 0x5C] @ ''n'' @ [CHR 0x22] @ '' ; done''),
     sh ''Battery EEPROM''
      ''xxd /sys/devices/platform/soc/a8c000.i2c/i2c-2/2-0050/2-00500/nvmem'',
     DumpFile ''TTF details'' ''/sys/class/power_supply/battery/ttf_details'',
     DumpFile ''TTF stats'' ''/sys/class/power_supply/battery/ttf_stats'',
     DumpFile ''aacr_state'' ''/sys/class/power_supply/battery/aacr_state'',
     DumpFile ''Modem Stat'' ''/data/vendor/modem_stat/debug.txt'',
     RunCommand ''Citadel VERSION'' [''/vendor/bin/hw/citadel_updater'', ''-lv''] None,
     RunCommand ''Citadel STATS'' [''/vendor/bin/hw/citadel_updater'', ''--stats''] None,
     RunCommand ''Citadel BOARDID'' [''/vendor/bin/hw/citadel_updater'', ''--board_id''] None,
     DumpFile ''Fastrpc dma buffer'' ''/sys/kernel/fastrpc/total_dma_kb'',
     DumpFile ''WLAN FW Log Symbol Table'' ''/vendor/firmware/Data.msc'']"

section \<open>The whole report\<close>

definition board_acts :: "(dump_act list \<Rightarrow> string \<Rightarrow> bool) \<Rightarrow> (string \<Rightarrow> bool) \<Rightarrow> dump_act list" where
  "board_acts touch_readable log_readable =
     board_first @ DumpTouch touch_readable @ DumpDisplay @ DumpF2FS @ DumpUFS
     @ DumpSensorLog log_readable @ [DumpFile ''INTERRUPTS'' ''/proc/interrupts'']
     @ DumpPower @ board_rest"

text \<open>A command that speaks to the touch controller.\<close>

fun is_start :: "string \<Rightarrow> string \<Rightarrow> bool" where
  "is_start [] s = True"
| "is_start (p # pat) [] = False"
| "is_start (p # pat) (c # s) = (if p = c then is_start pat s else False)"

fun mentions :: "string \<Rightarrow> string \<Rightarrow> bool" where
  "mentions pat [] = (pat = [])"
| "mentions pat (c # s) = (if is_start pat (c # s) then True else mentions pat s)"

fun uses_touch :: "dump_act \<Rightarrow> bool" where
  "uses_touch (DumpFile _ path) = mentions ''/fts/'' path"
| "uses_touch (RunCommand _ args _) = list_ex (mentions ''/fts/'') args"

lemma touch_elsewhere:
  "list_all (\<lambda>a. \<not> uses_touch a) board_first"
  "list_all (\<lambda>a. \<not> uses_touch a) DumpDisplay"
  "list_all (\<lambda>a. \<not> uses_touch a) DumpF2FS"
  "list_all (\<lambda>a. \<not> uses_touch a) DumpPower"
  "list_all (\<lambda>a. \<not> uses_touch a) [DumpFile ''INTERRUPTS'' ''/proc/interrupts'']"
  by code_simp+

lemma touch_ufs: "list_all (\<lambda>a. \<not> uses_touch a) DumpUFS"
  by code_simp

lemma touch_rest: "list_all (\<lambda>a. \<not> uses_touch a) board_rest"
  by code_simp

lemma touch_sensor: "list_all (\<lambda>a. \<not> uses_touch a) (DumpSensorLog r)"
proof -
  have "\<not> uses_touch (DumpFile ''sensor log'' ''/data/vendor/sensors/log/sensor_log.txt'')"
    "\<not> uses_touch (DumpFile ''sensor lastlog'' ''/data/vendor/sensors/log/sensor_lastlog.txt'')"
    by code_simp+
  then show ?thesis by (simp add: DumpSensorLog_def)
qed

end
