(* ===== verification/Dump_Tar.thy ===== *)
theory Dump_Tar
  imports Block_Dev Numbers
begin

text \<open>
  The archive of the modem logs (dumpstate/DumpstateDevice.cpp): \<open>tarCheckSum\<close>,
  \<open>tarHeader\<close> and \<open>createTarFile\<close>, byte by byte. A name or a size that does not
  fit its field of the header is written outside it, so it has no result.
  \<open>tar_read\<close> is a reader of such archives, the reference the writer is checked
  against.
\<close>

section \<open>The header\<close>

definition TAR_BLOCK :: nat where [model_defs]: "TAR_BLOCK = 512"
definition TAR_NAME :: nat where [model_defs]: "TAR_NAME = 0"
definition TAR_MODE :: nat where [model_defs]: "TAR_MODE = 100"
definition TAR_SIZE :: nat where [model_defs]: "TAR_SIZE = 124"
definition TAR_MTIME :: nat where [model_defs]: "TAR_MTIME = 136"
definition TAR_CHKSUM :: nat where [model_defs]: "TAR_CHKSUM = 148"
definition TAR_TYPEFLAG :: nat where [model_defs]: "TAR_TYPEFLAG = 156"
definition TAR_MAGIC :: nat where [model_defs]: "TAR_MAGIC = 257"
definition TAR_VERSION :: nat where [model_defs]: "TAR_VERSION = 263"

text \<open>\<open>strcpy\<close> and \<open>sprintf\<close> to a field write the text and its NUL.\<close>

definition c_string :: "string \<Rightarrow> byte list" where
  "c_string s = bytes_of s @ [0]"

definition put_fields :: "(nat \<times> byte list) list \<Rightarrow> byte list \<Rightarrow> byte list" where
  "put_fields fs h = fold (\<lambda>(off, bs) h. overwrite h off bs) fs h"

definition blank_chksum :: "byte list \<Rightarrow> byte list" where
  "blank_chksum h = overwrite h TAR_CHKSUM (replicate 8 0x20)"

definition tarCheckSum :: "byte list \<Rightarrow> nat \<times> byte list" where
  "tarCheckSum h = (let h = blank_chksum h in (sum_list (map unat h), h))"

definition tar_fields :: "string \<Rightarrow> nat \<Rightarrow> (nat \<times> byte list) list" where
  "tar_fields fileName fileSize =
     [(TAR_NAME, c_string fileName),
      (TAR_MODE, c_string (zero_pad 7 (show_base 8 384))),
      (TAR_SIZE, c_string (zero_pad 11 (show_base 8 fileSize))),
      (TAR_MTIME, c_string (zero_pad 11 (show_base 8 0))),
      (TAR_TYPEFLAG, bytes_of ''0''),
      (TAR_MAGIC, c_string ''ustar''),
      (TAR_VERSION, c_string '' '')]"

definition tarHeader :: "string \<Rightarrow> nat \<Rightarrow> byte list option" where
  "tarHeader fileName fileSize =
     (if 100 \<le> length fileName \<or> 12 \<le> length (show_base 8 fileSize) then None
      else
        (case tarCheckSum (put_fields (tar_fields fileName fileSize) (replicate TAR_BLOCK 0)) of
           (chksum, h) \<Rightarrow> Some (overwrite h TAR_CHKSUM (c_string (zero_pad 6 (show_base 8 chksum))))))"

section \<open>The archive\<close>

text \<open>
  \<open>write\<close> to the archive: what was accepted is appended, the schedule says how
  much that is, and the result is the count or an error.
\<close>

definition out_write :: "byte list \<Rightarrow> byte list \<times> outcome list \<Rightarrow> int \<times> byte list \<times> outcome list" where
  "out_write bs st =
     (case st of (out, sched) \<Rightarrow>
        let (x, sched) = (case sched of [] \<Rightarrow> (Succeeds, []) | x # xs \<Rightarrow> (x, xs)) in
        if x = Fails then (- 1, out, sched)
        else let k = transferred x (length bs) in (int k, out @ take k bs, sched))"

text \<open>
  A file is read and written in pieces of the size of the buffer, until a read fails
  or gives nothing; \<open>tarLen\<close> counts what was read, whether it was written or not.
\<close>

definition BUFSIZE :: nat where "BUFSIZE = 65536"

lemma transferred_shrinks: "0 < transferred x (min b n) \<Longrightarrow> n - transferred x (min b n) < n"
  by (cases x) (auto simp: min_def split: if_splits)

function tar_copy :: "byte list \<Rightarrow> nat \<Rightarrow> byte list \<times> outcome list \<Rightarrow> nat \<times> byte list \<times> outcome list" where
  "tar_copy rest tarLen (out, sched) =
     (let (x, sched) = (case sched of [] \<Rightarrow> (Succeeds, []) | x # xs \<Rightarrow> (x, xs));
          size = transferred x (min BUFSIZE (length rest)) in
      if x = Fails \<or> size = 0 then (tarLen, out, sched)
      else case out_write (take size rest) (out, sched) of
        (r, out, sched) \<Rightarrow> tar_copy (drop size rest) (tarLen + size) (out, sched))"
  by auto
termination
  by (relation "measure (\<lambda>(rest, tarLen, st). length rest)")
    (auto simp: transferred_shrinks)

declare tar_copy.simps [simp del]

definition write_all :: "byte list list \<Rightarrow> byte list \<times> outcome list \<Rightarrow> byte list \<times> outcome list" where
  "write_all bss st = fold (\<lambda>bs st. snd (out_write bs st)) bss st"

text \<open>Single zero bytes up to the next block.\<close>

definition pad_len :: "nat \<Rightarrow> nat" where
  "pad_len n = (TAR_BLOCK - n mod TAR_BLOCK) mod TAR_BLOCK"

text \<open>
  The entries of the directory, in the order \<open>readdir\<close> gives them, with the size
  \<open>fstat\<close> tells and the contents there are to read, or \<open>None\<close> for one that cannot be
  opened. A directory can be opened and has a size, but nothing to read. \<open>tarLen\<close>
  counts what the archive should have got.
\<close>

definition hidden :: "string \<Rightarrow> bool" where
  "hidden d_name \<longleftrightarrow> d_name \<noteq> [] \<and> hd d_name = CHR ''.''"

fun tar_files ::
  "(string \<times> (nat \<times> byte list) option) list \<Rightarrow> nat \<Rightarrow> byte list \<times> outcome list
     \<Rightarrow> (byte list \<times> outcome list) option" where
  "tar_files [] tarLen st = Some st"
| "tar_files ((d_name, file) # fs) tarLen st =
     (if hidden d_name then tar_files fs tarLen st
      else (case file of
          None \<Rightarrow> tar_files fs tarLen st
        | Some (st_size, content) \<Rightarrow>
            (case tarHeader d_name st_size of
               None \<Rightarrow> None
             | Some header \<Rightarrow>
                 (case out_write header st of (r, st) \<Rightarrow>
                    if r \<le> 0 then tar_files fs tarLen st
                    else
                      let (tarLen, st) = tar_copy content (tarLen + TAR_BLOCK) st;
                          k = pad_len tarLen;
                          st = write_all (replicate k [0]) st
                      in tar_files fs (tarLen + k) st))))"

text \<open>\<open>O_CREAT\<close> without \<open>O_TRUNC\<close>: what an older file has beyond the new contents stays.\<close>

definition over_old :: "byte list \<Rightarrow> byte list option \<Rightarrow> byte list" where
  "over_old new old = (case old of None \<Rightarrow> new | Some bs \<Rightarrow> new @ drop (length new) bs)"

definition createTarFile ::
  "byte list option \<Rightarrow> (string \<times> (nat \<times> byte list) option) list \<Rightarrow> outcome list
     \<Rightarrow> (byte list \<times> outcome list) option" where
  "createTarFile old files sched =
     map_option (\<lambda>(out, sched). (over_old out old, sched)) (tar_files files 0 ([], sched))"

section \<open>A reader\<close>

definition tar_sum_ok :: "byte list \<Rightarrow> bool" where
  "tar_sum_ok h \<longleftrightarrow> base_value 8 (text_of (region h TAR_CHKSUM 6)) = sum_list (map unat (blank_chksum h))"

definition tar_name :: "byte list \<Rightarrow> string" where
  "tar_name h = text_of (takeWhile (\<lambda>b. b \<noteq> 0) (region h TAR_NAME 100))"

definition tar_size :: "byte list \<Rightarrow> nat" where
  "tar_size h = base_value 8 (text_of (region h TAR_SIZE 11))"

function tar_read :: "byte list \<Rightarrow> (string \<times> byte list) list option" where
  "tar_read arc =
     (if arc = [] then Some []
      else
        let h = take TAR_BLOCK arc; rest = drop TAR_BLOCK arc; n = tar_size h in
        if length arc < TAR_BLOCK \<or> \<not> tar_sum_ok h \<or> length rest < n + pad_len n then None
        else map_option ((#) (tar_name h, take n rest)) (tar_read (drop (n + pad_len n) rest)))"
  by auto
termination
  by (relation "measure length") (auto simp: TAR_BLOCK_def)

declare tar_read.simps [simp del]

section \<open>Fields\<close>

lemma length_c_string [simp]: "length (c_string s) = Suc (length s)"
  by (simp add: c_string_def)

lemma length_put_fields:
  "\<forall>(off, bs) \<in> set fs. off + length bs \<le> length h \<Longrightarrow> length (put_fields fs h) = length h"
  by (induction fs arbitrary: h) (auto simp: put_fields_def)

lemma region_put_fields:
  "\<forall>(off, bs) \<in> set fs. off + length bs \<le> length h \<and> disjoint_regions off (length bs) a n \<Longrightarrow>
    region (put_fields fs h) a n = region h a n"
proof (induction fs arbitrary: h)
  case (Cons f fs)
  obtain off bs where f: "f = (off, bs)" by (cases f)
  have "off + length bs \<le> length h" using Cons.prems f by auto
  then have "region (put_fields fs (overwrite h off bs)) a n = region (overwrite h off bs) a n"
    using Cons.prems f by (intro Cons.IH) auto
  then show ?case
    using Cons.prems f by (simp add: put_fields_def region_overwrite_disjoint)
qed (simp add: put_fields_def)

lemma overwrite_longer:
  "length ys \<le> length zs \<Longrightarrow> off + length zs \<le> length h \<Longrightarrow>
    overwrite (overwrite h off ys) off zs = overwrite h off zs"
  by (rule nth_equalityI) (auto simp: nth_overwrite)

lemma sum_bytes_less: "sum_list (map unat (h :: byte list)) \<le> 255 * length h"
proof (induction h)
  case (Cons b h)
  have "unat b < 256" using unsigned_less [of b, where ?'a = nat] by simp
  then show ?case using Cons by simp
qed simp

text \<open>The header of a file whose name and size fit says them, with a correct sum.\<close>

lemma tarHeader_reads:
  assumes "tarHeader name n = Some h" "CHR 0x00 \<notin> set name"
  shows "length h = TAR_BLOCK" "tar_sum_ok h" "tar_name h = name" "tar_size h = n"
proof -
  let ?z = "replicate 512 (0 :: byte)"
  define h0 where "h0 = put_fields (tar_fields name n) ?z"
  define h1 where "h1 = blank_chksum h0"
  define s where "s = sum_list (map unat h1)"
  have fit: "length name < 100" "length (show_base 8 n) < 12"
    using assms(1) by (auto simp: tarHeader_def split: if_splits)
  have h: "h = overwrite h1 148 (c_string (zero_pad 6 (show_base 8 s)))"
    using assms(1)
    by (auto simp: tarHeader_def tarCheckSum_def h0_def h1_def s_def Let_def model_defs split: if_splits)
  have d: "length (zero_pad 11 (show_base 8 n)) = 11" "length (zero_pad 7 (show_base 8 384)) = 7"
    "length (zero_pad 11 (show_base 8 0)) = 11"
    using fit show_base_length [of 8 384 7] show_base_length [of 8 0 11]
    by (auto simp: length_zero_pad)
  have l0: "length h0 = 512"
    unfolding h0_def using fit d by (subst length_put_fields) (auto simp: tar_fields_def model_defs)
  then have l1: "length h1 = 512" by (simp add: h1_def blank_chksum_def model_defs)
  have "s \<le> 255 * 512" using sum_bytes_less [of h1] l1 by (simp add: s_def)
  then have sd: "length (zero_pad 6 (show_base 8 s)) = 6"
    using show_base_length [of 8 s 6] by (simp add: length_zero_pad)
  show len: "length h = TAR_BLOCK" using h l1 sd by (simp add: model_defs)
  have "blank_chksum h = h1"
    using h l1 sd l0 by (simp add: h1_def blank_chksum_def model_defs overwrite_longer)
  moreover have "region h 148 6 = bytes_of (zero_pad 6 (show_base 8 s))"
  proof -
    have "region h 148 7 = c_string (zero_pad 6 (show_base 8 s))"
      using region_overwrite_same [of 148 "c_string (zero_pad 6 (show_base 8 s))" h1] h l1 sd by simp
    then have "take 6 (region h 148 7) = bytes_of (zero_pad 6 (show_base 8 s))"
      using sd by (simp add: c_string_def)
    then show ?thesis by (simp add: region_def min_def)
  qed
  ultimately show "tar_sum_ok h"
    by (simp add: tar_sum_ok_def model_defs s_def base_value_pad base_value_show)
  have keep: "region h a k = region h0 a k" if "a + k \<le> 148 \<or> 156 \<le> a" for a k
  proof -
    have "region h a k = region h1 a k"
      unfolding h using l1 sd that by (intro region_overwrite_disjoint) (auto simp: model_defs)
    also have "\<dots> = region h0 a k"
      unfolding h1_def blank_chksum_def using l0 that
      by (intro region_overwrite_disjoint) (auto simp: model_defs)
    finally show ?thesis .
  qed
  have "region h0 124 12 = c_string (zero_pad 11 (show_base 8 n))"
  proof -
    let ?h = "put_fields (take 2 (tar_fields name n)) ?z"
    have "length ?h = 512"
      using fit d by (subst length_put_fields) (auto simp: tar_fields_def model_defs)
    moreover have h0: "h0 = put_fields (drop 3 (tar_fields name n))
        (overwrite ?h 124 (c_string (zero_pad 11 (show_base 8 n))))"
      by (simp add: h0_def put_fields_def tar_fields_def model_defs)
    moreover have "region (overwrite ?h 124 (c_string (zero_pad 11 (show_base 8 n)))) 124 12
        = c_string (zero_pad 11 (show_base 8 n))"
      using region_overwrite_same [of 124 "c_string (zero_pad 11 (show_base 8 n))" ?h] d
        \<open>length ?h = 512\<close> by simp
    ultimately show ?thesis
      using d by (subst h0) (subst region_put_fields; auto simp: tar_fields_def model_defs)
  qed
  then have "take 11 (region h0 124 12) = bytes_of (zero_pad 11 (show_base 8 n))"
    using d by (simp add: c_string_def)
  then have "region h 124 11 = bytes_of (zero_pad 11 (show_base 8 n))"
    by (simp add: keep) (simp add: region_def min_def)
  then show "tar_size h = n"
    by (simp add: tar_size_def model_defs base_value_pad base_value_show)
  have "region h0 0 100 = region (overwrite ?z 0 (c_string name)) 0 100"
  proof -
    have "h0 = put_fields (drop 1 (tar_fields name n)) (overwrite ?z 0 (c_string name))"
      by (simp add: h0_def put_fields_def tar_fields_def model_defs)
    then show ?thesis
      using fit d by (simp only:) (subst region_put_fields; auto simp: tar_fields_def model_defs)
  qed
  also have "\<dots> = take 100 (bytes_of name @ 0 # replicate (511 - length name) 0)"
    using fit by (simp add: region_def overwrite_def c_string_def)
  finally have nm: "region h 0 100 = bytes_of name @ 0 # replicate (99 - length name) 0"
    using fit keep [of 0 100] by (simp add: take_Cons' min_def) 
  have "0 \<notin> set (bytes_of name)"
  proof
    assume "0 \<in> set (bytes_of name)"
    then obtain c where "c \<in> set name" "(of_char c :: byte) = 0" by (auto simp: bytes_of_def)
    then have "c = char_of (0 :: nat)" using char_byte [of c] by simp
    also have "\<dots> = CHR 0x00" by (simp add: char_of_def)
    finally show False using assms(2) \<open>c \<in> set name\<close> by simp
  qed
  then have "takeWhile (\<lambda>b. b \<noteq> 0) (region h 0 100) = bytes_of name"
    unfolding nm by (subst takeWhile_append2) auto
  then show "tar_name h = name" by (simp add: tar_name_def model_defs)
qed

lemma tarHeader_fits: "tarHeader name n \<noteq> None \<longleftrightarrow> length name < 100 \<and> n < 8 ^ 11"
proof -
  have "length (show_base 8 n) < 12 \<longleftrightarrow> n < 8 ^ 11"
  proof
    assume l: "length (show_base 8 n) < 12"
    have "base_value 8 (show_base 8 n) < 8 ^ length (show_base 8 n)"
      by (intro base_value_less show_base_digits) simp_all
    also have "(8 :: nat) ^ length (show_base 8 n) \<le> 8 ^ 11"
      using l by (intro power_increasing) simp_all
    finally show "n < 8 ^ 11" by (simp add: base_value_show)
  next
    assume "n < 8 ^ 11"
    then show "length (show_base 8 n) < 12" using show_base_length [of 8 n 11] by simp
  qed
  then show ?thesis by (auto simp: tarHeader_def not_le split: prod.split)
qed

section \<open>The archive is read back\<close>

lemma out_write_all: "out_write bs (out, []) = (int (length bs), out @ bs, [])"
  by (simp add: out_write_def)

lemma write_all_append: "write_all bss (out, []) = (out @ concat bss, [])"
  by (induction bss arbitrary: out) (simp_all add: write_all_def out_write_all)

lemma tar_copy_all: "tar_copy rest n (out, []) = (n + length rest, out @ rest, [])"
proof (induction "length rest" arbitrary: rest n out rule: less_induct)
  case less
  show ?case
  proof (cases "rest = []")
    case True
    then show ?thesis by (simp add: tar_copy.simps)
  next
    case False
    let ?k = "min BUFSIZE (length rest)"
    have k: "0 < ?k" using False by (simp add: BUFSIZE_def)
    then have "tar_copy rest n (out, []) = tar_copy (drop ?k rest) (n + ?k) (out @ take ?k rest, [])"
      by (subst tar_copy.simps) (simp add: out_write_all Let_def del: min_less_iff_conj)
    also have "\<dots> = (n + ?k + length (drop ?k rest), (out @ take ?k rest) @ drop ?k rest, [])"
      using k False by (intro less) simp
    finally show ?thesis by simp
  qed
qed

definition archived :: "(string \<times> (nat \<times> byte list) option) list \<Rightarrow> (string \<times> byte list) list" where
  "archived fs = map (\<lambda>(n, f). (n, snd (the f)))
     (filter (\<lambda>(n, f). f \<noteq> None \<and> \<not> hidden n) fs)"

text \<open>Files that keep their size.\<close>

definition sizes_ok :: "(string \<times> (nat \<times> byte list) option) list \<Rightarrow> bool" where
  "sizes_ok fs \<longleftrightarrow> (\<forall>(n, f) \<in> set fs. case f of None \<Rightarrow> True | Some (st_size, c) \<Rightarrow> st_size = length c)"

lemma archived_Cons:
  "archived ((n, f) # fs) = (if f \<noteq> None \<and> \<not> hidden n
     then (n, snd (the f)) # archived fs else archived fs)"
  by (simp add: archived_def)

definition tar_entry :: "byte list \<Rightarrow> byte list \<Rightarrow> byte list" where
  "tar_entry h c = h @ c @ replicate (pad_len (length c)) 0"

lemma pad_to_multiple:
  assumes "0 < (b :: nat)"
  shows "(n + (b - n mod b) mod b) mod b = 0"
proof (cases "n mod b = 0")
  case True
  then show ?thesis by simp
next
  case False
  then have "b - n mod b < b" using assms by simp
  then have "(b - n mod b) mod b = b - n mod b" by (rule mod_less)
  moreover have "n mod b \<le> b" using assms by (simp add: less_imp_le)
  then have "n + (b - n mod b) = n div b * b + b"
    using div_mult_mod_eq [of n b] by linarith
  ultimately show ?thesis by simp
qed

lemma pad_len_mod: "(n + pad_len n) mod TAR_BLOCK = 0"
  unfolding pad_len_def by (rule pad_to_multiple) (simp add: TAR_BLOCK_def)

lemma pad_len_shift:
  assumes "m mod TAR_BLOCK = 0"
  shows "pad_len (m + TAR_BLOCK + n) = pad_len n"
proof -
  obtain k where "m = TAR_BLOCK * k" using assms by auto
  then have "m + TAR_BLOCK + n = n + TAR_BLOCK * (k + 1)" by simp
  then have "(m + TAR_BLOCK + n) mod TAR_BLOCK = n mod TAR_BLOCK"
    by (metis mod_mult_self2)
  then show ?thesis by (simp add: pad_len_def)
qed

lemma tar_read_entry:
  assumes "tarHeader name (length c) = Some h" "CHR 0x00 \<notin> set name"
  shows "tar_read (tar_entry h c @ arc) = map_option ((#) (name, c)) (tar_read arc)"
proof -
  note r = tarHeader_reads [OF assms]
  have "h \<noteq> []" using r(1) by (auto simp: TAR_BLOCK_def)
  then show ?thesis
    using r by (subst tar_read.simps) (simp add: tar_entry_def Let_def)
qed

lemma tar_files_archive:
  assumes "\<forall>(n, c) \<in> set (archived fs). length n < 100 \<and> length c < 8 ^ 11 \<and> CHR 0x00 \<notin> set n"
    and "tarLen mod TAR_BLOCK = 0" "sizes_ok fs"
  shows "\<exists>arc. tar_files fs tarLen (out, []) = Some (out @ arc, []) \<and> tar_read arc = Some (archived fs)
    \<and> length arc mod TAR_BLOCK = 0"
  using assms
proof (induction fs arbitrary: tarLen out)
  case Nil
  show ?case by (simp add: archived_def tar_read.simps)
next
  case (Cons e fs)
  obtain n f where e: "e = (n, f)" by (cases e)
  show ?case
  proof (cases "f \<noteq> None \<and> \<not> hidden n")
    case False
    then show ?thesis using Cons by (cases f) (auto simp: e archived_Cons sizes_ok_def)
  next
    case True
    then obtain c where c: "f = Some (length c, c)" using Cons.prems(3) by (auto simp: e sizes_ok_def)
    have fit: "length n < 100" "length c < 8 ^ 11" "CHR 0x00 \<notin> set n"
      using Cons.prems(1) True c by (simp_all add: e archived_Cons)
    then obtain h where h: "tarHeader n (length c) = Some h"
      using tarHeader_fits [of n "length c"] by auto
    note len = tarHeader_reads(1) [OF h fit(3)]
    let ?k = "pad_len (length c)"
    let ?t = "tarLen + TAR_BLOCK + length c"
    have k: "pad_len ?t = ?k" "(?t + ?k) mod TAR_BLOCK = 0"
      using pad_len_shift [OF Cons.prems(2), of "length c"] pad_len_mod [of ?t] by simp_all
    have "\<exists>arc. tar_files fs (?t + ?k) (out @ tar_entry h c, []) = Some ((out @ tar_entry h c) @ arc, [])
        \<and> tar_read arc = Some (archived fs) \<and> length arc mod TAR_BLOCK = 0"
      using Cons.prems(1,3) True k(2) by (intro Cons.IH) (simp_all add: e archived_Cons sizes_ok_def)
    then obtain arc where arc: "tar_files fs (?t + ?k) (out @ tar_entry h c, [])
        = Some (out @ tar_entry h c @ arc, [])"
      "tar_read arc = Some (archived fs)" "length arc mod TAR_BLOCK = 0"
      by auto
    have "tar_files (e # fs) tarLen (out, []) = tar_files fs (?t + ?k) (out @ tar_entry h c, [])"
      using True c h len k(1)
      by (simp add: e out_write_all write_all_append tar_copy_all tar_entry_def
          Let_def TAR_BLOCK_def concat_replicate_single)
    moreover have "tar_read (tar_entry h c @ arc) = Some (archived (e # fs))"
      using tar_read_entry [OF h fit(3)] arc(2) True c by (simp add: e archived_Cons)
    moreover have "length (tar_entry h c @ arc) mod TAR_BLOCK = 0"
      using len arc(3) pad_len_mod [of "length c"]
      by (simp add: tar_entry_def mod_add_right_eq [symmetric, of _ "length arc"] add.assoc [symmetric])
        (simp add: add.assoc)
    ultimately show ?thesis using arc(1) by (intro exI [of _ "tar_entry h c @ arc"]) simp
  qed
qed

lemma tar_files_unfit:
  assumes "\<exists>(n, c) \<in> set (archived fs). \<not> (length n < 100 \<and> length c < 8 ^ 11)" "sizes_ok fs"
  shows "tar_files fs tarLen (out, []) = None"
  using assms
proof (induction fs arbitrary: tarLen out)
  case (Cons e fs)
  obtain n f where e: "e = (n, f)" by (cases e)
  show ?case
  proof (cases "f \<noteq> None \<and> \<not> hidden n")
    case False
    then show ?thesis using Cons by (cases f) (auto simp: e archived_Cons sizes_ok_def)
  next
    case True
    then obtain c where c: "f = Some (length c, c)" using Cons.prems(2) by (auto simp: e sizes_ok_def)
    show ?thesis
    proof (cases "tarHeader n (length c)")
      case None
      then show ?thesis using True c by (simp add: e)
    next
      case (Some h)
      then have "\<exists>(n, c) \<in> set (archived fs). \<not> (length n < 100 \<and> length c < 8 ^ 11)"
        using Cons.prems(1) True c tarHeader_fits [of n "length c"] by (auto simp: e archived_Cons)
      then show ?thesis
        using Cons.IH Cons.prems(2) True c Some
        by (simp add: e out_write_all write_all_append tar_copy_all sizes_ok_def Let_def)
    qed
  qed
qed (simp add: archived_def)

text \<open>
  C28: a reader of the archive finds exactly the files of the directory that can
  be opened and are not hidden, each with its name and contents, in the order of
  the directory, and the archive is a whole number of blocks. It can be made
  exactly if every such name has less than 100 characters and every such file
  less than 8 GiB. The files do not change while they are read.
\<close>

theorem tar_round_trip:
  assumes "\<forall>(n, f) \<in> set files. CHR 0x00 \<notin> set n" "sizes_ok files"
  shows "(createTarFile None files [] \<noteq> None \<longleftrightarrow>
      (\<forall>(n, c) \<in> set (archived files). length n < 100 \<and> length c < 8 ^ 11))
    \<and> (\<forall>arc rest. createTarFile None files [] = Some (arc, rest) \<longrightarrow>
        tar_read arc = Some (archived files) \<and> length arc mod 512 = 0)"
proof (cases "\<forall>(n, c) \<in> set (archived files). length n < 100 \<and> length c < 8 ^ 11")
  case True
  have "\<forall>(n, c) \<in> set (archived files). length n < 100 \<and> length c < 8 ^ 11 \<and> CHR 0x00 \<notin> set n"
  proof (rule ballI)
    fix x assume x: "x \<in> set (archived files)"
    obtain n c where nc: "x = (n, c)" by (cases x)
    have "CHR 0x00 \<notin> set n" using assms(1) x nc by (auto simp: archived_def)
    then show "case x of (n, c) \<Rightarrow> length n < 100 \<and> length c < 8 ^ 11 \<and> CHR 0x00 \<notin> set n"
      using True x unfolding nc prod.case by blast
  qed
  from tar_files_archive [OF this _ assms(2), of 0 "[]"] True show ?thesis
    by (auto simp: createTarFile_def over_old_def TAR_BLOCK_def)
next
  case False
  then have "tar_files files 0 ([], []) = None" using assms(2) by (intro tar_files_unfit) auto
  then have "createTarFile None files [] = None" by (simp add: createTarFile_def)
  then show ?thesis using False by (simp only: option.distinct simp_thms)
qed

text \<open>
  A directory is archived too, with the size it has on the disk and no contents: what
  comes next in the archive is taken for its contents.
\<close>

lemma subdirectory_breaks_archive:
  assumes "length d < 100" "CHR 0x00 \<notin> set d" "\<not> hidden d"
  shows "\<exists>arc. createTarFile None [(d, Some (4096, []))] [] = Some (arc, []) \<and> tar_read arc = None"
proof -
  obtain h where h: "tarHeader d 4096 = Some h" using tarHeader_fits [of d 4096] assms(1) by auto
  note r = tarHeader_reads [OF h assms(2)]
  have "h \<noteq> []" using r(1) by (auto simp: TAR_BLOCK_def)
  then have "tar_read h = None" using r by (subst tar_read.simps) (simp add: Let_def)
  moreover have "createTarFile None [(d, Some (4096, []))] [] = Some (h, [])"
    using h assms(3) r(1)
    by (simp add: createTarFile_def out_write_all tar_copy_all write_all_append over_old_def pad_len_def
        TAR_BLOCK_def Let_def)
  ultimately show ?thesis by blast
qed

end
