(* ===== verification/Dumpstate.thy ===== *)
theory Dumpstate
  imports Dump_Actions Dump_Tar Text
    "HOL-Library.AList" "HOL-Library.Char_ord" "HOL-Library.List_Lexorder"
begin

text \<open>
  The bug report device (dumpstate/DumpstateDevice.cpp): copying files, collecting
  the newest logs, the modem thread and the entry points of the interface.

  The state holds the files (paths and contents; a directory lists its files in
  the order they have here), the directories, the properties, the outcomes of the
  calls to come, and what was done: the report's parts, the property settings and
  log directories of the modem thread in order, and the bytes the modem
  descriptor got. Outside programs, the reading of booleans and integers and the
  readability of nodes are parameters (\<open>dump_env\<close>). The thread and the report share
  no state, so the thread is run where it is created.
\<close>

datatype modem_act =
    SetProperty string string
  | DumpLogs string
  | CreateTar string
  | RunModem "string list"

type_synonym file_table = "(string \<times> byte list) list \<times> string list"

record dump_env =
  GetBool :: "string \<Rightarrow> bool \<Rightarrow> bool"
  GetInt :: "string \<Rightarrow> int \<Rightarrow> int"
  IsUserBuild :: bool
  run_effect :: "string list \<Rightarrow> file_table \<Rightarrow> file_table"
  dir_size :: "string \<Rightarrow> nat"
  waited :: "string \<Rightarrow> (string \<Rightarrow> string) \<Rightarrow> (string \<Rightarrow> string)"
  touch_readable :: "dump_act list \<Rightarrow> string \<Rightarrow> bool"
  log_readable :: "string \<Rightarrow> bool"
  modes :: "int list"
  mode_WEAR :: int
  mode_DEFAULT :: int

record dstate =
  d_files :: "(string \<times> byte list) list"
  d_dirs :: "string list"
  d_props :: "string \<Rightarrow> string"
  d_sched :: "outcome list"
  d_acts :: "dump_act list"
  m_acts :: "modem_act list"
  d_modem :: "byte list"
  d_exit :: bool

definition d_next :: "dstate \<Rightarrow> outcome \<times> dstate" where
  "d_next st = (case d_sched st of [] \<Rightarrow> (Succeeds, st) | x # xs \<Rightarrow> (x, st\<lparr>d_sched := xs\<rparr>))"

section \<open>Paths\<close>

definition join :: "string \<Rightarrow> string \<Rightarrow> string" where
  "join dir name = dir @ ''/'' @ name"

definition basename :: "string \<Rightarrow> string" where
  "basename path = rev (takeWhile (\<lambda>c. c \<noteq> CHR ''/'') (rev path))"

definition parent :: "string \<Rightarrow> string" where
  "parent path = rev (tl (dropWhile (\<lambda>c. c \<noteq> CHR ''/'') (rev path)))"

definition dir_entries :: "string \<Rightarrow> (string \<times> byte list) list \<Rightarrow> (string \<times> byte list) list" where
  "dir_entries dir files =
     map (\<lambda>(p, c). (basename p, c)) (filter (\<lambda>(p, c). p = join dir (basename p)) files)"

definition subdirs :: "string \<Rightarrow> string list \<Rightarrow> string list" where
  "subdirs dir dirs = map basename (filter (\<lambda>p. basename p \<noteq> [] \<and> p = join dir (basename p)) dirs)"

text \<open>What a directory lists besides its two dot entries: files and directories.\<close>

definition entry_names :: "string \<Rightarrow> dstate \<Rightarrow> string list" where
  "entry_names dir st = map fst (dir_entries dir (d_files st)) @ subdirs dir (d_dirs st)"

section \<open>Copying\<close>

text \<open>Reading a directory fails after it was opened, which ends a copy as an empty file does.\<close>

definition open_read :: "string \<Rightarrow> dstate \<Rightarrow> byte list option \<times> dstate" where
  "open_read path st =
     (case d_next st of (x, st) \<Rightarrow>
        (if x = Fails then None
         else case map_of (d_files st) path of
             Some c \<Rightarrow> Some c
           | None \<Rightarrow> if path \<in> set (d_dirs st) then Some [] else None, st))"

text \<open>\<open>O_WRONLY | O_CREAT\<close>: a missing file is made, the contents of an old one stay.\<close>

definition open_write :: "string \<Rightarrow> dstate \<Rightarrow> bool \<times> dstate" where
  "open_write path st =
     (case d_next st of (x, st) \<Rightarrow>
        if x = Fails \<or> path \<in> set (d_dirs st) then (False, st)
        else if map_of (d_files st) path \<noteq> None then (True, st)
        else if parent path \<in> set (d_dirs st) then
          (True, st\<lparr>d_files := d_files st @ [(path, [])]\<rparr>)
        else (False, st))"

definition put_file :: "string \<Rightarrow> byte list \<Rightarrow> dstate \<Rightarrow> dstate" where
  "put_file path new st =
     st\<lparr>d_files := AList.update path (over_old new (map_of (d_files st) path)) (d_files st)\<rparr>"

text \<open>
  The loop of reads and writes: \<open>rest\<close> is what is left to read, \<open>out\<close> what was
  written. A write that fails is not repeated.
\<close>

function copy_loop :: "byte list \<Rightarrow> byte list \<Rightarrow> outcome list \<Rightarrow> byte list \<times> outcome list" where
  "copy_loop rest out sched =
     (let (x, sched) = (case sched of [] \<Rightarrow> (Succeeds, []) | x # xs \<Rightarrow> (x, xs));
          size = transferred x (min BUFSIZE (length rest)) in
      if x = Fails \<or> size = 0 then (out, sched)
      else case out_write (take size rest) (out, sched) of
        (r, out, sched) \<Rightarrow> copy_loop (drop size rest) out sched)"
  by auto
termination
  by (relation "measure (\<lambda>(rest, out, sched). length rest)")
    (auto simp: transferred_shrinks)

declare copy_loop.simps [simp del]

definition copyFile :: "string \<Rightarrow> string \<Rightarrow> dstate \<Rightarrow> dstate" where
  "copyFile srcFile destFile st =
     (case open_read srcFile st of (src, st) \<Rightarrow>
      case src of None \<Rightarrow> st | Some content \<Rightarrow>
        (case open_write destFile st of (ok, st) \<Rightarrow>
           if \<not> ok then st
           else case copy_loop content [] (d_sched st) of (out, sched) \<Rightarrow>
             (put_file destFile out st)\<lparr>d_sched := sched\<rparr>))"

section \<open>The newest logs\<close>

text \<open>
  \<open>scandir\<close> with \<open>alphasort\<close>, in the C locale; a directory always has its two
  dot entries.
\<close>

definition scandir :: "string \<Rightarrow> dstate \<Rightarrow> string list option \<times> dstate" where
  "scandir dir st =
     (case d_next st of (x, st) \<Rightarrow>
        (if x = Fails \<or> dir \<notin> set (d_dirs st) then None
         else Some (sort (''.'' # ''..'' # entry_names dir st)), st))"

fun dump_loop ::
  "string \<Rightarrow> string \<Rightarrow> int \<Rightarrow> string \<Rightarrow> string list \<Rightarrow> int \<Rightarrow> dstate \<Rightarrow> dstate" where
  "dump_loop srcDir destDir maxFileNum logPrefix [] copiedFiles st = st"
| "dump_loop srcDir destDir maxFileNum logPrefix (name # names) copiedFiles st =
     (if \<not> starts_with name logPrefix then
        dump_loop srcDir destDir maxFileNum logPrefix names copiedFiles st
      else if maxFileNum \<le> copiedFiles \<and> maxFileNum \<noteq> - 1 then
        dump_loop srcDir destDir maxFileNum logPrefix names copiedFiles st
      else
        dump_loop srcDir destDir maxFileNum logPrefix names (copiedFiles + 1)
          (copyFile (join srcDir name) (join destDir name) st))"

definition dumpLogs :: "string \<Rightarrow> string \<Rightarrow> int \<Rightarrow> string \<Rightarrow> dstate \<Rightarrow> dstate" where
  "dumpLogs srcDir destDir maxFileNum logPrefix st =
     (let st = st\<lparr>m_acts := m_acts st @ [DumpLogs srcDir]\<rparr> in
      case scandir srcDir st of
        (None, st) \<Rightarrow> st
      | (Some names, st) \<Rightarrow> dump_loop srcDir destDir maxFileNum logPrefix (rev names) 0 st)"

section \<open>Properties and commands\<close>

definition GetProperty :: "string \<Rightarrow> string \<Rightarrow> dstate \<Rightarrow> string" where
  "GetProperty key default_value st = (if d_props st key = [] then default_value else d_props st key)"

definition GetBoolProperty :: "dump_env \<Rightarrow> string \<Rightarrow> bool \<Rightarrow> dstate \<Rightarrow> bool" where
  "GetBoolProperty E key default_value st = GetBool E (d_props st key) default_value"

definition GetIntProperty :: "dump_env \<Rightarrow> string \<Rightarrow> int \<Rightarrow> dstate \<Rightarrow> int" where
  "GetIntProperty E key default_value st = GetInt E (d_props st key) default_value"

definition set_prop :: "string \<Rightarrow> string \<Rightarrow> dstate \<Rightarrow> dstate" where
  "set_prop key v st =
     (case d_next st of (x, st) \<Rightarrow>
        if x = Fails then st else st\<lparr>d_props := (d_props st)(key := v)\<rparr>)"

definition modem_set :: "string \<Rightarrow> string \<Rightarrow> dstate \<Rightarrow> dstate" where
  "modem_set key v st = set_prop key v (st\<lparr>m_acts := m_acts st @ [SetProperty key v]\<rparr>)"

text \<open>Waiting for a property: others may set properties meanwhile; the result is only logged.\<close>

definition WaitForProperty :: "dump_env \<Rightarrow> string \<Rightarrow> dstate \<Rightarrow> dstate" where
  "WaitForProperty E key st = st\<lparr>d_props := waited E key (d_props st)\<rparr>"

definition run_modem :: "dump_env \<Rightarrow> string list \<Rightarrow> dstate \<Rightarrow> dstate" where
  "run_modem E args st =
     (case run_effect E args (d_files st, d_dirs st) of (files, dirs) \<Rightarrow>
        st\<lparr>d_files := files, d_dirs := dirs, m_acts := m_acts st @ [RunModem args]\<rparr>)"

section \<open>The modem thread\<close>

definition MODEM_LOG_PREFIX_PROPERTY :: string where
  "MODEM_LOG_PREFIX_PROPERTY = ''ro.vendor.radio.log_prefix''"
definition MODEM_LOG_LOC_PROPERTY :: string where
  "MODEM_LOG_LOC_PROPERTY = ''ro.vendor.radio.log_loc''"
definition DIAG_MDLOG_PERSIST_PROPERTY :: string where
  "DIAG_MDLOG_PERSIST_PROPERTY = ''persist.vendor.sys.modem.diag.mdlog''"
definition DIAG_MDLOG_PROPERTY :: string where
  "DIAG_MDLOG_PROPERTY = ''vendor.sys.modem.diag.mdlog''"
definition DIAG_MDLOG_STATUS_PROPERTY :: string where
  "DIAG_MDLOG_STATUS_PROPERTY = ''vendor.sys.modem.diag.mdlog_on''"
definition DIAG_MDLOG_NUMBER_BUGREPORT :: string where
  "DIAG_MDLOG_NUMBER_BUGREPORT = ''persist.vendor.sys.modem.diag.mdlog_br_num''"
definition TCPDUMP_NUMBER_BUGREPORT :: string where
  "TCPDUMP_NUMBER_BUGREPORT = ''persist.vendor.tcpdump.log.br_num''"
definition TCPDUMP_PERSIST_PROPERTY :: string where
  "TCPDUMP_PERSIST_PROPERTY = ''persist.vendor.tcpdump.log.alwayson''"
definition MODEM_EFS_DUMP_PROPERTY :: string where
  "MODEM_EFS_DUMP_PROPERTY = ''vendor.sys.modem.diag.efsdump''"
definition VENDOR_VERBOSE_LOGGING_ENABLED_PROPERTY :: string where
  "VENDOR_VERBOSE_LOGGING_ENABLED_PROPERTY = ''persist.vendor.verbose_logging_enabled''"
definition DIAG_LOG_PREFIX :: string where "DIAG_LOG_PREFIX = ''diag_log_''"
definition TCPDUMP_LOG_PREFIX :: string where "TCPDUMP_LOG_PREFIX = ''tcpdump''"
definition EXTENDED_LOG_PREFIX :: string where "EXTENDED_LOG_PREFIX = ''extended_log_''"

definition diagLogDir :: string where
  "diagLogDir = ''/data/vendor/radio/diag_logs/logs''"
definition diagPoweronLogPath :: string where
  "diagPoweronLogPath = ''/data/vendor/radio/diag_logs/logs/diag_poweron_log.qmdl''"
definition tcpdumpLogDir :: string where
  "tcpdumpLogDir = ''/data/vendor/tcpdump_logger/logs''"
definition extendedLogDir :: string where
  "extendedLogDir = ''/data/vendor/radio/extended_logs''"

definition rilAndNetmgrLogs :: "string list" where
  "rilAndNetmgrLogs =
     [''/data/vendor/radio/haldebug_ril0'',
      ''/data/vendor/radio/haldebug_ril1'',
      ''/data/vendor/radio/ril_log0'',
      ''/data/vendor/radio/ril_log0_old'',
      ''/data/vendor/radio/ril_log1'',
      ''/data/vendor/radio/ril_log1_old'',
      ''/data/vendor/radio/qmi_fw_log'',
      ''/data/vendor/radio/qmi_fw_log_old'',
      ''/data/vendor/radio/imsdatadaemon_log'',
      ''/data/vendor/radio/imsdatadaemon_log_old'',
      ''/data/vendor/netmgr/netmgr_log'',
      ''/data/vendor/netmgr/netmgr_log_old'',
      ''/data/vendor/radio/omadm_logs.txt'',
      ''/data/vendor/radio/power_anomaly_data.txt'',
      ''/data/vendor/radio/diag_logs/diag_trace.txt'',
      ''/data/vendor/radio/diag_logs/diag_trace_old.txt'',
      ''/data/vendor/radio/metrics_data'',
      ''/data/vendor/ssrlog/ssr_log.txt'',
      ''/data/vendor/ssrlog/ssr_log_old.txt'',
      ''/data/vendor/rfs/mpss/modem_efs'']"

text \<open>Stopping the logger, as far as it runs.\<close>

definition stop_mdlog :: "dump_env \<Rightarrow> bool \<Rightarrow> bool \<Rightarrow> dstate \<Rightarrow> dstate" where
  "stop_mdlog E diagLogEnabled diagLogStarted st =
     (if diagLogEnabled \<and> diagLogStarted then
        WaitForProperty E DIAG_MDLOG_STATUS_PROPERTY (modem_set DIAG_MDLOG_PROPERTY ''false'' st)
      else st)"

definition diag_logs :: "dump_env \<Rightarrow> string \<Rightarrow> bool \<Rightarrow> bool \<Rightarrow> dstate \<Rightarrow> dstate" where
  "diag_logs E modemLogAllDir diagLogEnabled diagLogStarted st =
     (let st = (if \<not> diagLogEnabled then st
        else
          let st = dumpLogs diagLogDir modemLogAllDir
            (GetIntProperty E DIAG_MDLOG_NUMBER_BUGREPORT 100 st) DIAG_LOG_PREFIX st
          in if diagLogStarted then modem_set DIAG_MDLOG_PROPERTY ''true'' st else st)
      in copyFile diagPoweronLogPath (join modemLogAllDir (basename diagPoweronLogPath)) st)"

definition debug_logs :: "dump_env \<Rightarrow> string \<Rightarrow> dstate \<Rightarrow> dstate" where
  "debug_logs E modemLogAllDir st =
     (if IsUserBuild E then st
      else
        let st = modem_set MODEM_EFS_DUMP_PROPERTY ''true'' st;
            st = (if GetBoolProperty E TCPDUMP_PERSIST_PROPERTY False st
              then dumpLogs tcpdumpLogDir modemLogAllDir
                (GetIntProperty E TCPDUMP_NUMBER_BUGREPORT 5 st) TCPDUMP_LOG_PREFIX st
              else st);
            st = fold (\<lambda>logFile st. copyFile logFile (join modemLogAllDir (basename logFile)) st)
              rilAndNetmgrLogs st;
            st = dumpLogs extendedLogDir modemLogAllDir 100 EXTENDED_LOG_PREFIX st
        in modem_set MODEM_EFS_DUMP_PROPERTY ''false'' st)"

text \<open>
  \<open>createTarFile\<close> on the entries of the directory: files, with their size and contents,
  and directories, with the size they have on the disk and nothing to read. Which of
  them can be opened is decided first, an outcome for each, then the reads and writes
  take theirs.
\<close>

definition tar_entries :: "dump_env \<Rightarrow> string \<Rightarrow> dstate \<Rightarrow> (string \<times> nat \<times> byte list) list" where
  "tar_entries E dir st = map (\<lambda>(n, c). (n, length c, c)) (dir_entries dir (d_files st))
     @ map (\<lambda>n. (n, dir_size E (join dir n), [])) (subdirs dir (d_dirs st))"

fun open_all :: "(string \<times> 'a) list \<Rightarrow> outcome list \<Rightarrow> (string \<times> 'a option) list \<times> outcome list" where
  "open_all [] sched = ([], sched)"
| "open_all ((n, c) # es) [] = (map (\<lambda>(n, c). (n, Some c)) ((n, c) # es), [])"
| "open_all ((n, c) # es) (x # sched) =
     (case open_all es sched of (fs, rest) \<Rightarrow> ((n, if x = Fails then None else Some c) # fs, rest))"

text \<open>An archive in the directory it is made of would be read into itself: no result.\<close>

definition create_tar :: "dump_env \<Rightarrow> string \<Rightarrow> string \<Rightarrow> dstate \<Rightarrow> dstate option" where
  "create_tar E tarFile srcDir st =
     (let st = st\<lparr>m_acts := m_acts st @ [CreateTar tarFile]\<rparr> in
      case d_next st of (x, st) \<Rightarrow>
      if x = Fails \<or> srcDir \<notin> set (d_dirs st) then Some st
      else case open_write tarFile st of (ok, st) \<Rightarrow>
        if \<not> ok then Some st
        else if parent tarFile = srcDir then None
        else
          let (files, sched) = open_all (tar_entries E srcDir st) (d_sched st)
          in map_option
            (\<lambda>(arc, sched). st\<lparr>d_files := AList.update tarFile arc (d_files st), d_sched := sched\<rparr>)
            (createTarFile (map_of (d_files st) tarFile) files sched))"

text \<open>The log is read and written piece by piece until a write is not complete.\<close>

function send_loop :: "byte list \<Rightarrow> byte list \<Rightarrow> outcome list \<Rightarrow> byte list \<times> outcome list" where
  "send_loop rest out sched =
     (let (x, sched) = (case sched of [] \<Rightarrow> (Succeeds, []) | x # xs \<Rightarrow> (x, xs));
          bytes_read = transferred x (min 65536 (length rest)) in
      if x = Fails \<or> bytes_read = 0 then (out, sched)
      else case out_write (take bytes_read rest) (out, sched) of
        (r, out, sched) \<Rightarrow>
          if r \<noteq> int bytes_read then (out, sched) else send_loop (drop bytes_read rest) out sched)"
  by auto
termination
  by (relation "measure (\<lambda>(rest, out, sched). length rest)")
    (auto simp: transferred_shrinks)

declare send_loop.simps [simp del]

definition send_modem :: "string \<Rightarrow> dstate \<Rightarrow> dstate" where
  "send_modem path st =
     (case open_read path st of (log, st) \<Rightarrow>
      case log of None \<Rightarrow> st | Some content \<Rightarrow>
        (case send_loop content (d_modem st) (d_sched st) of (out, sched) \<Rightarrow>
           st\<lparr>d_modem := out, d_sched := sched\<rparr>))"

definition collect_modem_logs :: "dump_env \<Rightarrow> string \<Rightarrow> dstate \<Rightarrow> dstate" where
  "collect_modem_logs E modemLogAllDir st =
     (let diagLogEnabled = GetBoolProperty E DIAG_MDLOG_PERSIST_PROPERTY False st;
          diagLogStarted = GetBoolProperty E DIAG_MDLOG_STATUS_PROPERTY False st;
          st = stop_mdlog E diagLogEnabled diagLogStarted st;
          st = run_modem E [''/vendor/bin/mkdir'', ''-p'', modemLogAllDir] st;
          st = diag_logs E modemLogAllDir diagLogEnabled diagLogStarted st
      in debug_logs E modemLogAllDir st)"

definition dumpModemThread :: "dump_env \<Rightarrow> dstate \<Rightarrow> dstate option" where
  "dumpModemThread E st =
     (let modemLogDir = GetProperty MODEM_LOG_LOC_PROPERTY [] st;
          filePrefix = GetProperty MODEM_LOG_PREFIX_PROPERTY [] st;
          modemLogCombined = modemLogDir @ ''/'' @ filePrefix @ ''all.tar'';
          modemLogAllDir = modemLogDir @ ''/modem_log'' in
      if modemLogDir = [] then Some st
      else if filePrefix = [] then Some st
      else
        case create_tar E modemLogCombined modemLogAllDir (collect_modem_logs E modemLogAllDir st) of
          None \<Rightarrow> None
        | Some st \<Rightarrow>
            let st = send_modem modemLogCombined st;
                st = run_modem E [''/vendor/bin/rm'', ''-r'', modemLogAllDir] st
            in Some (run_modem E [''/vendor/bin/rm'', modemLogCombined] st))"

section \<open>The interface\<close>

definition getVerboseLoggingEnabled :: "dump_env \<Rightarrow> dstate \<Rightarrow> bool" where
  "getVerboseLoggingEnabled E st =
     GetBoolProperty E VENDOR_VERBOSE_LOGGING_ENABLED_PROPERTY False st"

definition setVerboseLoggingEnabled :: "bool \<Rightarrow> dstate \<Rightarrow> dstate" where
  "setVerboseLoggingEnabled enable st =
     set_prop VENDOR_VERBOSE_LOGGING_ENABLED_PROPERTY (if enable then ''true'' else ''false'') st"

datatype dump_status = OK | ILLEGAL_ARGUMENT | UNSUPPORTED_MODE

text \<open>A thread that cannot be created is only logged.\<close>

definition start_modem :: "dump_env \<Rightarrow> int list \<Rightarrow> dstate \<Rightarrow> dstate option" where
  "start_modem E fds st =
     (if getVerboseLoggingEnabled E st \<and> 2 \<le> length fds then
        (case d_next st of (x, st) \<Rightarrow> if x = Fails then Some st else dumpModemThread E st)
      else Some st)"

definition dumpstateBoard_1_1 ::
  "dump_env \<Rightarrow> int list option \<Rightarrow> int \<Rightarrow> dstate \<Rightarrow> (dump_status \<times> dstate) option" where
  "dumpstateBoard_1_1 E handle mode st =
     (let st = st\<lparr>d_exit := True\<rparr> in
      case handle of
        None \<Rightarrow> Some (ILLEGAL_ARGUMENT, st)
      | Some [] \<Rightarrow> Some (ILLEGAL_ARGUMENT, st)
      | Some (fd # fds) \<Rightarrow>
          if fd < 0 then Some (ILLEGAL_ARGUMENT, st)
          else if mode \<notin> set (modes E) then Some (ILLEGAL_ARGUMENT, st)
          else if mode = mode_WEAR E then Some (UNSUPPORTED_MODE, st)
          else
            let st = st\<lparr>d_acts := d_acts st @
              [RunCommand ''Notify modem'' [''/vendor/bin/modem_svc'', ''-s''] (Some 1)]\<rparr>
            in map_option
              (\<lambda>st. (OK, st\<lparr>d_acts := d_acts st @ board_acts (touch_readable E) (log_readable E)\<rparr>))
              (start_modem E (fd # fds) st))"

definition dumpstateBoard :: "dump_env \<Rightarrow> int list option \<Rightarrow> dstate \<Rightarrow> dstate option" where
  "dumpstateBoard E handle st = map_option snd (dumpstateBoard_1_1 E handle (mode_DEFAULT E) st)"

end
