(* ===== verification/Dump_Laws.thy ===== *)
theory Dump_Laws
  imports Dumpstate
begin

text \<open>
  What the bug report device does: the newest logs are copied, the loggers it
  stops are started again, the modem descriptor gets the archive of the collected
  files, and the touch controller is given back.
\<close>

section \<open>Paths and copies\<close>

lemma basename_no_slash: "CHR ''/'' \<notin> set (basename p)"
  by (auto simp: basename_def dest: set_takeWhileD)

lemma takeWhile_join:
  "CHR ''/'' \<notin> set n \<Longrightarrow> takeWhile (\<lambda>c. c \<noteq> CHR ''/'') (n @ CHR ''/'' # d) = n"
  "CHR ''/'' \<notin> set n \<Longrightarrow> dropWhile (\<lambda>c. c \<noteq> CHR ''/'') (n @ CHR ''/'' # d) = CHR ''/'' # d"
  by (induction n) auto

lemma takeWhile_rev_join:
  assumes "CHR ''/'' \<notin> set n"
  shows "takeWhile (\<lambda>c. c \<noteq> CHR ''/'') (rev (join d n)) = rev n
    \<and> dropWhile (\<lambda>c. c \<noteq> CHR ''/'') (rev (join d n)) = CHR ''/'' # rev d"
  using assms takeWhile_join [of "rev n" "rev d"] by (simp add: join_def)

lemma basename_join: "CHR ''/'' \<notin> set n \<Longrightarrow> basename (join d n) = n"
  using takeWhile_rev_join [of n d] by (simp add: basename_def)

lemma parent_join: "CHR ''/'' \<notin> set n \<Longrightarrow> parent (join d n) = d"
  using takeWhile_rev_join [of n d] by (simp add: parent_def)

lemma copy_loop_all: "copy_loop rest out [] = (out @ rest, [])"
proof (induction "length rest" arbitrary: rest out rule: less_induct)
  case less
  show ?case
  proof (cases "rest = []")
    case True
    then show ?thesis by (simp add: copy_loop.simps)
  next
    case False
    let ?k = "min BUFSIZE (length rest)"
    have k: "0 < ?k" using False by (simp add: BUFSIZE_def)
    then have "copy_loop rest out [] = copy_loop (drop ?k rest) (out @ take ?k rest) []"
      by (subst copy_loop.simps) (simp add: out_write_all Let_def del: min_less_iff_conj)
    also have "\<dots> = ((out @ take ?k rest) @ drop ?k rest, [])"
      using k False by (intro less) simp
    finally show ?thesis by simp
  qed
qed

lemma map_of_append_new:
  "map_of fs p = None \<Longrightarrow> map_of (fs @ [(p, v)]) = (map_of fs)(p \<mapsto> v)"
  by (auto simp: map_add_def fun_eq_iff split: option.split)

text \<open>What reading gives: the contents of a file, nothing for a directory.\<close>

definition source_text :: "dstate \<Rightarrow> string \<Rightarrow> byte list" where
  "source_text st p = (case map_of (d_files st) p of Some c \<Rightarrow> c | None \<Rightarrow> [])"

definition there :: "dstate \<Rightarrow> string \<Rightarrow> bool" where
  "there st p \<longleftrightarrow> map_of (d_files st) p \<noteq> None \<or> p \<in> set (d_dirs st)"

text \<open>A copy in which no call fails.\<close>

lemma copyFile_ok:
  assumes "d_sched st = []" "there st src" "source_text st src = c"
    "dest \<notin> set (d_dirs st)" "parent dest \<in> set (d_dirs st)"
  shows "\<exists>fs. copyFile src dest st = st\<lparr>d_files := fs, d_sched := []\<rparr>
    \<and> map_of fs = (map_of (d_files st))(dest \<mapsto> over_old c (map_of (d_files st) dest))"
proof -
  have src: "open_read src st = (Some c, st)"
    using assms(1-3) by (auto simp: open_read_def d_next_def there_def source_text_def split: option.splits)
  show ?thesis
  proof (cases "map_of (d_files st) dest")
    case None
    let ?fs = "AList.update dest c (d_files st @ [(dest, [])])"
    have "copyFile src dest st = st\<lparr>d_files := ?fs, d_sched := []\<rparr>"
      using assms None
      by (simp add: copyFile_def src open_write_def d_next_def copy_loop_all put_file_def
          over_old_def map_of_append_new del: map_of_append)
    moreover have "map_of ?fs = (map_of (d_files st))(dest \<mapsto> c)"
      using None by (simp add: update_conv' map_of_append_new del: map_of_append)
    ultimately show ?thesis using None by (auto simp: over_old_def)
  next
    case (Some old)
    let ?fs = "AList.update dest (over_old c (Some old)) (d_files st)"
    have "copyFile src dest st = st\<lparr>d_files := ?fs, d_sched := []\<rparr>"
      using assms Some
      by (simp add: copyFile_def src open_write_def d_next_def copy_loop_all put_file_def)
    then show ?thesis using Some by (auto simp: update_conv')
  qed
qed

text \<open>Whatever fails, a copy changes only files.\<close>

definition only_files :: "dstate \<Rightarrow> dstate \<Rightarrow> bool" where
  "only_files st st' \<longleftrightarrow> st' = st\<lparr>d_files := d_files st', d_sched := d_sched st'\<rparr>"

lemma only_files_refl [simp]: "only_files st st"
  by (simp add: only_files_def)

lemma only_files_trans [trans]: "only_files a b \<Longrightarrow> only_files b c \<Longrightarrow> only_files a c"
  by (cases a; cases b; cases c) (simp add: only_files_def)

lemma only_files_update [simp]:
  "only_files st (st\<lparr>d_files := fs\<rparr>)" "only_files st (st\<lparr>d_sched := xs\<rparr>)"
  by (simp_all add: only_files_def)

lemma only_files_same:
  assumes "only_files st st'"
  shows "d_dirs st' = d_dirs st" "d_props st' = d_props st" "m_acts st' = m_acts st"
    "d_modem st' = d_modem st" "d_acts st' = d_acts st" "d_exit st' = d_exit st"
  using assms by (cases st; cases st'; simp add: only_files_def)+

lemma only_files_next: "only_files st (snd (d_next st))"
  by (simp add: d_next_def split: list.split)

lemma only_files_open_read: "only_files st (snd (open_read p st))"
  using only_files_next [of st] by (cases "d_next st") (simp add: open_read_def)

lemma only_files_open_write: "only_files st (snd (open_write p st))"
proof -
  obtain x st1 where n: "d_next st = (x, st1)" by (cases "d_next st")
  then have "only_files st st1" using only_files_next [of st] by simp
  then show ?thesis
    by (auto simp: open_write_def n intro: only_files_trans [OF _ only_files_update(1)])
qed

lemma only_files_copy: "only_files st (copyFile src dest st)"
proof -
  obtain x st1 where r: "open_read src st = (x, st1)" by (cases "open_read src st")
  obtain ok st2 where w: "open_write dest st1 = (ok, st2)" by (cases "open_write dest st1")
  have 1: "only_files st st1" using only_files_open_read [of st src] r by simp
  have 2: "only_files st st2"
    using only_files_trans [OF 1, of st2] only_files_open_write [of st1 dest] w by simp
  have 3: "only_files st2 ((put_file dest out st2)\<lparr>d_sched := sched\<rparr>)" for out sched
    by (rule only_files_trans [OF _ only_files_update(2)]) (simp add: put_file_def)
  show ?thesis
    using 1 2 only_files_trans [OF 2 3]
    by (simp add: copyFile_def r w split: option.split prod.split)
qed

lemma only_files_fold:
  "(\<And>x st. only_files st (f x st)) \<Longrightarrow> only_files st (fold f xs st)"
  by (induction xs arbitrary: st) (auto intro: only_files_trans)

section \<open>The newest logs\<close>

lemma dir_entries_names:
  assumes "n \<in> set (map fst (dir_entries d fs))"
  shows "CHR ''/'' \<notin> set n" "join d n \<in> fst ` set fs"
proof -
  obtain p c where "(p, c) \<in> set fs" "p = join d (basename p)" "n = basename p"
    using assms by (auto simp: dir_entries_def)
  then show "CHR ''/'' \<notin> set n" "join d n \<in> fst ` set fs"
    using basename_no_slash [of p] by force+
qed

lemma distinct_dir_entries:
  assumes "distinct (map fst fs)"
  shows "distinct (map fst (dir_entries d fs))"
proof -
  let ?P = "\<lambda>(p, c :: byte list). p = join d (basename p)"
  have "map fst (dir_entries d fs) = map basename (map fst (filter ?P fs))"
    by (simp add: dir_entries_def comp_def case_prod_beta)
  moreover have "inj_on basename (set (map fst (filter ?P fs)))"
  proof (rule inj_onI)
    fix x y
    assume a: "x \<in> set (map fst (filter ?P fs))" "y \<in> set (map fst (filter ?P fs))"
      "basename x = basename y"
    then have "x = join d (basename x)" "y = join d (basename y)" by auto
    then show "x = y" using a(3) by simp
  qed
  moreover have "distinct (map fst (filter ?P fs))"
    using assms by (rule distinct_map_filter)
  ultimately show ?thesis by (simp only:) (blast intro: distinct_map [THEN iffD2])
qed

lemma subdirs_names:
  assumes "n \<in> set (subdirs d dirs)"
  shows "CHR ''/'' \<notin> set n" "join d n \<in> set dirs"
  using assms basename_no_slash by (auto simp: subdirs_def)

lemma distinct_subdirs: "distinct dirs \<Longrightarrow> distinct (subdirs d dirs)"
proof -
  assume "distinct dirs"
  moreover have "inj_on basename {p \<in> set dirs. basename p \<noteq> [] \<and> p = join d (basename p)}"
    by (rule inj_onI) (metis (mono_tags, lifting) mem_Collect_eq)
  ultimately show ?thesis by (simp add: subdirs_def distinct_map)
qed

lemma entry_names_there:
  assumes "n \<in> set (entry_names d st)"
  shows "CHR ''/'' \<notin> set n" "there st (join d n)"
proof -
  from assms consider "n \<in> set (map fst (dir_entries d (d_files st)))" | "n \<in> set (subdirs d (d_dirs st))"
    by (auto simp: entry_names_def)
  then have "CHR ''/'' \<notin> set n \<and> there st (join d n)"
    by cases (use dir_entries_names [of n d "d_files st"] subdirs_names [of n d "d_dirs st"] in
      \<open>auto simp: there_def map_of_eq_None_iff\<close>)
  then show "CHR ''/'' \<notin> set n" "there st (join d n)" by simp_all
qed

lemma distinct_entry_names:
  assumes "distinct (map fst (d_files st) @ d_dirs st)"
  shows "distinct (entry_names d st)"
proof -
  have "set (map fst (dir_entries d (d_files st))) \<inter> set (subdirs d (d_dirs st)) = {}"
    using dir_entries_names(2) [of _ d "d_files st"] subdirs_names(2) [of _ d "d_dirs st"] assms by auto
  then show ?thesis
    using assms distinct_dir_entries [of "d_files st" d] distinct_subdirs [of "d_dirs st" d]
    by (simp add: entry_names_def)
qed

text \<open>The logs of a directory with the prefix, newest first, as many as are wanted.\<close>

definition newest_logs :: "int \<Rightarrow> string \<Rightarrow> string list \<Rightarrow> string list" where
  "newest_logs maxFileNum pre names =
     (let logs = rev (sort (filter (\<lambda>n. starts_with n pre) names))
      in if maxFileNum = - 1 then logs else take (nat maxFileNum) logs)"

lemma dump_loop_fold:
  "0 \<le> k \<Longrightarrow> dump_loop src dest m pre names k st =
    fold (\<lambda>n. copyFile (join src n) (join dest n))
      (let logs = filter (\<lambda>n. starts_with n pre) names
       in if m = - 1 then logs else take (nat (m - k)) logs) st"
proof (induction src dest m pre names k st rule: dump_loop.induct)
  case (2 src dest m pre name names k st)
  note IH = 2(1-3) and k = 2(4)
  consider "\<not> starts_with name pre" | "starts_with name pre" "m \<le> k \<and> m \<noteq> - 1"
    | "starts_with name pre" "\<not> (m \<le> k \<and> m \<noteq> - 1)" by blast
  then show ?case
  proof cases
    case 1
    then show ?thesis using IH(1) k by simp
  next
    case 2
    then show ?thesis using IH(2) k by simp
  next
    case 3
    have n: "nat (m - k) = Suc (nat (m - (k + 1)))" if "m \<noteq> - 1" using that 3(2) by linarith
    show ?thesis
    proof (cases "m = - 1")
      case True
      then show ?thesis using IH(3) [OF _ 3(2)] 3 k by (simp add: Let_def)
    next
      case False
      then show ?thesis using IH(3) [OF _ 3(2)] 3 k n [OF False] by (simp add: Let_def)
    qed
  qed
qed simp

lemma logs_of_scan:
  assumes "\<not> starts_with ''.'' pre" "\<not> starts_with ''..'' pre"
  shows "filter (\<lambda>n. starts_with n pre) (rev (sort (''.'' # ''..'' # names)))
    = rev (sort (filter (\<lambda>n. starts_with n pre) names))"
  using assms by (simp only: rev_filter [symmetric] filter_sort) simp

lemma dumpLogs_fold:
  assumes "d_sched st = []" "src \<in> set (d_dirs st)"
    "\<not> starts_with ''.'' pre" "\<not> starts_with ''..'' pre"
  shows "dumpLogs src dest m pre st =
    fold (\<lambda>n. copyFile (join src n) (join dest n))
      (newest_logs m pre (entry_names src st))
      (st\<lparr>m_acts := m_acts st @ [DumpLogs src]\<rparr>)"
  using assms logs_of_scan [OF assms(3,4), of "entry_names src st"]
  by (simp add: dumpLogs_def scandir_def entry_names_def d_next_def dump_loop_fold newest_logs_def Let_def)

text \<open>Copying several files to another directory.\<close>

lemma copy_all:
  assumes "d_sched st = []" "dest \<in> set (d_dirs st)" "src \<noteq> dest" "distinct ns"
    "\<forall>n \<in> set ns. CHR ''/'' \<notin> set n \<and> join dest n \<notin> set (d_dirs st)
      \<and> there st (join src n)"
  shows "\<exists>fs. fold (\<lambda>n. copyFile (join src n) (join dest n)) ns st = st\<lparr>d_files := fs, d_sched := []\<rparr>
    \<and> (\<forall>p. map_of fs p = (if p \<in> join dest ` set ns
        then Some (over_old (source_text st (join src (basename p))) (map_of (d_files st) p))
        else map_of (d_files st) p))"
  using assms
proof (induction ns arbitrary: st)
  case Nil
  then show ?case by (intro exI [of _ "d_files st"]) simp
next
  case (Cons n ns)
  have n: "CHR ''/'' \<notin> set n" "join dest n \<notin> set (d_dirs st)" using Cons.prems(5) by auto
  let ?c = "source_text st (join src n)"
  have c: "there st (join src n)" using Cons.prems(5) by auto
  obtain fs where fs: "copyFile (join src n) (join dest n) st = st\<lparr>d_files := fs, d_sched := []\<rparr>"
    "map_of fs = (map_of (d_files st))(join dest n \<mapsto> over_old ?c (map_of (d_files st) (join dest n)))"
    using copyFile_ok [OF Cons.prems(1) c refl n(2)] Cons.prems(2) by (auto simp: parent_join [OF n(1)])
  have other: "join src a \<noteq> join dest b" if "CHR ''/'' \<notin> set a" "CHR ''/'' \<notin> set b" for a b
    using parent_join [OF that(1), of src] parent_join [OF that(2), of dest] Cons.prems(3) by auto
  let ?st = "st\<lparr>d_files := fs, d_sched := []\<rparr>"
  have "\<exists>fs'. fold (\<lambda>n. copyFile (join src n) (join dest n)) ns ?st = ?st\<lparr>d_files := fs', d_sched := []\<rparr>
    \<and> (\<forall>p. map_of fs' p = (if p \<in> join dest ` set ns
        then Some (over_old (source_text ?st (join src (basename p))) (map_of (d_files ?st) p))
        else map_of (d_files ?st) p))"
    using Cons.prems fs(2) other n(1) by (intro Cons.IH) (auto simp: there_def)
  then obtain fs' where fs': "fold (\<lambda>n. copyFile (join src n) (join dest n)) (n # ns) st
      = st\<lparr>d_files := fs', d_sched := []\<rparr>"
    "\<And>p. map_of fs' p = (if p \<in> join dest ` set ns
        then Some (over_old (source_text ?st (join src (basename p))) (map_of fs p)) else map_of fs p)"
    using fs(1) by auto
  have "map_of fs' p = (if p \<in> join dest ` set (n # ns)
        then Some (over_old (source_text st (join src (basename p))) (map_of (d_files st) p))
        else map_of (d_files st) p)" for p
  proof (cases "p \<in> join dest ` set ns")
    case True
    then obtain k where k: "p = join dest k" "k \<in> set ns" by auto
    have ks: "CHR ''/'' \<notin> set k" "k \<noteq> n" using k Cons.prems(4,5) by auto
    then have "p \<noteq> join dest n" using k by (simp add: join_def)
    moreover have "join src k \<noteq> join dest n" using other ks n by auto
    ultimately show ?thesis
      using True ks by (simp add: fs'(2) fs(2) k basename_join source_text_def)
  next
    case False
    then show ?thesis by (auto simp: fs'(2) fs(2) basename_join [OF n(1)])
  qed
  then show ?case using fs'(1) by blast
qed

lemma set_newest: "set (newest_logs m pre names) \<subseteq> {n \<in> set names. starts_with n pre}"
  by (auto simp: newest_logs_def Let_def dest!: in_set_takeD)

lemma distinct_newest: "distinct names \<Longrightarrow> distinct (newest_logs m pre names)"
  by (simp add: newest_logs_def Let_def)

lemma length_newest:
  "length (newest_logs m pre names) =
    (let k = length (filter (\<lambda>n. starts_with n pre) names) in if m = - 1 then k else min (nat m) k)"
  by (simp add: newest_logs_def Let_def min.commute)

lemma newest_first:
  assumes "n \<in> set names" "starts_with n pre" "n \<notin> set (newest_logs m pre names)"
    "k \<in> set (newest_logs m pre names)"
  shows "n \<le> k"
proof -
  let ?logs = "rev (sort (filter (\<lambda>n. starts_with n pre) names))"
  have m: "newest_logs m pre names = take (nat m) ?logs"
    using assms(1-3) by (auto simp: newest_logs_def Let_def split: if_splits)
  have "n \<in> set ?logs" using assms(1,2) by simp
  then have "n \<in> set (take (nat m) ?logs @ drop (nat m) ?logs)" by (simp only: append_take_drop_id)
  then have d: "n \<in> set (drop (nat m) ?logs)" using assms(3) m by (simp only: set_append) blast
  have "sorted_wrt (\<lambda>a b. b \<le> a) ?logs" by (simp add: sorted_wrt_rev)
  then have "sorted_wrt (\<lambda>a b. b \<le> a) (take (nat m) ?logs @ drop (nat m) ?logs)"
    by (simp only: append_take_drop_id)
  then show ?thesis using d assms(4) m by (simp only: sorted_wrt_append)
qed

text \<open>
  C27: without failing calls, collecting logs copies to the directory exactly the
  newest entries with the prefix, as many as are wanted, and changes no other file:
  every entry that is left out has a smaller name than every one that is copied. A
  copied file gets the new contents, but keeps what an older one had beyond them. A
  subdirectory with the prefix counts as an entry and is copied as an empty file.
\<close>

theorem dumpLogs_newest:
  fixes st :: dstate and maxFileNum :: int
  assumes "d_sched st = []" "distinct (map fst (d_files st) @ d_dirs st)"
    "srcDir \<in> set (d_dirs st)" "destDir \<in> set (d_dirs st)" "srcDir \<noteq> destDir"
    "\<not> starts_with ''.'' pre" "\<not> starts_with ''..'' pre"
    "\<forall>d \<in> set (d_dirs st). parent d \<noteq> destDir"
  defines "names \<equiv> map fst (dir_entries srcDir (d_files st)) @ subdirs srcDir (d_dirs st)"
    and "st' \<equiv> dumpLogs srcDir destDir maxFileNum pre st"
  shows "\<exists>ns. distinct ns \<and> set ns \<subseteq> {n \<in> set names. starts_with n pre}
    \<and> length ns = (let k = length (filter (\<lambda>n. starts_with n pre) names)
        in if maxFileNum = - 1 then k else min (nat maxFileNum) k)
    \<and> (\<forall>n \<in> set names. \<forall>k \<in> set ns. starts_with n pre \<longrightarrow> n \<notin> set ns \<longrightarrow> n \<le> k)
    \<and> (\<forall>p. map_of (d_files st') p = (if p \<in> join destDir ` set ns
        then Some (over_old (case map_of (d_files st) (join srcDir (basename p)) of Some c \<Rightarrow> c | None \<Rightarrow> [])
          (map_of (d_files st) p))
        else map_of (d_files st) p))
    \<and> st' = st\<lparr>d_files := d_files st', m_acts := m_acts st @ [DumpLogs srcDir]\<rparr>"
proof -
  let ?ns = "newest_logs maxFileNum pre names"
  let ?st = "st\<lparr>m_acts := m_acts st @ [DumpLogs srcDir]\<rparr>"
  have names: "names = entry_names srcDir st" by (simp add: names_def entry_names_def)
  have d: "distinct names" unfolding names using assms(2) by (rule distinct_entry_names)
  have "\<forall>n \<in> set ?ns. CHR ''/'' \<notin> set n \<and> join destDir n \<notin> set (d_dirs ?st) \<and> there ?st (join srcDir n)"
  proof
    fix n assume "n \<in> set ?ns"
    then have n: "n \<in> set names" using set_newest by blast
    note e = entry_names_there [OF n [unfolded names]]
    then have "parent (join destDir n) = destDir" by (intro parent_join)
    then have "join destDir n \<notin> set (d_dirs ?st)" using assms(8) by auto
    then show "CHR ''/'' \<notin> set n \<and> join destDir n \<notin> set (d_dirs ?st) \<and> there ?st (join srcDir n)"
      using e by (simp add: there_def)
  qed
  with copy_all [of ?st destDir srcDir ?ns] assms(1,4,5) distinct_newest [OF d]
  obtain fs where "fold (\<lambda>n. copyFile (join srcDir n) (join destDir n)) ?ns ?st
      = ?st\<lparr>d_files := fs, d_sched := []\<rparr>"
    and fs: "\<forall>p. map_of fs p = (if p \<in> join destDir ` set ?ns
        then Some (over_old (source_text st (join srcDir (basename p))) (map_of (d_files st) p))
        else map_of (d_files st) p)"
    by (auto simp: source_text_def)
  then have st': "st' = ?st\<lparr>d_files := fs, d_sched := []\<rparr>"
    unfolding st'_def using dumpLogs_fold [OF assms(1,3,6,7)] by (simp add: names)
  have "st' = st\<lparr>d_files := d_files st', m_acts := m_acts st @ [DumpLogs srcDir]\<rparr>"
    unfolding st' using assms(1) by (cases st) simp
  moreover have "\<forall>p. map_of (d_files st') p = (if p \<in> join destDir ` set ?ns
        then Some (over_old (case map_of (d_files st) (join srcDir (basename p)) of Some c \<Rightarrow> c | None \<Rightarrow> [])
          (map_of (d_files st) p))
        else map_of (d_files st) p)"
    using fs st' by (simp add: source_text_def)
  ultimately show ?thesis
    by (intro exI [of _ ?ns] conjI distinct_newest [OF d] set_newest length_newest ballI impI)
      (blast intro: newest_first)+
qed

section \<open>The modem thread\<close>

lemma set_prop_keeps [simp]:
  "m_acts (set_prop k v st) = m_acts st" "d_modem (set_prop k v st) = d_modem st"
  "d_acts (set_prop k v st) = d_acts st" "d_exit (set_prop k v st) = d_exit st"
  by (auto simp: set_prop_def d_next_def split: list.split)

lemma dump_loop_only_files: "only_files st (dump_loop src dest m pre names k st)"
  by (induction src dest m pre names k st rule: dump_loop.induct)
    (auto intro: only_files_trans only_files_copy)

lemma dumpLogs_only_files:
  "only_files (st\<lparr>m_acts := m_acts st @ [DumpLogs src]\<rparr>) (dumpLogs src dest m pre st)"
proof -
  let ?st = "st\<lparr>m_acts := m_acts st @ [DumpLogs src]\<rparr>"
  have "only_files ?st (snd (scandir src ?st))"
    using only_files_next [of ?st] by (cases "d_next ?st") (simp add: scandir_def)
  then show ?thesis
    by (cases "scandir src ?st")
      (auto simp: dumpLogs_def Let_def split: option.split intro: only_files_trans dump_loop_only_files)
qed

lemma collect_acts:
  "m_acts (stop_mdlog E en on st) = m_acts st @
    (if en \<and> on then [SetProperty DIAG_MDLOG_PROPERTY ''false''] else [])"
  "m_acts (diag_logs E dir en on st) = m_acts st @
    (if en then [DumpLogs diagLogDir] @
      (if on then [SetProperty DIAG_MDLOG_PROPERTY ''true''] else []) else [])"
  by (auto simp: stop_mdlog_def WaitForProperty_def modem_set_def diag_logs_def Let_def
      only_files_same [OF only_files_copy] only_files_same [OF dumpLogs_only_files])

lemma debug_acts:
  "\<exists>tcpdump. m_acts (debug_logs E dir st) = m_acts st @
    (if IsUserBuild E then []
     else [SetProperty MODEM_EFS_DUMP_PROPERTY ''true'']
       @ (if tcpdump then [DumpLogs tcpdumpLogDir] else [])
       @ [DumpLogs extendedLogDir, SetProperty MODEM_EFS_DUMP_PROPERTY ''false''])"
proof -
  have fold: "m_acts (fold (\<lambda>l. copyFile l (f l)) xs s) = m_acts s" for f xs s
    by (rule only_files_same(3)) (rule only_files_fold [OF only_files_copy])
  show ?thesis
    by (cases "GetBoolProperty E TCPDUMP_PERSIST_PROPERTY False (modem_set MODEM_EFS_DUMP_PROPERTY ''true'' st)")
      (auto simp: debug_logs_def Let_def modem_set_def fold only_files_same [OF dumpLogs_only_files]
        intro: exI [of _ True] exI [of _ False])
qed

lemma create_tar_only_files:
  assumes "create_tar E tarFile dir st = Some st'"
  shows "only_files (st\<lparr>m_acts := m_acts st @ [CreateTar tarFile]\<rparr>) st'"
proof -
  let ?st = "st\<lparr>m_acts := m_acts st @ [CreateTar tarFile]\<rparr>"
  obtain x st1 where n: "d_next ?st = (x, st1)" by (cases "d_next ?st")
  then have 1: "only_files ?st st1" using only_files_next [of ?st] by simp
  obtain ok st2 where w: "open_write tarFile st1 = (ok, st2)" by (cases "open_write tarFile st1")
  then have 2: "only_files ?st st2" using only_files_trans [OF 1] only_files_open_write [of st1 tarFile] by simp
  have 3: "only_files ?st (st2\<lparr>d_files := fs, d_sched := xs\<rparr>)" for fs xs
    by (rule only_files_trans [OF 2]) (simp add: only_files_def)
  show ?thesis
    using assms 1 2 3
    by (auto simp: create_tar_def n w Let_def split: if_splits prod.splits)
qed

lemma send_modem_keeps:
  "m_acts (send_modem p st) = m_acts st" "d_acts (send_modem p st) = d_acts st"
  "d_props (send_modem p st) = d_props st" "d_exit (send_modem p st) = d_exit st"
  using only_files_same [OF only_files_open_read [of st p]]
  by (cases "open_read p st"; auto simp: send_modem_def split: option.split prod.split)+

lemma run_modem_keeps [simp]:
  "m_acts (run_modem E args st) = m_acts st @ [RunModem args]" "d_acts (run_modem E args st) = d_acts st"
  "d_props (run_modem E args st) = d_props st" "d_modem (run_modem E args st) = d_modem st"
  "d_sched (run_modem E args st) = d_sched st" "d_exit (run_modem E args st) = d_exit st"
  by (auto simp: run_modem_def split: prod.split)

text \<open>
  C25: what the modem thread does outside of files, in order and whatever calls
  fail. Without a place or a prefix for the logs it does nothing. Otherwise the
  logger is stopped only when it is enabled and runs, its logs are collected while
  it is stopped, and it is started again; except in user builds, the dump of the
  modem's file system is switched on and off again around the other logs; last, the
  archive is made and both it and the collected files are removed.
\<close>

theorem modem_thread_switches:
  assumes "dumpModemThread E st = Some st'"
  defines "dir \<equiv> GetProperty MODEM_LOG_LOC_PROPERTY [] st"
    and "prefix \<equiv> GetProperty MODEM_LOG_PREFIX_PROPERTY [] st"
    and "enabled \<equiv> GetBoolProperty E DIAG_MDLOG_PERSIST_PROPERTY False st"
    and "running \<equiv> GetBoolProperty E DIAG_MDLOG_STATUS_PROPERTY False st"
  defines "tar \<equiv> dir @ ''/'' @ prefix @ ''all.tar''"
  shows "if dir = [] \<or> prefix = [] then st' = st
    else \<exists>tcpdump. m_acts st' = m_acts st
      @ (if enabled \<and> running then [SetProperty DIAG_MDLOG_PROPERTY ''false''] else [])
      @ [RunModem [''/vendor/bin/mkdir'', ''-p'', dir @ ''/modem_log'']]
      @ (if enabled then [DumpLogs diagLogDir] else [])
      @ (if enabled \<and> running then [SetProperty DIAG_MDLOG_PROPERTY ''true''] else [])
      @ (if IsUserBuild E then []
         else [SetProperty MODEM_EFS_DUMP_PROPERTY ''true'']
           @ (if tcpdump then [DumpLogs tcpdumpLogDir] else [])
           @ [DumpLogs extendedLogDir, SetProperty MODEM_EFS_DUMP_PROPERTY ''false''])
      @ [CreateTar tar, RunModem [''/vendor/bin/rm'', ''-r'', dir @ ''/modem_log''],
         RunModem [''/vendor/bin/rm'', tar]]"
proof (cases "dir = [] \<or> prefix = []")
  case True
  then show ?thesis
    using assms(1) by (auto simp: dumpModemThread_def dir_def prefix_def Let_def split: if_splits)
next
  case False
  let ?all = "dir @ ''/modem_log''"
  let ?st = "collect_modem_logs E ?all st"
  obtain st1 where t: "create_tar E tar ?all ?st = Some st1"
    and st': "st' = run_modem E [''/vendor/bin/rm'', tar]
      (run_modem E [''/vendor/bin/rm'', ''-r'', ?all] (send_modem tar st1))"
    using assms(1) False
    by (auto simp: dumpModemThread_def dir_def prefix_def tar_def Let_def split: option.splits)
  let ?mid = "diag_logs E ?all enabled running (run_modem E [''/vendor/bin/mkdir'', ''-p'', ?all]
      (stop_mdlog E enabled running st))"
  have c: "?st = debug_logs E ?all ?mid"
    by (simp add: collect_modem_logs_def Let_def enabled_def running_def)
  from debug_acts [of E ?all ?mid] obtain tcpdump where
    "m_acts ?st = m_acts ?mid @
    (if IsUserBuild E then []
     else [SetProperty MODEM_EFS_DUMP_PROPERTY ''true'']
       @ (if tcpdump then [DumpLogs tcpdumpLogDir] else [])
       @ [DumpLogs extendedLogDir, SetProperty MODEM_EFS_DUMP_PROPERTY ''false''])"
    unfolding c ..
  then show ?thesis
    using False only_files_same(3) [OF create_tar_only_files [OF t]]
    by (auto simp: st' send_modem_keeps collect_acts intro!: exI [of _ tcpdump])
qed

section \<open>What the modem gets\<close>

lemma send_loop_all: "send_loop rest out [] = (out @ rest, [])"
proof (induction "length rest" arbitrary: rest out rule: less_induct)
  case less
  show ?case
  proof (cases "rest = []")
    case True
    then show ?thesis by (simp add: send_loop.simps)
  next
    case False
    let ?k = "min 65536 (length rest)"
    have k: "0 < ?k" using False by simp
    then have "send_loop rest out [] = send_loop (drop ?k rest) (out @ take ?k rest) []"
      by (subst send_loop.simps) (simp add: out_write_all Let_def del: min_less_iff_conj)
    also have "\<dots> = ((out @ take ?k rest) @ drop ?k rest, [])"
      using k False by (intro less) simp
    finally show ?thesis by simp
  qed
qed

lemma open_all_ok: "open_all es [] = (map (\<lambda>(n, c). (n, Some c)) es, [])"
  by (cases es) auto

text \<open>
  Without failing calls, an operation that writes to a directory leaves the
  schedule empty, the directories and all files elsewhere as they were.
\<close>

definition writes_in :: "string \<Rightarrow> dstate \<Rightarrow> dstate \<Rightarrow> bool" where
  "writes_in dir st st' \<longleftrightarrow> (d_sched st = [] \<longrightarrow>
     d_sched st' = [] \<and> d_dirs st' = d_dirs st \<and> d_modem st' = d_modem st
     \<and> (\<forall>p. parent p \<noteq> dir \<longrightarrow> map_of (d_files st') p = map_of (d_files st) p))"

lemma writes_in_refl [simp]: "writes_in dir st st"
  by (simp add: writes_in_def)

lemma writes_in_trans: "writes_in dir a b \<Longrightarrow> writes_in dir b c \<Longrightarrow> writes_in dir a c"
  by (auto simp: writes_in_def)

lemma writes_in_copy:
  assumes "parent dest = dir"
  shows "writes_in dir st (copyFile src dest st)"
proof -
  have u: "map_of (AList.update dest v fs) p = map_of fs p" if "parent p \<noteq> dir" for v p fs
    using that assms by (auto simp: update_conv')
  have "map_of (d_files (copyFile src dest st)) p = map_of (d_files st) p
      \<and> d_sched (copyFile src dest st) = []"
    if "d_sched st = []" "parent p \<noteq> dir" for p
  proof -
    have "p \<noteq> dest" using assms that by auto
    then show ?thesis
      using that
      by (auto simp: copyFile_def open_read_def open_write_def d_next_def copy_loop_all put_file_def u
          map_of_append_new simp del: map_of_append split: option.split)
  qed
  moreover have "d_sched (copyFile src dest st) = []" if "d_sched st = []"
    using that
    by (auto simp: copyFile_def open_read_def open_write_def d_next_def copy_loop_all put_file_def
        split: option.split)
  ultimately show ?thesis
    using only_files_same [OF only_files_copy [of st src dest]] by (simp add: writes_in_def)
qed

lemma writes_in_dump_loop:
  "\<forall>n \<in> set names. CHR ''/'' \<notin> set n \<Longrightarrow> writes_in dest st (dump_loop src dest m pre names k st)"
  by (induction src dest m pre names k st rule: dump_loop.induct)
    (auto intro: writes_in_trans [OF writes_in_copy [OF parent_join]])

lemma writes_in_dumpLogs: "writes_in dest st (dumpLogs src dest m pre st)"
proof (cases "src \<in> set (d_dirs st)")
  case False
  then show ?thesis
    by (auto simp: dumpLogs_def scandir_def d_next_def writes_in_def Let_def)
next
  case True
  let ?st = "st\<lparr>m_acts := m_acts st @ [DumpLogs src]\<rparr>"
  let ?names = "rev (sort (''.'' # ''..'' # entry_names src st))"
  have "\<forall>n \<in> set ?names. CHR ''/'' \<notin> set n"
    using entry_names_there(1) by (simp only: set_rev set_sort) auto
  then have "writes_in dest ?st (dump_loop src dest m pre ?names 0 ?st)"
    by (rule writes_in_dump_loop)
  then show ?thesis
    using True
    by (simp add: writes_in_def dumpLogs_def scandir_def d_next_def entry_names_def Let_def)
qed

text \<open>One more step.\<close>

lemma writes_in_steps:
  "writes_in dir st st' \<Longrightarrow> parent dest = dir \<Longrightarrow> writes_in dir st (copyFile src dest st')"
  "writes_in dir st st' \<Longrightarrow> writes_in dir st (dumpLogs src dir m pre st')"
  "writes_in dir st st' \<Longrightarrow> writes_in dir st (modem_set k v st')"
  "writes_in dir st st' \<Longrightarrow> writes_in dir st (WaitForProperty E k st')"
  by (blast intro: writes_in_trans writes_in_copy)
    (blast intro: writes_in_trans writes_in_dumpLogs,
     simp add: writes_in_def modem_set_def set_prop_def d_next_def,
     simp add: writes_in_def WaitForProperty_def)

lemma writes_in_stop: "writes_in dir st (stop_mdlog E en on st)"
  by (auto simp: stop_mdlog_def intro!: writes_in_steps)

lemma writes_in_diag: "writes_in dir st (diag_logs E dir en on st)"
  by (auto simp: diag_logs_def Let_def parent_join basename_no_slash intro!: writes_in_steps)

lemma writes_in_logs:
  "writes_in dir st st' \<Longrightarrow>
    writes_in dir st (fold (\<lambda>l. copyFile l (join dir (basename l))) xs st')"
  by (induction xs arbitrary: st') (simp_all add: parent_join basename_no_slash writes_in_steps)

lemma writes_in_debug: "writes_in dir st (debug_logs E dir st)"
  by (auto simp: debug_logs_def Let_def intro!: writes_in_steps writes_in_logs)

text \<open>\<open>mkdir -p\<close> makes the directory when its parent exists and changes no file.\<close>

definition mkdir_law :: "dump_env \<Rightarrow> string \<Rightarrow> bool" where
  "mkdir_law E dir \<longleftrightarrow> (\<forall>files dirs. parent dir \<in> set dirs \<longrightarrow>
     fst (run_effect E [''/vendor/bin/mkdir'', ''-p'', dir] (files, dirs)) = files
     \<and> set (snd (run_effect E [''/vendor/bin/mkdir'', ''-p'', dir] (files, dirs))) = insert dir (set dirs))"

lemma collect_writes:
  assumes "d_sched st = []" "mkdir_law E dir" "parent dir \<in> set (d_dirs st)"
  defines "st1 \<equiv> collect_modem_logs E dir st"
  shows "d_sched st1 = []" "set (d_dirs st1) = insert dir (set (d_dirs st))" "d_modem st1 = d_modem st"
    "\<And>p. parent p \<noteq> dir \<Longrightarrow> map_of (d_files st1) p = map_of (d_files st) p"
proof -
  let ?en = "GetBoolProperty E DIAG_MDLOG_PERSIST_PROPERTY False st"
  let ?on = "GetBoolProperty E DIAG_MDLOG_STATUS_PROPERTY False st"
  define a where "a = stop_mdlog E ?en ?on st"
  define b where "b = run_modem E [''/vendor/bin/mkdir'', ''-p'', dir] a"
  define c where "c = diag_logs E dir ?en ?on b"
  have st1: "st1 = debug_logs E dir c"
    by (simp add: st1_def collect_modem_logs_def Let_def a_def b_def c_def)
  have a: "d_sched a = [] \<and> d_dirs a = d_dirs st \<and> d_modem a = d_modem st
      \<and> (\<forall>p. parent p \<noteq> dir \<longrightarrow> map_of (d_files a) p = map_of (d_files st) p)"
    using writes_in_stop [of dir st E ?en ?on] assms(1) by (simp add: writes_in_def a_def)
  then have b: "d_sched b = []" "set (d_dirs b) = insert dir (set (d_dirs a))" "d_files b = d_files a"
    "d_modem b = d_modem a"
    using assms(2) [unfolded mkdir_law_def, rule_format, of "d_dirs a" "d_files a"] assms(3)
    unfolding b_def run_modem_def by (simp_all add: case_prod_beta)
  have "writes_in dir b st1"
    unfolding st1 c_def by (rule writes_in_trans [OF writes_in_diag writes_in_debug])
  then show "d_sched st1 = []" "set (d_dirs st1) = insert dir (set (d_dirs st))"
    "d_modem st1 = d_modem st" "\<And>p. parent p \<noteq> dir \<Longrightarrow> map_of (d_files st1) p = map_of (d_files st) p"
    using a b by (simp_all add: writes_in_def)
qed

lemma dir_entries_append:
  "parent p \<noteq> dir \<Longrightarrow> dir_entries dir (files @ [(p, c)]) = dir_entries dir files"
  using parent_join [OF basename_no_slash [of p], of dir] by (auto simp: dir_entries_def)

lemma archived_all:
  "archived (map (\<lambda>(n, c). (n, Some c)) (map (\<lambda>(n, c). (n, length c, c)) es)) = filter (\<lambda>(n, c). \<not> hidden n) es"
  by (induction es) (auto simp: archived_def)

lemma sizes_ok_all: "sizes_ok (map (\<lambda>(n, c). (n, Some c)) (map (\<lambda>(n, c). (n, length c, c)) es))"
  by (auto simp: sizes_ok_def)

lemma no_subdirs: "\<forall>d \<in> set dirs. parent d \<noteq> dir \<Longrightarrow> subdirs dir dirs = []"
proof -
  assume "\<forall>d \<in> set dirs. parent d \<noteq> dir"
  then have "p \<noteq> join dir (basename p)" if "p \<in> set dirs" for p
    using parent_join [OF basename_no_slash [of p], of dir] that by metis
  then show ?thesis by (auto simp: subdirs_def filter_empty_conv)
qed

text \<open>The archive of a directory in a new file, made without failing calls.\<close>

lemma create_tar_reads:
  assumes "d_sched st = []" "dir \<in> set (d_dirs st)" "parent tarFile \<in> set (d_dirs st)"
    "tarFile \<notin> set (d_dirs st)" "map_of (d_files st) tarFile = None"
    "\<forall>(n, c) \<in> set (dir_entries dir (d_files st)). CHR 0x00 \<notin> set n"
    "\<forall>d \<in> set (d_dirs st). parent d \<noteq> dir"
    and st': "create_tar E tarFile dir st = Some st'"
  shows "\<exists>arc. map_of (d_files st') tarFile = Some arc \<and> d_sched st' = []
    \<and> tar_read arc = Some (filter (\<lambda>(n, c). \<not> hidden n) (dir_entries dir (d_files st)))"
proof -
  let ?es = "dir_entries dir (d_files st)"
  let ?fs = "map (\<lambda>(n, c). (n, Some c)) (map (\<lambda>(n, c). (n, length c, c)) ?es)"
  have p: "parent tarFile \<noteq> dir"
    using st' assms(1-5) by (auto simp: create_tar_def d_next_def open_write_def)
  have "tar_entries E dir (st\<lparr>m_acts := acts, d_files := d_files st @ [(tarFile, [])]\<rparr>)
      = map (\<lambda>(n, c). (n, length c, c)) ?es" for acts
    using dir_entries_append [OF p, of "d_files st" "[]"] no_subdirs [OF assms(7)] by (simp add: tar_entries_def)
  then have st'2: "map_option (\<lambda>(arc, sched). st\<lparr>m_acts := m_acts st @ [CreateTar tarFile],
      d_files := AList.update tarFile arc (d_files st @ [(tarFile, [])]), d_sched := sched\<rparr>)
      (createTarFile (Some []) ?fs []) = Some st'"
    using st' assms(1-5) p
    by (simp add: create_tar_def d_next_def open_write_def open_all_ok map_of_append_new
        del: map_of_append map_map)
  then obtain arc0 sched where t: "tar_files ?fs 0 ([], []) = Some (arc0, sched)"
    by (auto simp: createTarFile_def)
  have "\<forall>(n, c) \<in> set (archived ?fs). length n < 100 \<and> length c < 8 ^ 11 \<and> CHR 0x00 \<notin> set n"
  proof (rule ccontr)
    assume "\<not> ?thesis"
    then have "\<exists>(n, c) \<in> set (archived ?fs). \<not> (length n < 100 \<and> length c < 8 ^ 11)"
      using assms(6) unfolding archived_all by auto
    from tar_files_unfit [OF this sizes_ok_all, of 0 "[]"] t show False by simp
  qed
  from tar_files_archive [OF this _ sizes_ok_all, of 0 "[]"] t
  have r: "sched = [] \<and> tar_read arc0 = Some (archived ?fs)" by auto
  have "d_files st' = AList.update tarFile arc0 (d_files st @ [(tarFile, [])]) \<and> d_sched st' = []"
    using st'2 t r by (auto simp: createTarFile_def over_old_def)
  then show ?thesis using r unfolding archived_all by (auto simp: update_conv')
qed

text \<open>Making an archive of files that fit returns.\<close>

lemma create_tar_returns:
  assumes "d_sched st = []" "parent tarFile \<noteq> dir" "\<forall>d \<in> set (d_dirs st). parent d \<noteq> dir"
    "\<forall>(n, c) \<in> set (dir_entries dir (d_files st)). length n < 100 \<and> length c < 8 ^ 11 \<and> CHR 0x00 \<notin> set n"
  shows "create_tar E tarFile dir st \<noteq> None"
proof -
  let ?es = "dir_entries dir (d_files st)"
  let ?fs = "map (\<lambda>(n, c). (n, Some c)) (map (\<lambda>(n, c). (n, length c, c)) ?es)"
  have "\<forall>(n, c) \<in> set (archived ?fs). length n < 100 \<and> length c < 8 ^ 11 \<and> CHR 0x00 \<notin> set n"
    using assms(4) unfolding archived_all by auto
  from tar_files_archive [OF this _ sizes_ok_all, of 0 "[]"]
  obtain arc where "tar_files ?fs 0 ([], []) = Some (arc, [])" by auto
  then have "createTarFile old ?fs [] \<noteq> None" for old by (simp add: createTarFile_def)
  moreover have "tar_entries E dir (st\<lparr>m_acts := acts\<rparr>) = map (\<lambda>(n, c). (n, length c, c)) ?es"
    "tar_entries E dir (st\<lparr>m_acts := acts, d_files := d_files st @ [(tarFile, [])]\<rparr>)
      = map (\<lambda>(n, c). (n, length c, c)) ?es" for acts
    using dir_entries_append [OF assms(2), of "d_files st" "[]"] no_subdirs [OF assms(3)] by (simp_all add: tar_entries_def)
  ultimately show ?thesis
    using assms(1,2)
    by (auto simp: create_tar_def d_next_def open_write_def open_all_ok Let_def simp del: map_map)
qed

text \<open>
  C24: without failing calls, the descriptor of the modem gets, after what it has, a
  whole archive, and a reader finds in it exactly the files that were collected
  (but hidden ones), each with its contents. The directory of the logs must not have
  subdirectories, which would break the archive (\<open>subdirectory_breaks_archive\<close>).
\<close>

theorem modem_gets_archive:
  assumes "dumpModemThread E st = Some st'" "d_sched st = []"
  defines "dir \<equiv> GetProperty MODEM_LOG_LOC_PROPERTY [] st"
    and "prefix \<equiv> GetProperty MODEM_LOG_PREFIX_PROPERTY [] st"
  defines "collected \<equiv> dir_entries (dir @ ''/modem_log'')
      (d_files (collect_modem_logs E (dir @ ''/modem_log'') st))"
    and "tar \<equiv> join dir (prefix @ ''all.tar'')"
  assumes "dir \<noteq> []" "prefix \<noteq> []" "CHR ''/'' \<notin> set prefix" "dir \<in> set (d_dirs st)"
    "mkdir_law E (dir @ ''/modem_log'')"
    "tar \<notin> set (d_dirs st)" "map_of (d_files st) tar = None"
    "\<forall>(n, c) \<in> set collected. CHR 0x00 \<notin> set n"
    "\<forall>d \<in> set (d_dirs st). parent d \<noteq> dir @ ''/modem_log''"
  shows "\<exists>arc. d_modem st' = d_modem st @ arc
    \<and> tar_read arc = Some (filter (\<lambda>(n, c). \<not> hidden n) collected)"
proof -
  let ?all = "dir @ ''/modem_log''"
  let ?st = "collect_modem_logs E ?all st"
  have all: "?all = join dir ''modem_log''" by (simp add: join_def)
  have pa: "parent ?all = dir" unfolding all by (rule parent_join) simp
  have pt: "parent tar = dir" unfolding tar_def using assms(9) by (intro parent_join) simp
  have ne: "dir \<noteq> ?all" by simp
  have tar_all: "tar \<noteq> ?all"
  proof
    assume "tar = ?all"
    then have "prefix @ ''all.tar'' = ''modem_log''" by (simp add: tar_def join_def)
    then have "last (prefix @ ''all.tar'') = last ''modem_log''" by (rule arg_cong)
    then show False by simp
  qed
  obtain st1 where t: "create_tar E tar ?all ?st = Some st1"
    and st': "st' = run_modem E [''/vendor/bin/rm'', tar]
      (run_modem E [''/vendor/bin/rm'', ''-r'', ?all] (send_modem tar st1))"
    using assms(1,7,8)
    by (auto simp: dumpModemThread_def dir_def prefix_def tar_def join_def Let_def split: option.splits)
  note c = collect_writes [OF assms(2,11), unfolded pa, OF assms(10)]
  have "d_sched ?st = []" "?all \<in> set (d_dirs ?st)" "parent tar \<in> set (d_dirs ?st)"
    "tar \<notin> set (d_dirs ?st)" "map_of (d_files ?st) tar = None"
    using c assms(10,12,13) pt tar_all by auto
  note pre = this
  have "\<forall>d \<in> set (d_dirs ?st). parent d \<noteq> ?all" using c(2) assms(15) pa ne by auto
  from create_tar_reads [OF pre assms(14) [unfolded collected_def] this t] obtain arc where
    arc: "map_of (d_files st1) tar = Some arc" "d_sched st1 = []"
      "tar_read arc = Some (filter (\<lambda>(n, c). \<not> hidden n) collected)"
    by (auto simp: collected_def)
  have "d_modem st1 = d_modem st"
    using only_files_same(4) [OF create_tar_only_files [OF t]] c(3) by simp
  then have "d_modem st' = d_modem st @ arc"
    using arc by (simp add: st' send_modem_def open_read_def d_next_def send_loop_all)
  then show ?thesis using arc(3) by blast
qed

section \<open>The report\<close>

definition rejects :: "dump_env \<Rightarrow> int list option \<Rightarrow> int \<Rightarrow> dump_status" where
  "rejects E handle mode =
     (if handle = None \<or> handle = Some [] \<or> hd (the handle) < 0 \<or> mode \<notin> set (modes E)
      then ILLEGAL_ARGUMENT
      else if mode = mode_WEAR E then UNSUPPORTED_MODE else OK)"

lemma modem_keeps_report: "dumpModemThread E st = Some st' \<Longrightarrow> d_acts st' = d_acts st \<and> d_exit st' = d_exit st"
proof -
  assume r: "dumpModemThread E st = Some st'"
  have fold: "d_acts (fold (\<lambda>l. copyFile l (f l)) xs s) = d_acts s"
    "d_exit (fold (\<lambda>l. copyFile l (f l)) xs s) = d_exit s" for f xs s
    by (rule only_files_same, rule only_files_fold [OF only_files_copy])+
  have "d_acts (collect_modem_logs E dir st) = d_acts st \<and> d_exit (collect_modem_logs E dir st) = d_exit st" for dir
    by (auto simp: collect_modem_logs_def Let_def debug_logs_def diag_logs_def stop_mdlog_def
        WaitForProperty_def modem_set_def fold only_files_same [OF only_files_copy]
        only_files_same [OF dumpLogs_only_files])
  then show ?thesis
    using r only_files_same(5,6) [OF create_tar_only_files]
    by (auto simp: dumpModemThread_def Let_def send_modem_keeps split: if_splits option.splits)
qed

lemma board_touch:
  "\<exists>before mid after. board_acts tr lr = before @ touch_force @ mid @ touch_restore @ after
    \<and> list_all (\<lambda>a. \<not> uses_touch a) (before @ after)"
proof -
  let ?after = "DumpDisplay @ DumpF2FS @ DumpUFS @ DumpSensorLog lr
     @ [DumpFile ''INTERRUPTS'' ''/proc/interrupts''] @ DumpPower @ board_rest"
  obtain mid where "DumpTouch tr = touch_force @ mid @ touch_restore"
    by (auto simp: DumpTouch_def Let_def)
  then have "board_acts tr lr = board_first @ touch_force @ mid @ touch_restore @ ?after"
    by (simp add: board_acts_def)
  moreover have "list_all (\<lambda>a. \<not> uses_touch a) (board_first @ ?after)"
    by (simp only: list_all_append touch_elsewhere touch_ufs touch_rest touch_sensor simp_thms)
  ultimately show ?thesis by blast
qed

lemma start_modem_keeps:
  assumes "start_modem E fds st = Some st'"
  shows "d_acts st' = d_acts st \<and> d_exit st' = d_exit st"
proof -
  obtain x st1 where n: "d_next st = (x, st1)" by (cases "d_next st")
  then have "only_files st st1" using only_files_next [of st] by simp
  then show ?thesis
    using assms modem_keeps_report [of E st1 st'] only_files_same(5,6)
    by (auto simp: start_modem_def n split: if_splits)
qed

text \<open>An accepted request.\<close>

lemma board_accepts:
  "dumpstateBoard_1_1 E handle mode st =
    (if rejects E handle mode \<noteq> OK then Some (rejects E handle mode, st\<lparr>d_exit := True\<rparr>)
     else map_option
       (\<lambda>st. (OK, st\<lparr>d_acts := d_acts st @ board_acts (touch_readable E) (log_readable E)\<rparr>))
       (start_modem E (the handle) (st\<lparr>d_exit := True, d_acts := d_acts st @
         [RunCommand ''Notify modem'' [''/vendor/bin/modem_svc'', ''-s''] (Some 1)]\<rparr>)))"
proof (cases handle)
  case None
  then show ?thesis by (simp add: dumpstateBoard_1_1_def rejects_def)
next
  case (Some fds)
  then show ?thesis
    by (cases fds) (simp_all add: dumpstateBoard_1_1_def rejects_def Let_def)
qed

text \<open>
  C26: a request without a valid descriptor or mode, or for a watch, is refused and
  has no effect; either way the service ends afterwards. An accepted one reports
  the parts of the device in order, and while the report is made the touch
  controller is taken over before and given back after all commands that speak to
  it, whatever of its nodes can be read.
\<close>

theorem board_report:
  assumes "dumpstateBoard_1_1 E handle mode st = Some (status, st')"
  shows "status = rejects E handle mode \<and> d_exit st'
    \<and> (status \<noteq> OK \<longrightarrow> st' = st\<lparr>d_exit := True\<rparr>)
    \<and> (status = OK \<longrightarrow> (\<exists>before mid after.
      d_acts st' = d_acts st @ before @ touch_force @ mid @ touch_restore @ after
      \<and> list_all (\<lambda>a. \<not> uses_touch a) (before @ after)))"
proof (cases "rejects E handle mode = OK")
  case False
  then show ?thesis using assms by (auto simp: board_accepts)
next
  case True
  let ?n = "RunCommand ''Notify modem'' [''/vendor/bin/modem_svc'', ''-s''] (Some 1)"
  obtain st1 where s: "start_modem E (the handle) (st\<lparr>d_exit := True, d_acts := d_acts st @ [?n]\<rparr>) = Some st1"
    and st': "status = OK" "st' = st1\<lparr>d_acts := d_acts st1 @ board_acts (touch_readable E) (log_readable E)\<rparr>"
    using assms True by (auto simp: board_accepts)
  obtain before mid after where b: "board_acts (touch_readable E) (log_readable E)
      = before @ touch_force @ mid @ touch_restore @ after"
    "list_all (\<lambda>a. \<not> uses_touch a) (before @ after)"
    using board_touch by blast
  have "\<not> uses_touch ?n" by code_simp
  then have "list_all (\<lambda>a. \<not> uses_touch a) ((?n # before) @ after)" using b(2) by simp
  moreover have "d_acts st' = d_acts st @ (?n # before) @ touch_force @ mid @ touch_restore @ after"
    using st' start_modem_keeps [OF s] b(1) by simp
  ultimately have "\<exists>before mid after.
      d_acts st' = d_acts st @ before @ touch_force @ mid @ touch_restore @ after
      \<and> list_all (\<lambda>a. \<not> uses_touch a) (before @ after)" by blast
  then show ?thesis using True st' start_modem_keeps [OF s] by simp
qed

text \<open>
  The switch for verbose logging is read back as it was set. When it is off, or
  the modem has no descriptor of its own, a report touches no file, no property and
  no modem log.
\<close>

theorem verbose_logging_switch:
  assumes "d_sched st = []" "GetBool E ''true'' False" "\<not> GetBool E ''false'' False"
  shows "getVerboseLoggingEnabled E (setVerboseLoggingEnabled enable st) = enable
    \<and> (\<not> enable \<or> length (the handle) < 2 \<longrightarrow> rejects E handle mode = OK \<longrightarrow>
      (\<exists>acts. dumpstateBoard_1_1 E handle mode (setVerboseLoggingEnabled enable st) =
        Some (OK, (setVerboseLoggingEnabled enable st)\<lparr>d_exit := True, d_acts := acts\<rparr>)))"
proof -
  have g: "getVerboseLoggingEnabled E (st'\<lparr>d_exit := x, d_acts := acts\<rparr>) = getVerboseLoggingEnabled E st'"
    for st' x acts
    by (simp add: getVerboseLoggingEnabled_def GetBoolProperty_def)
  have "getVerboseLoggingEnabled E (setVerboseLoggingEnabled enable st) = enable"
    using assms
    by (simp add: getVerboseLoggingEnabled_def setVerboseLoggingEnabled_def GetBoolProperty_def
        set_prop_def d_next_def)
  then show ?thesis
    by (auto simp: board_accepts start_modem_def g not_le intro!: exI)
qed

end
