(* ===== verification/Dump_Example.thy ===== *)
theory Dump_Example
  imports Dump_Laws
begin

text \<open>Devices on which the theorems on bug reports apply.\<close>

definition ex_dump_env :: dump_env where
  "ex_dump_env = \<lparr>GetBool = (\<lambda>v d. if v = ''true'' then True else if v = ''false'' then False else d),
     GetInt = (\<lambda>v d. d), IsUserBuild = False,
     run_effect = (\<lambda>args (files, dirs). if hd args = ''/vendor/bin/mkdir'' then (files, dirs @ [last args])
       else (files, dirs)),
     dir_size = (\<lambda>path. 4096), waited = (\<lambda>key props. props(key := ''false'')),
     touch_readable = (\<lambda>acts path. True), log_readable = (\<lambda>path. False),
     modes = [0, 1, 2, 3, 4, 5, 6], mode_WEAR = 3, mode_DEFAULT = 6\<rparr>"

definition ex_dstate :: dstate where
  "ex_dstate = \<lparr>d_files = [], d_dirs = [], d_props = (\<lambda>_. []), d_sched = [],
     d_acts = [], m_acts = [], d_modem = [], d_exit = False\<rparr>"

definition ex_logs :: dstate where
  "ex_logs = ex_dstate\<lparr>d_dirs := [''/l'', ''/t''],
     d_files := [(''/l/log_2'', [2]), (''/l/log_3'', [3]), (''/l/other'', [7]), (''/l/log_1'', [1]),
       (''/t/log_3'', [9, 9])]\<rparr>"

lemma tar_round_trip_witness:
  "\<exists>arc rest. createTarFile None [(''a'', Some (3, [1, 2, 3])), (''.b'', Some (1, [4])), (''c'', None)] [] = Some (arc, rest)
    \<and> tar_read arc = Some [(''a'', [1, 2, 3])] \<and> length arc mod 512 = 0"
proof -
  let ?files = "[(''a'', Some (3, [1, 2, 3])), (''.b'', Some (1, [4])), (''c'', None)] :: (string \<times> (nat \<times> byte list) option) list"
  have a: "archived ?files = [(''a'', [1, 2, 3])]" by (simp add: archived_def hidden_def)
  have "\<forall>(n, f) \<in> set ?files. CHR 0x00 \<notin> set n" "sizes_ok ?files" by (simp_all add: sizes_ok_def)
  from tar_round_trip [OF this] have
    "createTarFile None ?files [] \<noteq> None \<longleftrightarrow> (\<forall>(n, c) \<in> set [(''a'', [1, 2, 3 :: byte])]. length n < 100 \<and> length c < 8 ^ 11)"
    "\<forall>arc rest. createTarFile None ?files [] = Some (arc, rest) \<longrightarrow>
      tar_read arc = Some [(''a'', [1, 2, 3])] \<and> length arc mod 512 = 0"
    unfolding a by blast+
  then show ?thesis by auto
qed

lemma dumpLogs_newest_witness:
  "map_of (d_files (dumpLogs ''/l'' ''/t'' 2 ''log_'' ex_logs)) ''/t/log_3'' = Some [3, 9]
   \<and> map_of (d_files (dumpLogs ''/l'' ''/t'' 2 ''log_'' ex_logs)) ''/t/log_2'' = Some [2]
   \<and> map_of (d_files (dumpLogs ''/l'' ''/t'' 2 ''log_'' ex_logs)) ''/t/log_1'' = None"
proof -
  have n: "map fst (dir_entries ''/l'' (d_files ex_logs)) @ subdirs ''/l'' (d_dirs ex_logs) = [''log_2'', ''log_3'', ''other'', ''log_1'']"
    by code_simp
  have f: "filter (\<lambda>n. starts_with n ''log_'') [''log_2'', ''log_3'', ''other'', ''log_1'']
      = [''log_2'', ''log_3'', ''log_1'']"
    by code_simp
  then have s: "{n \<in> set [''log_2'', ''log_3'', ''other'', ''log_1'']. starts_with n ''log_''}
      = {''log_1'', ''log_2'', ''log_3''}"
    unfolding set_filter [symmetric] by auto
  have h: "d_sched ex_logs = []" "distinct (map fst (d_files ex_logs) @ d_dirs ex_logs)"
    "''/l'' \<in> set (d_dirs ex_logs)" "''/t'' \<in> set (d_dirs ex_logs)" "''/l'' \<noteq> ''/t''"
    "\<not> starts_with ''.'' ''log_''" "\<not> starts_with ''..'' ''log_''"
    "\<forall>d \<in> set (d_dirs ex_logs). parent d \<noteq> ''/t''"
    by code_simp+
  from dumpLogs_newest [OF h, of 2, unfolded n] obtain ns where
    ns: "distinct ns" "set ns \<subseteq> {n \<in> set [''log_2'', ''log_3'', ''other'', ''log_1'']. starts_with n ''log_''}"
    "length ns = (let k = length (filter (\<lambda>n. starts_with n ''log_'') [''log_2'', ''log_3'', ''other'', ''log_1''])
      in if (2 :: int) = - 1 then k else min (nat 2) k)"
    "\<forall>n \<in> set [''log_2'', ''log_3'', ''other'', ''log_1'']. \<forall>k \<in> set ns. starts_with n ''log_'' \<longrightarrow> n \<notin> set ns \<longrightarrow> n \<le> k"
    "\<forall>p. map_of (d_files (dumpLogs ''/l'' ''/t'' 2 ''log_'' ex_logs)) p = (if p \<in> join ''/t'' ` set ns
        then Some (over_old (case map_of (d_files ex_logs) (join ''/l'' (basename p)) of Some c \<Rightarrow> c | None \<Rightarrow> []) (map_of (d_files ex_logs) p))
        else map_of (d_files ex_logs) p)"
    by blast
  have len: "card (set ns) = 2" using ns(1,3) unfolding f by (simp add: distinct_card)
  have sub: "set ns \<subseteq> {''log_1'', ''log_2'', ''log_3''}" using ns(2) unfolding s .
  have ord: "n \<le> k" if "n \<in> {''log_1'', ''log_2'', ''log_3''}" "k \<in> set ns" "n \<notin> set ns" for n k
    using that ns(4) unfolding s [symmetric] by blast
  have lt: "\<not> ''log_3'' \<le> ''log_1''" "\<not> ''log_3'' \<le> ''log_2''" "\<not> ''log_2'' \<le> ''log_1''"
    by code_simp+
  have "set ns = {''log_2'', ''log_3''}"
  proof -
    have ne: "set ns \<noteq> {}" using len by auto
    have 3: "''log_3'' \<in> set ns"
    proof (rule ccontr)
      assume n: "''log_3'' \<notin> set ns"
      have k: "hd ns \<in> set ns" using ne by simp
      moreover from this have "hd ns \<noteq> ''log_3''" using n by metis
      ultimately have "hd ns = ''log_1'' \<or> hd ns = ''log_2''" using sub by blast
      then show False using ord [OF _ k n] lt by auto
    qed
    have 2: "''log_2'' \<in> set ns"
    proof (rule ccontr)
      assume n: "''log_2'' \<notin> set ns"
      have "''log_1'' \<notin> set ns" using ord [OF _ _ n, of "''log_1''"] lt by auto
      then have "set ns = {''log_3''}" using sub n 3 by blast
      then show False using len by simp
    qed
    have "card {''log_2'', ''log_3''} = 2" by simp
    then show ?thesis using card_subset_eq [of "set ns" "{''log_2'', ''log_3''}"] 2 3 len by auto
  qed
  then show ?thesis
    unfolding ns(5) [rule_format]
    by (simp add: join_def basename_def ex_logs_def over_old_def)
qed

definition ex_modem :: dstate where
  "ex_modem = ex_dstate\<lparr>d_props := (\<lambda>_. [])(MODEM_LOG_LOC_PROPERTY := ''/m'',
     MODEM_LOG_PREFIX_PROPERTY := ''p_'', DIAG_MDLOG_PERSIST_PROPERTY := ''true'',
     DIAG_MDLOG_STATUS_PROPERTY := ''true'')\<rparr>"

lemma modem_thread_switches_witness:
  "\<exists>st' tcpdump. dumpModemThread ex_dump_env ex_modem = Some st'
    \<and> filter (\<lambda>a. \<exists>k v. a = SetProperty k v) (m_acts st')
      = [SetProperty DIAG_MDLOG_PROPERTY ''false'', SetProperty DIAG_MDLOG_PROPERTY ''true'',
         SetProperty MODEM_EFS_DUMP_PROPERTY ''true'', SetProperty MODEM_EFS_DUMP_PROPERTY ''false'']"
proof -
  have "dumpModemThread ex_dump_env ex_modem \<noteq> None" by code_simp
  then obtain st' where st': "dumpModemThread ex_dump_env ex_modem = Some st'" by blast
  have p: "GetProperty MODEM_LOG_LOC_PROPERTY [] ex_modem \<noteq> []"
    "GetProperty MODEM_LOG_PREFIX_PROPERTY [] ex_modem \<noteq> []"
    "GetBoolProperty ex_dump_env DIAG_MDLOG_PERSIST_PROPERTY False ex_modem"
    "GetBoolProperty ex_dump_env DIAG_MDLOG_STATUS_PROPERTY False ex_modem"
    "\<not> IsUserBuild ex_dump_env" "m_acts ex_modem = []"
    by code_simp+
  from modem_thread_switches [OF st'] p
  obtain tcpdump where "m_acts st' = [SetProperty DIAG_MDLOG_PROPERTY ''false'']
      @ [RunModem [''/vendor/bin/mkdir'', ''-p'', GetProperty MODEM_LOG_LOC_PROPERTY [] ex_modem @ ''/modem_log'']]
      @ [DumpLogs diagLogDir] @ [SetProperty DIAG_MDLOG_PROPERTY ''true'']
      @ ([SetProperty MODEM_EFS_DUMP_PROPERTY ''true'']
         @ (if tcpdump then [DumpLogs tcpdumpLogDir] else [])
         @ [DumpLogs extendedLogDir, SetProperty MODEM_EFS_DUMP_PROPERTY ''false''])
      @ [CreateTar (GetProperty MODEM_LOG_LOC_PROPERTY [] ex_modem @ ''/'' @
           GetProperty MODEM_LOG_PREFIX_PROPERTY [] ex_modem @ ''all.tar''),
         RunModem [''/vendor/bin/rm'', ''-r'', GetProperty MODEM_LOG_LOC_PROPERTY [] ex_modem @ ''/modem_log''],
         RunModem [''/vendor/bin/rm'', GetProperty MODEM_LOG_LOC_PROPERTY [] ex_modem @ ''/'' @
           GetProperty MODEM_LOG_PREFIX_PROPERTY [] ex_modem @ ''all.tar'']]"
    by (simp only: if_True if_False simp_thms append_Nil) blast
  then show ?thesis using st' by (intro exI [of _ st']) simp
qed

definition ex_user_env :: dump_env where
  "ex_user_env = ex_dump_env\<lparr>IsUserBuild := True\<rparr>"

definition ex_poweron :: dstate where
  "ex_poweron = ex_dstate\<lparr>d_dirs := [''/m''], d_files := [(diagPoweronLogPath, [1, 2, 3])],
     d_props := (\<lambda>_. [])(MODEM_LOG_LOC_PROPERTY := ''/m'', MODEM_LOG_PREFIX_PROPERTY := ''p_'')\<rparr>"

lemma modem_gets_archive_witness:
  "\<exists>st'. dumpModemThread ex_user_env ex_poweron = Some st'
    \<and> tar_read (d_modem st') = Some [(''diag_poweron_log.qmdl'', [1, 2, 3])]"
proof -
  let ?dir = "''/m/modem_log''"
  let ?st = "collect_modem_logs ex_user_env ?dir ex_poweron"
  have p: "GetProperty MODEM_LOG_LOC_PROPERTY [] ex_poweron = ''/m''"
    "GetProperty MODEM_LOG_PREFIX_PROPERTY [] ex_poweron = ''p_''"
    "\<not> GetBoolProperty ex_user_env DIAG_MDLOG_PERSIST_PROPERTY False ex_poweron"
    "IsUserBuild ex_user_env" "d_modem ex_poweron = []" "d_sched ex_poweron = []"
    "''/m'' \<in> set (d_dirs ex_poweron)"
    by code_simp+
  have law: "mkdir_law ex_user_env d" for d
    by (simp add: mkdir_law_def ex_user_env_def ex_dump_env_def)
  have b: "basename diagPoweronLogPath = ''diag_poweron_log.qmdl''" by code_simp
  define st0 where "st0 = run_modem ex_user_env [''/vendor/bin/mkdir'', ''-p'', ?dir] ex_poweron"
  have st0: "d_sched st0 = []" "d_dirs st0 = [''/m'', ?dir]" "d_files st0 = [(diagPoweronLogPath, [1, 2, 3])]"
    by (simp_all add: st0_def run_modem_def ex_user_env_def ex_dump_env_def ex_poweron_def ex_dstate_def)
  have j: "join ?dir ''diag_poweron_log.qmdl'' \<noteq> diagPoweronLogPath"
    "join ?dir ''diag_poweron_log.qmdl'' \<notin> set (d_dirs st0)"
    "parent (join ?dir ''diag_poweron_log.qmdl'') \<in> set (d_dirs st0)"
    unfolding st0 by code_simp+
  have st: "?st = copyFile diagPoweronLogPath (join ?dir (basename diagPoweronLogPath)) st0"
    using p by (simp add: collect_modem_logs_def stop_mdlog_def diag_logs_def debug_logs_def st0_def Let_def)
  have "d_files (copyFile diagPoweronLogPath (join ?dir (basename diagPoweronLogPath)) st0)
      = [(diagPoweronLogPath, [1, 2, 3]), (join ?dir ''diag_poweron_log.qmdl'', [1, 2, 3])]"
    using j by (simp add: b copyFile_def open_read_def open_write_def d_next_def st0 copy_loop_all
        put_file_def over_old_def)
  then have f: "d_files ?st =
    [(diagPoweronLogPath, [1, 2, 3]), (join ?dir ''diag_poweron_log.qmdl'', [1, 2, 3])]"
    by (simp only: st)
  have e: "dir_entries ?dir (d_files ?st) = [(''diag_poweron_log.qmdl'', [1, 2, 3])]"
    unfolding f by code_simp
  have "d_sched ?st = []"
    using collect_writes(1) [OF p(6) law [of ?dir]] p(7)
    by (simp add: parent_def)
  moreover have "parent ''/m/p_all.tar'' \<noteq> ?dir" "\<forall>d \<in> set [?dir, ''/m'']. parent d \<noteq> ?dir" by code_simp+
  moreover have "set (d_dirs ?st) = set [?dir, ''/m'']"
    using collect_writes(2) [OF p(6) law [of ?dir]] p(7) by (simp add: parent_def ex_poweron_def)
  ultimately have "create_tar ex_user_env ''/m/p_all.tar'' ?dir ?st \<noteq> None"
    by (intro create_tar_returns) (simp_all only: e, simp_all)
  then obtain st' where st': "dumpModemThread ex_user_env ex_poweron = Some st'"
    by (auto simp: dumpModemThread_def p Let_def split: option.splits)
  have n: "CHR ''/'' \<notin> set ''p_''" "join ''/m'' (''p_'' @ ''all.tar'') \<notin> set (d_dirs ex_poweron)"
    "map_of (d_files ex_poweron) (join ''/m'' (''p_'' @ ''all.tar'')) = None"
    by code_simp+
  have sub: "\<forall>d \<in> set (d_dirs ex_poweron). parent d \<noteq> ''/m'' @ ''/modem_log''" by code_simp
  from modem_gets_archive [OF st' p(6), unfolded p] law n p(7) e sub
  have "tar_read (d_modem st') = Some (filter (\<lambda>(n, c). \<not> hidden n) [(''diag_poweron_log.qmdl'', [1, 2, 3])])"
    by auto
  then show ?thesis using st' by (simp add: hidden_def)
qed

lemma board_report_witness:
  "(\<exists>st' before mid after. dumpstateBoard_1_1 ex_dump_env (Some [3]) 0 ex_dstate = Some (OK, st')
     \<and> d_exit st' \<and> d_acts st' = before @ touch_force @ mid @ touch_restore @ after
     \<and> list_all (\<lambda>a. \<not> uses_touch a) (before @ after))
   \<and> dumpstateBoard_1_1 ex_dump_env (Some [3]) 3 ex_dstate
      = Some (UNSUPPORTED_MODE, ex_dstate\<lparr>d_exit := True\<rparr>)"
proof -
  have r: "rejects ex_dump_env (Some [3]) 0 = OK" "rejects ex_dump_env (Some [3]) 3 = UNSUPPORTED_MODE"
    by code_simp+
  have a: "d_acts ex_dstate = []" by (simp add: ex_dstate_def)
  have v: "\<not> getVerboseLoggingEnabled ex_dump_env ex_dstate" by code_simp
  obtain st1 where 1: "dumpstateBoard_1_1 ex_dump_env (Some [3]) 0 ex_dstate = Some (OK, st1)"
    using r by (simp add: board_accepts start_modem_def)
  obtain s st3 where 3: "dumpstateBoard_1_1 ex_dump_env (Some [3]) 3 ex_dstate = Some (s, st3)"
    using r by (simp add: board_accepts)
  show ?thesis
    using board_report [OF 1] board_report [OF 3] 1 3 unfolding r a by auto
qed

lemma verbose_logging_switch_witness:
  "\<not> getVerboseLoggingEnabled ex_dump_env (setVerboseLoggingEnabled False ex_dstate)
   \<and> getVerboseLoggingEnabled ex_dump_env (setVerboseLoggingEnabled True ex_dstate)
   \<and> (\<exists>acts. dumpstateBoard_1_1 ex_dump_env (Some [3, 4]) 0 (setVerboseLoggingEnabled False ex_dstate) =
        Some (OK, (setVerboseLoggingEnabled False ex_dstate)\<lparr>d_exit := True, d_acts := acts\<rparr>))"
proof -
  have h: "d_sched ex_dstate = []" "GetBool ex_dump_env ''true'' False" "\<not> GetBool ex_dump_env ''false'' False"
    by (simp_all add: ex_dstate_def ex_dump_env_def)
  have r: "rejects ex_dump_env (Some [3, 4]) 0 = OK" by code_simp
  show ?thesis
    using verbose_logging_switch [OF h, of False "Some [3, 4]" 0]
      verbose_logging_switch [OF h, of True "Some [3, 4]" 0] r by auto
qed

end
