(* ===== verification/Health.thy ===== *)
theory Health
  imports Numbers
begin

text \<open>
  The health service (health/Health.cpp): the description of the storage, the disk
  statistics and the battery updates. \<open>files\<close> gives the text of a node, \<open>None\<close> for
  one that cannot be opened; the Pixel health library is a parameter.

  Numbers are read by formatted input of C++ streams: blanks are skipped (when
  nothing follows, the variable keeps its value), the longest run of characters
  that may belong to a number is taken, and the run must be a number as a whole.
  One that is not gives 0, one that is too large the maximum; either ends the input.
\<close>

type_synonym u16 = "16 word"

section \<open>Formatted input\<close>

definition is_hex_atom :: "char \<Rightarrow> bool" where
  "is_hex_atom c \<longleftrightarrow> is_base_digit 16 c \<or> c = CHR ''x'' \<or> c = CHR ''X''"

text \<open>Base detection, as \<open>strtoull\<close> with base 0 does it.\<close>

definition auto_value :: "string \<Rightarrow> nat option" where
  "auto_value s =
     (if 2 < length s \<and> s ! 0 = CHR ''0'' \<and> (s ! 1 = CHR ''x'' \<or> s ! 1 = CHR ''X'') \<and>
         list_all (is_base_digit 16) (drop 2 s) then Some (base_value 16 (drop 2 s))
      else if s \<noteq> [] \<and> hd s = CHR ''0'' then
        (if list_all (is_base_digit 8) s then Some (base_value 8 s) else None)
      else if s \<noteq> [] \<and> list_all is_digit s then Some (digits_value s) else None)"

definition dec_value :: "string \<Rightarrow> nat option" where
  "dec_value s = (if s \<noteq> [] then Some (digits_value s) else None)"

text \<open>The value, whether the input goes on, and the rest of the text.\<close>

definition read_number ::
  "(char \<Rightarrow> bool) \<Rightarrow> (string \<Rightarrow> nat option) \<Rightarrow> string \<Rightarrow> ('a::len word \<times> bool \<times> string) option" where
  "read_number atom val s =
     (let s = dropWhile c_isspace s in
      if s = [] then None
      else
        let neg = (hd s = CHR ''-'');
            s = (if hd s = CHR ''-'' \<or> hd s = CHR ''+'' then tl s else s);
            run = takeWhile atom s;
            rest = dropWhile atom s
        in Some (case val run of
            None \<Rightarrow> (0, False, rest)
          | Some v \<Rightarrow>
              if 2 ^ LENGTH('a) \<le> v then (- 1, False, rest)
              else (if neg then - of_nat v else of_nat v, True, rest)))"

section \<open>The storage\<close>

definition UFS_DIR :: string where "UFS_DIR = ''/sys/devices/platform/soc/1d84000.ufshc''"
definition kUfsHealthEol :: string where "kUfsHealthEol = UFS_DIR @ ''/health/eol''"
definition kUfsHealthLifetimeA :: string where "kUfsHealthLifetimeA = UFS_DIR @ ''/health/lifetimeA''"
definition kUfsHealthLifetimeB :: string where "kUfsHealthLifetimeB = UFS_DIR @ ''/health/lifetimeB''"
definition kUfsVersion :: string where "kUfsVersion = UFS_DIR @ ''/version''"
definition kDiskStatsFile :: string where "kDiskStatsFile = ''/sys/block/sda/stat''"
definition kUFSName :: string where "kUFSName = ''UFS0''"
definition kTCPMPSYName :: string where "kTCPMPSYName = ''tcpm-source-psy-usbpd0''"

record storage_attribute =
  isInternal :: bool
  isBootDevice :: bool
  attr_name :: string

record storage_info =
  si_attr :: storage_attribute
  si_eol :: u16
  si_lifetimeA :: u16
  si_lifetimeB :: u16
  si_version :: string

record disk_stats =
  ds_attr :: storage_attribute
  ds_numbers :: "u64 list"

definition fill_ufs_storage_attribute :: storage_attribute where
  "fill_ufs_storage_attribute = \<lparr>isInternal = True, isBootDevice = True, attr_name = kUFSName\<rparr>"

definition read_value_from_file :: "(string \<Rightarrow> string option) \<Rightarrow> string \<Rightarrow> 'a::len word \<Rightarrow> 'a word" where
  "read_value_from_file files path field =
     (case files path of
        None \<Rightarrow> field
      | Some s \<Rightarrow> (case read_number is_hex_atom auto_value s of
            None \<Rightarrow> field
          | Some (v, _) \<Rightarrow> v))"

text \<open>\<open>junk\<close> is what the uninitialised local variable holds.\<close>

definition read_ufs_version :: "(string \<Rightarrow> string option) \<Rightarrow> u64 \<Rightarrow> string" where
  "read_ufs_version files junk =
     ''ufs '' @ show_base 16 (unat (read_value_from_file files kUfsVersion junk))"

definition private_get_storage_info :: "(string \<Rightarrow> string option) \<Rightarrow> u64 \<Rightarrow> storage_info list" where
  "private_get_storage_info files junk =
     [\<lparr>si_attr = fill_ufs_storage_attribute,
       si_eol = read_value_from_file files kUfsHealthEol 0,
       si_lifetimeA = read_value_from_file files kUfsHealthLifetimeA 0,
       si_lifetimeB = read_value_from_file files kUfsHealthLifetimeB 0,
       si_version = read_ufs_version files junk\<rparr>]"

text \<open>The eleven fields of the statistics, in order, from the zeros they start with.\<close>

fun read_fields :: "nat \<Rightarrow> string \<Rightarrow> u64 list" where
  "read_fields 0 s = []"
| "read_fields (Suc n) s =
     (case read_number is_digit dec_value s of
        None \<Rightarrow> replicate (Suc n) 0
      | Some (v, ok, rest) \<Rightarrow> v # (if ok then read_fields n rest else replicate n 0))"

definition private_get_disk_stats :: "(string \<Rightarrow> string option) \<Rightarrow> disk_stats list" where
  "private_get_disk_stats files =
     [\<lparr>ds_attr = fill_ufs_storage_attribute,
       ds_numbers = (case files kDiskStatsFile of None \<Rightarrow> replicate 11 0 | Some s \<Rightarrow> read_fields 11 s)\<rparr>]"

section \<open>The interface\<close>

datatype health_result = SUCCESS | NOT_SUPPORTED

definition getStorageInfo ::
  "(string \<Rightarrow> string option) \<Rightarrow> u64 \<Rightarrow> health_result \<times> storage_info list" where
  "getStorageInfo files junk =
     (let info = private_get_storage_info files junk
      in if length info = 0 then (NOT_SUPPORTED, info) else (SUCCESS, info))"

definition getDiskStats :: "(string \<Rightarrow> string option) \<Rightarrow> health_result \<times> disk_stats list" where
  "getDiskStats files =
     (let stats = private_get_disk_stats files
      in if length stats = 0 then (NOT_SUPPORTED, stats) else (SUCCESS, stats))"

text \<open>The Pixel health library: the state of its objects and what they do to the properties.\<close>

record ('s, 'p, 'i) pixel_health =
  deviceHealth_update :: "'p \<Rightarrow> 's \<Rightarrow> 'p \<times> 's"
  logBatteryProperties :: "'p \<Rightarrow> 's \<Rightarrow> 's"
  logShutdownVoltage :: "'p \<Rightarrow> 's \<Rightarrow> 's"
  battDefender_update :: "'p \<Rightarrow> 's \<Rightarrow> 'p \<times> 's"
  convertFromHealthInfo :: "'i \<Rightarrow> 'p"
  convertToHealthInfo :: "'p \<Rightarrow> 'i \<Rightarrow> 'i"

definition private_healthd_board_battery_update ::
  "('s, 'p, 'i) pixel_health \<Rightarrow> 'p \<Rightarrow> 's \<Rightarrow> int \<times> 'p \<times> 's" where
  "private_healthd_board_battery_update L props s =
     (let (props, s) = deviceHealth_update L props s;
          s = logBatteryProperties L props s;
          s = logShutdownVoltage L props s;
          (props, s) = battDefender_update L props s
      in (0, props, s))"

definition UpdateHealthInfo :: "('s, 'p, 'i) pixel_health \<Rightarrow> 'i \<Rightarrow> 's \<Rightarrow> 'i \<times> 's" where
  "UpdateHealthInfo L info s =
     (case private_healthd_board_battery_update L (convertFromHealthInfo L info) s of
        (_, props, s) \<Rightarrow> (convertToHealthInfo L props info, s))"

text \<open>The configuration is the names of the power supplies to ignore.\<close>

definition private_healthd_board_init :: "string list \<Rightarrow> string list" where
  "private_healthd_board_init ignored = ignored @ [kTCPMPSYName]"

definition HIDL_FETCH_IHealth :: "string list \<Rightarrow> string \<Rightarrow> string list option" where
  "HIDL_FETCH_IHealth initial name =
     (if name \<noteq> ''default'' then None else Some (private_healthd_board_init initial))"

section \<open>Numbers in nodes are read back\<close>

lemma list_all_atoms:
  "list_all P s \<Longrightarrow> rest = [] \<or> \<not> P (hd rest) \<Longrightarrow>
    takeWhile P (s @ rest) = s \<and> dropWhile P (s @ rest) = rest"
  by (induction s) (cases rest; auto)+

lemma read_number_run:
  assumes "list_all P run" "run \<noteq> []" "rest = [] \<or> \<not> P (hd rest)"
    "hd run \<noteq> CHR ''-''" "hd run \<noteq> CHR ''+''" "\<not> c_isspace (hd run)" "list_all c_isspace blanks"
    "val run = Some v" "v < 2 ^ LENGTH('a::len)"
  shows "read_number P val (blanks @ run @ rest) = Some (of_nat v :: 'a word, True, rest)"
proof -
  obtain c cs where r: "run = c # cs" using assms(2) by (cases run) auto
  have "dropWhile c_isspace (blanks @ run @ rest) = run @ rest"
    using assms(6,7) r by (induction blanks) auto
  then show ?thesis
    using list_all_atoms [OF assms(1,3)] assms(4,5,8,9) r by (simp add: read_number_def Let_def)
qed

lemma digit_hd:
  assumes "2 \<le> b" "b \<le> 16"
  shows "hd (show_base b n) \<noteq> CHR ''-'' \<and> hd (show_base b n) \<noteq> CHR ''+'' \<and> \<not> c_isspace (hd (show_base b n))"
proof -
  have "is_base_digit b (hd (show_base b n))"
    using show_base_digits [OF assms, of n] show_base_nonempty [of b n]
    by (cases "show_base b n") auto
  then show ?thesis using base_digit_plain by blast
qed

text \<open>A hexadecimal node, as the driver prints it.\<close>

lemma read_hex_node:
  assumes "files path = Some (''0x'' @ show_base 16 (unat v) @ [CHR 0x0A])"
  shows "read_value_from_file files path (field :: 'a::len word) = (v :: 'a word)"
proof -
  let ?ds = "show_base 16 (unat v)"
  have d: "list_all (is_base_digit 16) ?ds" by (rule show_base_digits) simp_all
  have z: "is_base_digit 16 (CHR ''0'')" by code_simp
  have "list_all is_hex_atom (''0x'' @ ?ds)"
    using d z by (auto simp: list_all_iff is_hex_atom_def)
  moreover have "\<not> is_hex_atom (CHR 0x0A)" by code_simp
  moreover have "\<not> c_isspace (CHR ''0'')" by (simp add: c_isspace_def)
  moreover have "auto_value (''0x'' @ ?ds) = Some (unat v)"
    using d by (simp add: auto_value_def base_value_show)
  moreover have "unat v < 2 ^ LENGTH('a)" by (rule unsigned_less)
  ultimately have "read_number is_hex_atom auto_value ([] @ (''0x'' @ ?ds) @ [CHR 0x0A])
      = Some (of_nat (unat v) :: 'a word, True, [CHR 0x0A])"
    by (intro read_number_run) simp_all
  then show ?thesis using assms by (simp add: read_value_from_file_def)
qed

text \<open>
  The nodes of the flash storage, hexadecimal numbers, are told to the client as
  they are: end of life and life times as numbers, the version behind "ufs ". When
  the version node cannot be opened, the version is a variable that was never set.
\<close>

theorem storage_info_read:
  assumes "files kUfsHealthEol = Some (''0x'' @ show_base 16 (unat eol) @ [CHR 0x0A])"
    and "files kUfsHealthLifetimeA = Some (''0x'' @ show_base 16 (unat a) @ [CHR 0x0A])"
    and "files kUfsHealthLifetimeB = Some (''0x'' @ show_base 16 (unat b) @ [CHR 0x0A])"
  shows "\<exists>info. getStorageInfo files junk = (SUCCESS, [info])
    \<and> si_eol info = eol \<and> si_lifetimeA info = a \<and> si_lifetimeB info = b
    \<and> (\<forall>v :: u64. files kUfsVersion = Some (''0x'' @ show_base 16 (unat v) @ [CHR 0x0A]) \<longrightarrow>
        si_version info = ''ufs '' @ show_base 16 (unat v))
    \<and> (files kUfsVersion = None \<longrightarrow> si_version info = ''ufs '' @ show_base 16 (unat junk))"
proof -
  have "read_ufs_version files junk = ''ufs '' @ show_base 16 (unat v)"
    if "files kUfsVersion = Some (''0x'' @ show_base 16 (unat v) @ [CHR 0x0A])" for v :: u64
  proof -
    have "read_value_from_file files kUfsVersion junk = v" using that by (rule read_hex_node)
    then show ?thesis by (simp add: read_ufs_version_def)
  qed
  moreover have "read_ufs_version files junk = ''ufs '' @ show_base 16 (unat junk)"
    if "files kUfsVersion = None"
    using that by (simp add: read_ufs_version_def read_value_from_file_def)
  moreover have "read_value_from_file files kUfsHealthEol 0 = eol"
    using assms(1) by (rule read_hex_node)
  moreover have "read_value_from_file files kUfsHealthLifetimeA 0 = a"
    using assms(2) by (rule read_hex_node)
  moreover have "read_value_from_file files kUfsHealthLifetimeB 0 = b"
    using assms(3) by (rule read_hex_node)
  ultimately show ?thesis
    by (simp add: getStorageInfo_def private_get_storage_info_def Let_def)
qed

text \<open>A line of numbers with blanks before each.\<close>

definition number_line :: "(nat \<times> u64) list \<Rightarrow> string" where
  "number_line xs = concat (map (\<lambda>(k, v). replicate (Suc k) (CHR '' '') @ show_nat (unat v)) xs)"

lemma read_fields_line:
  "n \<le> length xs \<Longrightarrow> read_fields n (number_line xs @ rest) = map snd (take n xs)"
  if "rest = [] \<or> \<not> is_digit (hd rest)"
proof (induction n arbitrary: xs)
  case (Suc n)
  then obtain k v ys where xs: "xs = (k, v) # ys" by (cases xs) auto
  let ?rest = "number_line ys @ rest"
  have d: "list_all is_digit (show_nat (unat v))" by (rule show_nat_digits)
  have b: "\<not> is_digit (CHR '' '')" by code_simp
  have r: "?rest = [] \<or> \<not> is_digit (hd ?rest)"
    using that b by (cases ys) (auto simp: number_line_def)
  have "read_number is_digit dec_value (replicate (Suc k) (CHR '' '') @ show_nat (unat v) @ ?rest)
      = Some (of_nat (unat v) :: u64, True, ?rest)"
    using d r digit_hd [of 10 "unat v"] unsigned_less [of v]
    by (intro read_number_run) (auto simp: list_all_iff c_isspace_def dec_value_def digits_value_show)
  then show ?case using Suc by (simp add: xs number_line_def)
qed simp

text \<open>
  The statistics of the disk are the first eleven numbers of its node, in
  order, for a node of at least that many decimal numbers of 64 bits.
\<close>

theorem disk_stats_read:
  assumes "files kDiskStatsFile = Some (number_line xs @ [CHR 0x0A])" "11 \<le> length xs"
  shows "\<exists>stats. getDiskStats files = (SUCCESS, [stats]) \<and> ds_numbers stats = map snd (take 11 xs)"
proof -
  have "\<not> is_digit (CHR 0x0A)" by code_simp
  then show ?thesis
    using assms(1) read_fields_line [OF _ assms(2), of "[CHR 0x0A]"]
    by (simp add: getDiskStats_def private_get_disk_stats_def Let_def)
qed

text \<open>A device on which they apply.\<close>

definition ex_nodes :: "string \<Rightarrow> string option" where
  "ex_nodes = [kUfsHealthEol \<mapsto> ''0x'' @ show_base 16 1 @ [CHR 0x0A],
     kUfsHealthLifetimeA \<mapsto> ''0x'' @ show_base 16 2 @ [CHR 0x0A],
     kUfsHealthLifetimeB \<mapsto> ''0x'' @ show_base 16 11 @ [CHR 0x0A],
     kDiskStatsFile \<mapsto> number_line (map (\<lambda>v. (3, v)) [5, 0, 7, 1, 2, 3, 4, 8, 9, 10, 11, 12]) @ [CHR 0x0A]]"

lemma ex_node_names:
  "kUfsHealthEol \<noteq> kUfsHealthLifetimeA" "kUfsHealthEol \<noteq> kUfsHealthLifetimeB"
  "kUfsHealthLifetimeA \<noteq> kUfsHealthLifetimeB" "kUfsVersion \<noteq> kUfsHealthEol"
  "kUfsVersion \<noteq> kUfsHealthLifetimeA" "kUfsVersion \<noteq> kUfsHealthLifetimeB"
  "kDiskStatsFile \<noteq> kUfsHealthEol" "kDiskStatsFile \<noteq> kUfsHealthLifetimeA"
  "kDiskStatsFile \<noteq> kUfsHealthLifetimeB" "kUfsVersion \<noteq> kDiskStatsFile"
  by code_simp+

lemma storage_info_read_witness:
  "\<exists>info. getStorageInfo ex_nodes 18 = (SUCCESS, [info]) \<and> si_eol info = 1 \<and> si_lifetimeA info = 2
    \<and> si_lifetimeB info = 11 \<and> si_version info = ''ufs 12''"
proof -
  have "show_base 16 (unat (18 :: u64)) = ''12''" by (simp add: show_base.simps digit_char_def) code_simp
  moreover have "\<exists>info. getStorageInfo ex_nodes 18 = (SUCCESS, [info]) \<and> si_eol info = 1
    \<and> si_lifetimeA info = 2 \<and> si_lifetimeB info = 11
    \<and> (\<forall>v :: u64. ex_nodes kUfsVersion = Some (''0x'' @ show_base 16 (unat v) @ [CHR 0x0A]) \<longrightarrow>
        si_version info = ''ufs '' @ show_base 16 (unat v))
    \<and> (ex_nodes kUfsVersion = None \<longrightarrow> si_version info = ''ufs '' @ show_base 16 (unat (18 :: u64)))"
    using ex_node_names by (intro storage_info_read) (simp_all add: ex_nodes_def)
  moreover have "ex_nodes kUfsVersion = None" using ex_node_names by (simp add: ex_nodes_def)
  ultimately show ?thesis by auto
qed

lemma disk_stats_read_witness:
  "\<exists>stats. getDiskStats ex_nodes = (SUCCESS, [stats]) \<and> ds_numbers stats = [5, 0, 7, 1, 2, 3, 4, 8, 9, 10, 11]"
proof -
  have "ex_nodes kDiskStatsFile =
      Some (number_line (map (\<lambda>v. (3, v)) [5, 0, 7, 1, 2, 3, 4, 8, 9, 10, 11, 12]) @ [CHR 0x0A])"
    by (simp add: ex_nodes_def)
  from disk_stats_read [where files = ex_nodes, OF this] show ?thesis by simp
qed

end
