(* ===== verification/Strongbox.thy ===== *)
theory Strongbox
  imports Prelude
begin

text \<open>
  Waiting for the secure key stores (keymaster/wait_for_strongbox.cpp). What
  \<open>enumerateAvailableDevices\<close> gives in each cycle is a parameter; a loop that never
  ends is \<open>None\<close>.
\<close>

datatype security_level = SOFTWARE | TRUSTED_ENVIRONMENT | STRONGBOX

record keymaster =
  securityLevel :: security_level
  majorVersion :: byte

datatype warning = StillStrongBox | StillTee

fun find_loop :: "keymaster list \<Rightarrow> bool \<times> bool \<Rightarrow> bool \<times> bool" where
  "find_loop [] found = found"
| "find_loop (dev # devs) (foundStrongBox, foundTee) =
     (let foundStrongBox =
            (if securityLevel dev = STRONGBOX \<and> majorVersion dev = 4 then True else foundStrongBox);
          foundTee =
            (if securityLevel dev = TRUSTED_ENVIRONMENT \<and> majorVersion dev = 4 then True else foundTee)
      in find_loop devs (foundStrongBox, foundTee))"

definition warnings :: "u32 \<Rightarrow> bool \<Rightarrow> bool \<Rightarrow> warning list" where
  "warnings cycleCount foundStrongBox foundTee =
     (if cycleCount mod 10 = 1 then
        (if \<not> foundStrongBox then [StillStrongBox] else []) @ (if \<not> foundTee then [StillTee] else [])
      else [])"

text \<open>
  \<open>n\<close> counts the enumerations, \<open>cycleCount\<close> is the counter of the code; the result
  is the exit code, the number of the last enumeration and what was logged.
\<close>

partial_function (option) wait_loop ::
  "(nat \<Rightarrow> keymaster list) \<Rightarrow> nat \<Rightarrow> u32 \<Rightarrow> warning list \<Rightarrow> (int \<times> nat \<times> warning list) option" where
  "wait_loop devices n cycleCount log =
     (case find_loop (devices n) (False, False) of (foundStrongBox, foundTee) \<Rightarrow>
        if foundTee \<and> foundStrongBox then Some (0, n, log)
        else wait_loop devices (n + 1) (cycleCount + 1)
          (log @ warnings cycleCount foundStrongBox foundTee))"

definition wait_main :: "(nat \<Rightarrow> keymaster list) \<Rightarrow> (int \<times> nat \<times> warning list) option" where
  "wait_main devices = wait_loop devices 0 0 []"

section \<open>The wait ends when both are there\<close>

definition has_level :: "security_level \<Rightarrow> keymaster list \<Rightarrow> bool" where
  "has_level l devs \<longleftrightarrow> (\<exists>d \<in> set devs. securityLevel d = l \<and> majorVersion d = 4)"

lemma find_loop_found:
  "find_loop devs (s, t) = (s \<or> has_level STRONGBOX devs, t \<or> has_level TRUSTED_ENVIRONMENT devs)"
  by (induction devs arbitrary: s t) (auto simp: has_level_def)

definition ready :: "keymaster list \<Rightarrow> bool" where
  "ready devs \<longleftrightarrow> has_level STRONGBOX devs \<and> has_level TRUSTED_ENVIRONMENT devs"

text \<open>What is logged in a cycle.\<close>

definition cycle_log :: "(nat \<Rightarrow> keymaster list) \<Rightarrow> nat \<Rightarrow> warning list" where
  "cycle_log devices n = warnings (of_nat n)
     (has_level STRONGBOX (devices n)) (has_level TRUSTED_ENVIRONMENT (devices n))"

lemma wait_loop_step:
  "wait_loop devices n (of_nat n) log =
    (if ready (devices n) then Some (0, n, log)
     else wait_loop devices (Suc n) (of_nat (Suc n)) (log @ cycle_log devices n))"
  by (subst wait_loop.simps) (simp add: find_loop_found ready_def cycle_log_def add.commute conj_commute)

lemma wait_loop_runs:
  "\<forall>i < k. \<not> ready (devices (n + i)) \<Longrightarrow>
    wait_loop devices n (of_nat n) log =
      wait_loop devices (n + k) (of_nat (n + k)) (log @ concat (map (cycle_log devices) [n..<n + k]))"
proof (induction k)
  case (Suc k)
  then have "wait_loop devices n (of_nat n) log =
      wait_loop devices (n + k) (of_nat (n + k)) (log @ concat (map (cycle_log devices) [n..<n + k]))"
    by simp
  also have "\<dots> = wait_loop devices (Suc (n + k)) (of_nat (Suc (n + k)))
      (log @ concat (map (cycle_log devices) [n..<Suc (n + k)]))"
    using Suc.prems by (subst wait_loop_step) simp
  finally show ?case by simp
qed simp

lemma wait_loop_ends:
  assumes "wait_loop devices n c log = Some r"
  shows "\<exists>k. ready (devices k)"
proof (rule wait_loop.raw_induct [OF _ assms, where P = "\<lambda>devices n c log r. \<exists>k. ready (devices k)"])
  fix wait devices n cycleCount log r
  assume IH: "\<And>devices n cycleCount log r. wait devices n cycleCount log = Some r \<Longrightarrow>
      \<exists>k. ready (devices k)"
    and step: "(case find_loop (devices n) (False, False) of (foundStrongBox, foundTee) \<Rightarrow>
        if foundTee \<and> foundStrongBox then Some (0, n, log)
        else wait devices (n + 1) (cycleCount + 1)
          (log @ warnings cycleCount foundStrongBox foundTee)) = Some r"
  show "\<exists>k. ready (devices k)"
  proof (cases "ready (devices n)")
    case False
    then have "wait devices (n + 1) (cycleCount + 1)
        (log @ warnings cycleCount (has_level STRONGBOX (devices n))
          (has_level TRUSTED_ENVIRONMENT (devices n))) = Some r"
      using step by (auto simp: find_loop_found ready_def)
    then show ?thesis by (rule IH)
  qed blast
qed

text \<open>
  C33: the program ends exactly if at some time both key stores are there, a secure
  element and a trusted environment of version 4. Then it ends with success after
  the first enumeration that has both, and has warned of what was missing in every
  cycle before whose number ends in 1.
\<close>

theorem wait_main_ends:
  "(wait_main devices \<noteq> None \<longleftrightarrow> (\<exists>n. ready (devices n)))
   \<and> (\<forall>n. ready (devices n) \<and> (\<forall>m < n. \<not> ready (devices m)) \<longrightarrow>
        wait_main devices = Some (0, n, concat (map (cycle_log devices) [0..<n])))"
proof -
  have first: "wait_main devices = Some (0, n, concat (map (cycle_log devices) [0..<n]))"
    if "ready (devices n)" "\<forall>m < n. \<not> ready (devices m)" for n
  proof -
    have "wait_main devices = wait_loop devices n (of_nat n) (concat (map (cycle_log devices) [0..<n]))"
      using wait_loop_runs [of n devices 0 "[]"] that(2) by (simp add: wait_main_def)
    then show ?thesis using that(1) by (simp add: wait_loop_step)
  qed
  have "wait_main devices \<noteq> None" if "ready (devices n)" for n
  proof -
    let ?n = "LEAST n. ready (devices n)"
    have "ready (devices ?n)" using that by (rule LeastI)
    moreover have "\<forall>m < ?n. \<not> ready (devices m)" using not_less_Least by blast
    ultimately show ?thesis using first by blast
  qed
  moreover have "\<exists>n. ready (devices n)" if "wait_main devices \<noteq> None"
    using that wait_loop_ends by (auto simp: wait_main_def)
  ultimately show ?thesis using first by blast
qed

lemma wait_main_ends_witness:
  "wait_main (\<lambda>n. (if n < 2 then [] else [\<lparr>securityLevel = TRUSTED_ENVIRONMENT, majorVersion = 4\<rparr>])
      @ [\<lparr>securityLevel = STRONGBOX, majorVersion = 4\<rparr>]) = Some (0, 2, [StillTee])"
proof -
  let ?e = "\<lambda>n. (if n < (2 :: nat) then [] else [\<lparr>securityLevel = TRUSTED_ENVIRONMENT, majorVersion = 4\<rparr>])
      @ [\<lparr>securityLevel = STRONGBOX, majorVersion = 4\<rparr>]"
  have "ready (?e 2) \<and> (\<forall>m < 2. \<not> ready (?e m))"
    by (simp add: ready_def has_level_def)
  then have "wait_main ?e = Some (0, 2, concat (map (cycle_log ?e) [0..<2]))"
    using wait_main_ends [of ?e] by blast
  moreover have "concat (map (cycle_log ?e) [0..<2]) = [StillTee]"
    by (simp add: upt_rec cycle_log_def warnings_def has_level_def)
  ultimately show ?thesis by simp
qed

end
