(* ===== verification/Link_Hash.thy ===== *)
theory Link_Hash
  imports Prelude
begin

text \<open>
  The hash table of json-c (json-c/linkhash.c, linkhash.h): open addressing with
  marks for freed slots, and the entries linked in the order of insertion.

  A pointer to an entry is its index in the table, a null pointer \<open>None\<close>; values are
  pointers. The functions given to \<open>lh_table_new\<close> are the record \<open>lh_fns\<close>;
  \<open>lh_freed\<close> lists the entries the free function was called with. Memory is never
  short (\<open>lh_abort\<close> ends the process then). \<open>None\<close> as a result stands for a division
  by zero, a null or wild pointer, an overflow of the size or an endless loop.
\<close>

datatype 'k slot = EMPTY | FREED | Key 'k

record ('k, 'v) lh_entry =
  ent_k :: "'k slot"
  ent_v :: "'v option"
  ent_next :: "nat option"
  ent_prev :: "nat option"

record 'k lh_fns =
  hash_fn :: "'k \<Rightarrow> u64"
  equal_fn :: "'k \<Rightarrow> 'k \<Rightarrow> bool"

record ('k, 'v) lh_table =
  lh_size :: nat
  lh_count :: nat
  lh_collisions :: u32
  lh_resizes :: u32
  lh_lookups :: u32
  lh_inserts :: u32
  lh_head :: "nat option"
  lh_tail :: "nat option"
  lh_slots :: "('k, 'v) lh_entry list"
  lh_free_fn :: bool
  lh_freed :: "('k \<times> 'v option) list"

definition LH_PRIME :: u64 where "LH_PRIME = 0x9e370001"

text \<open>The load factor 0.66, exact for the sizes of an \<open>int\<close>.\<close>

definition over_load :: "nat \<Rightarrow> nat \<Rightarrow> bool" where
  "over_load live slots \<longleftrightarrow> 66 * slots \<le> 100 * live"

section \<open>Keys\<close>

text \<open>The product with an unsigned long is unsigned, so the shift is a logical one.\<close>

definition lh_ptr_hash :: "u64 \<Rightarrow> u64" where
  "lh_ptr_hash k = drop_bit 4 (k * LH_PRIME)"

definition lh_ptr_equal :: "u64 \<Rightarrow> u64 \<Rightarrow> bool" where
  "lh_ptr_equal k1 k2 \<longleftrightarrow> k1 = k2"

definition lh_char_equal :: "string \<Rightarrow> string \<Rightarrow> bool" where
  "lh_char_equal k1 k2 \<longleftrightarrow> k1 = k2"

section \<open>The table\<close>

definition empty_entry :: "('k, 'v) lh_entry" where
  "empty_entry = \<lparr>ent_k = EMPTY, ent_v = None, ent_next = None, ent_prev = None\<rparr>"

definition lh_table_new :: "nat \<Rightarrow> bool \<Rightarrow> ('k, 'v) lh_table" where
  "lh_table_new sz free_fn =
     \<lparr>lh_size = sz, lh_count = 0, lh_collisions = 0, lh_resizes = 0, lh_lookups = 0, lh_inserts = 0,
      lh_head = None, lh_tail = None, lh_slots = replicate sz empty_entry,
      lh_free_fn = free_fn, lh_freed = []\<rparr>"

definition slot_free :: "('k, 'v) lh_entry \<Rightarrow> bool" where
  "slot_free e \<longleftrightarrow> ent_k e = EMPTY \<or> ent_k e = FREED"

definition next_slot :: "nat \<Rightarrow> nat \<Rightarrow> nat" where
  "next_slot sz n = (if n + 1 = sz then 0 else n + 1)"

text \<open>
  The search for a free slot. After as many steps as there are slots every one has
  been seen, so a search that is not over by then never is.
\<close>

fun probe :: "('k, 'v) lh_entry list \<Rightarrow> nat \<Rightarrow> nat \<Rightarrow> nat \<Rightarrow> u32 \<Rightarrow> (nat \<times> u32) option" where
  "probe slots sz 0 n collisions = None"
| "probe slots sz (Suc f) n collisions =
     (if length slots \<le> n then None
      else if slot_free (slots ! n) then Some (n, collisions)
      else probe slots sz f (next_slot sz n) (collisions + 1))"

text \<open>Filling slot \<open>n\<close> and linking it behind the last entry.\<close>

definition place :: "nat \<Rightarrow> 'k \<Rightarrow> 'v option \<Rightarrow> ('k, 'v) lh_table \<Rightarrow> ('k, 'v) lh_table option" where
  "place n k v t =
     (let e = lh_slots t ! n;
          t = t\<lparr>lh_slots := (lh_slots t)[n := e\<lparr>ent_k := Key k, ent_v := v\<rparr>],
                lh_count := lh_count t + 1\<rparr> in
      case lh_head t of
        None \<Rightarrow> Some (t\<lparr>lh_head := Some n, lh_tail := Some n,
          lh_slots := (lh_slots t)[n := (lh_slots t ! n)\<lparr>ent_next := None, ent_prev := None\<rparr>]\<rparr>)
      | Some _ \<Rightarrow>
          (case lh_tail t of
             None \<Rightarrow> None
           | Some m \<Rightarrow>
               if length (lh_slots t) \<le> m then None
               else
                 let slots = (lh_slots t)[m := (lh_slots t ! m)\<lparr>ent_next := Some n\<rparr>];
                     slots = slots[n := (slots ! n)\<lparr>ent_prev := Some m, ent_next := None\<rparr>]
                 in Some (t\<lparr>lh_slots := slots, lh_tail := Some n\<rparr>)))"

text \<open>The entries from a pointer on, in the order of their links.\<close>

fun follow :: "('k, 'v) lh_entry list \<Rightarrow> nat \<Rightarrow> nat option \<Rightarrow> ('k \<times> 'v option) list option" where
  "follow slots f None = Some []"
| "follow slots 0 (Some i) = None"
| "follow slots (Suc f) (Some i) =
     (if length slots \<le> i then None
      else (case ent_k (slots ! i) of
          Key k \<Rightarrow> map_option ((#) (k, ent_v (slots ! i))) (follow slots f (ent_next (slots ! i)))
        | _ \<Rightarrow> None))"

definition lh_contents :: "('k, 'v) lh_table \<Rightarrow> ('k \<times> 'v option) list option" where
  "lh_contents t = follow (lh_slots t) (length (lh_slots t)) (lh_head t)"

fun insert_all ::
  "('k \<Rightarrow> 'v option \<Rightarrow> ('k, 'v) lh_table \<Rightarrow> ('k, 'v) lh_table option)
     \<Rightarrow> ('k \<times> 'v option) list \<Rightarrow> ('k, 'v) lh_table \<Rightarrow> ('k, 'v) lh_table option" where
  "insert_all ins [] t = Some t"
| "insert_all ins ((k, v) # es) t = do { t \<leftarrow> ins k v t; insert_all ins es t }"

definition resize_with ::
  "('k \<Rightarrow> 'v option \<Rightarrow> ('k, 'v) lh_table \<Rightarrow> ('k, 'v) lh_table option)
     \<Rightarrow> nat \<Rightarrow> ('k, 'v) lh_table \<Rightarrow> ('k, 'v) lh_table option" where
  "resize_with ins new_size t = do {
     es \<leftarrow> lh_contents t;
     new_t \<leftarrow> insert_all ins es (lh_table_new new_size False);
     Some (t\<lparr>lh_slots := lh_slots new_t, lh_size := new_size, lh_head := lh_head new_t,
       lh_tail := lh_tail new_t, lh_resizes := lh_resizes t + 1\<rparr>)
   }"

text \<open>
  Inserting may resize, which inserts into the new table; \<open>d\<close> bounds how deep this
  goes.
\<close>

primrec lh_insert ::
  "nat \<Rightarrow> 'k lh_fns \<Rightarrow> 'k \<Rightarrow> 'v option \<Rightarrow> ('k, 'v) lh_table \<Rightarrow> ('k, 'v) lh_table option" where
  "lh_insert 0 F k v t = None"
| "lh_insert (Suc d) F k v t =
     (let t = t\<lparr>lh_inserts := lh_inserts t + 1\<rparr> in do {
        t \<leftarrow> (if over_load (lh_count t) (lh_size t) then
                (if 2 ^ 31 \<le> lh_size t * 2 then None
                 else resize_with (lh_insert d F) (lh_size t * 2) t)
              else Some t);
        if lh_size t = 0 then None
        else do {
          (n, collisions) \<leftarrow> probe (lh_slots t) (lh_size t) (lh_size t)
             (unat (hash_fn F k) mod lh_size t) (lh_collisions t);
          place n k v (t\<lparr>lh_collisions := collisions\<rparr>)
        }
      })"

definition LH_DEPTH :: nat where "LH_DEPTH = 32"

definition lh_table_insert ::
  "'k lh_fns \<Rightarrow> 'k \<Rightarrow> 'v option \<Rightarrow> ('k, 'v) lh_table \<Rightarrow> ('k, 'v) lh_table option" where
  "lh_table_insert F k v t = lh_insert LH_DEPTH F k v t"

definition lh_table_resize ::
  "'k lh_fns \<Rightarrow> nat \<Rightarrow> ('k, 'v) lh_table \<Rightarrow> ('k, 'v) lh_table option" where
  "lh_table_resize F new_size t = resize_with (lh_table_insert F) new_size t"

text \<open>The entry with a key, by its index; the result of a search that finds none is \<open>Some None\<close>.\<close>

fun lookup_loop ::
  "('k, 'v) lh_entry list \<Rightarrow> nat \<Rightarrow> ('k \<Rightarrow> bool) \<Rightarrow> nat \<Rightarrow> nat \<Rightarrow> nat option option" where
  "lookup_loop slots sz eq 0 n = Some None"
| "lookup_loop slots sz eq (Suc f) n =
     (if length slots \<le> n then None
      else (case ent_k (slots ! n) of
          EMPTY \<Rightarrow> Some None
        | FREED \<Rightarrow> lookup_loop slots sz eq f (next_slot sz n)
        | Key k \<Rightarrow> if eq k then Some (Some n) else lookup_loop slots sz eq f (next_slot sz n)))"

definition lh_table_lookup_entry ::
  "'k lh_fns \<Rightarrow> ('k, 'v) lh_table \<Rightarrow> 'k \<Rightarrow> (nat option \<times> ('k, 'v) lh_table) option" where
  "lh_table_lookup_entry F t k =
     (if lh_size t = 0 then None
      else map_option (\<lambda>r. (r, t\<lparr>lh_lookups := lh_lookups t + 1\<rparr>))
        (lookup_loop (lh_slots t) (lh_size t) (\<lambda>k'. equal_fn F k' k) (lh_size t)
          (unat (hash_fn F k) mod lh_size t)))"

definition lh_table_lookup_ex ::
  "'k lh_fns \<Rightarrow> ('k, 'v) lh_table \<Rightarrow> 'k \<Rightarrow> ((bool \<times> 'v option) \<times> ('k, 'v) lh_table) option" where
  "lh_table_lookup_ex F t k = do {
     (e, t) \<leftarrow> lh_table_lookup_entry F t k;
     Some (case e of Some n \<Rightarrow> (True, ent_v (lh_slots t ! n)) | None \<Rightarrow> (False, None), t)
   }"

definition lh_table_lookup ::
  "'k lh_fns \<Rightarrow> ('k, 'v) lh_table \<Rightarrow> 'k \<Rightarrow> ('v option \<times> ('k, 'v) lh_table) option" where
  "lh_table_lookup F t k = map_option (\<lambda>((_, v), t). (v, t)) (lh_table_lookup_ex F t k)"

text \<open>Unlinking slot \<open>n\<close>, with the four cases of the code.\<close>

definition unlink :: "nat \<Rightarrow> ('k, 'v) lh_table \<Rightarrow> ('k, 'v) lh_table option" where
  "unlink n t =
     (let slots = lh_slots t; e = slots ! n in
      if lh_tail t = Some n \<and> lh_head t = Some n then
        Some (t\<lparr>lh_head := None, lh_tail := None\<rparr>)
      else if lh_head t = Some n then
        (case ent_next e of
           None \<Rightarrow> None
         | Some m \<Rightarrow>
             if length slots \<le> m then None
             else Some (t\<lparr>lh_slots := slots[m := (slots ! m)\<lparr>ent_prev := None\<rparr>], lh_head := Some m\<rparr>))
      else if lh_tail t = Some n then
        (case ent_prev e of
           None \<Rightarrow> None
         | Some m \<Rightarrow>
             if length slots \<le> m then None
             else Some (t\<lparr>lh_slots := slots[m := (slots ! m)\<lparr>ent_next := None\<rparr>], lh_tail := Some m\<rparr>))
      else
        (case (ent_prev e, ent_next e) of
           (Some p, Some q) \<Rightarrow>
             if length slots \<le> p \<or> length slots \<le> q then None
             else
               let slots = slots[p := (slots ! p)\<lparr>ent_next := Some q\<rparr>];
                   slots = slots[q := (slots ! q)\<lparr>ent_prev := ent_prev (slots ! n)\<rparr>]
               in Some (t\<lparr>lh_slots := slots\<rparr>)
         | _ \<Rightarrow> None))"

definition lh_table_delete_entry :: "('k, 'v) lh_table \<Rightarrow> nat \<Rightarrow> (int \<times> ('k, 'v) lh_table) option" where
  "lh_table_delete_entry t n =
     (if length (lh_slots t) \<le> n then None
      else (case ent_k (lh_slots t ! n) of
          EMPTY \<Rightarrow> Some (- 1, t)
        | FREED \<Rightarrow> Some (- 1, t)
        | Key k \<Rightarrow>
            let e = lh_slots t ! n;
                t = t\<lparr>lh_count := lh_count t - 1,
                  lh_freed := lh_freed t @ (if lh_free_fn t then [(k, ent_v e)] else []),
                  lh_slots := (lh_slots t)[n := e\<lparr>ent_v := None, ent_k := FREED\<rparr>]\<rparr>
            in map_option
              (\<lambda>t. (0, t\<lparr>lh_slots := (lh_slots t)[n := (lh_slots t ! n)\<lparr>ent_next := None, ent_prev := None\<rparr>]\<rparr>))
              (unlink n t)))"

definition lh_table_delete ::
  "'k lh_fns \<Rightarrow> ('k, 'v) lh_table \<Rightarrow> 'k \<Rightarrow> (int \<times> ('k, 'v) lh_table) option" where
  "lh_table_delete F t k = do {
     (e, t) \<leftarrow> lh_table_lookup_entry F t k;
     (case e of None \<Rightarrow> Some (- 1, t) | Some n \<Rightarrow> lh_table_delete_entry t n)
   }"

definition lh_table_length :: "('k, 'v) lh_table \<Rightarrow> nat" where
  "lh_table_length t = lh_count t"

text \<open>The entries the free function gets when the table is freed.\<close>

definition lh_table_free :: "('k, 'v) lh_table \<Rightarrow> ('k \<times> 'v option) list option" where
  "lh_table_free t =
     map_option (\<lambda>es. lh_freed t @ (if lh_free_fn t then es else [])) (lh_contents t)"

end
