(* ===== verification/Link_Hash_Laws.thy ===== *)
theory Link_Hash_Laws
  imports Link_Hash "HOL-Library.Multiset"
begin

text \<open>
  The hash table implements a list of keys and values in the order of insertion:
  the invariant of the links and of the searches, what every operation does to the
  list, and the simulation of whole sequences of operations.
\<close>

section \<open>Doubly linked lists in the table\<close>

fun first_or :: "nat option \<Rightarrow> nat list \<Rightarrow> nat option" where
  "first_or q [] = q"
| "first_or q (i # is) = Some i"

definition last_or :: "nat option \<Rightarrow> nat list \<Rightarrow> nat option" where
  "last_or p is = (if is = [] then p else Some (last is))"

text \<open>The entries \<open>is\<close> are linked in order, between the pointers \<open>p\<close> and \<open>q\<close>.\<close>

fun linked :: "('k, 'v) lh_entry list \<Rightarrow> nat option \<Rightarrow> nat list \<Rightarrow> nat option \<Rightarrow> bool" where
  "linked slots p [] q = True"
| "linked slots p (i # is) q =
     (ent_prev (slots ! i) = p \<and> ent_next (slots ! i) = first_or q is \<and> linked slots (Some i) is q)"

lemma first_or_append [simp]: "first_or q (is @ js) = first_or (first_or q js) is"
  by (cases "is") auto

lemma last_or_simps [simp]:
  "last_or p [] = p" "last_or p (is @ i # js) = last_or (Some i) js" "last_or p (i # is) = last_or (Some i) is"
  by (auto simp: last_or_def)

lemma linked_append:
  "linked slots p (is @ js) q \<longleftrightarrow> linked slots p is (first_or q js) \<and> linked slots (last_or p is) js q"
  by (induction "is" arbitrary: p) auto

lemma linked_cong:
  assumes "\<forall>i \<in> set is. ent_next (slots' ! i) = ent_next (slots ! i) \<and> ent_prev (slots' ! i) = ent_prev (slots ! i)"
  shows "linked slots' p is q = linked slots p is q"
  using assms by (induction "is" arbitrary: p) auto

text \<open>Replacing an entry that is not in the list.\<close>

lemma linked_update [simp]:
  "n \<notin> set is \<Longrightarrow> linked (slots[n := e]) p is q = linked slots p is q"
  by (rule linked_cong) (metis nth_list_update_neq)

section \<open>The invariant\<close>

definition key_at :: "('k, 'v) lh_entry list \<Rightarrow> nat \<Rightarrow> 'k option" where
  "key_at slots i = (case ent_k (slots ! i) of Key k \<Rightarrow> Some k | _ \<Rightarrow> None)"

lemma key_at_Some: "key_at slots i = Some k \<longleftrightarrow> ent_k (slots ! i) = Key k"
  by (auto simp: key_at_def split: slot.splits)

lemma key_at_None: "key_at slots i = None \<longleftrightarrow> slot_free (slots ! i)"
  by (auto simp: key_at_def slot_free_def split: slot.splits)

definition entry_at :: "('k, 'v) lh_entry list \<Rightarrow> nat \<Rightarrow> 'k \<times> 'v option" where
  "entry_at slots i = (the (key_at slots i), ent_v (slots ! i))"

text \<open>A search for the key of a slot gets to it before it meets a slot never used.\<close>

definition found_from :: "nat \<Rightarrow> ('k, 'v) lh_entry list \<Rightarrow> nat \<Rightarrow> bool" where
  "found_from h slots i \<longleftrightarrow> (\<exists>d < length slots. (h + d) mod length slots = i
     \<and> (\<forall>e < d. ent_k (slots ! ((h + e) mod length slots)) \<noteq> EMPTY))"

definition lh_wf :: "'k lh_fns \<Rightarrow> ('k, 'v) lh_table \<Rightarrow> nat list \<Rightarrow> bool" where
  "lh_wf F t is \<longleftrightarrow> lh_size t = length (lh_slots t) \<and> 0 < lh_size t
     \<and> lh_count t = length is \<and> distinct is
     \<and> set is = {i. i < length (lh_slots t) \<and> key_at (lh_slots t) i \<noteq> None}
     \<and> linked (lh_slots t) None is None \<and> lh_head t = first_or None is \<and> lh_tail t = last_or None is
     \<and> (\<forall>i k. i < length (lh_slots t) \<longrightarrow> key_at (lh_slots t) i = Some k \<longrightarrow>
          found_from (unat (hash_fn F k)) (lh_slots t) i)"

definition holds :: "'k lh_fns \<Rightarrow> ('k, 'v) lh_table \<Rightarrow> ('k \<times> 'v option) list \<Rightarrow> bool" where
  "holds F t xs \<longleftrightarrow> (\<exists>is. lh_wf F t is \<and> xs = map (entry_at (lh_slots t)) is)"

lemma follow_linked:
  assumes "linked slots p is None" "\<forall>i \<in> set is. i < length slots \<and> key_at slots i \<noteq> None"
    "length is \<le> f"
  shows "follow slots f (first_or None is) = Some (map (entry_at slots) is)"
  using assms
proof (induction "is" arbitrary: p f)
  case (Cons i "is")
  obtain f' where f: "f = Suc f'" using Cons.prems(3) by (cases f) auto
  obtain k where "key_at slots i = Some k" using Cons.prems(2) by auto
  then show ?case
    using Cons f by (auto simp: entry_at_def key_at_def split: slot.splits)
qed simp

lemma lh_wf_length: "lh_wf F t is \<Longrightarrow> length is \<le> length (lh_slots t)"
proof -
  assume "lh_wf F t is"
  then have "distinct is" "set is \<subseteq> {..<length (lh_slots t)}" by (auto simp: lh_wf_def)
  then show ?thesis using card_mono [of "{..<length (lh_slots t)}" "set is"] by (simp add: distinct_card)
qed

text \<open>What the table holds is what following its links gives.\<close>

lemma holds_contents: "holds F t xs \<Longrightarrow> lh_contents t = Some xs"
proof -
  assume "holds F t xs"
  then obtain "is" where w: "lh_wf F t is" "xs = map (entry_at (lh_slots t)) is" by (auto simp: holds_def)
  then have "follow (lh_slots t) (length (lh_slots t)) (first_or None is) = Some xs"
    using lh_wf_length [OF w(1)] unfolding w(2) by (intro follow_linked) (auto simp: lh_wf_def)
  then show ?thesis using w by (simp add: lh_contents_def lh_wf_def)
qed

lemma holds_length: "holds F t xs \<Longrightarrow> lh_count t = length xs"
  by (auto simp: holds_def lh_wf_def)

lemma holds_new: "0 < n \<Longrightarrow> holds F (lh_table_new n free_fn) []"
proof -
  have "key_at (replicate n empty_entry) i = None" if "i < n" for i
    using that by (simp add: key_at_def empty_entry_def)
  then show "0 < n \<Longrightarrow> ?thesis"
    by (auto simp: holds_def lh_wf_def lh_table_new_def)
qed

section \<open>Searching\<close>

lemma next_slot_mod: "n < m \<Longrightarrow> next_slot m n = (n + 1) mod m"
  by (auto simp: next_slot_def)

lemma mod_step: "((n + 1) mod m + e) mod m = (n + Suc e) mod (m :: nat)"
  by (simp add: mod_add_left_eq)

lemma probe_finds:
  assumes "n < length slots" "d < f" "slot_free (slots ! ((n + d) mod length slots))"
    "\<forall>e < d. \<not> slot_free (slots ! ((n + e) mod length slots))"
  shows "\<exists>c'. probe slots (length slots) f n c = Some ((n + d) mod length slots, c')"
  using assms
proof (induction d arbitrary: f n c)
  case 0
  then show ?case by (cases f) auto
next
  case (Suc d)
  obtain f' where f: "f = Suc f'" using Suc.prems(2) by (cases f) auto
  let ?m = "length slots"
  have "\<not> slot_free (slots ! n)" using Suc.prems(1,4) by (force dest: spec [of _ 0])
  then have "probe slots ?m f n c = probe slots ?m f' ((n + 1) mod ?m) (c + 1)"
    using f Suc.prems(1) by (simp add: next_slot_mod)
  moreover have "\<exists>c'. probe slots ?m f' ((n + 1) mod ?m) (c + 1) = Some (((n + 1) mod ?m + d) mod ?m, c')"
  proof (rule Suc.IH)
    show "(n + 1) mod ?m < ?m" using Suc.prems(1) by (intro mod_less_divisor) linarith
    show "d < f'" using Suc.prems(2) f by simp
    show "slot_free (slots ! (((n + 1) mod ?m + d) mod ?m))" using Suc.prems(3) by (simp only: mod_step)
    show "\<forall>e < d. \<not> slot_free (slots ! (((n + 1) mod ?m + e) mod ?m))"
    proof (intro allI impI)
      fix e assume "e < d"
      then have "Suc e < Suc d" by simp
      then show "\<not> slot_free (slots ! (((n + 1) mod ?m + e) mod ?m))"
        using Suc.prems(4) unfolding mod_step by blast
    qed
  qed
  ultimately show ?case by (simp only: mod_step)
qed

lemma lookup_finds:
  assumes "n < length slots" "d < f" "ent_k (slots ! ((n + d) mod length slots)) = Key k" "eq k"
    "\<forall>e < d. ent_k (slots ! ((n + e) mod length slots)) \<noteq> EMPTY
      \<and> (\<forall>k'. ent_k (slots ! ((n + e) mod length slots)) = Key k' \<longrightarrow> \<not> eq k')"
  shows "lookup_loop slots (length slots) eq f n = Some (Some ((n + d) mod length slots))"
  using assms
proof (induction d arbitrary: f n)
  case 0
  then show ?case by (cases f) auto
next
  case (Suc d)
  obtain f' where f: "f = Suc f'" using Suc.prems(2) by (cases f) auto
  let ?m = "length slots"
  have "ent_k (slots ! n) \<noteq> EMPTY \<and> (\<forall>k'. ent_k (slots ! n) = Key k' \<longrightarrow> \<not> eq k')"
    using Suc.prems(1) spec [OF Suc.prems(5), of 0] by simp
  then have "lookup_loop slots ?m eq f n = lookup_loop slots ?m eq f' ((n + 1) mod ?m)"
    using f Suc.prems(1) by (auto simp: next_slot_mod split: slot.splits)
  moreover have "lookup_loop slots ?m eq f' ((n + 1) mod ?m) = Some (Some (((n + 1) mod ?m + d) mod ?m))"
  proof (rule Suc.IH)
    show "(n + 1) mod ?m < ?m" using Suc.prems(1) by (intro mod_less_divisor) linarith
    show "d < f'" using Suc.prems(2) f by simp
    show "ent_k (slots ! (((n + 1) mod ?m + d) mod ?m)) = Key k" using Suc.prems(3) by (simp only: mod_step)
    show "eq k" by (rule Suc.prems(4))
    show "\<forall>e < d. ent_k (slots ! (((n + 1) mod ?m + e) mod ?m)) \<noteq> EMPTY
        \<and> (\<forall>k'. ent_k (slots ! (((n + 1) mod ?m + e) mod ?m)) = Key k' \<longrightarrow> \<not> eq k')"
    proof (intro allI impI)
      fix e assume "e < d"
      then have "Suc e < Suc d" by simp
      then show "ent_k (slots ! (((n + 1) mod ?m + e) mod ?m)) \<noteq> EMPTY
        \<and> (\<forall>k'. ent_k (slots ! (((n + 1) mod ?m + e) mod ?m)) = Key k' \<longrightarrow> \<not> eq k')"
        using Suc.prems(5) unfolding mod_step by blast
    qed
  qed
  ultimately show ?case by (simp only: mod_step)
qed

lemma lookup_none:
  assumes "n < length slots"
    "\<forall>i < length slots. \<forall>k. ent_k (slots ! i) = Key k \<longrightarrow> \<not> eq k"
  shows "lookup_loop slots (length slots) eq f n = Some None"
  using assms(1)
proof (induction f arbitrary: n)
  case (Suc f)
  have "next_slot (length slots) n < length slots"
    using Suc.prems by (auto simp: next_slot_def)
  then show ?case using Suc assms(2) by (auto split: slot.split)
qed simp

section \<open>Inserting\<close>

lemma found_from_mono:
  assumes "found_from h slots i" "length slots' = length slots"
    "\<And>j. j < length slots \<Longrightarrow> ent_k (slots ! j) \<noteq> EMPTY \<Longrightarrow> ent_k (slots' ! j) \<noteq> EMPTY"
  shows "found_from h slots' i"
proof -
  obtain d where d: "d < length slots" "(h + d) mod length slots = i"
    "\<forall>e < d. ent_k (slots ! ((h + e) mod length slots)) \<noteq> EMPTY"
    using assms(1) by (auto simp: found_from_def)
  have "0 < length slots" using d(1) by linarith
  then have "\<forall>e < d. ent_k (slots' ! ((h + e) mod length slots)) \<noteq> EMPTY"
    using d(3) assms(3) by simp
  then show ?thesis using d assms(2) unfolding found_from_def by metis
qed

text \<open>
  The invariant after a change of the table that keeps the keys of the other slots
  and leaves slot \<open>n\<close> with a key, linked last.
\<close>

lemma lh_wf_grow:
  assumes w: "lh_wf F t is" and n: "n < length (lh_slots t)" "key_at (lh_slots t) n = None"
    and s': "length slots' = length (lh_slots t)" "ent_k (slots' ! n) = Key k"
      "\<And>j. j \<noteq> n \<Longrightarrow> ent_k (slots' ! j) = ent_k (lh_slots t ! j)"
      "linked slots' None (is @ [n]) None"
    and f: "found_from (unat (hash_fn F k)) (lh_slots t) n"
    and t': "t' = t\<lparr>lh_slots := slots', lh_count := lh_count t + 1, lh_collisions := c,
      lh_head := first_or None (is @ [n]), lh_tail := Some n\<rparr>"
  shows "lh_wf F t' (is @ [n])"
proof -
  have k: "key_at slots' j = (if j = n then Some k else key_at (lh_slots t) j)" for j
    using s'(2,3) by (simp add: key_at_def)
  have set: "set is = {i. i < length (lh_slots t) \<and> key_at (lh_slots t) i \<noteq> None}" "distinct is"
    using w by (simp_all add: lh_wf_def)
  have nin: "n \<notin> set is" using set n(2) by simp
  have free: "ent_k (lh_slots t ! j) \<noteq> EMPTY \<Longrightarrow> ent_k (slots' ! j) \<noteq> EMPTY" for j
    using s'(2,3) by (cases "j = n") auto
  have found: "found_from (unat (hash_fn F k')) slots' i"
    if "i < length slots'" "key_at slots' i = Some k'" for i k'
  proof (cases "i = n")
    case True
    then show ?thesis using that k found_from_mono [OF f s'(1) free] by simp
  next
    case False
    then have "found_from (unat (hash_fn F k')) (lh_slots t) i"
      using w that k s'(1) by (simp add: lh_wf_def)
    then show ?thesis by (rule found_from_mono [OF _ s'(1) free])
  qed
  have "set (is @ [n]) = {i. i < length slots' \<and> key_at slots' i \<noteq> None}"
    using set(1) n(1) s'(1) by (auto simp: k)
  moreover have "lh_slots t \<noteq> []" using n(1) by auto
  ultimately show ?thesis
    using w nin set(2) s' found by (simp add: lh_wf_def t')
qed

lemma place_step:
  assumes w: "lh_wf F t is" and n: "n < length (lh_slots t)" "key_at (lh_slots t) n = None"
    and f: "found_from (unat (hash_fn F k)) (lh_slots t) n"
  shows "\<exists>t'. place n k v (t\<lparr>lh_collisions := c\<rparr>) = Some t' \<and> lh_wf F t' (is @ [n])
    \<and> map (entry_at (lh_slots t')) (is @ [n]) = map (entry_at (lh_slots t)) is @ [(k, v)]
    \<and> lh_size t' = lh_size t \<and> lh_free_fn t' = lh_free_fn t \<and> lh_freed t' = lh_freed t"
proof -
  have li: "linked (lh_slots t) None is None" "lh_head t = first_or None is" "lh_tail t = last_or None is"
    and nin: "n \<notin> set is" and inr: "\<forall>i \<in> set is. i < length (lh_slots t)" and di: "distinct is"
    using w n(2) by (auto simp: lh_wf_def)
  let ?e = "(lh_slots t ! n)\<lparr>ent_k := Key k, ent_v := v\<rparr>"
  have fin: ?thesis
    if p: "place n k v (t\<lparr>lh_collisions := c\<rparr>) = Some (t\<lparr>lh_slots := slots', lh_count := lh_count t + 1,
        lh_collisions := c, lh_head := first_or None (is @ [n]), lh_tail := Some n\<rparr>)"
      and s': "length slots' = length (lh_slots t)" "ent_k (slots' ! n) = Key k" "ent_v (slots' ! n) = v"
        "\<And>j. j \<noteq> n \<Longrightarrow> ent_k (slots' ! j) = ent_k (lh_slots t ! j) \<and> ent_v (slots' ! j) = ent_v (lh_slots t ! j)"
        "linked slots' None (is @ [n]) None" for slots'
  proof -
    have "map (entry_at slots') is = map (entry_at (lh_slots t)) is"
    proof (rule map_cong)
      fix i assume "i \<in> set is"
      then have "i \<noteq> n" using nin by auto
      then show "entry_at slots' i = entry_at (lh_slots t) i"
        using s'(4) by (simp add: entry_at_def key_at_def)
    qed simp
    moreover have "entry_at slots' n = (k, v)" using s' by (simp add: entry_at_def key_at_def)
    ultimately show ?thesis
      using p lh_wf_grow [OF w n s'(1,2) _ s'(5) f refl] s'(4) by auto
  qed
  show ?thesis
  proof (cases "is" rule: rev_cases)
    case Nil
    let ?s = "(lh_slots t)[n := ?e\<lparr>ent_next := None, ent_prev := None\<rparr>]"
    show ?thesis
    proof (rule fin [of ?s])
      show "place n k v (t\<lparr>lh_collisions := c\<rparr>) = Some (t\<lparr>lh_slots := ?s, lh_count := lh_count t + 1,
        lh_collisions := c, lh_head := first_or None (is @ [n]), lh_tail := Some n\<rparr>)"
        using Nil n li by (simp add: place_def Let_def)
    qed (use Nil n in simp_all)
  next
    case (snoc js m)
    have m: "m < length (lh_slots t)" "m \<noteq> n" "m \<notin> set js" "n \<notin> set js"
      using snoc inr nin di by auto
    let ?s = "(lh_slots t)[n := ?e\<lparr>ent_prev := Some m, ent_next := None\<rparr>, m := (lh_slots t ! m)\<lparr>ent_next := Some n\<rparr>]"
    obtain i where i: "first_or None is = Some i" using snoc by (cases js) auto
    show ?thesis
    proof (rule fin [of ?s])
      show "place n k v (t\<lparr>lh_collisions := c\<rparr>) = Some (t\<lparr>lh_slots := ?s, lh_count := lh_count t + 1,
        lh_collisions := c, lh_head := first_or None (is @ [n]), lh_tail := Some n\<rparr>)"
        using snoc n li m i by (cases js) (simp_all add: place_def Let_def list_update_swap)
      show "linked ?s None (is @ [n]) None"
        using li(1) m n(1) by (simp add: snoc linked_append)
    qed (use m n in \<open>auto simp: nth_list_update\<close>)
  qed
qed

text \<open>What holds of a table depends only on its slots, their number and the ends of the list.\<close>

lemma holds_cong:
  assumes "holds F t xs" "lh_slots t' = lh_slots t" "lh_size t' = lh_size t" "lh_count t' = lh_count t"
    "lh_head t' = lh_head t" "lh_tail t' = lh_tail t"
  shows "holds F t' xs"
  using assms by (auto simp: holds_def lh_wf_def)

lemma holds_size: "holds F t xs \<Longrightarrow> 0 < lh_size t \<and> length xs \<le> lh_size t \<and> lh_size t = length (lh_slots t)"
proof -
  assume "holds F t xs"
  then obtain "is" where "lh_wf F t is" "xs = map (entry_at (lh_slots t)) is" by (auto simp: holds_def)
  then show ?thesis using lh_wf_length [of F t "is"] unfolding lh_wf_def by auto
qed

lemma search_reaches:
  assumes "i < m" "0 < (m :: nat)" "P i"
  shows "\<exists>d < m. P ((h + d) mod m) \<and> (\<forall>e < d. \<not> P ((h + e) mod m))"
proof -
  let ?Q = "\<lambda>d. P ((h + d) mod m)"
  let ?d = "(i + (m - h mod m)) mod m"
  have "(h + ?d) mod m = (h mod m + (i + (m - h mod m))) mod m" by (simp add: mod_simps)
  also have "h mod m + (i + (m - h mod m)) = i + m"
    using mod_less_divisor [OF assms(2), of h] by linarith
  finally have q: "?Q ?d" using assms(1,3) by simp
  have "?d < m" using assms(2) by simp
  moreover have "(LEAST d. ?Q d) \<le> ?d" by (rule Least_le) (rule q)
  ultimately have "(LEAST d. ?Q d) < m" by linarith
  moreover have "?Q (LEAST d. ?Q d)" using q by (rule LeastI)
  moreover have "\<forall>e < (LEAST d. ?Q d). \<not> ?Q e" using not_less_Least by blast
  ultimately show ?thesis by blast
qed

definition fill :: "'k lh_fns \<Rightarrow> 'k \<Rightarrow> 'v option \<Rightarrow> ('k, 'v) lh_table \<Rightarrow> ('k, 'v) lh_table option" where
  "fill F k v t = do {
     (n, collisions) \<leftarrow> probe (lh_slots t) (lh_size t) (lh_size t)
        (unat (hash_fn F k) mod lh_size t) (lh_collisions t);
     place n k v (t\<lparr>lh_collisions := collisions\<rparr>)
   }"

lemma fill_step:
  assumes "holds F t xs" "length xs < lh_size t"
  shows "\<exists>t'. fill F k v t = Some t' \<and> holds F t' (xs @ [(k, v)])
    \<and> lh_size t' = lh_size t \<and> lh_free_fn t' = lh_free_fn t \<and> lh_freed t' = lh_freed t"
proof -
  obtain "is" where w: "lh_wf F t is" and xs: "xs = map (entry_at (lh_slots t)) is"
    using assms(1) by (auto simp: holds_def)
  let ?m = "length (lh_slots t)" and ?h = "unat (hash_fn F k)"
  have m: "lh_size t = ?m" "0 < ?m" using w by (auto simp: lh_wf_def)
  have "\<exists>i < ?m. slot_free (lh_slots t ! i)"
  proof (rule ccontr)
    assume "\<not> ?thesis"
    then have "set is = {i. i < ?m}" using w by (auto simp: lh_wf_def simp flip: key_at_None)
    then have "card (set is) = ?m" by simp
    then show False using assms(2) xs m(1) card_length [of "is"] by simp
  qed
  then obtain i where "i < ?m" "slot_free (lh_slots t ! i)" by blast
  from search_reaches [OF this(1) m(2), of "\<lambda>i. slot_free (lh_slots t ! i)" ?h, OF this(2)]
  obtain d where d: "d < ?m" "slot_free (lh_slots t ! ((?h + d) mod ?m))"
    "\<forall>e < d. \<not> slot_free (lh_slots t ! ((?h + e) mod ?m))" by blast
  let ?n = "(?h + d) mod ?m"
  have n: "?n < ?m" "key_at (lh_slots t) ?n = None" using d(2) m(2) by (simp_all add: key_at_None)
  have f: "found_from ?h (lh_slots t) ?n"
    unfolding found_from_def using d by (auto simp: slot_free_def)
  have "\<exists>c. probe (lh_slots t) ?m ?m (?h mod ?m) (lh_collisions t) = Some ((?h mod ?m + d) mod ?m, c)"
    using d m(2) by (intro probe_finds) (simp_all add: mod_add_left_eq)
  then obtain c where "probe (lh_slots t) ?m ?m (?h mod ?m) (lh_collisions t) = Some (?n, c)"
    by (auto simp: mod_add_left_eq)
  then have "fill F k v t = place ?n k v (t\<lparr>lh_collisions := c\<rparr>)" by (simp add: fill_def m(1))
  moreover from place_step [OF w n f, of v c] obtain t' where
    t': "place ?n k v (t\<lparr>lh_collisions := c\<rparr>) = Some t'" "lh_wf F t' (is @ [?n])"
      "map (entry_at (lh_slots t')) (is @ [?n]) = xs @ [(k, v)]"
      "lh_size t' = lh_size t \<and> lh_free_fn t' = lh_free_fn t \<and> lh_freed t' = lh_freed t"
    unfolding xs by blast
  moreover have "holds F t' (xs @ [(k, v)])"
    unfolding holds_def using t'(2,3) by (intro exI [of _ "is @ [?n]"]) simp
  ultimately show ?thesis by simp
qed

lemma lh_insert_fill:
  "\<not> over_load (lh_count t) (lh_size t) \<Longrightarrow> lh_size t \<noteq> 0 \<Longrightarrow>
    lh_insert (Suc d) F k v t = fill F k v (t\<lparr>lh_inserts := lh_inserts t + 1\<rparr>)"
  by (simp add: fill_def Let_def)

declare lh_insert.simps(2) [simp del]

lemma insert_all_step:
  assumes "holds F t ys" "\<forall>c < length ys + length es. \<not> over_load c (lh_size t)"
  shows "\<exists>t'. insert_all (lh_insert (Suc d) F) es t = Some t' \<and> holds F t' (ys @ es) \<and> lh_size t' = lh_size t"
  using assms
proof (induction es arbitrary: t ys)
  case (Cons e es)
  obtain k v where e: "e = (k, v)" by (cases e)
  let ?t = "t\<lparr>lh_inserts := lh_inserts t + 1\<rparr>"
  have h: "holds F ?t ys" using Cons.prems(1) by (rule holds_cong) simp_all
  have o: "\<not> over_load (length ys) (lh_size t)" using Cons.prems(2) by simp
  then have "length ys < lh_size ?t" by (simp add: over_load_def)
  from fill_step [OF h this] obtain t1 where t1: "fill F k v ?t = Some t1"
    "holds F t1 (ys @ [(k, v)])" "lh_size t1 = lh_size t" by auto
  have "lh_insert (Suc d) F k v t = Some t1"
    using t1(1) o holds_length [OF Cons.prems(1)] holds_size [OF Cons.prems(1)]
    by (subst lh_insert_fill) auto
  moreover have "\<exists>t'. insert_all (lh_insert (Suc d) F) es t1 = Some t'
      \<and> holds F t' ((ys @ [(k, v)]) @ es) \<and> lh_size t' = lh_size t1"
    using Cons.prems(2) t1(3) by (intro Cons.IH t1(2)) simp
  ultimately show ?case using t1(3) e by auto
qed auto

lemma resize_step:
  assumes "holds F t xs"
  shows "\<exists>t'. resize_with (lh_insert (Suc d) F) (lh_size t * 2) t = Some t' \<and> holds F t' xs
    \<and> lh_size t' = lh_size t * 2 \<and> lh_free_fn t' = lh_free_fn t \<and> lh_freed t' = lh_freed t
    \<and> lh_count t' = lh_count t"
proof -
  have sz: "0 < lh_size t" "length xs \<le> lh_size t" using holds_size [OF assms] by auto
  have z: "holds F (lh_table_new (lh_size t * 2) False) []" using sz by (intro holds_new) simp
  have "\<forall>c < length [] + length xs. \<not> over_load c (lh_size (lh_table_new (lh_size t * 2) False))"
    using sz by (auto simp: over_load_def lh_table_new_def)
  from insert_all_step [OF z this, of d] obtain n where n: "insert_all (lh_insert (Suc d) F) xs (lh_table_new (lh_size t * 2) False) = Some n"
    "holds F n xs" "lh_size n = lh_size t * 2" by (auto simp: lh_table_new_def)
  let ?t = "t\<lparr>lh_slots := lh_slots n, lh_size := lh_size t * 2, lh_head := lh_head n,
       lh_tail := lh_tail n, lh_resizes := lh_resizes t + 1\<rparr>"
  have "resize_with (lh_insert (Suc d) F) (lh_size t * 2) t = Some ?t"
    using n(1) holds_contents [OF assms] by (simp add: resize_with_def)
  moreover have "holds F ?t xs"
    using n(3) holds_length [OF n(2)] holds_length [OF assms] by (intro holds_cong [OF n(2)]) simp_all
  ultimately show ?thesis by auto
qed

lemma insert_step:
  assumes "holds F t xs" "lh_size t * 2 < 2 ^ 31"
  shows "\<exists>t'. lh_insert (Suc (Suc d)) F k v t = Some t' \<and> holds F t' (xs @ [(k, v)])
    \<and> lh_size t' = (if over_load (length xs) (lh_size t) then lh_size t * 2 else lh_size t)
    \<and> lh_free_fn t' = lh_free_fn t \<and> lh_freed t' = lh_freed t"
proof -
  let ?t = "t\<lparr>lh_inserts := lh_inserts t + 1\<rparr>"
  have h: "holds F ?t xs" using assms(1) by (rule holds_cong) simp_all
  have c: "lh_count t = length xs" using assms(1) by (rule holds_length)
  have sz: "0 < lh_size t" "length xs \<le> lh_size t" using holds_size [OF assms(1)] by auto
  show ?thesis
  proof (cases "over_load (length xs) (lh_size t)")
    case False
    then have "length xs < lh_size ?t" by (simp add: over_load_def)
    from fill_step [OF h this] show ?thesis
      using False c sz by (subst lh_insert_fill) auto
  next
    case True
    obtain t1 where t1: "resize_with (lh_insert (Suc d) F) (lh_size ?t * 2) ?t = Some t1" "holds F t1 xs"
      "lh_size t1 = lh_size t * 2" "lh_free_fn t1 = lh_free_fn t" "lh_freed t1 = lh_freed t"
      using resize_step [OF h] by auto
    have "length xs < lh_size t1" using sz t1(3) by simp
    from fill_step [OF t1(2) this, of k v] obtain t2 where t2: "fill F k v t1 = Some t2"
      "holds F t2 (xs @ [(k, v)])" "lh_size t2 = lh_size t1" "lh_free_fn t2 = lh_free_fn t1"
      "lh_freed t2 = lh_freed t1" by blast
    have "lh_insert (Suc (Suc d)) F k v t = fill F k v t1"
      using True c assms(2) t1(1,3) sz(1)
      by (subst lh_insert.simps) (simp add: Let_def fill_def)
    then show ?thesis using t2 t1 True by simp
  qed
qed

section \<open>Lookups\<close>

definition exact :: "'k lh_fns \<Rightarrow> bool" where
  "exact F \<longleftrightarrow> (\<forall>a b. equal_fn F a b \<longleftrightarrow> a = b)"

lemma entry_keys:
  assumes "lh_wf F t is" "xs = map (entry_at (lh_slots t)) is"
  shows "i \<in> set is \<Longrightarrow> ent_k (lh_slots t ! i) = Key (fst (entry_at (lh_slots t) i))"
    and "fst ` set xs = {k. \<exists>i < length (lh_slots t). ent_k (lh_slots t ! i) = Key k}"
proof -
  have k: "ent_k (lh_slots t ! i) = Key (fst (entry_at (lh_slots t) i))" if "i \<in> set is" for i
    using assms(1) that by (auto simp: lh_wf_def entry_at_def simp flip: key_at_Some)
  then show "i \<in> set is \<Longrightarrow> ent_k (lh_slots t ! i) = Key (fst (entry_at (lh_slots t) i))" .
  show "fst ` set xs = {k. \<exists>i < length (lh_slots t). ent_k (lh_slots t ! i) = Key k}"
  proof (intro set_eqI iffI)
    fix a assume "a \<in> fst ` set xs"
    then obtain i where "i \<in> set is" "a = fst (entry_at (lh_slots t) i)" using assms(2) by auto
    then show "a \<in> {k. \<exists>i < length (lh_slots t). ent_k (lh_slots t ! i) = Key k}"
      using k assms(1) by (auto simp: lh_wf_def)
  next
    fix a assume "a \<in> {k. \<exists>i < length (lh_slots t). ent_k (lh_slots t ! i) = Key k}"
    then obtain i where i: "i < length (lh_slots t)" "key_at (lh_slots t) i = Some a"
      by (auto simp: key_at_Some)
    then have "i \<in> set is" using assms(1) by (simp add: lh_wf_def)
    then show "a \<in> fst ` set xs" using assms(2) i(2) by (force simp: entry_at_def)
  qed
qed

lemma mod_shift_inj:
  assumes "(h + e) mod m = (h + d) mod (m :: nat)" "e \<le> d" "d < m"
  shows "e = d"
proof -
  have "m dvd (h + d) - (h + e)"
    using assms(1,2) mod_eq_dvd_iff_nat [of "h + e" "h + d" m] by simp
  then have "m dvd d - e" by simp
  then show ?thesis using assms(2,3) by (auto dest: dvd_imp_le)
qed

lemma lookup_entry_step:
  assumes "lh_wf F t is" "xs = map (entry_at (lh_slots t)) is" "exact F" "distinct (map fst xs)"
  shows "\<exists>r. lh_table_lookup_entry F t k = Some (r, t\<lparr>lh_lookups := lh_lookups t + 1\<rparr>)
    \<and> (case r of None \<Rightarrow> k \<notin> fst ` set xs
       | Some n \<Rightarrow> n \<in> set is \<and> fst (entry_at (lh_slots t) n) = k)"
proof -
  let ?m = "length (lh_slots t)" and ?h = "unat (hash_fn F k)"
  have m: "lh_size t = ?m" "0 < ?m" using assms(1) by (auto simp: lh_wf_def)
  have start: "?h mod ?m < ?m" using m(2) by simp
  note keys = entry_keys [OF assms(1,2)]
  show ?thesis
  proof (cases "k \<in> fst ` set xs")
    case False
    then have "\<forall>i < ?m. \<forall>k'. ent_k (lh_slots t ! i) = Key k' \<longrightarrow> \<not> equal_fn F k' k"
      using keys(2) assms(3) by (auto simp: exact_def)
    from lookup_none [OF start this, of ?m] have
      "lh_table_lookup_entry F t k = Some (None, t\<lparr>lh_lookups := lh_lookups t + 1\<rparr>)"
      using m by (simp add: lh_table_lookup_entry_def)
    then show ?thesis using False by simp
  next
    case True
    then obtain n where n: "n \<in> set is" "fst (entry_at (lh_slots t) n) = k" using assms(2) by auto
    then have ek: "ent_k (lh_slots t ! n) = Key k" "n < ?m" using keys(1) assms(1) by (auto simp: lh_wf_def)
    then have "found_from ?h (lh_slots t) n" using assms(1) by (simp add: lh_wf_def key_at_Some)
    then obtain d where d: "d < ?m" "(?h + d) mod ?m = n"
      "\<forall>e < d. ent_k (lh_slots t ! ((?h + e) mod ?m)) \<noteq> EMPTY" by (auto simp: found_from_def)
    have other: "\<not> equal_fn F k' k" if e: "e < d" "ent_k (lh_slots t ! ((?h + e) mod ?m)) = Key k'" for e k'
    proof
      assume "equal_fn F k' k"
      then have k': "k' = k" using assms(3) by (simp add: exact_def)
      let ?i = "(?h + e) mod ?m"
      have "?i \<in> set is" using e(2) m(2) assms(1) by (simp add: lh_wf_def key_at_Some)
      moreover have "fst (entry_at (lh_slots t) ?i) = k" using e(2) k' by (simp add: entry_at_def key_at_def)
      moreover have "inj_on (\<lambda>i. fst (entry_at (lh_slots t) i)) (set is)"
        using assms(4) by (simp add: assms(2) distinct_map comp_def)
      ultimately have "?i = n" using n by (auto dest: inj_onD)
      then have "(?h + e) mod ?m = (?h + d) mod ?m" using d(2) by simp
      then show False using mod_shift_inj [of ?h e ?m d] e(1) d(1) by simp
    qed
    have "lookup_loop (lh_slots t) ?m (\<lambda>k'. equal_fn F k' k) ?m (?h mod ?m) = Some (Some ((?h mod ?m + d) mod ?m))"
      using d ek other assms(3) start by (intro lookup_finds [where k = k]) (auto simp: mod_add_left_eq exact_def)
    then show ?thesis using n d(2) m by (simp add: lh_table_lookup_entry_def mod_add_left_eq)
  qed
qed

lemma map_of_entry:
  assumes "distinct (map fst (map f is))" "n \<in> set is" "fst (f n) = k"
  shows "map_of (map f is) k = Some (snd (f n))"
  using assms by (metis image_eqI list.set_map map_of_eq_Some_iff prod.collapse)

lemma lookup_step:
  assumes "holds F t xs" "exact F" "distinct (map fst xs)"
  shows "\<exists>t'. lh_table_lookup_ex F t k =
      Some ((k \<in> fst ` set xs, case map_of xs k of None \<Rightarrow> None | Some v \<Rightarrow> v), t')
    \<and> holds F t' xs \<and> lh_size t' = lh_size t \<and> lh_free_fn t' = lh_free_fn t \<and> lh_freed t' = lh_freed t"
proof -
  obtain "is" where w: "lh_wf F t is" and xs: "xs = map (entry_at (lh_slots t)) is"
    using assms(1) by (auto simp: holds_def)
  let ?t = "t\<lparr>lh_lookups := lh_lookups t + 1\<rparr>"
  obtain r where r: "lh_table_lookup_entry F t k = Some (r, ?t)"
    "case r of None \<Rightarrow> k \<notin> fst ` set xs | Some n \<Rightarrow> n \<in> set is \<and> fst (entry_at (lh_slots t) n) = k"
    using lookup_entry_step [OF w xs assms(2,3), of k] by blast
  have h: "holds F ?t xs" using assms(1) by (rule holds_cong) simp_all
  show ?thesis
  proof (cases r)
    case None
    then have "k \<notin> fst ` set xs" "map_of xs k = None" using r(2) by (simp_all add: map_of_eq_None_iff)
    then show ?thesis using r(1) None h by (simp add: lh_table_lookup_ex_def)
  next
    case (Some n)
    then have n: "n \<in> set is" "fst (entry_at (lh_slots t) n) = k" using r(2) by simp_all
    then have "k \<in> fst ` set xs" by (auto simp: xs)
    moreover have "map_of xs k = Some (ent_v (lh_slots t ! n))"
      using map_of_entry [of "entry_at (lh_slots t)" "is" n k] assms(3) n by (simp add: xs entry_at_def)
    ultimately show ?thesis using r(1) Some h by (simp add: lh_table_lookup_ex_def)
  qed
qed

section \<open>Deleting\<close>

text \<open>The invariant after a slot was freed and taken out of the links.\<close>

lemma lh_wf_shrink:
  assumes w: "lh_wf F t (js @ n # ks)"
    and s': "length slots' = length (lh_slots t)" "ent_k (slots' ! n) = FREED"
      "\<And>j. j \<noteq> n \<Longrightarrow> ent_k (slots' ! j) = ent_k (lh_slots t ! j)"
      "linked slots' None (js @ ks) None"
    and t': "t' = t\<lparr>lh_slots := slots', lh_count := lh_count t - 1, lh_freed := fr,
      lh_head := first_or None (js @ ks), lh_tail := last_or None (js @ ks)\<rparr>"
  shows "lh_wf F t' (js @ ks)"
proof -
  have k: "key_at slots' j = (if j = n then None else key_at (lh_slots t) j)" for j
    using s'(2,3) by (simp add: key_at_def)
  have set: "set (js @ n # ks) = {i. i < length (lh_slots t) \<and> key_at (lh_slots t) i \<noteq> None}"
    and d: "distinct (js @ n # ks)" using w by (simp_all add: lh_wf_def)
  have "set (js @ ks) = set (js @ n # ks) - {n}" using d by auto
  then have "set (js @ ks) = {i. i < length slots' \<and> key_at slots' i \<noteq> None}"
    unfolding set using s'(1) by (auto simp: k)
  moreover have "found_from (unat (hash_fn F k')) slots' i"
    if i: "i < length slots'" "key_at slots' i = Some k'" for i k'
  proof (rule found_from_mono [OF _ s'(1)])
    show "found_from (unat (hash_fn F k')) (lh_slots t) i"
      using w i k s'(1) by (auto simp: lh_wf_def split: if_splits)
    show "ent_k (slots' ! j) \<noteq> EMPTY" if "ent_k (lh_slots t ! j) \<noteq> EMPTY" for j
      using that s'(2,3) by (cases "j = n") auto
  qed
  moreover have "lh_slots t \<noteq> []" using w by (auto simp: lh_wf_def)
  ultimately show ?thesis
    using w d s' by (simp add: lh_wf_def t')
qed

lemma delete_entry_step:
  assumes w: "lh_wf F t (js @ n # ks)"
  shows "\<exists>t'. lh_table_delete_entry t n = Some (0, t') \<and> lh_wf F t' (js @ ks)
    \<and> map (entry_at (lh_slots t')) (js @ ks) = map (entry_at (lh_slots t)) (js @ ks)
    \<and> lh_size t' = lh_size t \<and> lh_free_fn t' = lh_free_fn t
    \<and> lh_freed t' = lh_freed t @ (if lh_free_fn t then [entry_at (lh_slots t) n] else [])"
proof -
  let ?s = "lh_slots t"
  have li: "linked ?s None (js @ n # ks) None" "lh_head t = first_or None (js @ n # ks)"
    "lh_tail t = last_or None (js @ n # ks)" and d: "distinct (js @ n # ks)"
    and inr: "\<forall>i \<in> set (js @ n # ks). i < length ?s" and kn: "key_at ?s n \<noteq> None"
    using w by (auto simp: lh_wf_def)
  have n: "n < length ?s" using inr by simp
  obtain k where k: "ent_k (?s ! n) = Key k" using kn by (auto simp: key_at_Some)
  let ?fr = "lh_freed t @ (if lh_free_fn t then [(k, ent_v (?s ! n))] else [])"
  let ?s1 = "?s[n := (?s ! n)\<lparr>ent_v := None, ent_k := FREED\<rparr>]"
  let ?t1 = "t\<lparr>lh_count := lh_count t - 1, lh_freed := ?fr, lh_slots := ?s1\<rparr>"
  have fin: ?thesis
    if u: "unlink n ?t1 = Some (?t1\<lparr>lh_slots := s2, lh_head := first_or None (js @ ks),
        lh_tail := last_or None (js @ ks)\<rparr>)"
      and s2: "length s2 = length ?s" "ent_k (s2 ! n) = FREED"
        "\<And>j. j \<noteq> n \<Longrightarrow> ent_k (s2 ! j) = ent_k (?s ! j) \<and> ent_v (s2 ! j) = ent_v (?s ! j)"
        "linked s2 None (js @ ks) None" for s2
  proof -
    let ?s3 = "s2[n := (s2 ! n)\<lparr>ent_next := None, ent_prev := None\<rparr>]"
    let ?t3 = "t\<lparr>lh_slots := ?s3, lh_count := lh_count t - 1, lh_freed := ?fr,
      lh_head := first_or None (js @ ks), lh_tail := last_or None (js @ ks)\<rparr>"
    have "lh_table_delete_entry t n = Some (0, ?t3)"
      using n k u by (simp add: lh_table_delete_entry_def Let_def)
    moreover have "lh_wf F ?t3 (js @ ks)"
      using s2 d n by (intro lh_wf_shrink [OF w, of ?s3 _ ?fr]) auto
    moreover have "map (entry_at ?s3) (js @ ks) = map (entry_at ?s) (js @ ks)"
    proof (rule map_cong)
      fix i assume "i \<in> set (js @ ks)"
      then have "i \<noteq> n" using d by auto
      then show "entry_at ?s3 i = entry_at ?s i" using s2(3) by (simp add: entry_at_def key_at_def)
    qed simp
    moreover have "entry_at ?s n = (k, ent_v (?s ! n))" using k by (simp add: entry_at_def key_at_def)
    ultimately show ?thesis by simp
  qed
  have e1: "ent_next (?s1 ! n) = ent_next (?s ! n)" "ent_prev (?s1 ! n) = ent_prev (?s ! n)"
    using n by simp_all
  have ends: "ent_prev (?s ! n) = last_or None js" "ent_next (?s ! n) = first_or None ks"
    "linked ?s None js (Some n)" "linked ?s (Some n) ks None"
    using li(1) by (simp_all add: linked_append)
  show ?thesis
  proof (cases js rule: rev_cases)
    case Nil
    note js = this
    show ?thesis
    proof (cases ks)
      case Nil
      show ?thesis
        using js Nil li n by (intro fin [of ?s1]) (simp_all add: unlink_def Let_def)
    next
      case (Cons q ks')
      have q: "q < length ?s" "q \<noteq> n" "q \<notin> set ks'" "n \<notin> set ks'" using Cons inr d js by auto
      have t: "lh_tail t \<noteq> Some n" using li(3) d js Cons by (auto simp: last_or_def)
      show ?thesis
        using js Cons li(2,3) t ends e1 q n
        by (intro fin [of "?s1[q := (?s1 ! q)\<lparr>ent_prev := None\<rparr>]"])
          (auto simp: unlink_def Let_def nth_list_update)
    qed
  next
    case (snoc js' p)
    note js = this
    have p: "p < length ?s" "p \<noteq> n" "p \<notin> set js'" "n \<notin> set js'" using js inr d by auto
    have h: "lh_head t \<noteq> Some n" using li(2) d js by (cases js') auto
    show ?thesis
    proof (cases ks)
      case Nil
      show ?thesis
        using js Nil li(2,3) h ends e1 p n
        by (intro fin [of "?s1[p := (?s1 ! p)\<lparr>ent_next := None\<rparr>]"])
          (auto simp: unlink_def Let_def nth_list_update linked_append)
    next
      case (Cons q ks')
      have q: "q < length ?s" "q \<noteq> n" "q \<noteq> p" "q \<notin> set js'" "q \<notin> set ks'" "p \<notin> set ks'" "n \<notin> set ks'"
        using js Cons inr d by auto
      have t: "lh_tail t \<noteq> Some n" using li(3) d js Cons by (auto simp: last_or_def)
      let ?s2 = "?s1[p := (?s1 ! p)\<lparr>ent_next := Some q\<rparr>]"
      show ?thesis
        using js Cons li(2,3) h t ends e1 p q n
        by (intro fin [of "?s2[q := (?s2 ! q)\<lparr>ent_prev := Some p\<rparr>]"])
          (auto simp: unlink_def Let_def nth_list_update linked_append)
    qed
  qed
qed

lemma filter_absent:
  assumes "k \<notin> fst ` set xs"
  shows "filter (\<lambda>(k', v). k' \<noteq> k) xs = xs" "filter (\<lambda>(k', v). k' = k) xs = []"
  using assms by (force simp: filter_id_conv filter_empty_conv)+

lemma delete_step:
  assumes "holds F t xs" "exact F" "distinct (map fst xs)"
  shows "\<exists>t'. lh_table_delete F t k = Some (if k \<in> fst ` set xs then 0 else - 1, t')
    \<and> holds F t' (filter (\<lambda>(k', v). k' \<noteq> k) xs) \<and> lh_size t' = lh_size t \<and> lh_free_fn t' = lh_free_fn t
    \<and> lh_freed t' = lh_freed t @ (if lh_free_fn t then filter (\<lambda>(k', v). k' = k) xs else [])"
proof -
  obtain "is" where w: "lh_wf F t is" and xs: "xs = map (entry_at (lh_slots t)) is"
    using assms(1) by (auto simp: holds_def)
  let ?t = "t\<lparr>lh_lookups := lh_lookups t + 1\<rparr>"
  obtain r where r: "lh_table_lookup_entry F t k = Some (r, ?t)"
    "case r of None \<Rightarrow> k \<notin> fst ` set xs | Some n \<Rightarrow> n \<in> set is \<and> fst (entry_at (lh_slots t) n) = k"
    using lookup_entry_step [OF w xs assms(2,3), of k] by blast
  have h: "holds F ?t xs" using assms(1) by (rule holds_cong) simp_all
  show ?thesis
  proof (cases r)
    case None
    then have k: "k \<notin> fst ` set xs" using r(2) by simp
    from filter_absent [OF this] show ?thesis using r(1) None h k by (simp add: lh_table_delete_def)
  next
    case (Some n)
    then have n: "n \<in> set is" "fst (entry_at (lh_slots t) n) = k" using r(2) by simp_all
    obtain js ks where sp: "is = js @ n # ks" using split_list [OF n(1)] by blast
    have "lh_wf F ?t is" using w by (auto simp: lh_wf_def)
    from delete_entry_step [OF this [unfolded sp]] obtain t' where
      t': "lh_table_delete_entry ?t n = Some (0, t')" "lh_wf F t' (js @ ks)"
        "map (entry_at (lh_slots t')) (js @ ks) = map (entry_at (lh_slots t)) (js @ ks)"
        "lh_size t' = lh_size t" "lh_free_fn t' = lh_free_fn t"
        "lh_freed t' = lh_freed t @ (if lh_free_fn t then [entry_at (lh_slots t) n] else [])"
      by auto
    let ?e = "entry_at (lh_slots t)"
    have sx: "xs = map ?e js @ ?e n # map ?e ks" by (simp add: xs sp)
    have d: "k \<notin> fst ` set (map ?e js)" "k \<notin> fst ` set (map ?e ks)"
      using assms(3) n(2) by (auto simp: sx)
    have fl: "filter (\<lambda>(k', v). k' \<noteq> k) xs = map ?e (js @ ks)"
      "filter (\<lambda>(k', v). k' = k) xs = [?e n]"
      using filter_absent [OF d(1)] filter_absent [OF d(2)] n(2) by (simp_all add: sx case_prod_beta)
    have "holds F t' (map (entry_at (lh_slots t')) (js @ ks))"
      using t'(2) by (auto simp: holds_def)
    then have f: "holds F t' (filter (\<lambda>(k', v). k' \<noteq> k) xs)" unfolding fl(1) t'(3) .
    have g: "lh_freed t' = lh_freed t @ (if lh_free_fn t then filter (\<lambda>(k', v). k' = k) xs else [])"
      using t'(6) fl(2) by simp
    have "k \<in> fst ` set xs" using n by (auto simp: xs)
    then show ?thesis using r(1) Some t'(1,4,5) f g by (simp add: lh_table_delete_def)
  qed
qed

section \<open>Sequences of operations\<close>

text \<open>What json-c does with its tables, and the same on a list of keys and values.\<close>

datatype ('k, 'v) lh_op = Insert 'k "'v option" | Lookup 'k | Delete 'k | Length

datatype 'v lh_answer = Inserted | Found bool "'v option" | Deleted int | Counted nat

fun run_ops ::
  "'k lh_fns \<Rightarrow> ('k, 'v) lh_op list \<Rightarrow> ('k, 'v) lh_table \<Rightarrow> ('v lh_answer list \<times> ('k, 'v) lh_table) option" where
  "run_ops F [] t = Some ([], t)"
| "run_ops F (Insert k v # ops) t = do {
     t \<leftarrow> lh_table_insert F k v t; (as, t) \<leftarrow> run_ops F ops t; Some (Inserted # as, t) }"
| "run_ops F (Lookup k # ops) t = do {
     ((b, v), t) \<leftarrow> lh_table_lookup_ex F t k; (as, t) \<leftarrow> run_ops F ops t; Some (Found b v # as, t) }"
| "run_ops F (Delete k # ops) t = do {
     (r, t) \<leftarrow> lh_table_delete F t k; (as, t) \<leftarrow> run_ops F ops t; Some (Deleted r # as, t) }"
| "run_ops F (Length # ops) t = do {
     (as, t') \<leftarrow> run_ops F ops t; Some (Counted (lh_table_length t) # as, t') }"

fun spec_ops ::
  "('k, 'v) lh_op list \<Rightarrow> ('k \<times> 'v option) list \<Rightarrow> 'v lh_answer list \<times> ('k \<times> 'v option) list" where
  "spec_ops [] xs = ([], xs)"
| "spec_ops (Insert k v # ops) xs = (case spec_ops ops (xs @ [(k, v)]) of (as, ys) \<Rightarrow> (Inserted # as, ys))"
| "spec_ops (Lookup k # ops) xs = (case spec_ops ops xs of (as, ys) \<Rightarrow>
     (Found (k \<in> fst ` set xs) (case map_of xs k of None \<Rightarrow> None | Some v \<Rightarrow> v) # as, ys))"
| "spec_ops (Delete k # ops) xs = (case spec_ops ops (filter (\<lambda>(k', v). k' \<noteq> k) xs) of (as, ys) \<Rightarrow>
     (Deleted (if k \<in> fst ` set xs then 0 else - 1) # as, ys))"
| "spec_ops (Length # ops) xs = (case spec_ops ops xs of (as, ys) \<Rightarrow> (Counted (length xs) # as, ys))"

text \<open>Only keys that are not there are inserted: json-c looks them up first.\<close>

fun new_keys :: "('k, 'v) lh_op list \<Rightarrow> ('k \<times> 'v option) list \<Rightarrow> bool" where
  "new_keys [] xs = True"
| "new_keys (Insert k v # ops) xs = (k \<notin> fst ` set xs \<and> new_keys ops (xs @ [(k, v)]))"
| "new_keys (Delete k # ops) xs = new_keys ops (filter (\<lambda>(k', v). k' \<noteq> k) xs)"
| "new_keys (_ # ops) xs = new_keys ops xs"

fun inserted :: "('k, 'v) lh_op list \<Rightarrow> ('k \<times> 'v option) list" where
  "inserted [] = []"
| "inserted (Insert k v # ops) = (k, v) # inserted ops"
| "inserted (_ # ops) = inserted ops"

lemma LH_DEPTH_two: "LH_DEPTH = Suc (Suc 30)"
  by (simp add: LH_DEPTH_def)

text \<open>A table that grew has room for the entries it holds, but not for many more.\<close>

lemma insert_bound:
  assumes "holds F t xs" "lh_size t < 2 ^ 30" "4 * Suc (length xs) < 2 ^ 30"
  shows "\<exists>t'. lh_table_insert F k v t = Some t' \<and> holds F t' (xs @ [(k, v)]) \<and> lh_size t' < 2 ^ 30
    \<and> lh_free_fn t' = lh_free_fn t \<and> lh_freed t' = lh_freed t"
proof -
  have "lh_size t * 2 < 2 ^ 31" using assms(2) by simp
  from insert_step [OF assms(1) this, of 30 k v] obtain t' where
    t': "lh_table_insert F k v t = Some t'" "holds F t' (xs @ [(k, v)])"
      "lh_size t' = (if over_load (length xs) (lh_size t) then lh_size t * 2 else lh_size t)"
      "lh_free_fn t' = lh_free_fn t" "lh_freed t' = lh_freed t"
    unfolding lh_table_insert_def LH_DEPTH_two by blast
  have "lh_size t' < 2 ^ 30"
    using t'(3) assms(2,3) by (auto simp: over_load_def split: if_splits)
  then show ?thesis using t' by blast
qed

lemma ops_step:
  assumes "holds F t xs" "exact F" "distinct (map fst xs)" "lh_size t < 2 ^ 30"
    "4 * (length xs + length ops) < 2 ^ 30" "new_keys ops xs"
  shows "\<exists>t'. run_ops F ops t = Some (fst (spec_ops ops xs), t') \<and> holds F t' (snd (spec_ops ops xs))
    \<and> lh_free_fn t' = lh_free_fn t
    \<and> (lh_free_fn t \<longrightarrow> mset (lh_freed t') + mset (snd (spec_ops ops xs))
        = mset (lh_freed t) + mset xs + mset (inserted ops))"
  using assms
proof (induction ops xs arbitrary: t rule: spec_ops.induct)
  case (2 k v ops xs)
  obtain t1 where t1: "lh_table_insert F k v t = Some t1" "holds F t1 (xs @ [(k, v)])" "lh_size t1 < 2 ^ 30"
    "lh_free_fn t1 = lh_free_fn t" "lh_freed t1 = lh_freed t"
    using insert_bound [OF 2(2,5), of k v] 2(6) by auto
  have "distinct (map fst (xs @ [(k, v)]))" using 2(4,7) by simp
  from 2(1) [OF t1(2) 2(3) this t1(3)] 2(6,7) t1 show ?case
    by (auto simp: case_prod_beta add_ac)
next
  case (3 k ops xs)
  obtain t1 where t1: "lh_table_lookup_ex F t k =
      Some ((k \<in> fst ` set xs, case map_of xs k of None \<Rightarrow> None | Some v \<Rightarrow> v), t1)"
    "holds F t1 xs" "lh_size t1 = lh_size t" "lh_free_fn t1 = lh_free_fn t" "lh_freed t1 = lh_freed t"
    using lookup_step [OF 3(2,3,4), of k] by blast
  from 3(1) [OF t1(2) 3(3,4)] 3(5-7) t1 show ?case by (auto simp: case_prod_beta)
next
  case (4 k ops xs)
  let ?xs = "filter (\<lambda>(k', v). k' \<noteq> k) xs"
  obtain t1 where t1: "lh_table_delete F t k = Some (if k \<in> fst ` set xs then 0 else - 1, t1)"
    "holds F t1 ?xs" "lh_size t1 = lh_size t" "lh_free_fn t1 = lh_free_fn t"
    "lh_freed t1 = lh_freed t @ (if lh_free_fn t then filter (\<lambda>(k', v). k' = k) xs else [])"
    using delete_step [OF 4(2,3,4), of k] by blast
  have d: "distinct (map fst ?xs)" using 4(4) by (rule distinct_map_filter)
  have l: "length ?xs \<le> length xs" by simp
  have p: "mset (filter (\<lambda>(k', v). k' = k) xs) + mset ?xs = mset xs"
    using multiset_partition [of "mset xs" "\<lambda>(k', v). k' = k"] by (simp add: case_prod_beta)
  have b: "4 * (length ?xs + length ops) < 2 ^ 30" using l 4(6) by (simp del: length_filter_le)
  have n: "new_keys ops ?xs" "lh_size t1 < 2 ^ 30" using 4(5,7) t1(3) by simp_all
  obtain t2 where t2: "run_ops F ops t1 = Some (fst (spec_ops ops ?xs), t2)"
    "holds F t2 (snd (spec_ops ops ?xs))" "lh_free_fn t2 = lh_free_fn t1"
    "lh_free_fn t1 \<longrightarrow> mset (lh_freed t2) + mset (snd (spec_ops ops ?xs))
        = mset (lh_freed t1) + mset ?xs + mset (inserted ops)"
    using 4(1) [OF t1(2) 4(3) d n(2) b n(1)] by blast
  have f: "mset (lh_freed t1) + mset ?xs = mset (lh_freed t) + mset xs" if "lh_free_fn t"
    using t1(5) that p by (simp add: add.assoc)
  have snd: "snd (spec_ops (Delete k # ops) xs) = snd (spec_ops ops ?xs)" by (simp add: case_prod_beta)
  have "run_ops F (Delete k # ops) t = Some (fst (spec_ops (Delete k # ops) xs), t2)"
    using t1(1) t2(1) by (simp add: case_prod_beta)
  moreover have "lh_free_fn t \<longrightarrow> mset (lh_freed t2) + mset (snd (spec_ops (Delete k # ops) xs))
        = mset (lh_freed t) + mset xs + mset (inserted (Delete k # ops))"
    unfolding snd using t2(4) t1(4) f by simp
  ultimately show ?case unfolding snd using t2(2,3) t1(4) by blast
next
  case (5 ops xs)
  have n: "4 * (length xs + length ops) < 2 ^ 30" "new_keys ops xs" using 5(6,7) by simp_all
  obtain t1 where "run_ops F ops t = Some (fst (spec_ops ops xs), t1)"
    "holds F t1 (snd (spec_ops ops xs))" "lh_free_fn t1 = lh_free_fn t"
    "lh_free_fn t \<longrightarrow> mset (lh_freed t1) + mset (snd (spec_ops ops xs))
        = mset (lh_freed t) + mset xs + mset (inserted ops)"
    using 5(1) [OF 5(2-5) n] by blast
  then show ?case using holds_length [OF 5(2)] by (simp add: case_prod_beta lh_table_length_def)
qed auto

text \<open>
  C35: a table of json-c behaves as a list of keys and values in the order of
  insertion. Every sequence of operations on a new table that inserts only keys
  that are not there returns, with the answers the list gives; its links lead
  through exactly the entries of the list, in order; and with a free function every
  entry that was inserted is freed exactly once, when it is deleted or when the
  table is freed.
\<close>

theorem lh_table_refines:
  assumes "exact F" "0 < n" "n < 2 ^ 30" "length ops < 2 ^ 28" "new_keys ops []"
  shows "\<exists>t fs. run_ops F ops (lh_table_new n free_fn) = Some (fst (spec_ops ops []), t)
    \<and> lh_contents t = Some (snd (spec_ops ops []))
    \<and> lh_table_free t = Some fs \<and> (free_fn \<longrightarrow> mset fs = mset (inserted ops))"
proof -
  have "lh_size (lh_table_new n free_fn) < 2 ^ 30" "4 * (length [] + length ops) < 2 ^ 30"
    using assms(3,4) by (simp_all add: lh_table_new_def)
  from ops_step [OF holds_new [OF assms(2)] assms(1) _ this assms(5)]
  obtain t where t: "run_ops F ops (lh_table_new n free_fn) = Some (fst (spec_ops ops []), t)"
    "holds F t (snd (spec_ops ops []))" "lh_free_fn t = free_fn"
    "free_fn \<longrightarrow> mset (lh_freed t) + mset (snd (spec_ops ops [])) = mset (inserted ops)"
    by (auto simp: lh_table_new_def)
  then show ?thesis
    using holds_contents [OF t(2)] by (auto simp: lh_table_free_def)
qed

end
