(* ===== verification/Hash_Little.thy ===== *)
theory Hash_Little
  imports Link_Hash Text
begin

text \<open>
  The hash of json-c's strings (json-c/linkhash.c): \<open>hashlittle\<close> reads a key by
  words, by half words or by bytes, as the address of the key is aligned; the three
  compute one function of the key's bytes, \<open>lookup3\<close>. The target is little-endian.

  Memory is the list of the readable bytes from the key on, the address of the
  key a number. A read outside the memory has no result (\<open>None\<close>).
\<close>

section \<open>Memory\<close>

text \<open>The number of up to four bytes, the least significant byte first.\<close>

primrec le32 :: "byte list \<Rightarrow> u32" where
  "le32 [] = 0"
| "le32 (b # bs) = ucast b + 256 * le32 bs"

text \<open>The 32 bit, 16 bit and 8 bit number at an index of an array of such numbers.\<close>

definition word_at :: "byte list \<Rightarrow> nat \<Rightarrow> u32 option" where
  "word_at mem i = (if 4 * i + 4 \<le> length mem then Some (le32 (region mem (4 * i) 4)) else None)"

definition half_at :: "byte list \<Rightarrow> nat \<Rightarrow> u32 option" where
  "half_at mem i = (if 2 * i + 2 \<le> length mem then Some (le32 (region mem (2 * i) 2)) else None)"

definition byte_at :: "byte list \<Rightarrow> nat \<Rightarrow> u32 option" where
  "byte_at mem i = (if i < length mem then Some (ucast (mem ! i)) else None)"

section \<open>Mixing\<close>

type_synonym abc = "u32 \<times> u32 \<times> u32"

definition rot :: "u32 \<Rightarrow> nat \<Rightarrow> u32" where
  "rot x k = push_bit k x OR drop_bit (32 - k) x"

definition mix :: "abc \<Rightarrow> abc" where
  "mix s = (let
     (a, b, c) = s;
     a = a - c; a = a XOR rot c 4; c = c + b;
     b = b - a; b = b XOR rot a 6; a = a + c;
     c = c - b; c = c XOR rot b 8; b = b + a;
     a = a - c; a = a XOR rot c 16; c = c + b;
     b = b - a; b = b XOR rot a 19; a = a + c;
     c = c - b; c = c XOR rot b 4; b = b + a
     in (a, b, c))"

definition final_mix :: "abc \<Rightarrow> abc" where
  "final_mix s = (let
     (a, b, c) = s;
     c = c XOR b; c = c - rot b 14;
     a = a XOR c; a = a - rot c 11;
     b = b XOR a; b = b - rot a 25;
     c = c XOR b; c = c - rot b 16;
     a = a XOR c; a = a - rot c 4;
     b = b XOR a; b = b - rot a 14;
     c = c XOR b; c = c - rot b 24
     in (a, b, c))"

section \<open>All blocks of 12 bytes but the last\<close>

text \<open>
  The loop \<open>while (length > 12)\<close>, with the reading of a block; it leaves the rest
  of the memory, the rest of the length and the state.
\<close>

function blocks :: "(byte list \<Rightarrow> abc \<Rightarrow> abc option) \<Rightarrow> byte list \<Rightarrow> nat \<Rightarrow> abc \<Rightarrow> (byte list \<times> nat \<times> abc) option" where
  "blocks add mem len s =
     (if 12 < len then do { s \<leftarrow> add mem s; blocks add (drop 12 mem) (len - 12) (mix s) }
      else Some (mem, len, s))"
  by auto
termination by (relation "measure (\<lambda>(add, mem, len, s). len)") auto

declare blocks.simps [simp del]

definition add_words :: "byte list \<Rightarrow> abc \<Rightarrow> abc option" where
  "add_words k s = (case s of (a, b, c) \<Rightarrow> do {
     k0 \<leftarrow> word_at k 0; k1 \<leftarrow> word_at k 1; k2 \<leftarrow> word_at k 2;
     Some (a + k0, b + k1, c + k2) })"

definition add_halves :: "byte list \<Rightarrow> abc \<Rightarrow> abc option" where
  "add_halves k s = (case s of (a, b, c) \<Rightarrow> do {
     k0 \<leftarrow> half_at k 0; k1 \<leftarrow> half_at k 1; k2 \<leftarrow> half_at k 2;
     k3 \<leftarrow> half_at k 3; k4 \<leftarrow> half_at k 4; k5 \<leftarrow> half_at k 5;
     Some (a + (k0 + push_bit 16 k1), b + (k2 + push_bit 16 k3), c + (k4 + push_bit 16 k5)) })"

text \<open>One byte of a block: which of the three numbers it is added to, and shifted by how much.\<close>

definition add_byte :: "byte list \<Rightarrow> nat \<Rightarrow> abc \<Rightarrow> abc option" where
  "add_byte k i s = (case s of (a, b, c) \<Rightarrow> do {
     x \<leftarrow> byte_at k i;
     let y = push_bit (8 * (i mod 4)) x;
     Some (if i div 4 = 0 then (a + y, b, c) else if i div 4 = 1 then (a, b + y, c) else (a, b, c + y)) })"

primrec add_upto :: "byte list \<Rightarrow> nat \<Rightarrow> abc \<Rightarrow> abc option" where
  "add_upto k 0 s = Some s"
| "add_upto k (Suc i) s = do { s \<leftarrow> add_upto k i s; add_byte k i s }"

definition add_bytes :: "byte list \<Rightarrow> abc \<Rightarrow> abc option" where
  "add_bytes k s = add_upto k 12 s"

section \<open>The last block\<close>

text \<open>The three \<open>switch\<close> statements; the length is at most 12 and not 0.\<close>

definition last_words :: "byte list \<Rightarrow> nat \<Rightarrow> abc \<Rightarrow> abc option" where
  "last_words k len s = (case s of (a, b, c) \<Rightarrow>
     if len = 12 then do { k2 \<leftarrow> word_at k 2; k1 \<leftarrow> word_at k 1; k0 \<leftarrow> word_at k 0; Some (a + k0, b + k1, c + k2) }
     else if len = 11 then do { k2 \<leftarrow> word_at k 2; k1 \<leftarrow> word_at k 1; k0 \<leftarrow> word_at k 0;
       Some (a + k0, b + k1, c + (k2 AND 0xffffff)) }
     else if len = 10 then do { k2 \<leftarrow> word_at k 2; k1 \<leftarrow> word_at k 1; k0 \<leftarrow> word_at k 0;
       Some (a + k0, b + k1, c + (k2 AND 0xffff)) }
     else if len = 9 then do { k2 \<leftarrow> word_at k 2; k1 \<leftarrow> word_at k 1; k0 \<leftarrow> word_at k 0;
       Some (a + k0, b + k1, c + (k2 AND 0xff)) }
     else if len = 8 then do { k1 \<leftarrow> word_at k 1; k0 \<leftarrow> word_at k 0; Some (a + k0, b + k1, c) }
     else if len = 7 then do { k1 \<leftarrow> word_at k 1; k0 \<leftarrow> word_at k 0; Some (a + k0, b + (k1 AND 0xffffff), c) }
     else if len = 6 then do { k1 \<leftarrow> word_at k 1; k0 \<leftarrow> word_at k 0; Some (a + k0, b + (k1 AND 0xffff), c) }
     else if len = 5 then do { k1 \<leftarrow> word_at k 1; k0 \<leftarrow> word_at k 0; Some (a + k0, b + (k1 AND 0xff), c) }
     else if len = 4 then do { k0 \<leftarrow> word_at k 0; Some (a + k0, b, c) }
     else if len = 3 then do { k0 \<leftarrow> word_at k 0; Some (a + (k0 AND 0xffffff), b, c) }
     else if len = 2 then do { k0 \<leftarrow> word_at k 0; Some (a + (k0 AND 0xffff), b, c) }
     else if len = 1 then do { k0 \<leftarrow> word_at k 0; Some (a + (k0 AND 0xff), b, c) }
     else Some s)"

text \<open>Two half words make a word.\<close>

definition halves_at :: "byte list \<Rightarrow> nat \<Rightarrow> u32 option" where
  "halves_at k i = do { x \<leftarrow> half_at k i; y \<leftarrow> half_at k (i + 1); Some (x + push_bit 16 y) }"

text \<open>The odd cases add one byte and fall through to the case below.\<close>

fun last_halves :: "byte list \<Rightarrow> nat \<Rightarrow> abc \<Rightarrow> abc option" where
  "last_halves k len (a, b, c) =
     (if len = 12 then do { k2 \<leftarrow> halves_at k 4; k1 \<leftarrow> halves_at k 2; k0 \<leftarrow> halves_at k 0; Some (a + k0, b + k1, c + k2) }
      else if len = 11 then do { x \<leftarrow> byte_at k 10; last_halves k 10 (a, b, c + push_bit 16 x) }
      else if len = 10 then do { k2 \<leftarrow> half_at k 4; k1 \<leftarrow> halves_at k 2; k0 \<leftarrow> halves_at k 0; Some (a + k0, b + k1, c + k2) }
      else if len = 9 then do { x \<leftarrow> byte_at k 8; last_halves k 8 (a, b, c + x) }
      else if len = 8 then do { k1 \<leftarrow> halves_at k 2; k0 \<leftarrow> halves_at k 0; Some (a + k0, b + k1, c) }
      else if len = 7 then do { x \<leftarrow> byte_at k 6; last_halves k 6 (a, b + push_bit 16 x, c) }
      else if len = 6 then do { k1 \<leftarrow> half_at k 2; k0 \<leftarrow> halves_at k 0; Some (a + k0, b + k1, c) }
      else if len = 5 then do { x \<leftarrow> byte_at k 4; last_halves k 4 (a, b + x, c) }
      else if len = 4 then do { k0 \<leftarrow> halves_at k 0; Some (a + k0, b, c) }
      else if len = 3 then do { x \<leftarrow> byte_at k 2; last_halves k 2 (a + push_bit 16 x, b, c) }
      else if len = 2 then do { k0 \<leftarrow> half_at k 0; Some (a + k0, b, c) }
      else if len = 1 then do { x \<leftarrow> byte_at k 0; Some (a + x, b, c) }
      else Some (a, b, c))"

declare last_halves.simps [simp del]

text \<open>All cases fall through.\<close>

primrec last_bytes :: "byte list \<Rightarrow> nat \<Rightarrow> abc \<Rightarrow> abc option" where
  "last_bytes k 0 s = Some s"
| "last_bytes k (Suc i) s = do { s \<leftarrow> add_byte k i s; last_bytes k i s }"

section \<open>The hash\<close>

definition finish :: "(byte list \<Rightarrow> nat \<Rightarrow> abc \<Rightarrow> abc option) \<Rightarrow> byte list \<times> nat \<times> abc \<Rightarrow> u32 option" where
  "finish last_block r = (case r of (k, len, s) \<Rightarrow>
     if len = 0 then Some (snd (snd s))
     else do { s \<leftarrow> last_block k len s; Some (snd (snd (final_mix s))) })"

definition hash_init :: "nat \<Rightarrow> u32 \<Rightarrow> abc" where
  "hash_init len initval = (let x = 0xdeadbeef + of_nat len + initval in (x, x, x))"

definition hashlittle :: "nat \<Rightarrow> byte list \<Rightarrow> nat \<Rightarrow> u32 \<Rightarrow> u32 option" where
  "hashlittle addr mem len initval =
     (let s = hash_init len initval in
      if addr mod 4 = 0 then do { r \<leftarrow> blocks add_words mem len s; finish last_words r }
      else if addr mod 2 = 0 then do { r \<leftarrow> blocks add_halves mem len s; finish last_halves r }
      else do { r \<leftarrow> blocks add_bytes mem len s; finish last_bytes r })"

section \<open>The hash of a C string\<close>

text \<open>
  json-c/random_seed.c, without the instructions of an x86: what \<open>stat\<close> gives of
  /dev/urandom (\<open>None\<close> when it fails), what \<open>open\<close> and \<open>read\<close> give of it, and the time.
  \<open>None\<close> as the result stands for the end of the process.
\<close>

record seed_source =
  urandom_mode :: "u32 option"
  urandom_int :: "u32 option"
  time_now :: u32

definition S_IFCHR :: u32 where "S_IFCHR = 0x2000"

definition has_dev_urandom :: "seed_source \<Rightarrow> bool" where
  "has_dev_urandom e = (case urandom_mode e of None \<Rightarrow> False | Some m \<Rightarrow> m AND S_IFCHR \<noteq> 0)"

definition get_time_seed :: "seed_source \<Rightarrow> u32" where
  "get_time_seed e = time_now e * 433494437"

definition json_c_get_random_seed :: "seed_source \<Rightarrow> u32 option" where
  "json_c_get_random_seed e =
     (if has_dev_urandom e then urandom_int e else Some (get_time_seed e))"

text \<open>
  The loop of the first call; it takes one \<open>seed_source\<close> of the list per turn. \<open>None\<close>
  when the process ends, or when the list is used up.
\<close>

fun draw_seed :: "seed_source list \<Rightarrow> (u32 \<times> seed_source list) option" where
  "draw_seed [] = None"
| "draw_seed (e # es) = do {
     seed \<leftarrow> json_c_get_random_seed e;
     (if seed = - 1 then draw_seed es else Some (seed, es)) }"

text \<open>\<open>strlen\<close>, for memory with a NUL in it.\<close>

definition mem_strlen :: "byte list \<Rightarrow> nat option" where
  "mem_strlen mem = (if 0 \<in> set mem then Some (length (takeWhile (\<lambda>b. b \<noteq> 0) mem)) else None)"

text \<open>The state is the static \<open>random_seed\<close>, with the sources of the next seeds.\<close>

definition lh_char_hash ::
  "nat \<Rightarrow> byte list \<Rightarrow> u32 \<times> seed_source list \<Rightarrow> (u64 \<times> u32 \<times> seed_source list) option" where
  "lh_char_hash addr mem st = do {
     (random_seed, es) \<leftarrow> (if fst st = - 1 then draw_seed (snd st) else Some st);
     len \<leftarrow> mem_strlen mem;
     h \<leftarrow> hashlittle addr mem len random_seed;
     Some (ucast h, random_seed, es)
   }"

section \<open>One function of the bytes\<close>

text \<open>The three numbers of a block of at most 12 bytes are added; a longer key is mixed by blocks.\<close>

definition add_block :: "byte list \<Rightarrow> abc \<Rightarrow> abc" where
  "add_block xs s = (case s of (a, b, c) \<Rightarrow>
     (a + le32 (region xs 0 4), b + le32 (region xs 4 4), c + le32 (region xs 8 4)))"

function lookup3_from :: "byte list \<Rightarrow> abc \<Rightarrow> u32" where
  "lookup3_from xs s =
     (if 12 < length xs then lookup3_from (drop 12 xs) (mix (add_block xs s))
      else snd (snd (if xs = [] then s else final_mix (add_block xs s))))"
  by auto
termination by (relation "measure (\<lambda>(xs, s). length xs)") auto

declare lookup3_from.simps [simp del]

definition lookup3 :: "byte list \<Rightarrow> u32 \<Rightarrow> u32" where
  "lookup3 xs initval = lookup3_from xs (hash_init (length xs) initval)"

text \<open>What a table of strings hashes and compares with, once the seed is drawn.\<close>

definition char_fns :: "u32 \<Rightarrow> string lh_fns" where
  "char_fns seed = \<lparr>hash_fn = (\<lambda>k. ucast (lookup3 (bytes_of k) seed)), equal_fn = lh_char_equal\<rparr>"

definition ptr_fns :: "u64 lh_fns" where
  "ptr_fns = \<lparr>hash_fn = lh_ptr_hash, equal_fn = lh_ptr_equal\<rparr>"

end
