(* ===== verification/Hash_Laws.thy ===== *)
theory Hash_Laws
  imports Hash_Little
begin

text \<open>
  The three ways of \<open>hashlittle\<close> to read a key give one function of its bytes. What
  they share, a loop over blocks and a last block, is a locale with the three as
  its interpretations.
\<close>

section \<open>Numbers of bytes\<close>

lemma le32_append: "le32 (xs @ ys) = le32 xs + 256 ^ length xs * le32 ys"
  by (induction xs) (auto simp: algebra_simps)

lemma push_bit_ring: "push_bit k (x :: u32) = 2 ^ k * x"
  by (simp add: push_bit_eq_mult)

lemma unat_byte: "unat (ucast (b :: byte) :: u32) = unat b" "unat b < 256"
proof -
  show l: "unat b < 256" using unsigned_less [of b, where ?'a = nat] by simp
  then show "unat (ucast b :: u32) = unat b" by (simp add: unsigned_ucast_eq take_bit_nat_eq_self)
qed

lemma le32_step:
  assumes "length xs \<le> 3"
  shows "unat (le32 (b # xs)) = unat b + 256 * unat (le32 xs)" "unat (le32 xs) < 256 ^ length xs"
proof -
  have "unat (le32 (b # xs)) = unat b + 256 * unat (le32 xs) \<and> unat (le32 xs) < 256 ^ length xs"
    using assms
  proof (induction xs arbitrary: b)
    case Nil
    show ?case using unat_byte [of b] by simp
  next
    case (Cons c xs)
    have l: "unat (le32 xs) < 256 ^ length xs" "length xs \<le> 2"
      and u: "unat (le32 (c # xs)) = unat c + 256 * unat (le32 xs)" using Cons by simp_all
    have n: "unat (le32 (c # xs)) < 256 ^ length (c # xs)" unfolding u using l unat_byte(2) [of c] by simp
    also have p: "256 ^ length (c # xs) \<le> (256 :: nat) ^ 3"
      by (rule power_increasing) (use Cons.prems in auto)
    finally have k: "unat (le32 (c # xs)) < 256 ^ 3" .
    have "unat (256 * le32 (c # xs)) = 256 * unat (le32 (c # xs))"
      using k by (subst unat_mult_lem [THEN iffD1]) auto
    then have "unat (ucast b + 256 * le32 (c # xs)) = unat b + 256 * unat (le32 (c # xs))"
      using k unat_byte [of b] by (subst unat_add_lem [THEN iffD1]) auto
    with n show ?case by simp
  qed
  then show "unat (le32 (b # xs)) = unat b + 256 * unat (le32 xs)" "unat (le32 xs) < 256 ^ length xs"
    by auto
qed

declare le32.simps(2) [simp del]

lemma le32_append_nat:
  "length xs + length ys \<le> 4 \<Longrightarrow> length xs \<le> 3 \<Longrightarrow>
    unat (le32 (xs @ ys)) = unat (le32 xs) + 256 ^ length xs * unat (le32 ys)"
  by (induction xs) (auto simp: le32_step algebra_simps)

lemma le32_mask:
  assumes "length xs + length ys \<le> 4" "length xs \<le> 3"
  shows "le32 (xs @ ys) AND mask (8 * length xs) = le32 xs"
proof -
  let ?n = "8 * length xs"
  have "(256 :: nat) ^ length xs = 2 ^ ?n" by (simp add: power_mult)
  then have "unat (take_bit ?n (le32 (xs @ ys))) = unat (le32 xs)"
    using le32_step(2) [OF assms(2)] unfolding unsigned_take_bit_eq le32_append_nat [OF assms]
    by (simp add: take_bit_eq_mod)
  then show ?thesis by (simp add: take_bit_eq_mask word_eq_iff_unsigned [where 'a = nat])
qed

section \<open>What the readers share\<close>

lemma region_take: "i + n \<le> m \<Longrightarrow> region (take m xs) i n = region xs i n"
  by (simp add: region_def drop_take min_def)

lemma add_block_take: "12 \<le> n \<Longrightarrow> add_block (take n xs) s = add_block xs s"
  by (simp add: add_block_def region_take split: prod.splits)

text \<open>\<open>ok mem len\<close> says that the memory holds enough to read a key of length \<open>len\<close>.\<close>

locale block_reader =
  fixes add :: "byte list \<Rightarrow> abc \<Rightarrow> abc option"
    and last_block :: "byte list \<Rightarrow> nat \<Rightarrow> abc \<Rightarrow> abc option"
    and ok :: "byte list \<Rightarrow> nat \<Rightarrow> bool"
  assumes ok_length: "ok mem len \<Longrightarrow> len \<le> length mem"
    and ok_next: "ok mem len \<Longrightarrow> 12 < len \<Longrightarrow> ok (drop 12 mem) (len - 12)"
    and add_ok: "12 \<le> length mem \<Longrightarrow> add mem s = Some (add_block mem s)"
    and last_ok: "ok mem len \<Longrightarrow> 0 < len \<Longrightarrow> len \<le> 12 \<Longrightarrow>
      last_block mem len s = Some (add_block (take len mem) s)"
begin

lemma hash_from:
  "ok mem len \<Longrightarrow> do { r \<leftarrow> blocks add mem len s; finish last_block r } = Some (lookup3_from (take len mem) s)"
proof (induction len arbitrary: mem s rule: less_induct)
  case (less len)
  have l: "len \<le> length mem" using ok_length [OF less.prems] .
  show ?case
  proof (cases "12 < len")
    case True
    then have "12 \<le> length mem" using l by simp
    with True less.IH [OF _ ok_next [OF less.prems True]] show ?thesis
      using l by (subst blocks.simps, subst lookup3_from.simps) (simp add: add_ok add_block_take drop_take)
  next
    case False
    then show ?thesis
      using l last_ok [OF less.prems, of s]
      by (subst blocks.simps, subst lookup3_from.simps) (auto simp: finish_def split: prod.splits)
  qed
qed

end

section \<open>The three readers\<close>

lemma region_split: "m \<le> n \<Longrightarrow> region xs i n = region xs i m @ region xs (i + m) (n - m)"
  using take_add [of m "n - m" "drop i xs"] by (simp add: region_def add.commute)

lemma region_take_min: "region (take m xs) i n = region xs i (min n (m - i))"
  by (simp add: region_def drop_take)

lemma word_part:
  assumes "i + 4 \<le> length k" "n \<le> 3"
  shows "le32 (region k i 4) AND mask (8 * n) = le32 (region k i n)"
proof -
  have "le32 (region k i n @ region k (i + n) (4 - n)) AND mask (8 * length (region k i n)) = le32 (region k i n)"
    by (rule le32_mask) (use assms in auto)
  then show ?thesis using assms by (simp add: region_split [of n 4])
qed

lemma masks: "0xff = (mask 8 :: u32)" "0xffff = (mask 16 :: u32)" "0xffffff = (mask 24 :: u32)"
  by (simp_all add: mask_eq_exp_minus_1)

lemma le32_region_0 [simp]: "le32 (region xs i 0) = 0"
  by (simp add: region_def)

lemma word_reader:
  assumes "4 * ((len + 3) div 4) \<le> length mem" "0 < len" "len \<le> 12"
  shows "last_words mem len s = Some (add_block (take len mem) s)"
proof -
  have m: "i + 4 \<le> length mem \<Longrightarrow> le32 (region mem i 4) AND 0xff = le32 (region mem i 1)"
    "i + 4 \<le> length mem \<Longrightarrow> le32 (region mem i 4) AND 0xffff = le32 (region mem i 2)"
    "i + 4 \<le> length mem \<Longrightarrow> le32 (region mem i 4) AND 0xffffff = le32 (region mem i 3)" for i
    using word_part [of i mem 1] word_part [of i mem 2] word_part [of i mem 3] by (simp_all add: masks)
  have "len \<in> {1, 2, 3, 4, 5, 6, 7, 8, 9, 10, 11, 12}" using assms(2,3) by simp arith
  then show ?thesis
    using assms(1) by (auto simp: last_words_def add_block_def word_at_def region_take_min m split: prod.splits)
qed

interpretation words: block_reader add_words last_words "\<lambda>mem len. 4 * ((len + 3) div 4) \<le> length mem"
proof unfold_locales
  fix mem :: "byte list" and len assume l: "4 * ((len + 3) div 4) \<le> length mem"
  then show "len \<le> length mem" by linarith
  assume "12 < len"
  then obtain j where "len = j + 12" by (metis less_imp_add_positive add.commute)
  moreover have "(j + 12 + 3) div 4 = 3 + (j + 3) div 4" by simp
  ultimately show "4 * ((len - 12 + 3) div 4) \<le> length (drop 12 mem)" using l by simp
qed (auto simp: word_reader add_words_def add_block_def word_at_def split: prod.splits)

text \<open>One more byte.\<close>

lemma region_Suc: "i + m < length xs \<Longrightarrow> region xs i (Suc m) = region xs i m @ [xs ! (i + m)]"
  by (simp add: region_def take_Suc_conv_app_nth add.commute)

lemma le32_single [simp]: "le32 [b] = ucast b"
  by (simp add: le32.simps)

lemma le32_region_Suc:
  assumes "i + m < length xs"
  shows "le32 (region xs i (Suc m)) = le32 (region xs i m) + push_bit (8 * m) (ucast (xs ! (i + m)))"
  using assms by (simp add: region_Suc le32_append push_bit_ring power_mult)

lemma add_byte_block:
  assumes "i < length k" "i < 12"
  shows "\<exists>s'. add_byte k i s = Some s' \<and> add_block (take i k) s' = add_block (take (Suc i) k) s"
proof -
  have c: "i \<in> {0, 1, 2, 3, 4, 5, 6, 7, 8, 9, 10, 11}" using assms(2) by simp arith
  have r: "j < length k \<Longrightarrow> le32 (region k j (Suc 0)) = ucast (k ! j)"
    "j + 1 < length k \<Longrightarrow> le32 (region k j 2) = le32 (region k j (Suc 0)) + push_bit 8 (ucast (k ! (j + 1)))"
    "j + 1 < length k \<Longrightarrow> le32 (region k j (Suc (Suc 0))) = le32 (region k j (Suc 0)) + push_bit 8 (ucast (k ! (j + 1)))"
    "j + 2 < length k \<Longrightarrow> le32 (region k j 3) = le32 (region k j 2) + push_bit 16 (ucast (k ! (j + 2)))"
    "j + 3 < length k \<Longrightarrow> le32 (region k j 4) = le32 (region k j 3) + push_bit 24 (ucast (k ! (j + 3)))" for j
    using le32_region_Suc [of j 0 k] le32_region_Suc [of j 1 k] le32_region_Suc [of j 2 k] le32_region_Suc [of j 3 k]
    by (simp_all add: numeral_eq_Suc)
  obtain a b d where s: "s = (a, b, d)" by (cases s)
  show ?thesis
    using c assms(1) unfolding s
    by (auto simp: add_byte_def byte_at_def add_block_def region_take_min r numeral_2_eq_2 [symmetric] add_ac)
qed

lemma add_byte_commute: "add_byte k i s = Some s' \<Longrightarrow> add_byte k i (add_block xs s) = Some (add_block xs s')"
  by (auto simp: add_byte_def add_block_def Let_def bind_eq_Some_conv add_ac split: prod.splits if_splits)

lemma add_upto_block: "n \<le> 12 \<Longrightarrow> n \<le> length k \<Longrightarrow> add_upto k n s = Some (add_block (take n k) s)"
proof (induction n)
  case 0
  show ?case by (simp add: add_block_def region_def split: prod.splits)
next
  case (Suc n)
  obtain s' where s': "add_byte k n s = Some s'" "add_block (take n k) s' = add_block (take (Suc n) k) s"
    using add_byte_block [of n k s] Suc.prems by auto
  then show ?case using Suc add_byte_commute [OF s'(1), of "take n k"] by simp
qed

lemma byte_reader: "n \<le> 12 \<Longrightarrow> n \<le> length k \<Longrightarrow> last_bytes k n s = Some (add_block (take n k) s)"
proof (induction n arbitrary: s)
  case 0
  show ?case by (simp add: add_block_def region_def split: prod.splits)
next
  case (Suc n)
  then show ?case using add_byte_block [of n k s] by auto
qed

interpretation bytes: block_reader add_bytes last_bytes "\<lambda>mem len. len \<le> length mem"
  by unfold_locales (simp_all add: byte_reader add_bytes_def add_upto_block add_block_take)

text \<open>Half words.\<close>

lemma half_at_block: "2 * i + 2 \<le> length k \<Longrightarrow> half_at k i = Some (le32 (region k (2 * i) 2))"
  by (simp add: half_at_def)

lemma region_halves: "i + 4 \<le> length k \<Longrightarrow>
    le32 (region k i 2) + push_bit 16 (le32 (region k (i + 2) 2)) = le32 (region k i 4)"
  by (simp add: region_split [of 2 4] le32_append push_bit_ring)

lemma halves_at_block: "2 * i + 4 \<le> length k \<Longrightarrow> halves_at k i = Some (le32 (region k (2 * i) 4))"
  using region_halves [of "2 * i" k] by (simp add: halves_at_def half_at_block)

lemma region_third: "i + 3 \<le> length k \<Longrightarrow>
    le32 (region k i 2) + push_bit 16 (ucast (k ! (i + 2))) = le32 (region k i 3)"
  using le32_region_Suc [of i 2 k] by (simp add: eval_nat_numeral)

lemma half_reader:
  assumes "len \<le> length k" "0 < len" "len \<le> 12"
  shows "last_halves k len s = Some (add_block (take len k) s)"
proof -
  have c: "len \<in> {1, 2, 3, 4, 5, 6, 7, 8, 9, 10, 11, 12}" using assms(2,3) by simp arith
  obtain a b d where s: "s = (a, b, d)" by (cases s)
  have one: "i < length k \<Longrightarrow> le32 (region k i (Suc 0)) = ucast (k ! i)" for i
    using le32_region_Suc [of i 0 k] by simp
  show ?thesis
    using c assms(1) region_third [of 0 k] region_third [of 4 k] region_third [of 8 k] unfolding s
    by (auto simp: last_halves.simps byte_at_def half_at_block halves_at_block add_block_def region_take_min one
      numeral_2_eq_2 [symmetric] add_ac)
qed

interpretation halves: block_reader add_halves last_halves "\<lambda>mem len. len \<le> length mem"
proof unfold_locales
  fix mem :: "byte list" and s :: abc assume "12 \<le> length mem"
  then show "add_halves mem s = Some (add_block mem s)"
    using region_halves [of 0 mem] region_halves [of 4 mem] region_halves [of 8 mem]
    by (simp add: add_halves_def add_block_def half_at_block numeral_2_eq_2 [symmetric] split: prod.splits)
qed (simp_all add: half_reader)

lemma hashlittle_reads:
  assumes "len \<le> length mem" "addr mod 4 = 0 \<longrightarrow> 4 * ((len + 3) div 4) \<le> length mem"
  shows "hashlittle addr mem len initval = Some (lookup3 (take len mem) initval)"
proof -
  have l: "length (take len mem) = len" using assms(1) by simp
  let ?s = "hash_init len initval"
  show ?thesis
    unfolding hashlittle_def lookup3_def Let_def l
    using words.hash_from [of len mem ?s] halves.hash_from [OF assms(1), of ?s]
      bytes.hash_from [OF assms(1), of ?s] assms(2)
    by presburger
qed

text \<open>
  C39: whatever the alignment of a key, \<open>hashlittle\<close> reads only memory it may read
  and returns one function of the key's bytes and the initial value: the bytes
  after the key, which the reading by words masks out, do not matter. Reading by words
  needs the memory up to the end of the key's last word.
\<close>

theorem hashlittle_lookup3:
  assumes "len \<le> length mem" "addr mod 4 = 0 \<longrightarrow> 4 * ((len + 3) div 4) \<le> length mem"
  shows "hashlittle addr mem len initval = Some (lookup3 (take len mem) initval)"
  by (rule hashlittle_reads [OF assms])

text \<open>
  The published value of \<open>lookup3.c\<close>. The mixing is evaluated block by block, the
  final mixing step by step.
\<close>

lemma Let_pair: "Let (x, y) f = f (x, y)"
  by simp

lemma four_score_final:
  "final_mix (0x948b5244, 0x59f95a9, 0xbd02ebd5) = (0x9a837816, 0xce7226e6, 0x17770551)"
proof -
  have e:
    "0xbd02ebd5 XOR 0x59f95a9 = (0xb89d7e7c :: u32)" "rot 0x59f95a9 14 = 0xe56a4167" "0xb89d7e7c - 0xe56a4167 = (0xd3333d15 :: u32)"
    "0x948b5244 XOR 0xd3333d15 = (0x47b86f51 :: u32)" "rot 0xd3333d15 11 = 0x99e8ae99" "0x47b86f51 - 0x99e8ae99 = (0xadcfc0b8 :: u32)"
    "0x59f95a9 XOR 0xadcfc0b8 = (0xa8505511 :: u32)" "rot 0xadcfc0b8 25 = 0x715b9f81" "0xa8505511 - 0x715b9f81 = (0x36f4b590 :: u32)"
    "0xd3333d15 XOR 0x36f4b590 = (0xe5c78885 :: u32)" "rot 0x36f4b590 16 = 0xb59036f4" "0xe5c78885 - 0xb59036f4 = (0x30375191 :: u32)"
    "0xadcfc0b8 XOR 0x30375191 = (0x9df89129 :: u32)" "rot 0x30375191 4 = 0x3751913" "0x9df89129 - 0x3751913 = (0x9a837816 :: u32)"
    "0x36f4b590 XOR 0x9a837816 = (0xac77cd86 :: u32)" "rot 0x9a837816 14 = 0xde05a6a0" "0xac77cd86 - 0xde05a6a0 = (0xce7226e6 :: u32)"
    "0x30375191 XOR 0xce7226e6 = (0xfe457777 :: u32)" "rot 0xce7226e6 24 = 0xe6ce7226" "0xfe457777 - 0xe6ce7226 = (0x17770551 :: u32)"
    by code_simp+
  show ?thesis
    by (simp only: final_mix_def Let_pair case_prod_conv Let_numeral e)
qed

definition four_score :: "byte list" where
  "four_score = bytes_of ''Four score and seven years ago''"

lemma four_score_bytes:
  "four_score = [0x46, 0x6f, 0x75, 0x72, 0x20, 0x73, 0x63, 0x6f, 0x72, 0x65, 0x20, 0x61, 0x6e, 0x64, 0x20, 0x73, 0x65, 0x76, 0x65, 0x6e, 0x20, 0x79, 0x65, 0x61, 0x72, 0x73, 0x20, 0x61, 0x67, 0x6f]"
  by (simp add: four_score_def bytes_of_def of_char_def)

lemma four_score_blocks:
  "mix (add_block four_score (0xdeadbf0d, 0xdeadbf0d, 0xdeadbf0d)) = (0xf859ad7a, 0x4bc57ae, 0x40dddd7e)"
  "mix (add_block (drop 12 four_score) (0xf859ad7a, 0x4bc57ae, 0x40dddd7e)) = (0x336aded2, 0x59f2642, 0xbd02ebd5)"
  "add_block (drop 24 four_score) (0x336aded2, 0x59f2642, 0xbd02ebd5) = (0x948b5244, 0x59f95a9, 0xbd02ebd5)"
  "length four_score = 30"
  unfolding four_score_bytes by code_simp+

lemma four_score_value: "lookup3 four_score 0 = 0x17770551"
proof -
  have "hash_init 30 0 = (0xdeadbf0d, 0xdeadbf0d, 0xdeadbf0d)" by code_simp
  then show ?thesis
    using four_score_blocks four_score_final
    by (simp add: lookup3_def lookup3_from.simps)
qed

theorem hashlittle_lookup3_witness:
  "hashlittle 1 four_score 30 0 = Some 0x17770551
   \<and> hashlittle 4 (four_score @ [0x21, 0x3f]) 30 0 = Some 0x17770551"
  using hashlittle_lookup3 [of 30 four_score 1 0] hashlittle_lookup3 [of 30 "four_score @ [0x21, 0x3f]" 4 0]
  by (simp add: four_score_value four_score_blocks)

section \<open>Strings\<close>

text \<open>The memory of a C string: its bytes, the NUL and what follows.\<close>

definition c_memory :: "string \<Rightarrow> byte list \<Rightarrow> byte list" where
  "c_memory k rest = bytes_of k @ 0 # rest"

lemma bytes_of_nonzero: "CHR 0x00 \<notin> set k \<Longrightarrow> 0 \<notin> set (bytes_of k)"
proof
  assume "CHR 0x00 \<notin> set k" "0 \<in> set (bytes_of k)"
  then obtain c where "c \<in> set k" "(of_char c :: byte) = 0" by (auto simp: bytes_of_def)
  then have "bytes_of [c] = bytes_of [CHR 0x00]" by (simp add: bytes_of_def)
  then have "c = CHR 0x00" using bytes_of_inj [of "[c]" "[CHR 0x00]"] by simp
  with \<open>c \<in> set k\<close> \<open>CHR 0x00 \<notin> set k\<close> show False by simp
qed

lemma mem_strlen_c_memory: "CHR 0x00 \<notin> set k \<Longrightarrow> mem_strlen (c_memory k rest) = Some (length k)"
  using bytes_of_nonzero [of k]
  by (auto simp: mem_strlen_def c_memory_def takeWhile_append)

lemma draw_seed_value: "draw_seed es = Some (seed, es') \<Longrightarrow> seed \<noteq> - 1"
  by (induction es) (auto simp: bind_eq_Some_conv split: if_splits)

text \<open>
  The hash of a string is the same for all copies of it and for all calls, from
  the first on that draws the seed: it is what a table of strings is given as its hash
  function. The seed drawn is never the mark of a seed not drawn yet.
\<close>

theorem lh_char_hash_stable:
  fixes addr :: "nat \<Rightarrow> nat" and rest :: "nat \<Rightarrow> byte list"
  assumes "CHR 0x00 \<notin> set k" "fst st = - 1 \<longrightarrow> draw_seed (snd st) \<noteq> None"
    "\<forall>i. addr i mod 4 = 0 \<longrightarrow> 2 < length (rest i)"
  shows "\<exists>seed es. seed \<noteq> - 1
    \<and> lh_char_hash (addr 0) (c_memory k (rest 0)) st = Some (hash_fn (char_fns seed) k, seed, es)
    \<and> lh_char_hash (addr 1) (c_memory k (rest 1)) (seed, es) = Some (hash_fn (char_fns seed) k, seed, es)"
proof -
  have h: "hashlittle (addr i) (c_memory k (rest i)) (length k) seed = Some (lookup3 (bytes_of k) seed)" for i seed
  proof -
    have "hashlittle (addr i) (c_memory k (rest i)) (length k) seed
        = Some (lookup3 (take (length k) (c_memory k (rest i))) seed)"
    proof (rule hashlittle_reads)
      have "4 * ((length k + 3) div 4) \<le> length k + 3" by simp
      moreover have "addr i mod 4 = 0 \<longrightarrow> 2 < length (rest i)" by (rule assms(3) [THEN spec])
      ultimately show "addr i mod 4 = 0 \<longrightarrow> 4 * ((length k + 3) div 4) \<le> length (c_memory k (rest i))"
        by (auto simp: c_memory_def)
    qed (simp add: c_memory_def)
    then show ?thesis by (simp add: c_memory_def)
  qed
  show ?thesis
  proof (cases "fst st = - 1")
    case True
    then obtain seed es where "draw_seed (snd st) = Some (seed, es)" using assms(2) by auto
    with draw_seed_value [OF this] True show ?thesis
      by (auto simp: lh_char_hash_def mem_strlen_c_memory assms(1) h char_fns_def)
  next
    case False
    then show ?thesis
      by (cases st) (auto simp: lh_char_hash_def mem_strlen_c_memory assms(1) h char_fns_def)
  qed
qed

text \<open>The first seed read from /dev/urandom is the mark, the second is taken.\<close>

definition two_reads :: "seed_source list" where
  "two_reads = [\<lparr>urandom_mode = Some 0x21b6, urandom_int = Some (- 1), time_now = 5\<rparr>,
    \<lparr>urandom_mode = Some 0x21b6, urandom_int = Some 0, time_now = 6\<rparr>]"

lemma two_reads_draw: "draw_seed two_reads = Some (0, [])"
  by (simp add: two_reads_def json_c_get_random_seed_def has_dev_urandom_def S_IFCHR_def)

theorem lh_char_hash_stable_witness:
  "\<exists>es. lh_char_hash 8 (four_score @ 0 # [1, 2, 3]) (- 1, two_reads) = Some (0x17770551, 0, es)
    \<and> lh_char_hash 11 (four_score @ [0]) (0, es) = Some (0x17770551, 0, es)"
proof -
  let ?k = "''Four score and seven years ago''"
  have v: "hash_fn (char_fns 0) ?k = 0x17770551"
    using four_score_value by (simp add: char_fns_def four_score_def)
  let ?a = "\<lambda>i :: nat. if i = 0 then 8 else 11 :: nat" and ?r = "\<lambda>i :: nat. if i = 0 then [1, 2, 3] else []"
  have "\<forall>i. ?a i mod 4 = 0 \<longrightarrow> 2 < length (?r i :: byte list)" by simp
  then obtain seed es where s:
    "lh_char_hash 8 (c_memory ?k [1, 2, 3]) (- 1, two_reads) = Some (hash_fn (char_fns seed) ?k, seed, es)"
    "lh_char_hash 11 (c_memory ?k []) (seed, es) = Some (hash_fn (char_fns seed) ?k, seed, es)"
    using lh_char_hash_stable [of ?k "(- 1, two_reads)" ?a ?r]
    by (auto simp: two_reads_draw)
  then have "seed = 0"
    by (auto simp: lh_char_hash_def two_reads_draw bind_eq_Some_conv)
  with s v show ?thesis by (auto simp: c_memory_def four_score_def)
qed

end
