(* ===== verification/Link_Hash_Example.thy ===== *)
theory Link_Hash_Example
  imports Link_Hash_Laws Hash_Laws
begin

text \<open>
  A table of strings as json-c makes them for objects: the theorem on tables with
  the hash and the comparison of strings, and a table that grows.
\<close>

lemma exact_char_fns [simp]: "exact (char_fns seed)"
  by (simp add: exact_def char_fns_def lh_char_equal_def)

lemma exact_ptr_fns [simp]: "exact ptr_fns"
  by (simp add: exact_def ptr_fns_def lh_ptr_equal_def)

definition string_ops :: "(string, nat) lh_op list" where
  "string_ops = [Insert ''rail'' (Some 1), Insert ''energy'' (Some 2), Lookup ''energy'',
     Insert ''name'' None, Delete ''rail'', Delete ''rail'', Lookup ''rail'', Lookup ''name'', Length,
     Insert ''rail'' (Some 3)]"

theorem lh_table_refines_witness:
  "\<exists>t fs. run_ops (char_fns 7) string_ops (lh_table_new 2 True)
      = Some ([Inserted, Inserted, Found True (Some 2), Inserted, Deleted 0, Deleted (- 1),
          Found False None, Found True None, Counted 2, Inserted], t)
    \<and> lh_contents t = Some [(''energy'', Some 2), (''name'', None), (''rail'', Some 3)]
    \<and> lh_table_free t = Some fs
    \<and> mset fs = {# (''rail'', Some 1), (''energy'', Some 2), (''name'', None), (''rail'', Some 3) #}"
proof -
  have "new_keys string_ops []" "length string_ops < 2 ^ 28" by (simp_all add: string_ops_def)
  moreover have "spec_ops string_ops [] = ([Inserted, Inserted, Found True (Some 2), Inserted, Deleted 0,
      Deleted (- 1), Found False None, Found True None, Counted 2, Inserted],
    [(''energy'', Some 2), (''name'', None), (''rail'', Some 3)])"
    "inserted string_ops = [(''rail'', Some 1), (''energy'', Some 2), (''name'', None), (''rail'', Some 3)]"
    by (simp_all add: string_ops_def)
  ultimately show ?thesis
    using lh_table_refines [of "char_fns 7" 2 string_ops True] by simp
qed

end
