(* ===== verification/Array_List.thy ===== *)
theory Array_List
  imports Prelude "HOL-Library.Multiset"
begin

text \<open>
  The growing array of json-c (json-c/arraylist.c): its operations, its invariant and
  that it implements a list. An element is a pointer, a null pointer \<open>None\<close>; \<open>al_freed\<close>
  lists the elements the free function was called with. \<open>mem n\<close> says whether memory
  for \<open>n\<close> elements is there. The size of the array is the length of \<open>al_array\<close>.

  \<open>None\<close> as a result stands for an access outside the array or an overflow of an \<open>int\<close>.
\<close>

record 'a array_list =
  al_array :: "'a option list"
  al_length :: nat
  al_freed :: "'a list"

definition al_size :: "'a array_list \<Rightarrow> nat" where
  "al_size a = length (al_array a)"

definition ARRAY_LIST_DEFAULT_SIZE :: nat where "ARRAY_LIST_DEFAULT_SIZE = 32"

definition array_list_new :: "(nat \<Rightarrow> bool) \<Rightarrow> 'a array_list option" where
  "array_list_new mem =
     (if mem ARRAY_LIST_DEFAULT_SIZE
      then Some \<lparr>al_array = replicate ARRAY_LIST_DEFAULT_SIZE None, al_length = 0, al_freed = []\<rparr>
      else None)"

text \<open>The elements the free function gets, in order.\<close>

definition array_list_free :: "'a array_list \<Rightarrow> 'a list" where
  "array_list_free a = al_freed a @ map the (filter (\<lambda>x. x \<noteq> None) (take (al_length a) (al_array a)))"

definition array_list_get_idx :: "'a array_list \<Rightarrow> int \<Rightarrow> 'a option option" where
  "array_list_get_idx a i =
     (if int (al_length a) \<le> i then Some None
      else if i < 0 \<or> al_size a \<le> nat i then None
      else Some (al_array a ! nat i))"

definition array_list_expand_internal ::
  "(nat \<Rightarrow> bool) \<Rightarrow> 'a array_list \<Rightarrow> int \<Rightarrow> (int \<times> 'a array_list) option" where
  "array_list_expand_internal mem a max' =
     (if max' < int (al_size a) then Some (0, a)
      else if 2 ^ 31 \<le> al_size a * 2 then None
      else
        let new_size = al_size a * 2;
            new_size = (if int new_size < max' then nat max' else new_size) in
        if \<not> mem new_size then Some (- 1, a)
        else Some (0, a\<lparr>al_array := al_array a @ replicate (new_size - al_size a) None\<rparr>))"

definition array_list_put_idx ::
  "(nat \<Rightarrow> bool) \<Rightarrow> 'a array_list \<Rightarrow> int \<Rightarrow> 'a option \<Rightarrow> (int \<times> 'a array_list) option" where
  "array_list_put_idx mem a idx data =
     (if 2 ^ 31 \<le> idx + 1 then None
      else do {
        (r, a) \<leftarrow> array_list_expand_internal mem a (idx + 1);
        if r \<noteq> 0 then Some (- 1, a)
        else if idx < 0 \<or> al_size a \<le> nat idx then None
        else
          let i = nat idx;
              freed = (case al_array a ! i of None \<Rightarrow> [] | Some x \<Rightarrow> [x]);
              a = a\<lparr>al_array := (al_array a)[i := data], al_freed := al_freed a @ freed\<rparr>
          in Some (0, if al_length a \<le> i then a\<lparr>al_length := i + 1\<rparr> else a)
      })"

definition array_list_add ::
  "(nat \<Rightarrow> bool) \<Rightarrow> 'a array_list \<Rightarrow> 'a option \<Rightarrow> (int \<times> 'a array_list) option" where
  "array_list_add mem a data = array_list_put_idx mem a (int (al_length a)) data"

definition array_list_length :: "'a array_list \<Rightarrow> nat" where
  "array_list_length a = al_length a"

text \<open>
  \<open>qsort\<close> leaves equal elements in no fixed order: the results it may have. The
  comparison gets pointers to the elements.
\<close>

definition array_list_sort :: "('a option \<Rightarrow> 'a option \<Rightarrow> int) \<Rightarrow> 'a array_list \<Rightarrow> 'a array_list \<Rightarrow> bool" where
  "array_list_sort cmp a a' \<longleftrightarrow>
     mset (take (al_length a) (al_array a')) = mset (take (al_length a) (al_array a))
     \<and> sorted_wrt (\<lambda>x y. cmp x y \<le> 0) (take (al_length a) (al_array a'))
     \<and> a' = a\<lparr>al_array := take (al_length a) (al_array a') @ drop (al_length a) (al_array a)\<rparr>"

section \<open>A list\<close>

text \<open>The slots behind the elements hold null pointers.\<close>

definition al_ok :: "'a array_list \<Rightarrow> bool" where
  "al_ok a \<longleftrightarrow> al_length a \<le> al_size a \<and> 0 < al_size a
     \<and> drop (al_length a) (al_array a) = replicate (al_size a - al_length a) None"

definition al_items :: "'a array_list \<Rightarrow> 'a option list" where
  "al_items a = take (al_length a) (al_array a)"

definition put_item :: "nat \<Rightarrow> 'b option \<Rightarrow> 'b option list \<Rightarrow> 'b option list" where
  "put_item i d xs = (if i < length xs then xs[i := d] else xs @ replicate (i - length xs) None @ [d])"

lemma array_list_new_ok:
  "array_list_new mem = Some a \<Longrightarrow> al_ok a \<and> al_items a = [] \<and> al_freed a = [] \<and> al_size a = 32"
  by (auto simp: array_list_new_def al_ok_def al_items_def al_size_def ARRAY_LIST_DEFAULT_SIZE_def split: if_splits)

lemma length_items: "al_ok a \<Longrightarrow> length (al_items a) = al_length a"
  by (simp add: al_items_def al_ok_def al_size_def)

lemma array_items: "al_ok a \<Longrightarrow> al_array a = al_items a @ replicate (al_size a - al_length a) None"
  using append_take_drop_id [of "al_length a" "al_array a"] by (simp add: al_ok_def al_items_def)

lemma al_okI:
  assumes "al_array a = xs @ replicate n None" "al_length a = length xs" "0 < length xs + n"
  shows "al_ok a \<and> al_items a = xs"
  using assms by (auto simp: al_ok_def al_size_def al_items_def)

text \<open>Growing adds null pointers behind the elements.\<close>

lemma expand_ok:
  assumes "al_ok a" "al_size a < 2 ^ 30" "m < 2 ^ 31"
  shows "\<exists>r a'. array_list_expand_internal mem a m = Some (r, a')
    \<and> (r = - 1 \<and> a' = a \<and> (\<exists>n. n \<ge> al_size a \<and> \<not> mem n)
      \<or> r = 0 \<and> al_ok a' \<and> al_items a' = al_items a \<and> al_freed a' = al_freed a \<and> al_length a' = al_length a
        \<and> al_size a \<le> al_size a' \<and> m \<le> int (al_size a'))"
proof -
  have g: "al_ok (a\<lparr>al_array := al_array a @ replicate k None\<rparr>)
      \<and> al_items (a\<lparr>al_array := al_array a @ replicate k None\<rparr>) = al_items a" for k
  proof (rule al_okI [where n = "al_size a - al_length a + k"])
    show "0 < length (al_items a) + (al_size a - al_length a + k)"
      using assms(1) by (auto simp: length_items al_ok_def)
  qed (use array_items [OF assms(1)] length_items [OF assms(1)] in \<open>simp_all add: replicate_add\<close>)
  let ?n = "if int (al_size a * 2) < m then nat m else al_size a * 2"
  have n: "al_size a \<le> ?n" "m \<le> int ?n" by auto
  have none: "\<exists>n \<ge> al_size a. \<not> mem n" if "\<not> mem ?n" using that n(1) by blast
  show ?thesis
  proof (cases "m < int (al_size a)")
    case False
    then show ?thesis
      using assms(2) g [of "?n - al_size a"] n none
      by (cases "mem ?n") (auto simp: array_list_expand_internal_def Let_def al_size_def)
  qed (use assms(1) in \<open>auto simp: array_list_expand_internal_def\<close>)
qed

lemma put_ok:
  assumes "al_ok a" "i < al_size a"
  shows "al_ok (a\<lparr>al_array := (al_array a)[i := d], al_length := max (al_length a) (i + 1), al_freed := fr\<rparr>)
    \<and> al_items (a\<lparr>al_array := (al_array a)[i := d], al_length := max (al_length a) (i + 1), al_freed := fr\<rparr>)
      = put_item i d (al_items a)"
proof (rule al_okI [where n = "al_size a - max (al_length a) (i + 1)"])
  have l: "length (al_items a) = al_length a" "al_length a \<le> al_size a" "0 < al_size a"
    using assms(1) by (auto simp: length_items al_ok_def)
  show "0 < length (put_item i d (al_items a)) + (al_size a - max (al_length a) (i + 1))"
    using l by (auto simp: put_item_def)
  have "(al_items a @ replicate (al_size a - al_length a) None)[i := d]
      = put_item i d (al_items a) @ replicate (al_size a - max (al_length a) (i + 1)) None"
    by (rule nth_equalityI)
      (use l assms(2) in \<open>auto simp: put_item_def nth_append nth_list_update nth_Cons' max_def\<close>)
  then show "al_array (a\<lparr>al_array := (al_array a)[i := d], al_length := max (al_length a) (i + 1), al_freed := fr\<rparr>)
      = put_item i d (al_items a) @ replicate (al_size a - max (al_length a) (i + 1)) None"
    using array_items [OF assms(1)] by simp
qed (use assms(1) length_items [OF assms(1)] in \<open>auto simp: put_item_def\<close>)

lemma nth_slot: "al_ok a \<Longrightarrow> i < al_size a \<Longrightarrow>
    al_array a ! i = (if i < length (al_items a) then al_items a ! i else None)"
  by (subst array_items) (auto simp: nth_append length_items)

text \<open>
  C40: storing an element keeps the invariant and does to the list of elements what it
  says: an element there is replaced and freed, a new one is put behind null
  pointers that fill the gap. Without memory to grow nothing changes.
\<close>

theorem array_list_put_refines:
  assumes "al_ok a" "al_size a < 2 ^ 30" "i + 1 < 2 ^ 31"
  shows "\<exists>r a'. array_list_put_idx mem a (int i) d = Some (r, a') \<and> al_ok a'
    \<and> (r = - 1 \<and> a' = a \<and> (\<exists>n. n \<ge> al_size a \<and> \<not> mem n)
      \<or> r = 0 \<and> al_items a' = put_item i d (al_items a)
        \<and> al_freed a' = al_freed a @ (if i < length (al_items a) then
            (case al_items a ! i of None \<Rightarrow> [] | Some x \<Rightarrow> [x]) else [])
        \<and> array_list_get_idx a' (int i) = Some d)"
proof -
  have "int i + 1 < 2 ^ 31" using assms(3) by simp
  then obtain r a1 where r: "array_list_expand_internal mem a (int i + 1) = Some (r, a1)"
    "r = - 1 \<and> a1 = a \<and> (\<exists>n. n \<ge> al_size a \<and> \<not> mem n)
      \<or> r = 0 \<and> al_ok a1 \<and> al_items a1 = al_items a \<and> al_freed a1 = al_freed a \<and> al_length a1 = al_length a
        \<and> al_size a \<le> al_size a1 \<and> int i + 1 \<le> int (al_size a1)"
    using expand_ok [OF assms(1,2), of "int i + 1" mem] by blast
  show ?thesis
  proof (cases "r = 0")
    case False
    then show ?thesis using r assms(1) \<open>int i + 1 < 2 ^ 31\<close> by (auto simp: array_list_put_idx_def)
  next
    case True
    then have o: "al_ok a1" "al_items a1 = al_items a" "al_freed a1 = al_freed a" "i < al_size a1" using r by auto
    let ?f = "al_freed a1 @ (case al_array a1 ! i of None \<Rightarrow> [] | Some x \<Rightarrow> [x])"
    let ?a = "a1\<lparr>al_array := (al_array a1)[i := d], al_length := max (al_length a1) (i + 1), al_freed := ?f\<rparr>"
    have "array_list_put_idx mem a (int i) d = Some (0, ?a)"
      using r(1) True o(4) \<open>int i + 1 < 2 ^ 31\<close>
      by (auto simp: array_list_put_idx_def Let_def max_def split: option.splits)
    moreover have "al_ok ?a \<and> al_items ?a = put_item i d (al_items a)"
      using put_ok [OF o(1,4)] o(2) by simp
    moreover have "array_list_get_idx ?a (int i) = Some d"
      using o(4) by (auto simp: array_list_get_idx_def al_size_def)
    moreover have "al_freed ?a = al_freed a @ (if i < length (al_items a) then
            (case al_items a ! i of None \<Rightarrow> [] | Some x \<Rightarrow> [x]) else [])"
      using nth_slot [OF o(1,4)] o(2,3) by simp
    ultimately show ?thesis by blast
  qed
qed

text \<open>A new array, an element put behind a gap, beyond the first 32 slots.\<close>

theorem array_list_put_refines_witness:
  "\<exists>a a'. array_list_new (\<lambda>n. True) = Some (a :: nat array_list)
    \<and> array_list_put_idx (\<lambda>n. True) a (int 40) (Some 7) = Some (0, a')
    \<and> al_items a' = replicate 40 None @ [Some 7] \<and> array_list_get_idx a' (int 40) = Some (Some 7)"
proof -
  obtain a :: "nat array_list" where a: "array_list_new (\<lambda>n. True) = Some a"
    by (simp add: array_list_new_def)
  from array_list_new_ok [OF this] have o: "al_ok a" "al_items a = []" "al_size a < 2 ^ 30" by auto
  have "(40 :: nat) + 1 < 2 ^ 31" by simp
  from array_list_put_refines [OF o(1,3) this, of "\<lambda>n. True" "Some 7"] a o(2)
  show ?thesis by (auto simp: put_item_def)
qed

end
