(* ===== verification/Print_Buf.thy ===== *)
theory Print_Buf
  imports Prelude
begin

text \<open>
  The text buffer of json-c (json-c/printbuf.c): a block of characters, some of them
  not written yet (\<open>None\<close>), and the position behind the text. The size of the buffer
  is the length of the block. \<open>mem n\<close> says whether a block of \<open>n\<close> characters is to be had.

  \<open>None\<close> as a result stands for an access outside the block or an overflow of an \<open>int\<close>.
\<close>

record printbuf =
  pb_buf :: "char option list"
  pb_pos :: nat

definition pb_size :: "printbuf \<Rightarrow> nat" where
  "pb_size p = length (pb_buf p)"

definition printbuf_new :: "(nat \<Rightarrow> bool) \<Rightarrow> printbuf option" where
  "printbuf_new mem = (if mem 32 then Some \<lparr>pb_buf = replicate 32 None, pb_pos = 0\<rparr> else None)"

text \<open>Writing into the block.\<close>

definition pb_write :: "nat \<Rightarrow> char list \<Rightarrow> printbuf \<Rightarrow> printbuf option" where
  "pb_write off s p =
     (if off + length s \<le> pb_size p then Some (p\<lparr>pb_buf := overwrite (pb_buf p) off (map Some s)\<rparr>) else None)"

definition printbuf_extend :: "(nat \<Rightarrow> bool) \<Rightarrow> printbuf \<Rightarrow> nat \<Rightarrow> (int \<times> printbuf) option" where
  "printbuf_extend mem p min_size =
     (if min_size \<le> pb_size p then Some (0, p)
      else if 2 ^ 31 \<le> pb_size p * 2 \<or> 2 ^ 31 \<le> min_size + 8 then None
      else
        let new_size = pb_size p * 2;
            new_size = (if new_size < min_size + 8 then min_size + 8 else new_size) in
        if \<not> mem new_size then Some (- 1, p)
        else Some (0, p\<lparr>pb_buf := pb_buf p @ replicate (new_size - pb_size p) None\<rparr>))"

definition printbuf_memappend :: "(nat \<Rightarrow> bool) \<Rightarrow> printbuf \<Rightarrow> string \<Rightarrow> (int \<times> printbuf) option" where
  "printbuf_memappend mem p s =
     (let sz = length s in
      if 2 ^ 31 \<le> pb_pos p + sz + 1 then None
      else do {
        (r, p) \<leftarrow> (if pb_size p \<le> pb_pos p + sz + 1 then printbuf_extend mem p (pb_pos p + sz + 1)
                  else Some (0, p));
        if r < 0 then Some (- 1, p)
        else do {
          p \<leftarrow> pb_write (pb_pos p) s p;
          let p = p\<lparr>pb_pos := pb_pos p + sz\<rparr>;
          p \<leftarrow> pb_write (pb_pos p) [CHR 0x00] p;
          Some (int sz, p)
        }
      })"

definition printbuf_memappend_fast :: "(nat \<Rightarrow> bool) \<Rightarrow> printbuf \<Rightarrow> string \<Rightarrow> printbuf option" where
  "printbuf_memappend_fast mem p s =
     (if int (length s) < int (pb_size p) - int (pb_pos p) then do {
        p \<leftarrow> pb_write (pb_pos p) s p;
        let p = p\<lparr>pb_pos := pb_pos p + length s\<rparr>;
        pb_write (pb_pos p) [CHR 0x00] p }
      else map_option snd (printbuf_memappend mem p s))"

definition printbuf_memset :: "(nat \<Rightarrow> bool) \<Rightarrow> printbuf \<Rightarrow> int \<Rightarrow> char \<Rightarrow> nat \<Rightarrow> (int \<times> printbuf) option" where
  "printbuf_memset mem p off c len =
     (let off = (if off = - 1 then int (pb_pos p) else off) in
      if off < 0 \<or> 2 ^ 31 \<le> nat off + len then None
      else
        let off = nat off; size_needed = off + len in do {
          (r, p) \<leftarrow> (if pb_size p < size_needed then printbuf_extend mem p size_needed else Some (0, p));
          if r < 0 then Some (- 1, p)
          else do {
            p \<leftarrow> pb_write off (replicate len c) p;
            Some (0, if pb_pos p < size_needed then p\<lparr>pb_pos := size_needed\<rparr> else p)
          }
        })"

text \<open>
  \<open>sprintbuf\<close>, with the text that the format and the arguments give. A text that does
  not fit the 128 characters on the stack is printed again into memory of its own.
\<close>

definition sprintbuf :: "(nat \<Rightarrow> bool) \<Rightarrow> printbuf \<Rightarrow> string \<Rightarrow> (int \<times> printbuf) option" where
  "sprintbuf mem p s =
     (if 127 < length s \<and> \<not> mem (length s + 1) then Some (- 1, p)
      else do { (_, p) \<leftarrow> printbuf_memappend mem p s; Some (int (length s), p) })"

definition printbuf_reset :: "printbuf \<Rightarrow> printbuf option" where
  "printbuf_reset p = do { p \<leftarrow> pb_write 0 [CHR 0x00] p; Some (p\<lparr>pb_pos := 0\<rparr>) }"

definition printbuf_length :: "printbuf \<Rightarrow> nat" where
  "printbuf_length p = pb_pos p"

section \<open>The text\<close>

text \<open>A buffer with a text: all of it is written. A C string ends at the NUL behind it.\<close>

definition pb_holds :: "printbuf \<Rightarrow> string \<Rightarrow> bool" where
  "pb_holds p s \<longleftrightarrow> pb_pos p = length s \<and> take (length s) (pb_buf p) = map Some s
     \<and> length s \<le> pb_size p \<and> 0 < pb_size p"

definition pb_ends :: "printbuf \<Rightarrow> bool" where
  "pb_ends p \<longleftrightarrow> pb_pos p < pb_size p \<and> pb_buf p ! pb_pos p = Some (CHR 0x00)"

lemma overwrite_Cons_nonempty [simp]: "overwrite xs off (y # ys) \<noteq> []"
  by (simp add: overwrite_def)

lemma printbuf_new_holds: "printbuf_new mem = Some p \<Longrightarrow> pb_holds p []"
  by (auto simp: printbuf_new_def pb_holds_def pb_size_def split: if_splits)

lemma pb_size_write: "pb_write off s p = Some p' \<Longrightarrow> pb_size p' = pb_size p \<and> pb_pos p' = pb_pos p"
  by (auto simp: pb_write_def pb_size_def split: if_splits)

text \<open>Growing keeps the text.\<close>

lemma extend_holds:
  assumes "pb_holds p s" "n + 8 < 2 ^ 30"
  shows "\<exists>r p'. printbuf_extend mem p n = Some (r, p') \<and> pb_holds p' s
    \<and> (r = - 1 \<and> p' = p \<and> (\<exists>n. \<not> mem n) \<or> r = 0 \<and> n \<le> pb_size p')"
proof (cases "n \<le> pb_size p")
  case True
  then show ?thesis using assms(1) by (auto simp: printbuf_extend_def)
next
  case False
  let ?n = "if pb_size p * 2 < n + 8 then n + 8 else pb_size p * 2"
  have "pb_holds (p\<lparr>pb_buf := pb_buf p @ replicate k None\<rparr>) s" for k
    using assms(1) by (auto simp: pb_holds_def pb_size_def)
  moreover have "n \<le> ?n" "pb_size p \<le> ?n" "pb_size p * 2 < 2 ^ 31" "n + 8 < 2 ^ 31"
    using False assms(2) by auto
  ultimately show ?thesis
    using False assms(1) by (cases "mem ?n") (auto simp: printbuf_extend_def Let_def pb_size_def)
qed

lemma write_holds:
  assumes "pb_holds p s" "length s + length t \<le> pb_size p"
  shows "\<exists>p'. pb_write (length s) t p = Some p' \<and> pb_size p' = pb_size p \<and> pb_pos p' = pb_pos p
    \<and> pb_holds (p'\<lparr>pb_pos := length s + length t\<rparr>) (s @ t)"
proof -
  have l: "min (length (pb_buf p)) (length s) = length s" "take (length s) (pb_buf p) = map Some s"
    using assms(1) by (auto simp: pb_holds_def pb_size_def)
  show ?thesis
    using assms by (auto simp: pb_write_def pb_holds_def pb_size_def overwrite_def l)
qed

text \<open>The text followed by a NUL, in a block that is large enough.\<close>

lemma write_ends:
  assumes "pb_holds p s" "length s + length t < pb_size p"
  shows "\<exists>p'. do { p \<leftarrow> pb_write (length s) t p; let p = p\<lparr>pb_pos := length s + length t\<rparr>;
      pb_write (pb_pos p) [CHR 0x00] p } = Some p' \<and> pb_holds p' (s @ t) \<and> pb_ends p' \<and> pb_size p' = pb_size p"
proof -
  obtain p1 where p1: "pb_write (length s) t p = Some p1" "pb_size p1 = pb_size p"
    "pb_holds (p1\<lparr>pb_pos := length s + length t\<rparr>) (s @ t)"
    using write_holds [OF assms(1), of t] assms(2) by auto
  let ?b = "overwrite (pb_buf p1) (length (s @ t)) [Some (CHR 0x00)]"
  have l: "length (s @ t) < length (pb_buf p1)" using assms(2) p1(2) by (simp add: pb_size_def)
  have "take (length (s @ t)) ?b = take (length (s @ t)) (pb_buf p1)"
    using l by (simp add: overwrite_def)
  moreover have "?b ! length (s @ t) = Some (CHR 0x00)" "length ?b = length (pb_buf p1)"
    using l by (simp_all add: nth_overwrite)
  ultimately show ?thesis
    using p1 l by (auto simp: pb_write_def pb_size_def pb_holds_def pb_ends_def)
qed

text \<open>
  Appending adds the text to the text of the buffer and ends it with a NUL,
  whatever it takes to grow; without the memory to grow it reports -1 and changes
  nothing.
\<close>

theorem printbuf_memappend_appends:
  assumes "pb_holds p s" "length s + length t + 9 < 2 ^ 30"
  shows "\<exists>r p'. printbuf_memappend mem p t = Some (r, p')
    \<and> (r = - 1 \<and> p' = p \<and> (\<exists>n. \<not> mem n) \<or> r = int (length t) \<and> pb_holds p' (s @ t) \<and> pb_ends p')"
proof -
  let ?n = "length s + length t + 1"
  have pos: "pb_pos p = length s" using assms(1) by (simp add: pb_holds_def)
  obtain r p1 where r: "(if pb_size p \<le> ?n then printbuf_extend mem p ?n else Some (0, p)) = Some (r, p1)"
    "pb_holds p1 s" "r = - 1 \<and> p1 = p \<and> (\<exists>n. \<not> mem n) \<or> r = 0 \<and> ?n \<le> pb_size p1"
  proof (cases "pb_size p \<le> ?n")
    case True
    have "?n + 8 < 2 ^ 30" using assms(2) by simp
    from extend_holds [OF assms(1) this, of mem] True that show ?thesis by auto
  qed (use assms(1) that in auto)
  have n: "\<not> 2 ^ 31 \<le> ?n" using assms(2) by simp
  show ?thesis
  proof (cases "r = 0")
    case True
    then obtain p2 where "do { p \<leftarrow> pb_write (length s) t p1; let p = p\<lparr>pb_pos := length s + length t\<rparr>;
        pb_write (pb_pos p) [CHR 0x00] p } = Some p2" "pb_holds p2 (s @ t)" "pb_ends p2"
      using write_ends [OF r(2), of t] r(3) by auto
    moreover have "pb_pos p1 = length s" using r(2) by (simp add: pb_holds_def)
    moreover have "pb_write (length s) t p1 = Some q \<Longrightarrow> pb_pos q = length s" for q
      using pb_size_write [of "length s" t p1 q] \<open>pb_pos p1 = length s\<close> by simp
    ultimately have "printbuf_memappend mem p t = Some (int (length t), p2)"
      using r(1) True n by (auto simp: printbuf_memappend_def Let_def pos bind_eq_Some_conv)
    then show ?thesis using \<open>pb_holds p2 (s @ t)\<close> \<open>pb_ends p2\<close> by blast
  next
    case False
    then have "printbuf_memappend mem p t = Some (- 1, p)"
      using r n by (auto simp: printbuf_memappend_def Let_def pos split: if_splits)
    then show ?thesis using False r(3) by blast
  qed
qed

text \<open>The macro does what the function does.\<close>

lemma printbuf_memappend_fast_appends:
  assumes "pb_holds p s" "length s + length t + 9 < 2 ^ 30"
  shows "\<exists>p'. printbuf_memappend_fast mem p t = Some p'
    \<and> (p' = p \<and> (\<exists>n. \<not> mem n) \<or> pb_holds p' (s @ t) \<and> pb_ends p')"
proof (cases "length s + length t < pb_size p")
  case True
  moreover have "pb_pos p = length s" using assms(1) by (simp add: pb_holds_def)
  moreover have "pb_write (length s) t p = Some q \<Longrightarrow> pb_pos q = length s" for q
    using pb_size_write [of "length s" t p q] \<open>pb_pos p = length s\<close> by simp
  ultimately have "printbuf_memappend_fast mem p t = do { p \<leftarrow> pb_write (length s) t p;
      let p = p\<lparr>pb_pos := length s + length t\<rparr>; pb_write (pb_pos p) [CHR 0x00] p }"
    by (cases "pb_write (length s) t p") (auto simp: printbuf_memappend_fast_def Let_def)
  then show ?thesis using write_ends [OF assms(1) True] by auto
next
  case False
  moreover have "pb_pos p = length s" using assms(1) by (simp add: pb_holds_def)
  ultimately show ?thesis
    using printbuf_memappend_appends [OF assms, of mem] by (auto simp: printbuf_memappend_fast_def)
qed

lemma sprintbuf_appends:
  assumes "pb_holds p s" "length s + length t + 9 < 2 ^ 30" "\<forall>n. mem n"
  shows "\<exists>p'. sprintbuf mem p t = Some (int (length t), p') \<and> pb_holds p' (s @ t) \<and> pb_ends p'"
  using printbuf_memappend_appends [OF assms(1,2), of mem] assms(3) by (auto simp: sprintbuf_def)

text \<open>Filling behind the text, without a NUL at the end.\<close>

lemma printbuf_memset_fills:
  assumes "pb_holds p s" "length s + n + 9 < 2 ^ 30" "\<forall>n. mem n"
  shows "\<exists>p'. printbuf_memset mem p (- 1) c n = Some (0, p') \<and> pb_holds p' (s @ replicate n c)"
proof -
  have pos: "pb_pos p = length s" using assms(1) by (simp add: pb_holds_def)
  obtain p1 where p1: "(if pb_size p < length s + n then printbuf_extend mem p (length s + n) else Some (0, p)) = Some (0, p1)"
    "pb_holds p1 s" "length s + n \<le> pb_size p1"
  proof (cases "pb_size p < length s + n")
    case True
    have "length s + n + 8 < 2 ^ 30" using assms(2) by simp
    from extend_holds [OF assms(1) this, of mem] True assms(3) that show ?thesis by auto
  qed (use assms(1) that in auto)
  obtain p2 where p2: "pb_write (length s) (replicate n c) p1 = Some p2"
    "pb_pos p2 = pb_pos p1" "pb_holds (p2\<lparr>pb_pos := length s + n\<rparr>) (s @ replicate n c)"
    using write_holds [OF p1(2), of "replicate n c"] p1(3) by auto
  have q: "pb_pos p2 = length s" using p1(2) p2(2) by (simp add: pb_holds_def)
  have "(if pb_pos p2 < length s + n then p2\<lparr>pb_pos := length s + n\<rparr> else p2) = p2\<lparr>pb_pos := length s + n\<rparr>"
    using q by (auto intro: printbuf.equality)
  then show ?thesis
    using p1(1) p2 assms(2) by (auto simp: printbuf_memset_def Let_def pos)
qed

lemma printbuf_reset_holds: "pb_holds p s \<Longrightarrow> \<exists>p'. printbuf_reset p = Some p' \<and> pb_holds p' []"
  by (auto simp: printbuf_reset_def pb_write_def pb_holds_def pb_size_def Suc_le_eq)

end
