(* ===== verification/Json_Object.thy ===== *)
theory Json_Object
  imports Numbers Print_Buf
begin

text \<open>
  Values of json-c and their text (json-c/json_object.c). An object is the list of
  its keys and values in the order of insertion, which the hash table keeps (theory
  \<open>Link_Hash_Laws\<close>), an array the list of its elements (theory \<open>Array_List\<close>); a null
  pointer is the value null. A string may hold NULs, a key is a C string.

  A \<open>double\<close> is of a type \<open>'d\<close>, with what the code asks of it as the record \<open>dbl\<close>; its
  text is what \<open>snprintf\<close> prints with 17 digits.
\<close>

datatype 'd json =
    JNull
  | JBoolean bool
  | JDouble 'd "string option"
  | JInt "64 word"
  | JObject "(string \<times> 'd json) list"
  | JArray "'d json list"
  | JString string

record 'd dbl =
  d_isnan :: "'d \<Rightarrow> bool"
  d_isinf :: "'d \<Rightarrow> bool"
  d_positive :: "'d \<Rightarrow> bool"
  d_print :: "'d \<Rightarrow> string"

definition JSON_C_TO_STRING_PLAIN :: u32 where "JSON_C_TO_STRING_PLAIN = 0"
definition JSON_C_TO_STRING_SPACED :: u32 where "JSON_C_TO_STRING_SPACED = 1"
definition JSON_C_TO_STRING_PRETTY :: u32 where "JSON_C_TO_STRING_PRETTY = 2"
definition JSON_C_TO_STRING_NOZERO :: u32 where "JSON_C_TO_STRING_NOZERO = 4"

abbreviation spaced :: "u32 \<Rightarrow> bool" where "spaced flags \<equiv> flags AND JSON_C_TO_STRING_SPACED \<noteq> 0"
abbreviation pretty :: "u32 \<Rightarrow> bool" where "pretty flags \<equiv> flags AND JSON_C_TO_STRING_PRETTY \<noteq> 0"
abbreviation nozero :: "u32 \<Rightarrow> bool" where "nozero flags \<equiv> flags AND JSON_C_TO_STRING_NOZERO \<noteq> 0"

section \<open>Escaping\<close>

definition json_hex_chars :: string where "json_hex_chars = ''0123456789abcdefABCDEF''"

text \<open>The characters with an escape of two characters.\<close>

definition short_escape :: "char \<Rightarrow> string option" where
  "short_escape c =
     (if c = CHR 0x08 then Some [CHR 0x5C, CHR ''b'']
      else if c = CHR 0x0A then Some [CHR 0x5C, CHR ''n'']
      else if c = CHR 0x0D then Some [CHR 0x5C, CHR ''r'']
      else if c = CHR 0x09 then Some [CHR 0x5C, CHR ''t'']
      else if c = CHR 0x0C then Some [CHR 0x5C, CHR ''f'']
      else if c = CHR 0x22 then Some [CHR 0x5C, CHR 0x22]
      else if c = CHR 0x5C then Some [CHR 0x5C, CHR 0x5C]
      else if c = CHR ''/'' then Some [CHR 0x5C, CHR ''/'']
      else None)"

definition control_escape :: "char \<Rightarrow> string" where
  "control_escape c = (let n = of_char c :: nat in
     [CHR 0x5C, CHR ''u'', CHR ''0'', CHR ''0'', json_hex_chars ! (n div 16), json_hex_chars ! (n mod 16)])"

text \<open>A call whose result is not looked at.\<close>

definition pb_print :: "(nat \<Rightarrow> bool) \<Rightarrow> string \<Rightarrow> printbuf \<Rightarrow> printbuf option" where
  "pb_print mem s p = map_option snd (sprintbuf mem p s)"

definition pb_append :: "(nat \<Rightarrow> bool) \<Rightarrow> string \<Rightarrow> printbuf \<Rightarrow> printbuf option" where
  "pb_append mem s p = map_option snd (printbuf_memappend mem p s)"

text \<open>\<open>run\<close> is the text between \<open>start_offset\<close> and \<open>pos\<close>, not appended yet.\<close>

fun escape_loop :: "(nat \<Rightarrow> bool) \<Rightarrow> string \<Rightarrow> string \<Rightarrow> printbuf \<Rightarrow> printbuf option" where
  "escape_loop mem run [] p = (if 0 < length run then pb_append mem run p else Some p)"
| "escape_loop mem run (c # cs) p =
     (case short_escape c of
        Some e \<Rightarrow> do {
          p \<leftarrow> (if 0 < length run then pb_append mem run p else Some p);
          p \<leftarrow> pb_append mem e p;
          escape_loop mem [] cs p }
      | None \<Rightarrow>
          if (of_char c :: nat) < 32 then do {
            p \<leftarrow> (if 0 < length run then pb_append mem run p else Some p);
            p \<leftarrow> pb_print mem (control_escape c) p;
            escape_loop mem [] cs p }
          else escape_loop mem (run @ [c]) cs p)"

definition json_escape_str :: "(nat \<Rightarrow> bool) \<Rightarrow> printbuf \<Rightarrow> string \<Rightarrow> printbuf option" where
  "json_escape_str mem p s = escape_loop mem [] s p"

section \<open>Numbers\<close>

definition show_i64 :: "64 word \<Rightarrow> string" where
  "show_i64 x = (if sint x < 0 then CHR ''-'' # show_nat (nat (- sint x)) else show_nat (nat (sint x)))"

text \<open>
  Dropping trailing zeros: \<open>q\<close> goes through the text behind the point and \<open>p\<close> stays at
  the last character that is no zero, or at the first one.
\<close>

fun last_useful :: "nat \<Rightarrow> nat \<Rightarrow> string \<Rightarrow> nat" where
  "last_useful p q [] = p"
| "last_useful p q (c # cs) = last_useful (if c \<noteq> CHR ''0'' then q else p) (q + 1) cs"

definition drop_zeros :: "string \<Rightarrow> string" where
  "drop_zeros s = (let k = length (takeWhile (\<lambda>c. c \<noteq> CHR ''.'') s) in
     if k = length s then s
     else let frac = drop (k + 1) s in
       take (k + 1) s @ take (last_useful 0 0 frac + 1) (frac @ [CHR 0x00]))"

text \<open>\<open>strchr\<close> finds the first comma, which is replaced, or else the first point.\<close>

definition decimal_point :: "string \<Rightarrow> string" where
  "decimal_point s = (let k = length (takeWhile (\<lambda>c. c \<noteq> CHR '','') s) in
     if k = length s then s else s[k := CHR ''.''])"

text \<open>The point meant is the one that replaced the comma, even behind another point.\<close>

definition double_print :: "'d dbl \<Rightarrow> 'd \<Rightarrow> string" where
  "double_print D d =
     (if d_isnan D d then ''NaN''
      else if d_isinf D d then (if d_positive D d then ''Infinity'' else ''-Infinity'')
      else d_print D d)"

definition double_text :: "'d dbl \<Rightarrow> u32 \<Rightarrow> 'd \<Rightarrow> string" where
  "double_text D flags d =
     (let buf = double_print D d;
          k = length (takeWhile (\<lambda>c. c \<noteq> CHR '','') buf) in
      if k < length buf then
        (if nozero flags then take k buf @ drop_zeros (drop k (decimal_point buf)) else decimal_point buf)
      else if nozero flags then drop_zeros buf else buf)"

text \<open>The text has to fit the array on the stack.\<close>

definition json_object_double_to_json_string ::
  "'d dbl \<Rightarrow> (nat \<Rightarrow> bool) \<Rightarrow> u32 \<Rightarrow> 'd \<Rightarrow> printbuf \<Rightarrow> (int \<times> printbuf) option" where
  "json_object_double_to_json_string D mem flags d p =
     (let s = double_text D flags d in
      if 127 < length (double_print D d) then None
      else do { p \<leftarrow> pb_append mem s p; Some (int (length s), p) })"

definition json_object_userdata_to_json_string ::
  "(nat \<Rightarrow> bool) \<Rightarrow> string \<Rightarrow> printbuf \<Rightarrow> (int \<times> printbuf) option" where
  "json_object_userdata_to_json_string mem userdata p =
     do { p \<leftarrow> pb_append mem userdata p; Some (int (length userdata), p) }"

section \<open>The text of a value\<close>

definition indent :: "(nat \<Rightarrow> bool) \<Rightarrow> nat \<Rightarrow> u32 \<Rightarrow> printbuf \<Rightarrow> printbuf option" where
  "indent mem level flags p =
     (if pretty flags then map_option snd (printbuf_memset mem p (- 1) (CHR '' '') (level * 2)) else Some p)"

definition newline :: "(nat \<Rightarrow> bool) \<Rightarrow> u32 \<Rightarrow> printbuf \<Rightarrow> printbuf option" where
  "newline mem flags p = (if pretty flags then pb_print mem [CHR 0x0A] p else Some p)"

definition space :: "(nat \<Rightarrow> bool) \<Rightarrow> u32 \<Rightarrow> printbuf \<Rightarrow> printbuf option" where
  "space mem flags p = (if spaced flags then pb_print mem '' '' p else Some p)"

text \<open>The comma and the line end before an element that is not the first.\<close>

definition separator :: "(nat \<Rightarrow> bool) \<Rightarrow> u32 \<Rightarrow> bool \<Rightarrow> printbuf \<Rightarrow> printbuf option" where
  "separator mem flags had_children p =
     (if had_children then do { p \<leftarrow> pb_print mem '','' p; newline mem flags p } else Some p)"

definition closing :: "(nat \<Rightarrow> bool) \<Rightarrow> nat \<Rightarrow> u32 \<Rightarrow> bool \<Rightarrow> char \<Rightarrow> printbuf \<Rightarrow> (int \<times> printbuf) option" where
  "closing mem level flags had_children c p = do {
     p \<leftarrow> (if pretty flags then do {
         p \<leftarrow> (if had_children then pb_print mem [CHR 0x0A] p else Some p);
         indent mem level flags p }
       else Some p);
     (if spaced flags then sprintbuf mem p [CHR '' '', c] else sprintbuf mem p [c]) }"

fun to_json_string ::
  "'d dbl \<Rightarrow> (nat \<Rightarrow> bool) \<Rightarrow> u32 \<Rightarrow> 'd json \<Rightarrow> nat \<Rightarrow> printbuf \<Rightarrow> (int \<times> printbuf) option"
and object_children ::
  "'d dbl \<Rightarrow> (nat \<Rightarrow> bool) \<Rightarrow> u32 \<Rightarrow> (string \<times> 'd json) list \<Rightarrow> nat \<Rightarrow> bool \<Rightarrow> printbuf \<Rightarrow> printbuf option"
and array_children ::
  "'d dbl \<Rightarrow> (nat \<Rightarrow> bool) \<Rightarrow> u32 \<Rightarrow> 'd json list \<Rightarrow> nat \<Rightarrow> bool \<Rightarrow> printbuf \<Rightarrow> printbuf option" where
  "to_json_string D mem flags JNull level p = sprintbuf mem p ''null''"
| "to_json_string D mem flags (JBoolean b) level p = sprintbuf mem p (if b then ''true'' else ''false'')"
| "to_json_string D mem flags (JInt i) level p = sprintbuf mem p (show_i64 i)"
| "to_json_string D mem flags (JDouble d None) level p = json_object_double_to_json_string D mem flags d p"
| "to_json_string D mem flags (JDouble d (Some s)) level p = json_object_userdata_to_json_string mem s p"
| "to_json_string D mem flags (JString s) level p = do {
     p \<leftarrow> pb_print mem [CHR 0x22] p;
     p \<leftarrow> json_escape_str mem p s;
     p \<leftarrow> pb_print mem [CHR 0x22] p;
     Some (0, p) }"
| "to_json_string D mem flags (JObject kvs) level p = do {
     p \<leftarrow> pb_print mem ''{'' p;
     p \<leftarrow> newline mem flags p;
     p \<leftarrow> object_children D mem flags kvs level False p;
     closing mem level flags (kvs \<noteq> []) (CHR ''}'') p }"
| "to_json_string D mem flags (JArray vs) level p = do {
     p \<leftarrow> pb_print mem ''['' p;
     p \<leftarrow> newline mem flags p;
     p \<leftarrow> array_children D mem flags vs level False p;
     closing mem level flags (vs \<noteq> []) (CHR '']'') p }"
| "object_children D mem flags [] level had_children p = Some p"
| "object_children D mem flags ((k, v) # kvs) level had_children p = do {
     p \<leftarrow> separator mem flags had_children p;
     p \<leftarrow> space mem flags p;
     p \<leftarrow> indent mem (level + 1) flags p;
     p \<leftarrow> pb_print mem [CHR 0x22] p;
     p \<leftarrow> json_escape_str mem p k;
     p \<leftarrow> pb_print mem (if spaced flags then [CHR 0x22, CHR '':'', CHR '' ''] else [CHR 0x22, CHR '':'']) p;
     (_, p) \<leftarrow> to_json_string D mem flags v (level + 1) p;
     object_children D mem flags kvs level True p }"
| "array_children D mem flags [] level had_children p = Some p"
| "array_children D mem flags (v # vs) level had_children p = do {
     p \<leftarrow> separator mem flags had_children p;
     p \<leftarrow> space mem flags p;
     p \<leftarrow> indent mem (level + 1) flags p;
     (_, p) \<leftarrow> to_json_string D mem flags v (level + 1) p;
     array_children D mem flags vs level True p }"

text \<open>The C string in a buffer: \<open>None\<close> when it is not ended by a NUL.\<close>

fun pb_c_string :: "char option list \<Rightarrow> string option" where
  "pb_c_string [] = None"
| "pb_c_string (None # cs) = None"
| "pb_c_string (Some c # cs) = (if c = CHR 0x00 then Some [] else map_option ((#) c) (pb_c_string cs))"

text \<open>
  The text of a value, with the buffer the value keeps (\<open>None\<close> before the first call).
  A null pointer as the result is \<open>Some None\<close>.
\<close>

definition json_object_to_json_string_ext ::
  "'d dbl \<Rightarrow> (nat \<Rightarrow> bool) \<Rightarrow> 'd json \<Rightarrow> u32 \<Rightarrow> printbuf option \<Rightarrow> (string option \<times> printbuf option) option" where
  "json_object_to_json_string_ext D mem jso flags pb =
     (if jso = JNull then Some (Some ''null'', pb)
      else (case (case pb of None \<Rightarrow> printbuf_new mem | Some p \<Rightarrow> Some p) of
          None \<Rightarrow> Some (None, None)
        | Some p \<Rightarrow> do {
            p \<leftarrow> printbuf_reset p;
            (r, p) \<leftarrow> to_json_string D mem flags jso 0 p;
            if r < 0 then Some (None, Some p)
            else do { s \<leftarrow> pb_c_string (pb_buf p); Some (Some s, Some p) }
          }))"

definition json_object_to_json_string ::
  "'d dbl \<Rightarrow> (nat \<Rightarrow> bool) \<Rightarrow> 'd json \<Rightarrow> printbuf option \<Rightarrow> (string option \<times> printbuf option) option" where
  "json_object_to_json_string D mem jso pb = json_object_to_json_string_ext D mem jso JSON_C_TO_STRING_SPACED pb"

end
