(* ===== verification/Json_Print.thy ===== *)
theory Json_Print
  imports Json_Object
begin

text \<open>
  The text of a value as a function of the value, and that json-c's printing into a
  growing buffer gives it.
\<close>

section \<open>The text\<close>

definition escape_char :: "char \<Rightarrow> string" where
  "escape_char c = (case short_escape c of Some e \<Rightarrow> e
     | None \<Rightarrow> if (of_char c :: nat) < 32 then control_escape c else [c])"

definition escape_text :: "string \<Rightarrow> string" where
  "escape_text s = concat (map escape_char s)"

definition quote_text :: "string \<Rightarrow> string" where
  "quote_text s = [CHR 0x22] @ escape_text s @ [CHR 0x22]"

definition indent_text :: "u32 \<Rightarrow> nat \<Rightarrow> string" where
  "indent_text flags level = (if pretty flags then replicate (level * 2) (CHR '' '') else [])"

definition newline_text :: "u32 \<Rightarrow> string" where
  "newline_text flags = (if pretty flags then [CHR 0x0A] else [])"

definition space_text :: "u32 \<Rightarrow> string" where
  "space_text flags = (if spaced flags then '' '' else [])"

definition separator_text :: "u32 \<Rightarrow> bool \<Rightarrow> string" where
  "separator_text flags had_children = (if had_children then '','' @ newline_text flags else [])"

definition closing_text :: "u32 \<Rightarrow> nat \<Rightarrow> bool \<Rightarrow> char \<Rightarrow> string" where
  "closing_text flags level had_children c =
     (if pretty flags then (if had_children then [CHR 0x0A] else []) @ indent_text flags level else [])
     @ space_text flags @ [c]"

fun json_text :: "'d dbl \<Rightarrow> u32 \<Rightarrow> 'd json \<Rightarrow> nat \<Rightarrow> string"
and object_text :: "'d dbl \<Rightarrow> u32 \<Rightarrow> (string \<times> 'd json) list \<Rightarrow> nat \<Rightarrow> bool \<Rightarrow> string"
and array_text :: "'d dbl \<Rightarrow> u32 \<Rightarrow> 'd json list \<Rightarrow> nat \<Rightarrow> bool \<Rightarrow> string" where
  "json_text D flags JNull level = ''null''"
| "json_text D flags (JBoolean b) level = (if b then ''true'' else ''false'')"
| "json_text D flags (JInt i) level = show_i64 i"
| "json_text D flags (JDouble d None) level = double_text D flags d"
| "json_text D flags (JDouble d (Some s)) level = s"
| "json_text D flags (JString s) level = quote_text s"
| "json_text D flags (JObject kvs) level =
     ''{'' @ newline_text flags @ object_text D flags kvs level False @ closing_text flags level (kvs \<noteq> []) (CHR ''}'')"
| "json_text D flags (JArray vs) level =
     ''['' @ newline_text flags @ array_text D flags vs level False @ closing_text flags level (vs \<noteq> []) (CHR '']'')"
| "object_text D flags [] level had_children = []"
| "object_text D flags ((k, v) # kvs) level had_children =
     separator_text flags had_children @ space_text flags @ indent_text flags (level + 1)
     @ [CHR 0x22] @ escape_text k @ [CHR 0x22, CHR '':''] @ space_text flags
     @ json_text D flags v (level + 1) @ object_text D flags kvs level True"
| "array_text D flags [] level had_children = []"
| "array_text D flags (v # vs) level had_children =
     separator_text flags had_children @ space_text flags @ indent_text flags (level + 1)
     @ json_text D flags v (level + 1) @ array_text D flags vs level True"

section \<open>What a printing function adds\<close>

definition emits :: "(printbuf \<Rightarrow> printbuf option) \<Rightarrow> string \<Rightarrow> bool" where
  "emits f t \<longleftrightarrow> (\<forall>p s. pb_holds p s \<longrightarrow> length s + length t + 9 < 2 ^ 30 \<longrightarrow>
     (\<exists>p'. f p = Some p' \<and> pb_holds p' (s @ t)))"

text \<open>A function that returns a number that is not negative and leaves a NUL behind the text.\<close>

definition ends :: "(printbuf \<Rightarrow> (int \<times> printbuf) option) \<Rightarrow> string \<Rightarrow> bool" where
  "ends f t \<longleftrightarrow> (\<forall>p s. pb_holds p s \<longrightarrow> length s + length t + 9 < 2 ^ 30 \<longrightarrow>
     (\<exists>r p'. f p = Some (r, p') \<and> 0 \<le> r \<and> pb_holds p' (s @ t) \<and> pb_ends p'))"

named_theorems emit_intros \<open>what printing functions add\<close>

lemma emits_bind [emit_intros]:
  assumes "emits f a" "emits g b"
  shows "emits (\<lambda>p. do { p \<leftarrow> f p; g p }) (a @ b)"
  unfolding emits_def
proof (intro allI impI)
  fix p s assume p: "pb_holds p s" "length s + length (a @ b) + 9 < 2 ^ 30"
  then obtain p1 where "f p = Some p1" "pb_holds p1 (s @ a)"
    using assms(1) by (fastforce simp: emits_def)
  moreover obtain p2 where "g p1 = Some p2" "pb_holds p2 ((s @ a) @ b)"
    using assms(2) p(2) \<open>pb_holds p1 (s @ a)\<close> by (fastforce simp: emits_def)
  ultimately show "\<exists>p'. do { p \<leftarrow> f p; g p } = Some p' \<and> pb_holds p' (s @ a @ b)" by simp
qed

lemma ends_bind [emit_intros]:
  assumes "emits f a" "ends g b"
  shows "ends (\<lambda>p. do { p \<leftarrow> f p; g p }) (a @ b)"
  unfolding ends_def
proof (intro allI impI)
  fix p s assume p: "pb_holds p s" "length s + length (a @ b) + 9 < 2 ^ 30"
  then obtain p1 where "f p = Some p1" "pb_holds p1 (s @ a)"
    using assms(1) by (fastforce simp: emits_def)
  moreover obtain r p2 where "g p1 = Some (r, p2)" "0 \<le> r" "pb_holds p2 ((s @ a) @ b)" "pb_ends p2"
    using assms(2) p(2) \<open>pb_holds p1 (s @ a)\<close> by (fastforce simp: ends_def)
  ultimately show "\<exists>r p'. do { p \<leftarrow> f p; g p } = Some (r, p') \<and> 0 \<le> r \<and> pb_holds p' (s @ a @ b) \<and> pb_ends p'"
    by simp
qed

text \<open>The result of a call that is not looked at.\<close>

lemma emits_result [emit_intros]:
  assumes "ends f a" "emits g b"
  shows "emits (\<lambda>p. do { (_, p) \<leftarrow> f p; g p }) (a @ b)"
  unfolding emits_def
proof (intro allI impI)
  fix p s assume p: "pb_holds p s" "length s + length (a @ b) + 9 < 2 ^ 30"
  then obtain r p1 where "f p = Some (r, p1)" "pb_holds p1 (s @ a)"
    using assms(1) by (fastforce simp: ends_def)
  moreover obtain p2 where "g p1 = Some p2" "pb_holds p2 ((s @ a) @ b)"
    using assms(2) p(2) \<open>pb_holds p1 (s @ a)\<close> by (fastforce simp: emits_def)
  ultimately show "\<exists>p'. do { (_, p) \<leftarrow> f p; g p } = Some p' \<and> pb_holds p' (s @ a @ b)" by simp
qed

lemma emits_none [emit_intros]: "emits Some []"
  by (auto simp: emits_def)

lemma emits_if [emit_intros]:
  "(b \<Longrightarrow> emits f s) \<Longrightarrow> (\<not> b \<Longrightarrow> emits g t) \<Longrightarrow> emits (\<lambda>p. if b then f p else g p) (if b then s else t)"
  by (cases b) auto

lemma ends_if [emit_intros]:
  "(b \<Longrightarrow> ends f s) \<Longrightarrow> (\<not> b \<Longrightarrow> ends g t) \<Longrightarrow> ends (\<lambda>p. if b then f p else g p) (if b then s else t)"
  by (cases b) auto

lemma ends_sprintbuf:
  assumes "\<forall>n. mem n"
  shows "ends (\<lambda>p. sprintbuf mem p t) t"
  unfolding ends_def
proof (intro allI impI)
  fix p s assume "pb_holds p s" "length s + length t + 9 < 2 ^ 30"
  from sprintbuf_appends [OF this assms]
  show "\<exists>r p'. sprintbuf mem p t = Some (r, p') \<and> 0 \<le> r \<and> pb_holds p' (s @ t) \<and> pb_ends p'" by auto
qed

lemma emits_ends: "ends f t \<Longrightarrow> emits (\<lambda>p. map_option snd (f p)) t"
  by (fastforce simp: ends_def emits_def)

lemma ends_memappend:
  assumes "\<forall>n. mem n"
  shows "ends (\<lambda>p. printbuf_memappend mem p t) t"
  unfolding ends_def
proof (intro allI impI)
  fix p s assume "pb_holds p s" "length s + length t + 9 < 2 ^ 30"
  from printbuf_memappend_appends [OF this, of mem]
  show "\<exists>r p'. printbuf_memappend mem p t = Some (r, p') \<and> 0 \<le> r \<and> pb_holds p' (s @ t) \<and> pb_ends p'"
    using assms by auto
qed

lemma emits_print: "\<forall>n. mem n \<Longrightarrow> emits (pb_print mem t) t"
  unfolding pb_print_def [abs_def] by (rule emits_ends) (rule ends_sprintbuf)

lemma emits_append: "\<forall>n. mem n \<Longrightarrow> emits (pb_append mem t) t"
  unfolding pb_append_def [abs_def] by (rule emits_ends) (rule ends_memappend)

text \<open>A last call whose result is not looked at.\<close>

lemma ends_last:
  assumes "ends f t" "0 \<le> r"
  shows "ends (\<lambda>p. do { p \<leftarrow> map_option snd (f p); Some (r, p) }) t"
  using assms by (fastforce simp: ends_def)

lemma emits_indent:
  assumes "\<forall>n. mem n"
  shows "emits (indent mem level flags) (indent_text flags level)"
  unfolding emits_def
proof (intro allI impI)
  fix p s assume "pb_holds p s" "length s + length (indent_text flags level) + 9 < 2 ^ 30"
  then show "\<exists>p'. indent mem level flags p = Some p' \<and> pb_holds p' (s @ indent_text flags level)"
    using printbuf_memset_fills [OF _ _ assms, of p s "level * 2" "CHR '' ''"]
    by (cases "pretty flags") (auto simp: indent_def indent_text_def)
qed

section \<open>Escaping\<close>

lemma emits_escape:
  assumes "\<forall>n. mem n"
  shows "emits (escape_loop mem run s) (run @ escape_text s)"
proof (induction s arbitrary: run)
  case Nil
  show ?case
    using emits_if [OF emits_append [OF assms, of run] emits_none, of "0 < length run"]
    by (cases run) (auto simp: escape_text_def)
next
  case (Cons c cs)
  have pre: "emits (\<lambda>p. if 0 < length run then pb_append mem run p else Some p) run"
    using emits_if [OF emits_append [OF assms, of run] emits_none, of "0 < length run"] by (cases run) auto
  have e: "emits (\<lambda>p. do { p \<leftarrow> if 0 < length run then pb_append mem run p else Some p;
      p \<leftarrow> f p; escape_loop mem [] cs p }) (run @ t @ [] @ escape_text cs)" if "emits f t" for f t
    by (intro emits_bind pre that Cons.IH)
  have s: "escape_text (c # cs) = escape_char c @ escape_text cs" by (simp add: escape_text_def)
  show ?case
  proof (cases "short_escape c")
    case (Some x)
    then show ?thesis using e [OF emits_append [OF assms, of x]] by (simp add: s escape_char_def)
  next
    case None
    then show ?thesis
      using e [OF emits_print [OF assms, of "control_escape c"]] Cons.IH [of "run @ [c]"]
      by (simp add: s escape_char_def)
  qed
qed

lemma emits_json_escape_str: "\<forall>n. mem n \<Longrightarrow> emits (\<lambda>p. json_escape_str mem p s) (escape_text s)"
  using emits_escape [of mem "[]" s] by (simp add: json_escape_str_def)

section \<open>Values\<close>

lemma emits_newline: "\<forall>n. mem n \<Longrightarrow> emits (newline mem flags) (newline_text flags)"
  unfolding newline_def [abs_def] newline_text_def by (intro emit_intros emits_print)

lemma emits_space: "\<forall>n. mem n \<Longrightarrow> emits (space mem flags) (space_text flags)"
  unfolding space_def [abs_def] space_text_def by (intro emit_intros emits_print)

lemma emits_separator: "\<forall>n. mem n \<Longrightarrow> emits (separator mem flags h) (separator_text flags h)"
  unfolding separator_def [abs_def] separator_text_def by (intro emit_intros emits_print emits_newline)

lemma ends_closing:
  assumes "\<forall>n. mem n"
  shows "ends (closing mem level flags h c) (closing_text flags level h c)"
proof -
  have "ends (\<lambda>p. if spaced flags then sprintbuf mem p [CHR '' '', c] else sprintbuf mem p [c])
      (if spaced flags then [CHR '' '', c] else [c])"
    by (intro emit_intros ends_sprintbuf assms)
  moreover have "(if spaced flags then [CHR '' '', c] else [c]) = space_text flags @ [c]"
    by (simp add: space_text_def)
  ultimately have "ends (\<lambda>p. if spaced flags then sprintbuf mem p [CHR '' '', c] else sprintbuf mem p [c]) (space_text flags @ [c])"
    by simp
  then show ?thesis
    unfolding closing_def [abs_def] closing_text_def
    by (intro emit_intros emits_print emits_indent assms)
qed

text \<open>The texts \<open>snprintf\<close> prints fit the array on the stack.\<close>

fun json_fits :: "'d dbl \<Rightarrow> 'd json \<Rightarrow> bool" where
  "json_fits D (JDouble d None) = (length (double_print D d) \<le> 127)"
| "json_fits D (JObject kvs) = (\<forall>(k, v) \<in> set kvs. json_fits D v)"
| "json_fits D (JArray vs) = (\<forall>v \<in> set vs. json_fits D v)"
| "json_fits D _ = True"

lemma to_json_string_emits:
  assumes "\<forall>n. mem n"
  shows "json_fits D v \<Longrightarrow> ends (to_json_string D mem flags v level) (json_text D flags v level)"
    "(\<forall>(k, v) \<in> set kvs. json_fits D v) \<Longrightarrow>
      emits (object_children D mem flags kvs level h) (object_text D flags kvs level h)"
    "(\<forall>v \<in> set vs. json_fits D v) \<Longrightarrow>
      emits (array_children D mem flags vs level h) (array_text D flags vs level h)"
proof (induction D flags v level and D flags kvs level h and D flags vs level h
    rule: json_text_object_text_array_text.induct)
  case (4 D flags d level)
  have "ends (\<lambda>p. do { p \<leftarrow> map_option snd (printbuf_memappend mem p (double_text D flags d));
      Some (int (length (double_text D flags d)), p) }) (double_text D flags d)"
    by (intro ends_last ends_memappend assms) simp
  then show ?case
    using 4 by (simp add: json_object_double_to_json_string_def [abs_def] pb_append_def Let_def cong: if_cong)
next
  case (5 D flags d s level)
  have "ends (\<lambda>p. do { p \<leftarrow> map_option snd (printbuf_memappend mem p s); Some (int (length s), p) }) s"
    by (intro ends_last ends_memappend assms) simp
  then show ?case
    by (simp add: json_object_userdata_to_json_string_def [abs_def] pb_append_def)
next
  case (6 D flags s level)
  have "ends (\<lambda>p. do { p \<leftarrow> pb_print mem [CHR 0x22] p; Some (0, p) }) [CHR 0x22]"
    unfolding pb_print_def by (intro ends_last ends_sprintbuf assms) simp
  then have "ends (\<lambda>p. do { p \<leftarrow> pb_print mem [CHR 0x22] p; p \<leftarrow> json_escape_str mem p s;
      p \<leftarrow> pb_print mem [CHR 0x22] p; Some (0, p) }) ([CHR 0x22] @ escape_text s @ [CHR 0x22])"
    by (intro ends_bind emits_print emits_json_escape_str assms)
  then show ?case by (simp add: quote_text_def)
next
  case (7 D flags kvs level)
  have "ends (\<lambda>p. do { p \<leftarrow> pb_print mem ''{'' p; p \<leftarrow> newline mem flags p;
     p \<leftarrow> object_children D mem flags kvs level False p;
     closing mem level flags (kvs \<noteq> []) (CHR ''}'') p }) (json_text D flags (JObject kvs) level)"
    unfolding json_text.simps
    by (intro ends_bind emits_print emits_newline ends_closing assms 7(1)) (use 7(2) in simp)
  then show ?case by simp
next
  case (8 D flags vs level)
  have "ends (\<lambda>p. do { p \<leftarrow> pb_print mem ''['' p; p \<leftarrow> newline mem flags p;
     p \<leftarrow> array_children D mem flags vs level False p;
     closing mem level flags (vs \<noteq> []) (CHR '']'') p }) (json_text D flags (JArray vs) level)"
    unfolding json_text.simps
    by (intro ends_bind emits_print emits_newline ends_closing assms 8(1)) (use 8(2) in simp)
  then show ?case by simp
next
  case (10 D flags k v kvs level h)
  let ?c = "if spaced flags then [CHR 0x22, CHR '':'', CHR '' ''] else [CHR 0x22, CHR '':'']"
  have "emits (\<lambda>p. do { p \<leftarrow> separator mem flags h p; p \<leftarrow> space mem flags p;
     p \<leftarrow> indent mem (level + 1) flags p; p \<leftarrow> pb_print mem [CHR 0x22] p; p \<leftarrow> json_escape_str mem p k;
     p \<leftarrow> pb_print mem ?c p; (_, p) \<leftarrow> to_json_string D mem flags v (level + 1) p;
     object_children D mem flags kvs level True p })
    (separator_text flags h @ space_text flags @ indent_text flags (level + 1) @ [CHR 0x22] @ escape_text k
      @ ?c @ json_text D flags v (level + 1) @ object_text D flags kvs level True)"
    by (intro emits_bind emits_result emits_separator emits_space emits_indent emits_print
        emits_json_escape_str assms 10(1,2)) (use 10(3) in auto)
  then show ?case by (cases "spaced flags") (simp_all add: space_text_def)
next
  case (12 D flags v vs level h)
  have "emits (\<lambda>p. do { p \<leftarrow> separator mem flags h p; p \<leftarrow> space mem flags p;
     p \<leftarrow> indent mem (level + 1) flags p; (_, p) \<leftarrow> to_json_string D mem flags v (level + 1) p;
     array_children D mem flags vs level True p })
    (separator_text flags h @ space_text flags @ indent_text flags (level + 1)
      @ json_text D flags v (level + 1) @ array_text D flags vs level True)"
    by (intro emits_bind emits_result emits_separator emits_space emits_indent assms 12(1,2)) (use 12(3) in auto)
  then show ?case by simp
qed (use ends_sprintbuf [OF assms] in \<open>simp_all add: ends_def emits_def\<close>)

lemma pb_c_string_holds:
  "take (length s) xs = map Some s \<Longrightarrow> length s < length xs \<Longrightarrow> xs ! length s = Some (CHR 0x00) \<Longrightarrow>
    pb_c_string xs = Some (takeWhile (\<lambda>c. c \<noteq> CHR 0x00) s)"
proof (induction s arbitrary: xs)
  case Nil
  then show ?case by (cases xs) auto
next
  case (Cons c s)
  then show ?case by (cases xs) auto
qed

lemma json_to_string_ext:
  assumes "\<forall>n. mem n" "json_fits D v" "v \<noteq> JNull" "length (json_text D flags v 0) + 9 < 2 ^ 30"
    "\<forall>p. pb = Some p \<longrightarrow> (\<exists>s. pb_holds p s)"
  shows "\<exists>p. json_object_to_json_string_ext D mem v flags pb
      = Some (Some (takeWhile (\<lambda>c. c \<noteq> CHR 0x00) (json_text D flags v 0)), Some p)
    \<and> pb_holds p (json_text D flags v 0) \<and> pb_ends p"
proof -
  obtain p0 s0 where p0: "(case pb of None \<Rightarrow> printbuf_new mem | Some p \<Rightarrow> Some p) = Some p0" "pb_holds p0 s0"
    using assms(1,5) printbuf_new_holds [of mem] by (cases pb) (auto simp: printbuf_new_def)
  obtain p1 where p1: "printbuf_reset p0 = Some p1" "pb_holds p1 []"
    using printbuf_reset_holds [OF p0(2)] by blast
  obtain r p2 where p2: "to_json_string D mem flags v 0 p1 = Some (r, p2)" "0 \<le> r"
    "pb_holds p2 (json_text D flags v 0)" "pb_ends p2"
    using to_json_string_emits(1) [OF assms(1,2), of flags 0] p1(2) assms(4) by (fastforce simp: ends_def)
  have "pb_c_string (pb_buf p2) = Some (takeWhile (\<lambda>c. c \<noteq> CHR 0x00) (json_text D flags v 0))"
    by (rule pb_c_string_holds) (use p2 in \<open>auto simp: pb_holds_def pb_ends_def pb_size_def\<close>)
  then have "json_object_to_json_string_ext D mem v flags pb
      = Some (Some (takeWhile (\<lambda>c. c \<noteq> CHR 0x00) (json_text D flags v 0)), Some p2)"
    using p0 p1 p2(1,2) assms(3)
    by (cases v) (simp_all add: json_object_to_json_string_ext_def del: to_json_string.simps json_text.simps)
  then show ?thesis using p2(3,4) by blast
qed

text \<open>
  C36: printing a value gives its text, whatever the value, the flags and the buffer
  left by an earlier call, growing the buffer as it goes: all of the text is in the
  buffer, a NUL behind it, and the result is the C string there.
\<close>

theorem json_object_to_json_string_text:
  assumes "\<forall>n. mem n" "json_fits D v" "v \<noteq> JNull" "length (json_text D flags v 0) + 9 < 2 ^ 30"
    "\<forall>p. pb = Some p \<longrightarrow> (\<exists>s. pb_holds p s)"
  shows "\<exists>p. json_object_to_json_string_ext D mem v flags pb
      = Some (Some (takeWhile (\<lambda>c. c \<noteq> CHR 0x00) (json_text D flags v 0)), Some p)
    \<and> pb_holds p (json_text D flags v 0) \<and> pb_ends p"
  by (rule json_to_string_ext [OF assms])

text \<open>An object with an array and a text to escape; a backquote stands for a quote, a caret for a backslash.\<close>

definition quoted :: "string \<Rightarrow> string" where
  "quoted s = map (\<lambda>c. if c = CHR 0x60 then CHR 0x22 else if c = CHR ''^'' then CHR 0x5C else c) s"

definition some_dbl :: "int dbl" where
  "some_dbl = \<lparr>d_isnan = (\<lambda>d. False), d_isinf = (\<lambda>d. False), d_positive = (\<lambda>d. 0 < d), d_print = (\<lambda>d. ''1.50'')\<rparr>"

definition some_value :: "int json" where
  "some_value = JObject [(''on'', JArray [JInt (- 12), JBoolean True, JNull]), (''s'', JString ''a/b''), (''d'', JDouble 3 None)]"

lemma some_value_text:
  "json_text some_dbl JSON_C_TO_STRING_SPACED some_value 0
     = quoted ''{ `on`: [ -12, true, null ], `s`: `a^/b`, `d`: 1.50 }''"
  by (simp add: quoted_def some_value_def json_text.simps newline_text_def separator_text_def space_text_def
      indent_text_def closing_text_def quote_text_def escape_text_def escape_char_def short_escape_def
      show_i64_def double_text_def double_print_def some_dbl_def show_base.simps digit_char_def
      JSON_C_TO_STRING_SPACED_def JSON_C_TO_STRING_PRETTY_def JSON_C_TO_STRING_NOZERO_def of_char_def char_of_def bit_0)

theorem json_object_to_json_string_text_witness:
  "\<exists>p. json_object_to_json_string some_dbl (\<lambda>n. True) some_value None
    = Some (Some (quoted ''{ `on`: [ -12, true, null ], `s`: `a^/b`, `d`: 1.50 }''), Some p)"
proof -
  have "json_fits some_dbl some_value" "some_value \<noteq> JNull"
    by (auto simp: some_value_def double_print_def some_dbl_def)
  from json_object_to_json_string_text [OF _ this, of "\<lambda>n. True" JSON_C_TO_STRING_SPACED None]
  show ?thesis by (auto simp: json_object_to_json_string_def some_value_text quoted_def)
qed

end
