(* ===== verification/Json_Util.thy ===== *)
theory Json_Util
  imports Json_Object
begin

text \<open>
  Reading decimal numbers (json-c/json_util.c): \<open>json_parse_int64\<close> with its defences
  against a C library whose \<open>sscanf\<close> does not report numbers out of range. What
  \<open>sscanf\<close> with the format for 64 bits returns for a text is a parameter: nothing, or
  a number and whether it sets \<open>errno\<close> to \<open>ERANGE\<close>; else it leaves it alone. A C
  string is a text without NULs.
\<close>

type_synonym scanner = "string \<Rightarrow> (64 word \<times> bool) option"

definition INT64_MAX :: "64 word" where "INT64_MAX = 0x7fffffffffffffff"
definition INT64_MIN :: "64 word" where "INT64_MIN = 0x8000000000000000"

definition c_isdigit :: "char \<Rightarrow> bool" where
  "c_isdigit c \<longleftrightarrow> 48 \<le> (of_char c :: nat) \<and> (of_char c :: nat) \<le> 57"

text \<open>
  The test of the C library, made before the first number is read and then
  remembered. It does not clear \<open>errno\<close>: \<open>stale\<close> says whether that is \<open>ERANGE\<close>
  before it, and the second call sees what the first has left. Without a number
  read the variable keeps what it held.
\<close>

definition sscanf_is_broken_test :: "scanner \<Rightarrow> bool \<Rightarrow> bool" where
  "sscanf_is_broken_test scan stale =
     (let (num64, e1) = (case scan '' -01234567890123456789012345'' of
            None \<Rightarrow> (0, stale) | Some (v, e) \<Rightarrow> (v, stale \<or> e));
          is_int64_min = (num64 = INT64_MIN);
          (num64, e2) = (case scan '' 01234567890123456789012345'' of
            None \<Rightarrow> (num64, e1) | Some (v, e) \<Rightarrow> (v, e1 \<or> e));
          is_int64_max = (num64 = INT64_MAX)
      in \<not> e1 \<or> \<not> is_int64_min \<or> \<not> e2 \<or> \<not> is_int64_max)"

text \<open>The loop keeps the last character, whatever it is.\<close>

fun skip_zeros :: "string \<Rightarrow> string" where
  "skip_zeros (c # d # cs) = (if c = CHR ''0'' then skip_zeros (d # cs) else c # d # cs)"
| "skip_zeros cs = cs"

text \<open>
  Whether the number printed again is not the text: another sign, other digits, or one
  more digit.
\<close>

definition recheck_fails :: "string \<Rightarrow> bool \<Rightarrow> 64 word \<Rightarrow> bool" where
  "recheck_fails sig_digits has_neg num64 =
     (let sig_digits = skip_zeros sig_digits;
          buf_cmp = show_i64 num64;
          recheck_has_neg = (take 1 buf_cmp = ''-'');
          buf_cmp = (if recheck_has_neg then drop 1 buf_cmp else buf_cmp);
          n = length buf_cmp
      in has_neg \<noteq> recheck_has_neg \<or> take n sig_digits \<noteq> buf_cmp
         \<or> length sig_digits \<noteq> n \<and> c_isdigit (sig_digits ! n))"

definition json_parse_int64 :: "scanner \<Rightarrow> bool \<Rightarrow> string \<Rightarrow> 64 word option" where
  "json_parse_int64 scan stale buf =
     (let sscanf_is_broken = sscanf_is_broken_test scan stale;
          buf = dropWhile c_isspace buf
      in case scan buf of
        None \<Rightarrow> None
      | Some (num64, erange) \<Rightarrow>
          let neg = (take 1 buf = ''-'');
              sig_digits = (if neg then drop 1 buf else buf);
              check = (sscanf_is_broken \<and> \<not> erange);
              neg = (if check \<and> num64 = 0 then False else neg);
              erange = (if check then recheck_fails sig_digits neg num64 else erange)
          in Some (if erange then (if neg then INT64_MIN else INT64_MAX) else num64))"

section \<open>Decimal texts\<close>

definition decimal_text :: "bool \<Rightarrow> string \<Rightarrow> string" where
  "decimal_text neg ds = (if neg then CHR ''-'' # ds else ds)"

definition decimal_value :: "bool \<Rightarrow> string \<Rightarrow> int" where
  "decimal_value neg ds = (if neg then - int (base_value 10 ds) else int (base_value 10 ds))"

definition fits_i64 :: "int \<Rightarrow> bool" where
  "fits_i64 n \<longleftrightarrow> - (2 ^ 63) \<le> n \<and> n < 2 ^ 63"

text \<open>A number out of range becomes the nearest one in range.\<close>

definition saturate :: "int \<Rightarrow> 64 word" where
  "saturate n = (if fits_i64 n then of_int n else if n < 0 then INT64_MIN else INT64_MAX)"

text \<open>
  What is asked of \<open>sscanf\<close>: it reads a number in range. One out of range it
  reports, or returns as the nearest number, or the test finds the library broken,
  and then it may be any number at all.
\<close>

definition reads_numbers :: "scanner \<Rightarrow> bool \<Rightarrow> bool" where
  "reads_numbers scan stale \<longleftrightarrow> (\<forall>neg ds. ds \<noteq> [] \<longrightarrow> list_all (is_base_digit 10) ds \<longrightarrow>
     (\<exists>v e. scan (decimal_text neg ds) = Some (v, e)
       \<and> (fits_i64 (decimal_value neg ds) \<longrightarrow> v = of_int (decimal_value neg ds) \<and> \<not> e)
       \<and> (\<not> fits_i64 (decimal_value neg ds) \<longrightarrow>
           e \<or> v = saturate (decimal_value neg ds) \<or> sscanf_is_broken_test scan stale)))"

lemma base_digit_isdigit: "is_base_digit 10 c \<Longrightarrow> c_isdigit c"
  by (auto simp: is_base_digit_def digit_of_def c_isdigit_def Let_def split: if_splits)

lemma skip_zeros_value: "base_value 10 (skip_zeros ds) = base_value 10 ds"
proof (induction ds rule: skip_zeros.induct)
  case (1 c d cs)
  then show ?case using base_value_zeros [of 10 1 "d # cs"] by auto
qed simp_all

lemma skip_zeros_digits: "list_all P ds \<Longrightarrow> list_all P (skip_zeros ds)"
  by (induction ds rule: skip_zeros.induct) auto

lemma skip_zeros_canonical: "ds \<noteq> [] \<Longrightarrow> skip_zeros ds \<noteq> [] \<and> (hd (skip_zeros ds) = CHR ''0'' \<longrightarrow> length (skip_zeros ds) = 1)"
  by (induction ds rule: skip_zeros.induct) auto

text \<open>Digits without a leading zero are what is printed of their value.\<close>

lemma digit_char_of: "digit_of c = Some k \<Longrightarrow> k < 10 \<Longrightarrow> digit_char k = c"
proof -
  assume d: "digit_of c = Some k" "k < 10"
  then have "of_char c = 48 + k" by (auto simp: digit_of_def Let_def split: if_splits)
  then have "char_of (48 + k) = c" by (metis char_of_char)
  then show ?thesis using d(2) by (simp add: digit_char_def)
qed

lemma base_value_pos:
  assumes "list_all (is_base_digit 10) ds" "ds \<noteq> []" "hd ds \<noteq> CHR ''0''"
  shows "0 < base_value 10 ds"
  using assms
proof (induction ds rule: rev_induct)
  case (snoc c cs)
  obtain k where k: "digit_of c = Some k" "k < 10"
    using snoc.prems(1) by (auto simp: is_base_digit_def split: option.splits)
  show ?case
  proof (cases "cs = []")
    case True
    have "digit_char 0 = CHR ''0''" by (simp add: digit_char_def char_of_def bit_0)
    then have "k \<noteq> 0" using snoc.prems(3) digit_char_of [OF k] True by (cases "k = 0") auto
    then show ?thesis using True k by (simp add: base_value_def)
  qed (use snoc k in \<open>simp add: base_value_snoc\<close>)
qed simp

lemma show_canonical:
  assumes "list_all (is_base_digit 10) ds" "ds \<noteq> []" "hd ds = CHR ''0'' \<longrightarrow> length ds = 1"
  shows "show_nat (base_value 10 ds) = ds"
  using assms
proof (induction ds rule: rev_induct)
  case (snoc c cs)
  obtain k where k: "digit_of c = Some k" "k < 10"
    using snoc.prems(1) by (auto simp: is_base_digit_def split: option.splits)
  show ?case
  proof (cases "cs = []")
    case True
    then show ?thesis using k digit_char_of [OF k] by (subst show_base.simps) (simp add: base_value_def)
  next
    case False
    then have h: "hd cs \<noteq> CHR ''0''" "list_all (is_base_digit 10) cs" using snoc.prems by auto
    then have "0 < base_value 10 cs" using base_value_pos False by blast
    then have "show_nat (base_value 10 (cs @ [c])) = show_nat (base_value 10 cs) @ [digit_char k]"
      using k by (subst show_base.simps) (simp add: base_value_snoc)
    then show ?thesis using snoc.IH h False digit_char_of [OF k] by simp
  qed
qed simp

section \<open>Reading\<close>

lemma sint_of_int: "fits_i64 n \<Longrightarrow> sint (of_int n :: 64 word) = n"
  by (simp add: fits_i64_def signed_of_int signed_take_bit_int_eq_self)

lemma of_int_sint_fits: "fits_i64 (sint (v :: 64 word))"
  using sint_greater_eq [of v] sint_less [of v] by (simp add: fits_i64_def)

text \<open>The sign and the digits of a printed number.\<close>

lemma show_i64_parts:
  "take 1 (show_i64 v) = ''-'' \<longleftrightarrow> sint v < 0"
  "(if sint v < 0 then drop 1 (show_i64 v) else show_i64 v) = show_nat (nat \<bar>sint v\<bar>)"
proof -
  have "take 1 (show_nat n) \<noteq> ''-''" for n
  proof -
    obtain c cs where "show_nat n = c # cs" by (cases "show_nat n") auto
    then show ?thesis using show_nat_digits [of n] base_digit_plain [of 10 c] by auto
  qed
  then show "take 1 (show_i64 v) = ''-'' \<longleftrightarrow> sint v < 0" by (auto simp: show_i64_def)
  show "(if sint v < 0 then drop 1 (show_i64 v) else show_i64 v) = show_nat (nat \<bar>sint v\<bar>)"
    by (auto simp: show_i64_def)
qed

text \<open>All of a text is compared, if its characters are digits.\<close>

lemma same_digits:
  assumes "\<forall>i < length es. P (es ! i)"
  shows "(take (length b) es \<noteq> b \<or> length es \<noteq> length b \<and> P (es ! length b)) \<longleftrightarrow> es \<noteq> b"
proof (cases "length b < length es")
  case True
  then show ?thesis using assms by auto
next
  case False
  then show ?thesis by (cases "length es = length b") auto
qed

lemma recheck_exact:
  assumes "list_all (is_base_digit 10) ds" "ds \<noteq> []"
  shows "recheck_fails ds neg v \<longleftrightarrow> \<not> (neg = (sint v < 0) \<and> base_value 10 ds = nat \<bar>sint v\<bar>)"
proof -
  let ?es = "skip_zeros ds" and ?b = "show_nat (nat \<bar>sint v\<bar>)"
  have es: "list_all (is_base_digit 10) ?es" "?es \<noteq> []" "hd ?es = CHR ''0'' \<longrightarrow> length ?es = 1"
    using skip_zeros_digits [OF assms(1)] skip_zeros_canonical [OF assms(2)] by auto
  have "\<forall>i < length ?es. c_isdigit (?es ! i)"
    using es(1) by (auto simp: list_all_length intro: base_digit_isdigit)
  from same_digits [OF this, of ?b]
  have "(neg \<noteq> (sint v < 0) \<or> take (length ?b) ?es \<noteq> ?b
      \<or> length ?es \<noteq> length ?b \<and> c_isdigit (?es ! length ?b)) \<longleftrightarrow> \<not> (neg = (sint v < 0) \<and> ?es = ?b)"
    by blast
  moreover have "?es = ?b \<longleftrightarrow> base_value 10 ds = nat \<bar>sint v\<bar>"
    using show_canonical [OF es] digits_value_show [of "nat \<bar>sint v\<bar>"] skip_zeros_value [of ds] by metis
  ultimately show ?thesis
    unfolding recheck_fails_def Let_def show_i64_parts by presburger
qed

text \<open>What is read: an unreported 0 for a negative number loses the sign.\<close>

definition int64_read :: "scanner \<Rightarrow> string \<Rightarrow> int \<Rightarrow> 64 word" where
  "int64_read scan s n =
     (if \<not> fits_i64 n \<and> n < 0 \<and> scan s = Some (0, False) then INT64_MAX else saturate n)"

lemma saturate_not_0: "\<not> fits_i64 n \<Longrightarrow> saturate n \<noteq> 0"
  by (simp add: saturate_def INT64_MIN_def INT64_MAX_def)

lemma json_parse_int64_value:
  assumes "reads_numbers scan stale" "list_all (is_base_digit 10) ds" "ds \<noteq> []" "\<forall>c \<in> set ws. c_isspace c"
  shows "json_parse_int64 scan stale (ws @ decimal_text neg ds)
    = Some (int64_read scan (decimal_text neg ds) (decimal_value neg ds))"
proof -
  let ?n = "decimal_value neg ds"
  obtain c cs where d: "ds = c # cs" "is_base_digit 10 c" using assms(2,3) by (cases ds) auto
  have plain: "\<not> c_isspace c" "c \<noteq> CHR ''-''" using base_digit_plain [OF d(2)] by auto
  have drop: "dropWhile c_isspace (ws @ decimal_text neg ds) = decimal_text neg ds"
    using assms(4) plain by (auto simp: dropWhile_append decimal_text_def d c_isspace_def)
  have neg: "take 1 (decimal_text neg ds) = ''-'' \<longleftrightarrow> neg"
    "(if neg then drop 1 (decimal_text neg ds) else decimal_text neg ds) = ds"
    using plain by (auto simp: decimal_text_def d)
  obtain v e where v: "scan (decimal_text neg ds) = Some (v, e)"
    "fits_i64 ?n \<Longrightarrow> v = of_int ?n \<and> \<not> e"
    "\<not> fits_i64 ?n \<Longrightarrow> e \<or> v = saturate ?n \<or> sscanf_is_broken_test scan stale"
    using assms(1) [unfolded reads_numbers_def, rule_format, OF assms(3,2), of neg] by blast
  let ?check = "sscanf_is_broken_test scan stale \<and> \<not> e"
  let ?neg = "if ?check \<and> v = 0 then False else neg"
  have result: "json_parse_int64 scan stale (ws @ decimal_text neg ds)
      = Some (if (if ?check then recheck_fails ds ?neg v else e) then (if ?neg then INT64_MIN else INT64_MAX) else v)"
    unfolding json_parse_int64_def drop Let_def v(1) neg by simp
  show ?thesis
  proof (cases "fits_i64 ?n")
    case True
    then have "v = of_int ?n" "\<not> e" and s: "sint v = ?n" using v(2) sint_of_int by auto
    moreover have "v = 0 \<longleftrightarrow> ?n = 0" using s \<open>v = of_int ?n\<close> by auto
    then have "\<not> recheck_fails ds ?neg v" if ?check
      unfolding recheck_exact [OF assms(2,3)] s using that by (auto simp: decimal_value_def)
    ultimately show ?thesis unfolding result int64_read_def saturate_def using True by simp
  next
    case False
    have n: "?n < 0 \<longleftrightarrow> neg" using False by (auto simp: decimal_value_def fits_i64_def split: if_splits)
    have "?n = sint v" if "base_value 10 ds = nat \<bar>sint v\<bar>" "neg = (sint v < 0)"
      using that by (cases neg) (simp_all add: decimal_value_def)
    then have "\<not> (base_value 10 ds = nat \<bar>sint v\<bar> \<and> neg = (sint v < 0))"
      using False of_int_sint_fits [of v] by metis
    then have wrong: "recheck_fails ds neg v" unfolding recheck_exact [OF assms(2,3)] by blast
    have "base_value 10 ds \<noteq> 0" using False by (auto simp: decimal_value_def fits_i64_def split: if_splits)
    then have zero: "recheck_fails ds False 0" unfolding recheck_exact [OF assms(2,3)] by simp
    show ?thesis
    proof (cases ?check)
      case True
      then show ?thesis
        unfolding result int64_read_def saturate_def using False n wrong zero v(1) by auto
    next
      case c: False
      then have "e \<or> v = saturate ?n" using v(3) [OF False] by blast
      then show ?thesis
        unfolding result int64_read_def using False c n v(1) saturate_not_0 [OF False]
        by (auto simp: saturate_def)
    qed
  qed
qed

text \<open>
  C38: a decimal number is read as its value, and one out of range as the nearest
  64 bit number, also with a C library that returns anything for numbers out of
  range and does not report them: its mistakes are found by printing the number
  again. The one exception is a library that returns 0 for a negative number out
  of range, as one does that computes modulo \<open>2 ^ 64\<close>: the code takes that for a 0
  whose sign does not count, and reads the largest number instead of the smallest.
\<close>

theorem json_parse_int64_saturates:
  assumes "reads_numbers scan stale" "list_all (is_base_digit 10) ds" "ds \<noteq> []"
    and "\<forall>c \<in> set ws. c_isspace c" "n = decimal_value neg ds"
  shows "json_parse_int64 scan stale (ws @ decimal_text neg ds) =
    Some (if fits_i64 n then of_int n
      else if n < 0 \<and> scan (decimal_text neg ds) \<noteq> Some (0, False) then INT64_MIN else INT64_MAX)"
  using json_parse_int64_value [OF assms(1-4), of neg] assms(5)
  by (auto simp: int64_read_def saturate_def)

text \<open>
  Two libraries: one that reports numbers out of range as the standard says, and one
  that computes modulo \<open>2 ^ 64\<close> and reports nothing.
\<close>

definition scan_number :: "(int \<Rightarrow> 64 word \<times> bool) \<Rightarrow> scanner" where
  "scan_number f s =
     (let s = dropWhile c_isspace s; neg = (take 1 s = ''-'');
          ds = takeWhile (is_base_digit 10) (if neg then drop 1 s else s)
      in if ds = [] then None else Some (f (decimal_value neg ds)))"

definition sscanf_good :: scanner where
  "sscanf_good = scan_number (\<lambda>n. (saturate n, \<not> fits_i64 n))"

definition sscanf_wraps :: scanner where
  "sscanf_wraps = scan_number (\<lambda>n. (of_int n, False))"

lemma scan_number_decimal:
  assumes "list_all (is_base_digit 10) ds" "ds \<noteq> []"
  shows "scan_number f (decimal_text neg ds) = Some (f (decimal_value neg ds))"
proof -
  obtain c cs where d: "ds = c # cs" "is_base_digit 10 c" using assms by (cases ds) auto
  have "\<not> c_isspace c" "c \<noteq> CHR ''-''" using base_digit_plain [OF d(2)] by auto
  moreover have "takeWhile (is_base_digit 10) ds = ds" using assms(1) by (simp add: takeWhile_eq_all_conv list_all_iff)
  ultimately show ?thesis
    using assms(2) by (auto simp: scan_number_def decimal_text_def d(1) c_isspace_def Let_def)
qed

lemma reads_numbers_good: "reads_numbers sscanf_good stale"
  by (auto simp: reads_numbers_def sscanf_good_def scan_number_decimal saturate_def)

lemma sscanf_wraps_broken: "sscanf_is_broken_test sscanf_wraps stale"
proof -
  let ?ds = "''01234567890123456789012345''"
  have space: "scan_number f ('' '' @ t) = scan_number f t" for f t
    by (simp add: scan_number_def c_isspace_def)
  have d: "list_all (is_base_digit 10) ?ds"
    by (simp add: is_base_digit_def digit_of_def Let_def of_char_def)
  have v: "decimal_value True ?ds = - 1234567890123456789012345"
    by (simp add: decimal_value_def base_value_def digit_of_def Let_def of_char_def)
  have "sscanf_wraps ('' '' @ decimal_text True ?ds) = Some (of_int (- 1234567890123456789012345), False)"
    unfolding sscanf_wraps_def space using d v by (subst scan_number_decimal) simp_all
  moreover have "'' '' @ decimal_text True ?ds = '' -01234567890123456789012345''"
    by (simp add: decimal_text_def)
  moreover have "(of_int (- 1234567890123456789012345) :: 64 word) \<noteq> INT64_MIN"
    by (simp add: INT64_MIN_def)
  ultimately show ?thesis
    by (simp only: sscanf_is_broken_test_def Let_def option.case prod.case) simp
qed

lemma reads_numbers_wraps: "reads_numbers sscanf_wraps stale"
  using sscanf_wraps_broken by (auto simp: reads_numbers_def scan_number_decimal sscanf_wraps_def)

text \<open>With the second one \<open>- 2 ^ 64\<close> becomes the largest number.\<close>

theorem json_parse_int64_saturates_witness:
  "json_parse_int64 sscanf_good True ''  -42'' = Some (- 42)
   \<and> json_parse_int64 sscanf_wraps False ''-9300000000000000000'' = Some INT64_MIN
   \<and> json_parse_int64 sscanf_wraps False ''-18446744073709551616'' = Some INT64_MAX"
proof -
  have d: "list_all (is_base_digit 10) ''42''" "list_all (is_base_digit 10) ''9300000000000000000''"
    "list_all (is_base_digit 10) ''18446744073709551616''"
    by (simp_all add: is_base_digit_def digit_of_def Let_def of_char_def)
  have n: "decimal_value True ''42'' = - 42" "decimal_value True ''9300000000000000000'' = - 9300000000000000000"
    "decimal_value True ''18446744073709551616'' = - 18446744073709551616"
    by (simp_all add: decimal_value_def base_value_def digit_of_def Let_def of_char_def)
  have s: "sscanf_wraps (decimal_text True ''18446744073709551616'') = Some (0, False)"
    "sscanf_wraps (decimal_text True ''9300000000000000000'') \<noteq> Some (0, False)"
    using scan_number_decimal [OF d(2), of _ True] scan_number_decimal [OF d(3), of _ True]
    by (simp_all add: sscanf_wraps_def n)
  have "json_parse_int64 sscanf_good True (''  '' @ decimal_text True ''42'') = Some (- 42)"
    by (subst json_parse_int64_saturates [OF reads_numbers_good d(1) _ _ refl])
      (simp_all add: n(1) c_isspace_def fits_i64_def)
  moreover have "json_parse_int64 sscanf_wraps False ([] @ decimal_text True ''9300000000000000000'')
      = Some INT64_MIN"
    by (subst json_parse_int64_saturates [OF reads_numbers_wraps d(2) _ _ refl])
      (use s(2) in \<open>simp_all add: n(2) fits_i64_def\<close>)
  moreover have "json_parse_int64 sscanf_wraps False ([] @ decimal_text True ''18446744073709551616'')
      = Some INT64_MAX"
    by (subst json_parse_int64_saturates [OF reads_numbers_wraps d(3) _ _ refl])
      (use s(1) in \<open>simp_all add: n(3) fits_i64_def\<close>)
  ultimately show ?thesis by (simp only: decimal_text_def if_True append_Cons append_Nil simp_thms)
qed

end
