(* ===== verification/Json_Tokener.thy ===== *)
theory Json_Tokener
  imports Json_Util
begin

text \<open>
  The parser of json-c (json-c/json_tokener.c): a machine that reads a text character
  by character, with a stack of states, so that a text can be given in pieces.

  The memory from \<open>str\<close> on is the list of its characters; an access behind it has no
  result (\<open>None\<close>). The text buffer of the tokener is the string it holds (theory
  \<open>Print_Buf\<close>), memory is never short. What the C library makes of a text as a number
  is the record \<open>lib\<close>. The loop over the characters is a partial function: \<open>None\<close> is also
  a loop that does not end.
\<close>

datatype tok_state = S_eatws | S_start | S_finish | S_null | S_comment_start | S_comment
  | S_comment_eol | S_comment_end | S_string | S_string_escape | S_escape_unicode | S_boolean
  | S_number | S_array | S_array_add | S_array_sep | S_object_field_start | S_object_field
  | S_object_field_end | S_object_value | S_object_value_add | S_object_sep | S_array_after_sep
  | S_object_field_start_after_sep | S_inf

datatype tok_error = E_success | E_continue | E_depth | E_parse_eof | E_parse_unexpected
  | E_parse_null | E_parse_boolean | E_parse_number | E_parse_array | E_parse_object_key_name
  | E_parse_object_key_sep | E_parse_object_value_sep | E_parse_string | E_parse_comment | E_size

record 'd srec =
  sr_state :: tok_state
  sr_saved :: tok_state
  sr_current :: "'d json"
  sr_field :: "string option"

record 'd tokener =
  tk_pb :: string
  tk_max_depth :: nat
  tk_depth :: nat
  tk_is_double :: bool
  tk_st_pos :: nat
  tk_char_offset :: nat
  tk_err :: tok_error
  tk_ucs_char :: u32
  tk_quote_char :: char
  tk_stack :: "'d srec list"
  tk_flags :: u32

record 'd lib =
  lib_scan :: scanner
  lib_errno :: bool
  lib_double :: "string \<Rightarrow> 'd option"
  lib_nan :: 'd
  lib_infinity :: 'd
  lib_neg_infinity :: 'd

definition JSON_TOKENER_STRICT :: u32 where "JSON_TOKENER_STRICT = 1"
definition JSON_TOKENER_DEFAULT_DEPTH :: nat where "JSON_TOKENER_DEFAULT_DEPTH = 32"

abbreviation strict :: "'d tokener \<Rightarrow> bool" where
  "strict tok \<equiv> tk_flags tok AND JSON_TOKENER_STRICT \<noteq> 0"

definition json_number_chars :: string where "json_number_chars = ''0123456789.+-eE''"

definition c_str :: "string \<Rightarrow> string" where
  "c_str s = takeWhile (\<lambda>c. c \<noteq> CHR 0x00) s"

section \<open>The stack\<close>

definition level :: "'d tokener \<Rightarrow> 'd srec" where
  "level tok = tk_stack tok ! tk_depth tok"

definition set_level :: "'d srec \<Rightarrow> 'd tokener \<Rightarrow> 'd tokener" where
  "set_level r tok = tok\<lparr>tk_stack := (tk_stack tok)[tk_depth tok := r]\<rparr>"

definition set_state :: "tok_state \<Rightarrow> 'd tokener \<Rightarrow> 'd tokener" where
  "set_state s tok = set_level ((level tok)\<lparr>sr_state := s\<rparr>) tok"

definition set_saved :: "tok_state \<Rightarrow> 'd tokener \<Rightarrow> 'd tokener" where
  "set_saved s tok = set_level ((level tok)\<lparr>sr_saved := s\<rparr>) tok"

definition set_current :: "'d json \<Rightarrow> 'd tokener \<Rightarrow> 'd tokener" where
  "set_current v tok = set_level ((level tok)\<lparr>sr_current := v\<rparr>) tok"

definition set_field :: "string option \<Rightarrow> 'd tokener \<Rightarrow> 'd tokener" where
  "set_field k tok = set_level ((level tok)\<lparr>sr_field := k\<rparr>) tok"

text \<open>Going on with \<open>s\<close> behind white space.\<close>

definition then_state :: "tok_state \<Rightarrow> 'd tokener \<Rightarrow> 'd tokener" where
  "then_state s tok = set_state S_eatws (set_saved s tok)"

definition add_text :: "string \<Rightarrow> 'd tokener \<Rightarrow> 'd tokener" where
  "add_text s tok = tok\<lparr>tk_pb := tk_pb tok @ s\<rparr>"

definition reset_level :: "'d srec" where
  "reset_level = \<lparr>sr_state = S_eatws, sr_saved = S_start, sr_current = JNull, sr_field = None\<rparr>"

definition json_tokener_reset_level :: "nat \<Rightarrow> 'd tokener \<Rightarrow> 'd tokener option" where
  "json_tokener_reset_level depth tok =
     (if length (tk_stack tok) \<le> depth then None
      else Some (tok\<lparr>tk_stack := (tk_stack tok)[depth := reset_level]\<rparr>))"

text \<open>The levels from \<open>depth\<close> down to 0.\<close>

fun reset_levels :: "nat \<Rightarrow> 'd tokener \<Rightarrow> 'd tokener option" where
  "reset_levels 0 tok = json_tokener_reset_level 0 tok"
| "reset_levels (Suc depth) tok = do {
     tok \<leftarrow> json_tokener_reset_level (Suc depth) tok; reset_levels depth tok }"

definition json_tokener_reset :: "'d tokener \<Rightarrow> 'd tokener option" where
  "json_tokener_reset tok = do {
     tok \<leftarrow> reset_levels (tk_depth tok) tok;
     Some (tok\<lparr>tk_depth := 0, tk_err := E_success\<rparr>) }"

text \<open>All bytes of a new stack are 0.\<close>

definition json_tokener_new_ex :: "nat \<Rightarrow> 'd tokener option" where
  "json_tokener_new_ex depth = json_tokener_reset
     \<lparr>tk_pb = [], tk_max_depth = depth, tk_depth = 0, tk_is_double = False, tk_st_pos = 0,
      tk_char_offset = 0, tk_err = E_success, tk_ucs_char = 0, tk_quote_char = CHR 0x00,
      tk_stack = replicate depth
        \<lparr>sr_state = S_eatws, sr_saved = S_eatws, sr_current = JNull, sr_field = None\<rparr>,
      tk_flags = 0\<rparr>"

definition json_tokener_new :: "unit \<Rightarrow> 'd tokener option" where
  "json_tokener_new _ = json_tokener_new_ex JSON_TOKENER_DEFAULT_DEPTH"

definition json_tokener_set_flags :: "u32 \<Rightarrow> 'd tokener \<Rightarrow> 'd tokener" where
  "json_tokener_set_flags flags tok = tok\<lparr>tk_flags := flags\<rparr>"

definition json_tokener_get_error :: "'d tokener \<Rightarrow> tok_error" where
  "json_tokener_get_error tok = tk_err tok"

section \<open>Characters\<close>

text \<open>What a step works on: the tokener, \<open>obj\<close>, the character \<open>c\<close> and the memory from \<open>str\<close> on.\<close>

type_synonym 'd lx = "'d tokener \<times> 'd json \<times> char \<times> string"

text \<open>The three ways to leave the \<open>switch\<close>: \<open>goto redo_char\<close>, \<open>break\<close> and \<open>goto out\<close>.\<close>

datatype jump = Redo | Break | Out

definition PEEK_CHAR :: "int \<Rightarrow> 'd tokener \<Rightarrow> char \<Rightarrow> string \<Rightarrow> (bool \<times> 'd tokener \<times> char) option" where
  "PEEK_CHAR len tok c str =
     (if int (tk_char_offset tok) = len then
        Some (False, tok\<lparr>tk_err := (if tk_depth tok = 0 \<and> sr_state (level tok) = S_eatws
            \<and> sr_saved (level tok) = S_finish then E_success else E_continue)\<rparr>, c)
      else (case str of [] \<Rightarrow> None | d # _ \<Rightarrow> Some (True, tok, d)))"

text \<open>\<open>ADVANCE_CHAR\<close>, and \<open>PEEK_CHAR\<close> unless the character was a NUL.\<close>

definition next_char ::
  "int \<Rightarrow> 'd tokener \<Rightarrow> char \<Rightarrow> string \<Rightarrow> (bool \<times> 'd tokener \<times> char \<times> string) option" where
  "next_char len tok c str =
     (let tok = tok\<lparr>tk_char_offset := tk_char_offset tok + 1\<rparr>; str = drop 1 str in
      if c = CHR 0x00 then Some (False, tok, c, str)
      else do { (ok, tok, c) \<leftarrow> PEEK_CHAR len tok c str; Some (ok, tok, c, str) })"

text \<open>
  The loops that advance over the characters with \<open>P\<close>, with the text from
  \<open>case_start\<close> to \<open>str\<close>; \<open>False\<close> when there are no more characters.
\<close>

fun gather ::
  "(char \<Rightarrow> bool) \<Rightarrow> int \<Rightarrow> string \<Rightarrow> 'd tokener \<Rightarrow> char \<Rightarrow> string
     \<Rightarrow> (bool \<times> string \<times> 'd tokener \<times> char \<times> string) option" where
  "gather P len run tok c [] = None"
| "gather P len run tok c (d # str) =
     (if \<not> P c then Some (True, run, tok, c, d # str)
      else (case next_char len tok c (d # str) of
          None \<Rightarrow> None
        | Some (False, tok, c', str') \<Rightarrow> Some (False, run @ [c], tok, c', str')
        | Some (True, tok, c', str') \<Rightarrow> gather P len (run @ [c]) tok c' str))"

section \<open>The states\<close>

definition eatws_step :: "int \<Rightarrow> 'd lx \<Rightarrow> (jump \<times> 'd lx) option" where
  "eatws_step len x = (case x of (tok, obj, c, str) \<Rightarrow> do {
     (ok, run, tok, c, str) \<leftarrow> gather c_isspace len [] tok c str;
     if \<not> ok then Some (Out, tok, obj, c, str)
     else if c = CHR ''/'' \<and> \<not> strict tok then
       Some (Break, set_state S_comment_start (tok\<lparr>tk_pb := [c]\<rparr>), obj, c, str)
     else Some (Redo, set_state (sr_saved (level tok)) tok, obj, c, str) })"

definition start_step :: "'d lx \<Rightarrow> (jump \<times> 'd lx) option" where
  "start_step x = (case x of (tok, obj, c, str) \<Rightarrow>
     let literal = (\<lambda>s. Some (Redo, (set_state s tok)\<lparr>tk_pb := [], tk_st_pos := 0\<rparr>, obj, c, str)) in
     if c = CHR ''{'' then
       Some (Break, set_current (JObject []) (then_state S_object_field_start tok), obj, c, str)
     else if c = CHR ''['' then
       Some (Break, set_current (JArray []) (then_state S_array tok), obj, c, str)
     else if c \<in> {CHR ''I'', CHR ''i''} then literal S_inf
     else if c \<in> {CHR ''N'', CHR ''n''} then literal S_null
     else if c = CHR 0x27 \<and> strict tok then Some (Out, tok\<lparr>tk_err := E_parse_unexpected\<rparr>, obj, c, str)
     else if c \<in> {CHR 0x27, CHR 0x22} then
       Some (Break, (set_state S_string tok)\<lparr>tk_pb := [], tk_quote_char := c\<rparr>, obj, c, str)
     else if c \<in> {CHR ''T'', CHR ''t'', CHR ''F'', CHR ''f''} then literal S_boolean
     else if c_isdigit c \<or> c = CHR ''-'' then
       Some (Redo, (set_state S_number tok)\<lparr>tk_pb := [], tk_is_double := False\<rparr>, obj, c, str)
     else Some (Out, tok\<lparr>tk_err := E_parse_unexpected\<rparr>, obj, c, str))"

definition finish_step :: "'d lx \<Rightarrow> (jump \<times> 'd lx) option" where
  "finish_step x = (case x of (tok, obj, c, str) \<Rightarrow>
     if tk_depth tok = 0 then Some (Out, tok, obj, c, str)
     else do {
       let obj = sr_current (level tok);
       tok \<leftarrow> json_tokener_reset_level (tk_depth tok) tok;
       Some (Redo, tok\<lparr>tk_depth := tk_depth tok - 1\<rparr>, obj, c, str) })"

definition c_tolower :: "char \<Rightarrow> char" where
  "c_tolower c = (if 65 \<le> (of_char c :: nat) \<and> (of_char c :: nat) \<le> 90 then char_of ((of_char c :: nat) + 32) else c)"

text \<open>\<open>strncmp\<close>, and \<open>strncasecmp\<close> unless strict, of a literal and a buffer.\<close>

definition literal_matches :: "bool \<Rightarrow> string \<Rightarrow> string \<Rightarrow> nat \<Rightarrow> bool" where
  "literal_matches str lit buf n \<longleftrightarrow>
     \<not> str \<and> map c_tolower (take n lit) = map c_tolower (take n (c_str buf))
     \<or> take n lit = take n (c_str buf)"

definition json_min :: "nat \<Rightarrow> nat \<Rightarrow> nat" where
  "json_min a b = (if a < b then a else b)"

text \<open>A whole literal is noticed at the character behind it.\<close>

definition finish_literal :: "'d json \<Rightarrow> 'd lx \<Rightarrow> (jump \<times> 'd lx) option" where
  "finish_literal v x = (case x of (tok, obj, c, str) \<Rightarrow>
     Some (Redo, then_state S_finish (set_current v tok), obj, c, str))"

definition next_literal :: "'d lx \<Rightarrow> (jump \<times> 'd lx) option" where
  "next_literal x = (case x of (tok, obj, c, str) \<Rightarrow>
     Some (Break, tok\<lparr>tk_st_pos := tk_st_pos tok + 1\<rparr>, obj, c, str))"

definition parse_error :: "tok_error \<Rightarrow> 'd lx \<Rightarrow> (jump \<times> 'd lx) option" where
  "parse_error e x = (case x of (tok, obj, c, str) \<Rightarrow> Some (Out, tok\<lparr>tk_err := e\<rparr>, obj, c, str))"

definition inf_step :: "'d lib \<Rightarrow> 'd lx \<Rightarrow> (jump \<times> 'd lx) option" where
  "inf_step L x = (case x of (tok, obj, c, str) \<Rightarrow>
     let tok = add_text [c] tok;
         size_inf = json_min (tk_st_pos tok + 1) 8;
         is_negative = (take 1 (c_str (tk_pb tok)) = ''-'');
         infbuf = (if is_negative then drop 1 (tk_pb tok) else tk_pb tok)
     in if literal_matches (strict tok) ''Infinity'' infbuf size_inf then
          (if tk_st_pos tok = 8
           then finish_literal (JDouble (if is_negative then lib_neg_infinity L else lib_infinity L) None) (tok, obj, c, str)
           else next_literal (tok, obj, c, str))
        else parse_error E_parse_unexpected (tok, obj, c, str))"

definition null_step :: "'d lib \<Rightarrow> 'd lx \<Rightarrow> (jump \<times> 'd lx) option" where
  "null_step L x = (case x of (tok, obj, c, str) \<Rightarrow>
     let tok = add_text [c] tok;
         sz = json_min (tk_st_pos tok + 1) 4;
         size_nan = json_min (tk_st_pos tok + 1) 3
     in if literal_matches (strict tok) ''null'' (tk_pb tok) sz then
          (if tk_st_pos tok = 4 then finish_literal JNull (tok, obj, c, str) else next_literal (tok, obj, c, str))
        else if literal_matches (strict tok) ''NaN'' (tk_pb tok) size_nan then
          (if tk_st_pos tok = 3 then finish_literal (JDouble (lib_nan L) None) (tok, obj, c, str)
           else next_literal (tok, obj, c, str))
        else parse_error E_parse_null (tok, obj, c, str))"

definition boolean_step :: "'d lx \<Rightarrow> (jump \<times> 'd lx) option" where
  "boolean_step x = (case x of (tok, obj, c, str) \<Rightarrow>
     let tok = add_text [c] tok;
         size1 = json_min (tk_st_pos tok + 1) 4;
         size2 = json_min (tk_st_pos tok + 1) 5
     in if literal_matches (strict tok) ''true'' (tk_pb tok) size1 then
          (if tk_st_pos tok = 4 then finish_literal (JBoolean True) (tok, obj, c, str) else next_literal (tok, obj, c, str))
        else if literal_matches (strict tok) ''false'' (tk_pb tok) size2 then
          (if tk_st_pos tok = 5 then finish_literal (JBoolean False) (tok, obj, c, str) else next_literal (tok, obj, c, str))
        else parse_error E_parse_boolean (tok, obj, c, str))"

definition comment_start_step :: "'d lx \<Rightarrow> (jump \<times> 'd lx) option" where
  "comment_start_step x = (case x of (tok, obj, c, str) \<Rightarrow>
     if c = CHR ''*'' then Some (Break, add_text [c] (set_state S_comment tok), obj, c, str)
     else if c = CHR ''/'' then Some (Break, add_text [c] (set_state S_comment_eol tok), obj, c, str)
     else parse_error E_parse_comment x)"

definition comment_step :: "int \<Rightarrow> 'd lx \<Rightarrow> (jump \<times> 'd lx) option" where
  "comment_step len x = (case x of (tok, obj, c, str) \<Rightarrow> do {
     (ok, run, tok, c, str) \<leftarrow> gather (\<lambda>c. c \<noteq> CHR ''*'') len [] tok c str;
     if \<not> ok then Some (Out, add_text run tok, obj, c, str)
     else Some (Break, set_state S_comment_end (add_text (run @ [c]) tok), obj, c, str) })"

definition comment_eol_step :: "int \<Rightarrow> 'd lx \<Rightarrow> (jump \<times> 'd lx) option" where
  "comment_eol_step len x = (case x of (tok, obj, c, str) \<Rightarrow> do {
     (ok, run, tok, c, str) \<leftarrow> gather (\<lambda>c. c \<noteq> CHR 0x0A) len [] tok c str;
     if \<not> ok then Some (Out, add_text run tok, obj, c, str)
     else Some (Break, set_state S_eatws (add_text run tok), obj, c, str) })"

definition comment_end_step :: "'d lx \<Rightarrow> (jump \<times> 'd lx) option" where
  "comment_end_step x = (case x of (tok, obj, c, str) \<Rightarrow>
     Some (Break, set_state (if c = CHR ''/'' then S_eatws else S_comment) (add_text [c] tok), obj, c, str))"

section \<open>Strings\<close>

definition string_step :: "int \<Rightarrow> 'd lx \<Rightarrow> (jump \<times> 'd lx) option" where
  "string_step len x = (case x of (tok, obj, c, str) \<Rightarrow> do {
     (ok, run, tok, c, str) \<leftarrow> gather (\<lambda>c. c \<noteq> tk_quote_char tok \<and> c \<noteq> CHR 0x5C) len [] tok c str;
     let tok = add_text run tok;
     if \<not> ok then Some (Out, tok, obj, c, str)
     else if c = tk_quote_char tok then
       Some (Break, then_state S_finish (set_current (JString (tk_pb tok)) tok), obj, c, str)
     else Some (Break, set_state S_string_escape (set_saved S_string tok), obj, c, str) })"

text \<open>A field name is copied as a C string.\<close>

definition object_field_step :: "int \<Rightarrow> 'd lx \<Rightarrow> (jump \<times> 'd lx) option" where
  "object_field_step len x = (case x of (tok, obj, c, str) \<Rightarrow> do {
     (ok, run, tok, c, str) \<leftarrow> gather (\<lambda>c. c \<noteq> tk_quote_char tok \<and> c \<noteq> CHR 0x5C) len [] tok c str;
     let tok = add_text run tok;
     if \<not> ok then Some (Out, tok, obj, c, str)
     else if c = tk_quote_char tok then
       Some (Break, then_state S_object_field_end (set_field (Some (c_str (tk_pb tok))) tok), obj, c, str)
     else Some (Break, set_state S_string_escape (set_saved S_object_field tok), obj, c, str) })"

definition string_escape_step :: "'d lx \<Rightarrow> (jump \<times> 'd lx) option" where
  "string_escape_step x = (case x of (tok, obj, c, str) \<Rightarrow>
     let back = (\<lambda>t. Some (Break, set_state (sr_saved (level tok)) (add_text [t] tok), obj, c, str)) in
     if c \<in> {CHR 0x22, CHR 0x5C, CHR ''/''} then back c
     else if c = CHR ''b'' then back (CHR 0x08)
     else if c = CHR ''n'' then back (CHR 0x0A)
     else if c = CHR ''r'' then back (CHR 0x0D)
     else if c = CHR ''t'' then back (CHR 0x09)
     else if c = CHR ''f'' then back (CHR 0x0C)
     else if c = CHR ''u'' then
       Some (Break, set_state S_escape_unicode (tok\<lparr>tk_ucs_char := 0, tk_st_pos := 0\<rparr>), obj, c, str)
     else parse_error E_parse_string x)"

definition jt_hexdigit :: "char \<Rightarrow> u32" where
  "jt_hexdigit c = (if (of_char c :: nat) \<le> 57 then of_char c - 48 else (of_char c AND 7) + 9)"

text \<open>\<open>strchr\<close> finds the NUL at the end of the characters too.\<close>

definition is_hex_char :: "char \<Rightarrow> bool" where
  "is_hex_char c \<longleftrightarrow> c \<in> set json_hex_chars \<or> c = CHR 0x00"

definition IS_HIGH_SURROGATE :: "u32 \<Rightarrow> bool" where
  "IS_HIGH_SURROGATE uc \<longleftrightarrow> uc AND 0xFC00 = 0xD800"

definition IS_LOW_SURROGATE :: "u32 \<Rightarrow> bool" where
  "IS_LOW_SURROGATE uc \<longleftrightarrow> uc AND 0xFC00 = 0xDC00"

definition DECODE_SURROGATE_PAIR :: "u32 \<Rightarrow> u32 \<Rightarrow> u32" where
  "DECODE_SURROGATE_PAIR hi lo = push_bit 10 (hi AND 0x3FF) + (lo AND 0x3FF) + 0x10000"

definition uc_char :: "u32 \<Rightarrow> char" where
  "uc_char x = char_of (unat x)"

definition utf8_replacement_char :: string where
  "utf8_replacement_char = [CHR 0xEF, CHR 0xBF, CHR 0xBD]"

text \<open>The bytes of a character that is no high surrogate.\<close>

definition unescaped_utf :: "u32 \<Rightarrow> string" where
  "unescaped_utf u =
     (if u < 0x80 then [uc_char u]
      else if u < 0x800 then [uc_char (0xc0 OR drop_bit 6 u), uc_char (0x80 OR (u AND 0x3f))]
      else if IS_LOW_SURROGATE u then utf8_replacement_char
      else if u < 0x10000 then
        [uc_char (0xe0 OR drop_bit 12 u), uc_char (0x80 OR (drop_bit 6 u AND 0x3f)), uc_char (0x80 OR (u AND 0x3f))]
      else if u < 0x110000 then
        [uc_char (0xf0 OR (drop_bit 18 u AND 0x07)), uc_char (0x80 OR (drop_bit 12 u AND 0x3f)),
         uc_char (0x80 OR (drop_bit 6 u AND 0x3f)), uc_char (0x80 OR (u AND 0x3f))]
      else utf8_replacement_char)"

text \<open>\<open>tk_ucs_char\<close> after the fourth digit, with the high surrogate that came before, if any.\<close>

definition join_surrogates :: "u32 \<Rightarrow> 'd tokener \<Rightarrow> 'd tokener" where
  "join_surrogates hi tok =
     (if hi = 0 then tok
      else if IS_LOW_SURROGATE (tk_ucs_char tok)
      then tok\<lparr>tk_ucs_char := DECODE_SURROGATE_PAIR hi (tk_ucs_char tok)\<rparr>
      else add_text utf8_replacement_char tok)"

text \<open>
  The loop over the digits; \<open>hi\<close> is the high surrogate of the sequence before. After a
  high surrogate the next two characters are looked at, in this order, unless the
  text ends before them.
\<close>

function unicode_loop :: "int \<Rightarrow> u32 \<Rightarrow> 'd lx \<Rightarrow> (jump \<times> 'd lx) option" where
  "unicode_loop len hi (tok, obj, c, str) =
     (if str = [] then None
      else if \<not> is_hex_char c then Some (Out, tok\<lparr>tk_err := E_parse_string\<rparr>, obj, c, str)
      else
        let tok = tok\<lparr>tk_ucs_char := tk_ucs_char tok + push_bit ((3 - tk_st_pos tok) * 4) (jt_hexdigit c),
                      tk_st_pos := tk_st_pos tok + 1\<rparr> in
        if tk_st_pos tok = 4 then
          let tok = join_surrogates hi tok; u = tk_ucs_char tok;
              done = (\<lambda>s. Some (Break, set_state (sr_saved (level tok)) (add_text s tok), obj, c, str));
              at = int (tk_char_offset tok) in
          if \<not> (0x800 \<le> u \<and> IS_HIGH_SURROGATE u) then done (unescaped_utf u)
          else if at + 1 = len \<or> at + 2 = len then done utf8_replacement_char
          else if length str \<le> 1 then None
          else if str ! 1 \<noteq> CHR 0x5C then done utf8_replacement_char
          else if length str \<le> 2 then None
          else if str ! 2 \<noteq> CHR ''u'' then done utf8_replacement_char
          else
            let k = (if c = CHR 0x00 then 1 else 2);
                tok = (if c = CHR 0x00 then add_text utf8_replacement_char tok else tok);
                tok = tok\<lparr>tk_char_offset := tk_char_offset tok + k\<rparr> in
            (case next_char len tok c (drop k str) of
               None \<Rightarrow> None
             | Some (False, tok, c, str') \<Rightarrow> Some (Out, add_text utf8_replacement_char tok, obj, c, str')
             | Some (True, tok, c, str') \<Rightarrow>
                 unicode_loop len u (tok\<lparr>tk_ucs_char := 0, tk_st_pos := 0\<rparr>, obj, c, drop (k + 1) str))
        else
          (case next_char len tok c str of
             None \<Rightarrow> None
           | Some (False, tok, c, str') \<Rightarrow>
               Some (Out, if hi = 0 then tok else add_text utf8_replacement_char tok, obj, c, str')
           | Some (True, tok, c, str') \<Rightarrow> unicode_loop len hi (tok, obj, c, drop 1 str)))"
  by pat_completeness auto
termination
  by (relation "measure (\<lambda>(len, hi, tok, obj, c, str). length str)") (auto simp: neq_Nil_conv)

declare unicode_loop.simps [simp del]

definition escape_unicode_step :: "int \<Rightarrow> 'd lx \<Rightarrow> (jump \<times> 'd lx) option" where
  "escape_unicode_step len x = unicode_loop len 0 x"

section \<open>Numbers\<close>

definition number_step :: "'d lib \<Rightarrow> int \<Rightarrow> 'd lx \<Rightarrow> (jump \<times> 'd lx) option" where
  "number_step L len x = (case x of (tok, obj, c, str) \<Rightarrow> do {
     (ok, run, tok, c, str) \<leftarrow> gather (\<lambda>c. c \<noteq> CHR 0x00 \<and> c \<in> set json_number_chars) len [] tok c str;
     let tok = (add_text run tok)\<lparr>tk_is_double :=
       (tk_is_double tok \<or> (\<exists>d \<in> set run. d \<in> {CHR ''.'', CHR ''e'', CHR ''E''}))\<rparr>;
     let buf = c_str (tk_pb tok);
     if \<not> ok then Some (Out, tok, obj, c, str)
     else if take 1 buf = ''-'' \<and> length run = 1 \<and> c \<in> {CHR ''i'', CHR ''I''} then
       Some (Redo, set_state S_inf tok, obj, c, str)
     else (case (if tk_is_double tok then None else json_parse_int64 (lib_scan L) (lib_errno L) buf) of
         Some num64 \<Rightarrow>
           if num64 \<noteq> 0 \<and> take 1 buf = ''0'' \<and> strict tok then parse_error E_parse_number (tok, obj, c, str)
           else Some (Redo, then_state S_finish (set_current (JInt num64) tok), obj, c, str)
       | None \<Rightarrow>
           (case (if tk_is_double tok then lib_double L buf else None) of
              Some numd \<Rightarrow>
                Some (Redo, then_state S_finish (set_current (JDouble numd (Some buf)) tok), obj, c, str)
            | None \<Rightarrow> parse_error E_parse_number (tok, obj, c, str))) })"

section \<open>Arrays and objects\<close>

text \<open>A value begins on a level of its own.\<close>

definition push_level :: "tok_state \<Rightarrow> 'd lx \<Rightarrow> (jump \<times> 'd lx) option" where
  "push_level s x = (case x of (tok, obj, c, str) \<Rightarrow>
     if tk_max_depth tok \<le> tk_depth tok + 1 then parse_error E_depth x
     else do {
       let tok = set_state s tok;
       let tok = tok\<lparr>tk_depth := tk_depth tok + 1\<rparr>;
       tok \<leftarrow> json_tokener_reset_level (tk_depth tok) tok;
       Some (Redo, tok, obj, c, str) })"

definition array_step :: "'d lx \<Rightarrow> (jump \<times> 'd lx) option" where
  "array_step x = (case x of (tok, obj, c, str) \<Rightarrow>
     if c = CHR '']'' then
       (if sr_state (level tok) = S_array_after_sep \<and> strict tok then parse_error E_parse_unexpected x
        else Some (Break, then_state S_finish tok, obj, c, str))
     else push_level S_array_add x)"

definition array_add_step :: "'d lx \<Rightarrow> (jump \<times> 'd lx) option" where
  "array_add_step x = (case x of (tok, obj, c, str) \<Rightarrow>
     (case sr_current (level tok) of
        JArray vs \<Rightarrow> Some (Redo, then_state S_array_sep (set_current (JArray (vs @ [obj])) tok), obj, c, str)
      | _ \<Rightarrow> None))"

definition array_sep_step :: "'d lx \<Rightarrow> (jump \<times> 'd lx) option" where
  "array_sep_step x = (case x of (tok, obj, c, str) \<Rightarrow>
     if c = CHR '']'' then Some (Break, then_state S_finish tok, obj, c, str)
     else if c = CHR '','' then Some (Break, then_state S_array_after_sep tok, obj, c, str)
     else parse_error E_parse_array x)"

definition field_start_step :: "'d lx \<Rightarrow> (jump \<times> 'd lx) option" where
  "field_start_step x = (case x of (tok, obj, c, str) \<Rightarrow>
     if c = CHR ''}'' then
       (if sr_state (level tok) = S_object_field_start_after_sep \<and> strict tok
        then parse_error E_parse_unexpected x
        else Some (Break, then_state S_finish tok, obj, c, str))
     else if c \<in> {CHR 0x22, CHR 0x27} then
       Some (Break, set_state S_object_field (tok\<lparr>tk_quote_char := c, tk_pb := []\<rparr>), obj, c, str)
     else parse_error E_parse_object_key_name x)"

definition field_end_step :: "'d lx \<Rightarrow> (jump \<times> 'd lx) option" where
  "field_end_step x = (case x of (tok, obj, c, str) \<Rightarrow>
     if c = CHR '':'' then Some (Break, then_state S_object_value tok, obj, c, str)
     else parse_error E_parse_object_key_sep x)"

definition object_value_step :: "'d lx \<Rightarrow> (jump \<times> 'd lx) option" where
  "object_value_step x = push_level S_object_value_add x"

text \<open>\<open>json_object_object_add\<close>: the value of a key that is there is replaced in its place.\<close>

fun json_object_object_add :: "(string \<times> 'd json) list \<Rightarrow> string \<Rightarrow> 'd json \<Rightarrow> (string \<times> 'd json) list" where
  "json_object_object_add [] k v = [(k, v)]"
| "json_object_object_add ((k', v') # kvs) k v =
     (if k' = k then (k', v) # kvs else (k', v') # json_object_object_add kvs k v)"

definition object_value_add_step :: "'d lx \<Rightarrow> (jump \<times> 'd lx) option" where
  "object_value_add_step x = (case x of (tok, obj, c, str) \<Rightarrow>
     (case (sr_current (level tok), sr_field (level tok)) of
        (JObject kvs, Some k) \<Rightarrow>
          Some (Redo, then_state S_object_sep (set_field None
            (set_current (JObject (json_object_object_add kvs k obj)) tok)), obj, c, str)
      | _ \<Rightarrow> None))"

definition object_sep_step :: "'d lx \<Rightarrow> (jump \<times> 'd lx) option" where
  "object_sep_step x = (case x of (tok, obj, c, str) \<Rightarrow>
     if c = CHR ''}'' then Some (Break, then_state S_finish tok, obj, c, str)
     else if c = CHR '','' then Some (Break, then_state S_object_field_start_after_sep tok, obj, c, str)
     else parse_error E_parse_object_value_sep x)"

section \<open>The loop\<close>

definition tok_step :: "'d lib \<Rightarrow> int \<Rightarrow> 'd lx \<Rightarrow> (jump \<times> 'd lx) option" where
  "tok_step L len x =
     (case sr_state (level (fst x)) of
        S_eatws \<Rightarrow> eatws_step len x
      | S_start \<Rightarrow> start_step x
      | S_finish \<Rightarrow> finish_step x
      | S_inf \<Rightarrow> inf_step L x
      | S_null \<Rightarrow> null_step L x
      | S_comment_start \<Rightarrow> comment_start_step x
      | S_comment \<Rightarrow> comment_step len x
      | S_comment_eol \<Rightarrow> comment_eol_step len x
      | S_comment_end \<Rightarrow> comment_end_step x
      | S_string \<Rightarrow> string_step len x
      | S_string_escape \<Rightarrow> string_escape_step x
      | S_escape_unicode \<Rightarrow> escape_unicode_step len x
      | S_boolean \<Rightarrow> boolean_step x
      | S_number \<Rightarrow> number_step L len x
      | S_array_after_sep \<Rightarrow> array_step x
      | S_array \<Rightarrow> array_step x
      | S_array_add \<Rightarrow> array_add_step x
      | S_array_sep \<Rightarrow> array_sep_step x
      | S_object_field_start \<Rightarrow> field_start_step x
      | S_object_field_start_after_sep \<Rightarrow> field_start_step x
      | S_object_field \<Rightarrow> object_field_step len x
      | S_object_field_end \<Rightarrow> field_end_step x
      | S_object_value \<Rightarrow> object_value_step x
      | S_object_value_add \<Rightarrow> object_value_add_step x
      | S_object_sep \<Rightarrow> object_sep_step x)"

text \<open>The stack holds the level the macros name.\<close>

definition level_ok :: "'d lx \<Rightarrow> bool" where
  "level_ok x \<longleftrightarrow> tk_depth (fst x) < length (tk_stack (fst x))"

partial_function (option) tok_loop :: "'d lib \<Rightarrow> int \<Rightarrow> 'd lx \<Rightarrow> 'd lx option" where
  "tok_loop L len x =
     (if level_ok x then
        (case tok_step L len x of
           None \<Rightarrow> None
         | Some (j, tok, obj, c, str) \<Rightarrow>
             (case j of
                Redo \<Rightarrow> tok_loop L len (tok, obj, c, str)
              | Out \<Rightarrow> Some (tok, obj, c, str)
              | Break \<Rightarrow>
                  (case next_char len tok c str of
                     None \<Rightarrow> None
                   | Some (ok, tok, c, str) \<Rightarrow>
                       if ok then tok_loop L len (tok, obj, c, str) else Some (tok, obj, c, str))))
      else None)"

declare tok_loop.simps [code]

text \<open>The length the code takes: \<open>strlen\<close> is \<open>None\<close> for a memory without a NUL.\<close>

definition str_strlen :: "string \<Rightarrow> nat option" where
  "str_strlen s = (if CHR 0x00 \<in> set s then Some (length (c_str s)) else None)"

definition json_tokener_parse_ex ::
  "'d lib \<Rightarrow> 'd tokener \<Rightarrow> string \<Rightarrow> int \<Rightarrow> ('d json \<times> 'd tokener) option" where
  "json_tokener_parse_ex L tok str len = do {
     let tok = tok\<lparr>tk_char_offset := 0, tk_err := E_success\<rparr>;
     big \<leftarrow> (if len < - 1 then Some True
            else if len = - 1 then map_option (\<lambda>n. 2 ^ 31 - 1 < int n) (str_strlen str) else Some False);
     (if big then Some (JNull, tok\<lparr>tk_err := E_size\<rparr>)
      else do {
        (ok, tok, c) \<leftarrow> PEEK_CHAR len tok (CHR 0x01) str;
        (tok, obj, c, str) \<leftarrow> (if ok then tok_loop L len (tok, JNull, c, str) else Some (tok, JNull, c, str));
        let l = level tok;
        let tok = (if c \<noteq> CHR 0x00 \<and> sr_state l = S_finish \<and> tk_depth tok = 0 \<and> strict tok
          then tok\<lparr>tk_err := E_parse_unexpected\<rparr> else tok);
        let tok = (if c = CHR 0x00 \<and> sr_state l \<noteq> S_finish \<and> sr_saved l \<noteq> S_finish
          then tok\<lparr>tk_err := E_parse_eof\<rparr> else tok);
        (if tk_err tok = E_success then do {
           let ret = sr_current (level tok);
           tok \<leftarrow> reset_levels (tk_depth tok) tok;
           Some (ret, tok) }
         else Some (JNull, tok)) }) }"

definition json_tokener_parse_verbose :: "'d lib \<Rightarrow> string \<Rightarrow> ('d json \<times> tok_error) option" where
  "json_tokener_parse_verbose L str = do {
     tok \<leftarrow> json_tokener_new ();
     (obj, tok) \<leftarrow> json_tokener_parse_ex L tok str (- 1);
     Some (if tk_err tok \<noteq> E_success then JNull else obj, tk_err tok) }"

definition json_tokener_parse :: "'d lib \<Rightarrow> string \<Rightarrow> 'd json option" where
  "json_tokener_parse L str = map_option fst (json_tokener_parse_verbose L str)"

end
