(* ===== verification/Json_Steps.thy ===== *)
theory Json_Steps
  imports Json_Tokener Json_Print
begin

text \<open>
  Steps of the tokener on a text that ends with a NUL (the length -1): what a step
  leaves of the stack below (\<open>frame\<close>), equal continuations (\<open>goes\<close>), and the reading of
  white space, strings, literals and numbers.
\<close>

section \<open>The stack\<close>

definition stack_ok :: "'d tokener \<Rightarrow> bool" where
  "stack_ok t \<longleftrightarrow> tk_depth t < length (tk_stack t) \<and> length (tk_stack t) = tk_max_depth t"

text \<open>The levels below are the same.\<close>

definition frame :: "'d tokener \<Rightarrow> 'd tokener \<Rightarrow> bool" where
  "frame t t' \<longleftrightarrow> tk_depth t' = tk_depth t \<and> tk_max_depth t' = tk_max_depth t \<and> tk_flags t' = tk_flags t
     \<and> tk_err t' = tk_err t \<and> length (tk_stack t') = length (tk_stack t)
     \<and> take (tk_depth t) (tk_stack t') = take (tk_depth t) (tk_stack t)"

lemma frame_refl [simp]: "frame t t"
  by (simp add: frame_def)

lemma frame_trans: "frame t t' \<Longrightarrow> frame t' t'' \<Longrightarrow> frame t t''"
  by (simp add: frame_def)

lemma frame_ok: "frame t t' \<Longrightarrow> stack_ok t \<Longrightarrow> stack_ok t'"
  by (simp add: frame_def stack_ok_def)

lemma frame_fields [simp]:
  "frame t (t'\<lparr>tk_pb := x\<rparr>) = frame t t'" "frame t (t'\<lparr>tk_st_pos := n\<rparr>) = frame t t'"
  "frame t (t'\<lparr>tk_is_double := b\<rparr>) = frame t t'" "frame t (t'\<lparr>tk_char_offset := m\<rparr>) = frame t t'"
  "frame t (t'\<lparr>tk_ucs_char := u\<rparr>) = frame t t'" "frame t (t'\<lparr>tk_quote_char := c\<rparr>) = frame t t'"
  "frame t (add_text s t') = frame t t'"
  by (simp_all add: frame_def add_text_def)

lemma level_fields [simp]:
  "level (t\<lparr>tk_pb := x\<rparr>) = level t" "level (t\<lparr>tk_st_pos := n\<rparr>) = level t"
  "level (t\<lparr>tk_is_double := b\<rparr>) = level t" "level (t\<lparr>tk_char_offset := m\<rparr>) = level t"
  "level (t\<lparr>tk_ucs_char := u\<rparr>) = level t" "level (t\<lparr>tk_quote_char := c\<rparr>) = level t"
  "level (t\<lparr>tk_err := e\<rparr>) = level t" "level (add_text s t) = level t"
  by (simp_all add: level_def add_text_def)

lemma frame_set_level [simp]: "frame t (set_level r t') = frame t t'"
  by (auto simp: frame_def set_level_def)

lemma frame_left [simp]:
  "frame (set_level r t) t' = frame t t'" "frame (t\<lparr>tk_pb := x\<rparr>) t' = frame t t'"
  "frame (t\<lparr>tk_st_pos := n\<rparr>) t' = frame t t'" "frame (t\<lparr>tk_ucs_char := u\<rparr>) t' = frame t t'"
  "frame (t\<lparr>tk_quote_char := c\<rparr>) t' = frame t t'" "frame (t\<lparr>tk_is_double := b\<rparr>) t' = frame t t'"
  "frame (t\<lparr>tk_char_offset := m\<rparr>) t' = frame t t'"
  by (simp_all add: frame_def set_level_def)

lemma level_set_level [simp]: "stack_ok t \<Longrightarrow> level (set_level r t) = r"
  by (simp add: level_def set_level_def stack_ok_def)

lemma set_level_twice [simp]: "set_level r (set_level r' t) = set_level r t"
  by (simp add: set_level_def)

lemma stack_ok_fields [simp]:
  "stack_ok (t\<lparr>tk_pb := x\<rparr>) = stack_ok t" "stack_ok (t\<lparr>tk_st_pos := n\<rparr>) = stack_ok t"
  "stack_ok (t\<lparr>tk_is_double := b\<rparr>) = stack_ok t" "stack_ok (t\<lparr>tk_char_offset := m\<rparr>) = stack_ok t"
  "stack_ok (t\<lparr>tk_ucs_char := u\<rparr>) = stack_ok t" "stack_ok (t\<lparr>tk_quote_char := c\<rparr>) = stack_ok t"
  "stack_ok (t\<lparr>tk_err := e\<rparr>) = stack_ok t"
  "stack_ok (add_text s t) = stack_ok t" "stack_ok (set_level r t) = stack_ok t"
  by (simp_all add: stack_ok_def add_text_def set_level_def)

lemma set_level_fields [simp]:
  "tk_depth (set_level r t) = tk_depth t" "tk_max_depth (set_level r t) = tk_max_depth t"
  "tk_flags (set_level r t) = tk_flags t" "tk_pb (set_level r t) = tk_pb t"
  "tk_quote_char (set_level r t) = tk_quote_char t" "tk_st_pos (set_level r t) = tk_st_pos t"
  "tk_ucs_char (set_level r t) = tk_ucs_char t" "tk_is_double (set_level r t) = tk_is_double t"
  "tk_char_offset (set_level r t) = tk_char_offset t" "tk_err (set_level r t) = tk_err t"
  by (simp_all add: set_level_def)

lemma add_text_fields [simp]:
  "tk_depth (add_text s t) = tk_depth t" "tk_max_depth (add_text s t) = tk_max_depth t"
  "tk_flags (add_text s t) = tk_flags t" "tk_pb (add_text s t) = tk_pb t @ s"
  "tk_quote_char (add_text s t) = tk_quote_char t" "tk_st_pos (add_text s t) = tk_st_pos t"
  "tk_ucs_char (add_text s t) = tk_ucs_char t" "tk_is_double (add_text s t) = tk_is_double t"
  "tk_char_offset (add_text s t) = tk_char_offset t" "tk_err (add_text s t) = tk_err t"
  by (simp_all add: add_text_def)

lemmas set_defs = set_state_def set_saved_def set_current_def set_field_def then_state_def

text \<open>A level with its four parts.\<close>

abbreviation lev :: "tok_state \<Rightarrow> tok_state \<Rightarrow> 'd json \<Rightarrow> string option \<Rightarrow> 'd srec" where
  "lev s sv v k \<equiv> \<lparr>sr_state = s, sr_saved = sv, sr_current = v, sr_field = k\<rparr>"

section \<open>Continuations\<close>

definition goes :: "'d lib \<Rightarrow> 'd lx \<Rightarrow> 'd lx \<Rightarrow> bool" where
  "goes L x y \<longleftrightarrow> tok_loop L (- 1) x = tok_loop L (- 1) y"

lemma goes_refl [simp]: "goes L x x"
  by (simp add: goes_def)

lemma goes_trans [trans]: "goes L x y \<Longrightarrow> goes L y z \<Longrightarrow> goes L x z"
  by (simp add: goes_def)

lemma goes_redo:
  assumes "stack_ok (fst x)" "tok_step L (- 1) x = Some (Redo, y)"
  shows "goes L x y"
proof -
  have "level_ok x" using assms(1) by (simp add: level_ok_def stack_ok_def)
  then show ?thesis unfolding goes_def by (subst tok_loop.simps) (use assms(2) in \<open>simp split: prod.splits\<close>)
qed

definition advance :: "nat \<Rightarrow> 'd tokener \<Rightarrow> 'd tokener" where
  "advance n t = t\<lparr>tk_char_offset := tk_char_offset t + n\<rparr>"

lemma advance_fields [simp]:
  "tk_depth (advance n t) = tk_depth t" "tk_max_depth (advance n t) = tk_max_depth t"
  "tk_flags (advance n t) = tk_flags t" "tk_pb (advance n t) = tk_pb t"
  "tk_quote_char (advance n t) = tk_quote_char t" "tk_st_pos (advance n t) = tk_st_pos t"
  "tk_ucs_char (advance n t) = tk_ucs_char t" "tk_is_double (advance n t) = tk_is_double t"
  "tk_err (advance n t) = tk_err t"
  "level (advance n t) = level t" "stack_ok (advance n t) = stack_ok t"
  "frame t' (advance n t) = frame t' t" "frame (advance n t) t' = frame t t'"
  by (simp_all add: advance_def)

lemma next_char_more [simp]:
  "c \<noteq> CHR 0x00 \<Longrightarrow> next_char (- 1) t c (e # d # str) = Some (True, advance 1 t, d, d # str)"
  by (simp add: next_char_def PEEK_CHAR_def Let_def advance_def)

lemma goes_break:
  assumes "stack_ok (fst x)" "tok_step L (- 1) x = Some (Break, t, obj, c, e # d # str)" "c \<noteq> CHR 0x00"
  shows "goes L x (advance 1 t, obj, d, d # str)"
proof -
  have "level_ok x" using assms(1) by (simp add: level_ok_def stack_ok_def)
  then show ?thesis unfolding goes_def by (subst tok_loop.simps) (use assms(2,3) in simp)
qed

text \<open>A loop over characters.\<close>

lemma advance_0 [simp]: "advance 0 t = t"
  by (simp add: advance_def)

lemma advance_advance [simp]: "advance m (advance n t) = advance (n + m) t"
  by (simp add: advance_def add.assoc)

lemma gather_run:
  "\<forall>x \<in> set run. P x \<and> x \<noteq> CHR 0x00 \<Longrightarrow> \<not> P c \<Longrightarrow>
    gather P (- 1) acc t (hd (run @ c # str)) (run @ c # str)
      = Some (True, acc @ run, advance (length run) t, c, c # str)"
proof (induction run arbitrary: acc t)
  case (Cons x run)
  have "next_char (- 1) t x (x # run @ c # str)
      = Some (True, advance 1 t, hd (run @ c # str), run @ c # str)"
    using Cons.prems(1) by (cases run) simp_all
  moreover have "gather P (- 1) (acc @ [x]) (advance 1 t) (hd (run @ c # str)) (run @ c # str)
      = Some (True, acc @ x # run, advance (Suc (length run)) t, c, c # str)"
    using Cons.IH [of "acc @ [x]" "advance 1 t"] Cons.prems by simp
  ultimately show ?case using Cons.prems(1) by simp
qed simp

text \<open>
  From one point of a text to another: the same continuation, on the same levels below.
\<close>

definition reads :: "'d lib \<Rightarrow> 'd tokener \<times> 'd json \<times> string \<Rightarrow> 'd tokener \<times> 'd json \<times> string \<Rightarrow> bool" where
  "reads L x y \<longleftrightarrow> (case (x, y) of ((t, obj, str), (t', obj', str')) \<Rightarrow>
     goes L (t, obj, hd str, str) (t', obj', hd str', str') \<and> frame t t')"

lemma reads_trans [trans]: "reads L x y \<Longrightarrow> reads L y z \<Longrightarrow> reads L x z"
  by (auto simp: reads_def intro: goes_trans frame_trans)

lemma reads_ok: "reads L (t, obj, str) (t', obj', str') \<Longrightarrow> stack_ok t \<Longrightarrow> stack_ok t'"
  by (auto simp: reads_def intro: frame_ok)

lemma reads_redo:
  assumes "stack_ok t" "tok_step L (- 1) (t, obj, hd str, str) = Some (Redo, t', obj', hd str', str')" "frame t t'"
  shows "reads L (t, obj, str) (t', obj', str')"
  using goes_redo [of "(t, obj, hd str, str)" L] assms by (simp add: reads_def)

text \<open>A step that breaks at a character \<open>e\<close>, with more text behind it.\<close>

lemma reads_break:
  assumes "stack_ok t" "tok_step L (- 1) (t, obj, hd str, str) = Some (Break, t', obj', e, e # str')"
    "e \<noteq> CHR 0x00" "str' \<noteq> []" "frame t t'"
  shows "reads L (t, obj, str) (advance 1 t', obj', str')"
proof -
  obtain d ds where d: "str' = d # ds" using assms(4) by (cases str') auto
  show ?thesis using goes_break [of "(t, obj, hd str, str)" L t' obj' e e d ds] assms by (simp add: reads_def d)
qed

lemma isspace_NUL: "c_isspace c \<Longrightarrow> c \<noteq> CHR 0x00"
  by (auto simp: c_isspace_def)

lemma reads_eatws:
  assumes "stack_ok t" "level t = lev S_eatws sv v k" "\<forall>x \<in> set ws. c_isspace x" "\<not> c_isspace c" "c \<noteq> CHR ''/''"
  shows "reads L (t, obj, ws @ c # str) (set_level (lev sv sv v k) (advance (length ws) t), obj, c # str)"
proof (rule reads_redo [OF assms(1)])
  have "gather c_isspace (- 1) [] t (hd (ws @ c # str)) (ws @ c # str) = Some (True, ws, advance (length ws) t, c, c # str)"
    using gather_run [of ws c_isspace c "[]" t str] assms(3,4) isspace_NUL by auto
  then show "tok_step L (- 1) (t, obj, hd (ws @ c # str), ws @ c # str)
      = Some (Redo, set_level (lev sv sv v k) (advance (length ws) t), obj, hd (c # str), c # str)"
    using assms(2,5) by (simp add: tok_step_def eatws_step_def set_state_def)
qed simp

section \<open>Strings\<close>

definition plain_char :: "char \<Rightarrow> bool" where
  "plain_char c \<longleftrightarrow> c \<noteq> CHR 0x22 \<and> c \<noteq> CHR 0x5C \<and> c \<noteq> CHR 0x00"

text \<open>The two states that read strings.\<close>

lemma string_tok_step:
  assumes "stack_ok t" "level t = lev S sv v k" "S \<in> {S_string, S_object_field}" "tk_quote_char t = CHR 0x22"
    "\<forall>x \<in> set run. plain_char x"
  shows "tok_step L (- 1) (t, obj, hd (run @ CHR 0x5C # str), run @ CHR 0x5C # str)
    = Some (Break, set_level (lev S_string_escape S v k) (add_text run (advance (length run) t)),
        obj, CHR 0x5C, CHR 0x5C # str)"
proof -
  have "gather (\<lambda>c. c \<noteq> CHR 0x22 \<and> c \<noteq> CHR 0x5C) (- 1) [] t (hd (run @ CHR 0x5C # str)) (run @ CHR 0x5C # str)
      = Some (True, run, advance (length run) t, CHR 0x5C, CHR 0x5C # str)"
    using gather_run [of run "\<lambda>c. c \<noteq> CHR 0x22 \<and> c \<noteq> CHR 0x5C" "CHR 0x5C" "[]" t str] assms(5)
    by (auto simp: plain_char_def)
  then show ?thesis
    using assms by (auto simp: tok_step_def string_step_def object_field_step_def set_defs Let_def)
qed

lemma reads_escape_start:
  assumes "stack_ok t" "level t = lev S sv v k" "S \<in> {S_string, S_object_field}" "tk_quote_char t = CHR 0x22"
    "\<forall>x \<in> set run. plain_char x" "str \<noteq> []"
  shows "\<exists>t'. reads L (t, obj, run @ CHR 0x5C # str) (t', obj, str) \<and> level t' = lev S_string_escape S v k
    \<and> tk_pb t' = tk_pb t @ run \<and> tk_quote_char t' = CHR 0x22"
proof (intro exI conjI)
  show "reads L (t, obj, run @ CHR 0x5C # str) (advance 1 (set_level (lev S_string_escape S v k)
      (add_text run (advance (length run) t))), obj, str)"
    by (rule reads_break [OF assms(1) string_tok_step [OF assms(1-5)] _ assms(6)]) simp_all
qed (use assms(1,4) in simp_all)

text \<open>Escapes of one character.\<close>

definition unescape :: "char \<Rightarrow> char" where
  "unescape e = (if e = CHR ''b'' then CHR 0x08 else if e = CHR ''n'' then CHR 0x0A else if e = CHR ''r'' then CHR 0x0D
     else if e = CHR ''t'' then CHR 0x09 else if e = CHR ''f'' then CHR 0x0C else e)"

lemma short_escape_unescape:
  "short_escape c = Some s \<Longrightarrow> \<exists>e \<in> set [CHR 0x22, CHR 0x5C, CHR ''/'', CHR ''b'', CHR ''n'', CHR ''r'', CHR ''t'', CHR ''f''].
    s = [CHR 0x5C, e] \<and> unescape e = c"
  by (simp add: short_escape_def split: if_split_asm) (simp_all add: unescape_def)

lemma reads_short_escape:
  assumes "stack_ok t" "level t = lev S_string_escape S v k"
    "e \<in> set [CHR 0x22, CHR 0x5C, CHR ''/'', CHR ''b'', CHR ''n'', CHR ''r'', CHR ''t'', CHR ''f'']" "str \<noteq> []"
  shows "\<exists>t'. reads L (t, obj, e # str) (t', obj, str) \<and> level t' = lev S S v k
    \<and> tk_pb t' = tk_pb t @ [unescape e] \<and> tk_quote_char t' = tk_quote_char t"
proof (intro exI conjI)
  have e: "e \<noteq> CHR 0x00" using assms(3) by auto
  have "tok_step L (- 1) (t, obj, hd (e # str), e # str)
      = Some (Break, set_level (lev S S v k) (add_text [unescape e] t), obj, e, e # str)"
    using assms(3) by (simp only: list.set insert_iff empty_iff simp_thms, elim disjE) (simp_all add: assms(1,2) tok_step_def string_escape_step_def set_defs Let_def unescape_def)
  from reads_break [OF assms(1) this e assms(4)]
  show "reads L (t, obj, e # str) (advance 1 (set_level (lev S S v k) (add_text [unescape e] t)), obj, str)" by simp
qed (use assms(1) in simp_all)

text \<open>Escapes with four hexadecimal digits.\<close>

lemma unicode_digit:
  assumes "is_hex_char c" "c \<noteq> CHR 0x00" "tk_st_pos t < 3"
  shows "unicode_loop (- 1) 0 (t, obj, c, c # d # ds)
    = unicode_loop (- 1) 0 (advance 1 (t\<lparr>tk_ucs_char := tk_ucs_char t + push_bit ((3 - tk_st_pos t) * 4) (jt_hexdigit c),
        tk_st_pos := tk_st_pos t + 1\<rparr>), obj, d, d # ds)"
  using assms by (subst unicode_loop.simps) (simp add: Let_def advance_def)

lemma unicode_last:
  assumes "is_hex_char c" "tk_st_pos t = 3" "tk_ucs_char t + jt_hexdigit c = u" "u < 0x80"
  shows "unicode_loop (- 1) 0 (t, obj, c, c # ds)
    = Some (Break, set_state (sr_saved (level t)) (add_text [uc_char u] (t\<lparr>tk_ucs_char := u, tk_st_pos := 4\<rparr>)), obj, c, c # ds)"
proof -
  have "\<not> 0x800 \<le> u" using assms(4) by (simp add: word_le_nat_alt word_less_nat_alt)
  then show ?thesis
    using assms by (subst unicode_loop.simps) (simp add: Let_def join_surrogates_def unescaped_utf_def)
qed

definition hex_at :: "nat \<Rightarrow> char" where
  "hex_at k = json_hex_chars ! k"

lemma hex_at:
  "k < 16 \<Longrightarrow> is_hex_char (hex_at k) \<and> hex_at k \<noteq> CHR 0x00 \<and> jt_hexdigit (hex_at k) = of_nat k"
proof -
  have "\<forall>k \<in> set [0..<16]. is_hex_char (hex_at k) \<and> hex_at k \<noteq> CHR 0x00 \<and> jt_hexdigit (hex_at k) = of_nat k"
    by code_simp
  then show "k < 16 \<Longrightarrow> ?thesis" by simp
qed

lemma control_escape_hex: "control_escape c =
    [CHR 0x5C, CHR ''u'', hex_at 0, hex_at 0, hex_at (of_char c div 16), hex_at (of_char c mod 16)]"
  by (simp add: control_escape_def Let_def hex_at_def) (simp add: json_hex_chars_def)

lemma reads_control_escape:
  assumes "stack_ok t" "level t = lev S_string_escape S v k" "(of_char c :: nat) < 32" "str \<noteq> []"
  shows "\<exists>t'. reads L (t, obj, CHR ''u'' # hex_at 0 # hex_at 0 # hex_at (of_char c div 16) # hex_at (of_char c mod 16) # str)
      (t', obj, str) \<and> level t' = lev S S v k \<and> tk_pb t' = tk_pb t @ [c] \<and> tk_quote_char t' = tk_quote_char t"
proof -
  let ?n = "of_char c :: nat" and ?t = "set_level (lev S_escape_unicode S v k) (t\<lparr>tk_ucs_char := 0, tk_st_pos := 0\<rparr>)"
  let ?ds = "hex_at 0 # hex_at 0 # hex_at (?n div 16) # hex_at (?n mod 16) # str"
  have d: "?n div 16 < 16" "?n mod 16 < 16" "(0 :: nat) < 16" using assms(3) by auto
  note h = hex_at [OF d(1)] hex_at [OF d(2)] hex_at [OF d(3)]
  have "tok_step L (- 1) (t, obj, hd (CHR ''u'' # ?ds), CHR ''u'' # ?ds) = Some (Break, ?t, obj, CHR ''u'', CHR ''u'' # ?ds)"
    using assms(1,2) by (simp add: tok_step_def string_escape_step_def set_defs Let_def)
  then have 1: "reads L (t, obj, CHR ''u'' # ?ds) (advance 1 ?t, obj, ?ds)"
    by (rule reads_break [OF assms(1)]) simp_all
  have u: "push_bit 4 (of_nat (?n div 16)) + of_nat (?n mod 16) = (of_nat ?n :: u32)"
  proof -
    have "push_bit 4 (of_nat (?n div 16)) + of_nat (?n mod 16) = (of_nat (?n div 16 * 16 + ?n mod 16) :: u32)"
      by (simp only: push_bit_eq_mult of_nat_add of_nat_mult) simp
    then show ?thesis by simp
  qed
  have "(of_nat ?n :: u32) < 0x80" using assms(3) by (simp add: word_less_nat_alt unat_of_nat take_bit_eq_mod)
  moreover have "uc_char (of_nat ?n :: u32) = c" using assms(3) by (simp add: uc_char_def unat_of_nat take_bit_eq_mod)
  ultimately obtain t' where t': "unicode_loop (- 1) 0 (advance 1 ?t, obj, hex_at 0, ?ds)
      = Some (Break, t', obj, hex_at (?n mod 16), hex_at (?n mod 16) # str)"
    "frame t t'" "level t' = lev S S v k" "tk_pb t' = tk_pb t @ [c]" "tk_quote_char t' = tk_quote_char t"
    using h u assms(1) by (simp add: unicode_digit unicode_last [where u = "of_nat ?n"] set_state_def)
  have "tok_step L (- 1) (advance 1 ?t, obj, hd ?ds, ?ds) = Some (Break, t', obj, hex_at (?n mod 16), hex_at (?n mod 16) # str)"
    using assms(1) t'(1) by (simp add: tok_step_def escape_unicode_step_def)
  then have "reads L (advance 1 ?t, obj, ?ds) (advance 1 t', obj, str)"
    by (rule reads_break [rotated]) (use assms(1,4) h t'(2) in simp_all)
  from reads_trans [OF 1 this] show ?thesis using t' by (intro exI [of _ "advance 1 t'"]) simp
qed

text \<open>An escaped text, up to the rest without escapes that the last step reads.\<close>

lemma escape_text_plain: "\<forall>x \<in> set run. escape_char x = [x] \<Longrightarrow> escape_text (run @ s) = run @ escape_text s"
  by (induction run) (simp_all add: escape_text_def)

lemma escape_char_plain: "escape_char c = [c] \<Longrightarrow> plain_char c"
proof (rule ccontr)
  assume "escape_char c = [c]" "\<not> plain_char c"
  then show False by (auto simp: plain_char_def escape_char_def short_escape_def control_escape_def Let_def)
qed

lemma reads_escape:
  assumes "stack_ok t" "level t = lev S_string_escape S v k" "escape_char c \<noteq> [c]" "str \<noteq> []"
  shows "\<exists>e t'. escape_char c = CHR 0x5C # e \<and> reads L (t, obj, e @ str) (t', obj, str) \<and> level t' = lev S S v k
    \<and> tk_pb t' = tk_pb t @ [c] \<and> tk_quote_char t' = tk_quote_char t"
proof (cases "short_escape c")
  case None
  then have "(of_char c :: nat) < 32" "escape_char c = control_escape c"
    using assms(3) by (auto simp: escape_char_def split: if_splits)
  then show ?thesis
    using reads_control_escape [OF assms(1,2) _ assms(4), of c L obj] by (auto simp: control_escape_hex)
next
  case (Some s)
  from short_escape_unescape [OF this]
  obtain e where e: "e \<in> set [CHR 0x22, CHR 0x5C, CHR ''/'', CHR ''b'', CHR ''n'', CHR ''r'', CHR ''t'', CHR ''f'']"
    "s = [CHR 0x5C, e]" "unescape e = c" by blast
  then have "escape_char c = CHR 0x5C # [e]" using Some by (simp add: escape_char_def)
  then show ?thesis using reads_short_escape [OF assms(1,2) e(1) assms(4), of L obj] e(3) by auto
qed

lemma reads_text:
  assumes "stack_ok t" "level t = lev S sv v k" "S \<in> {S_string, S_object_field}" "tk_quote_char t = CHR 0x22"
  shows "\<exists>t' run sv'. reads L (t, obj, escape_text s @ CHR 0x22 # str) (t', obj, run @ CHR 0x22 # str)
    \<and> level t' = lev S sv' v k \<and> tk_pb t' @ run = tk_pb t @ s \<and> tk_quote_char t' = CHR 0x22
    \<and> (\<forall>x \<in> set run. plain_char x)"
  using assms(1,2,4)
proof (induction "length s" arbitrary: s t sv rule: less_induct)
  case less
  show ?case
  proof (cases "\<forall>x \<in> set s. escape_char x = [x]")
    case True
    from escape_text_plain [OF this, of "[]"] have "escape_text s = s" by (simp add: escape_text_def)
    then show ?thesis using less.prems True escape_char_plain
      by (intro exI [of _ t] exI [of _ s] exI [of _ sv]) (simp add: reads_def)
  next
    case False
    then obtain run c s' where s: "s = run @ c # s'" and c: "escape_char c \<noteq> [c]"
      and run: "\<forall>x \<in> set run. escape_char x = [x]"
      using split_list_first_prop [of s "\<lambda>x. escape_char x \<noteq> [x]"] by blast
    then have plain: "\<forall>x \<in> set run. plain_char x" using escape_char_plain by blast
    let ?rest = "escape_text s' @ CHR 0x22 # str"
    have esc: "escape_text s = run @ escape_char c @ escape_text s'"
      unfolding s escape_text_plain [OF run] by (simp add: escape_text_def)
    have "length s' < length s" by (simp add: s)
    obtain e0 where e0: "escape_char c = CHR 0x5C # e0"
      using reads_escape [of "set_level (lev S_string_escape S v k) t" S v k c "''x''"] less.prems(1) c by auto
    obtain t1 where t1: "reads L (t, obj, run @ CHR 0x5C # e0 @ ?rest) (t1, obj, e0 @ ?rest)"
      "level t1 = lev S_string_escape S v k" "tk_pb t1 = tk_pb t @ run" "tk_quote_char t1 = CHR 0x22"
      using reads_escape_start [OF less.prems(1,2) assms(3) less.prems(3) plain, of "e0 @ ?rest" L obj] by auto
    have ok1: "stack_ok t1" using reads_ok [OF t1(1)] less.prems(1) by simp
    obtain t2 where t2: "reads L (t1, obj, e0 @ ?rest) (t2, obj, ?rest)" "level t2 = lev S S v k"
      "tk_pb t2 = tk_pb t1 @ [c]" "tk_quote_char t2 = CHR 0x22"
      using reads_escape [OF ok1 t1(2) c, of ?rest L obj] e0 t1(4) by auto
    have ok2: "stack_ok t2" using reads_ok [OF t2(1)] ok1 by simp
    obtain t' run' sv' where t': "reads L (t2, obj, ?rest) (t', obj, run' @ CHR 0x22 # str)" "level t' = lev S sv' v k"
      "tk_pb t' @ run' = tk_pb t2 @ s'" "tk_quote_char t' = CHR 0x22" "\<forall>x \<in> set run'. plain_char x"
      using less.hyps [OF \<open>length s' < length s\<close> ok2 t2(2,4)] by blast
    have "reads L (t, obj, escape_text s @ CHR 0x22 # str) (t', obj, run' @ CHR 0x22 # str)"
      using reads_trans [OF t1(1) reads_trans [OF t2(1) t'(1)]] by (simp add: esc e0)
    moreover have "tk_pb t' @ run' = tk_pb t @ s" using t'(3) t2(3) t1(3) s by simp
    ultimately show ?thesis using t' by blast
  qed
qed

end
