(* ===== verification/Json_Double.thy ===== *)
theory Json_Double
  imports Json_Steps
begin

text \<open>
  The texts of \<open>double\<close> values that have none of their own: what \<open>snprintf\<close> prints for
  \<open>%.17g\<close>, taken apart as the C standard describes it, and what
  \<open>json_object_double_to_json_string\<close> makes of that.
\<close>

section \<open>What is printed with 17 digits\<close>

definition number_char :: "char \<Rightarrow> bool" where
  "number_char c \<longleftrightarrow> c \<noteq> CHR 0x00 \<and> c \<in> set json_number_chars"

abbreviation digits :: "string \<Rightarrow> bool" where
  "digits ds \<equiv> list_all (is_base_digit 10) ds"

text \<open>
  The sign, the digits before the point, those behind it without trailing zeros, and
  the exponent with its sign, the last two not always there. \<open>pt\<close> is the point or the
  comma of the locale.
\<close>

definition exponent_text :: "string \<Rightarrow> bool" where
  "exponent_text ex \<longleftrightarrow> take 1 ex = ''e'' \<and> (take 1 (drop 1 ex) = ''+'' \<or> take 1 (drop 1 ex) = ''-'')
     \<and> digits (drop 2 ex) \<and> 2 \<le> length (drop 2 ex) \<and> length (drop 2 ex) \<le> 3"

definition g17_parts :: "string \<Rightarrow> string \<Rightarrow> string \<Rightarrow> bool" where
  "g17_parts ip fp ex \<longleftrightarrow> digits ip \<and> ip \<noteq> [] \<and> (hd ip = CHR ''0'' \<longrightarrow> length ip = 1) \<and> length ip \<le> 17
     \<and> digits fp \<and> (fp \<noteq> [] \<longrightarrow> last fp \<noteq> CHR ''0'') \<and> length fp \<le> 20
     \<and> (ex = [] \<or> exponent_text ex)"

definition g17_text :: "char \<Rightarrow> bool \<Rightarrow> string \<Rightarrow> string \<Rightarrow> string \<Rightarrow> string" where
  "g17_text pt neg ip fp ex = decimal_text neg ip @ (if fp = [] then [] else pt # fp) @ ex"

section \<open>What the code makes of it\<close>

lemma last_useful_end:
  "cs \<noteq> [] \<Longrightarrow> last cs \<noteq> CHR ''0'' \<Longrightarrow> last_useful p q cs = q + length cs - 1"
  by (induction p q cs rule: last_useful.induct) (auto split: if_splits)

lemma digit_no_point:
  assumes "digits ds" "x \<in> set ds"
  shows "number_char x" "x \<notin> {CHR ''.'', CHR '','', CHR ''e'', CHR ''E'', CHR ''-'', CHR ''+''}"
proof -
  obtain k where k: "digit_of x = Some k" "k < 10"
    using assms by (auto simp: list_all_iff is_base_digit_def split: option.splits)
  have "\<forall>k \<in> set [0..<10]. number_char (digit_char k)
      \<and> digit_char k \<notin> {CHR ''.'', CHR '','', CHR ''e'', CHR ''E'', CHR ''-'', CHR ''+''}"
    by code_simp
  then show "number_char x" "x \<notin> {CHR ''.'', CHR '','', CHR ''e'', CHR ''E'', CHR ''-'', CHR ''+''}"
    using digit_char_of [OF k] k(2) by force+
qed

lemma exponent_chars:
  assumes "ex = [] \<or> exponent_text ex" "x \<in> set ex"
  shows "number_char x \<and> x \<noteq> CHR '','' \<and> x \<noteq> CHR ''.''"
proof -
  have ex: "exponent_text ex" using assms by auto
  have "ex = take 1 ex @ take 1 (drop 1 ex) @ drop 2 ex"
    by (metis append_take_drop_id drop_drop one_add_one)
  then have "x \<in> set (take 1 ex) \<union> set (take 1 (drop 1 ex)) \<union> set (drop 2 ex)"
    using assms(2) by (metis Un_assoc set_append)
  then have "x \<in> {CHR ''e'', CHR ''+'', CHR ''-''} \<or> x \<in> set (drop 2 ex)"
    using ex by (auto simp: exponent_text_def)
  moreover have "\<forall>c \<in> set ''e+-''. number_char c \<and> c \<noteq> CHR '','' \<and> c \<noteq> CHR ''.''" by code_simp
  moreover have "digits (drop 2 ex)" using ex by (simp add: exponent_text_def)
  ultimately show ?thesis using digit_no_point [of "drop 2 ex" x] by auto
qed

lemma decimal_text_chars:
  assumes "digits ip" "x \<in> set (decimal_text neg ip)"
  shows "number_char x \<and> x \<noteq> CHR '','' \<and> x \<noteq> CHR ''.'' \<and> x \<noteq> CHR ''e'' \<and> x \<noteq> CHR ''E''"
proof -
  have "number_char (CHR ''-'')" by code_simp
  then show ?thesis using assms digit_no_point [OF assms(1), of x]
    by (auto simp: decimal_text_def split: if_splits)
qed

lemma drop_zeros_none: "CHR ''.'' \<notin> set s \<Longrightarrow> drop_zeros s = s"
proof -
  assume "CHR ''.'' \<notin> set s"
  then have e: "takeWhile (\<lambda>c. c \<noteq> CHR ''.'') s = s" by (auto simp: takeWhile_eq_all_conv)
  show ?thesis unfolding drop_zeros_def Let_def e by simp
qed

lemma drop_zeros_useful:
  assumes "CHR ''.'' \<notin> set s" "fs \<noteq> []" "last fs \<noteq> CHR ''0''"
  shows "drop_zeros (s @ CHR ''.'' # fs) = s @ CHR ''.'' # fs"
proof -
  have e: "takeWhile (\<lambda>c. c \<noteq> CHR ''.'') (s @ CHR ''.'' # fs) = s" using assms(1) by (auto simp: takeWhile_append)
  have "last_useful 0 0 fs + 1 = length fs" using last_useful_end [OF assms(2,3), of 0 0] assms(2) by simp
  then show ?thesis unfolding drop_zeros_def Let_def e by simp
qed

lemma decimal_point_none: "CHR '','' \<notin> set s \<Longrightarrow> decimal_point s = s"
proof -
  assume "CHR '','' \<notin> set s"
  then have e: "takeWhile (\<lambda>c. c \<noteq> CHR '','') s = s" by (auto simp: takeWhile_eq_all_conv)
  show ?thesis unfolding decimal_point_def Let_def e by simp
qed

text \<open>
  Whatever the locale's point, the text has a point; the flag that drops zeros changes
  nothing, but if there is both a point and an exponent that ends with a zero.
\<close>

lemma double_text_g17:
  assumes "\<not> d_isnan D d" "\<not> d_isinf D d" "d_print D d = g17_text pt neg ip fp ex" "g17_parts ip fp ex"
    and "pt = CHR ''.'' \<or> pt = CHR '',''" "nozero flags \<Longrightarrow> fp = [] \<or> ex = [] \<or> last ex \<noteq> CHR ''0''"
  shows "double_text D flags d = g17_text (CHR ''.'') neg ip fp ex"
proof -
  let ?s = "decimal_text neg ip"
  have print: "double_print D d = g17_text pt neg ip fp ex" using assms(1-3) by (simp add: double_print_def)
  have p: "digits ip" "digits fp" "fp \<noteq> [] \<Longrightarrow> last fp \<noteq> CHR ''0''" "ex = [] \<or> exponent_text ex"
    using assms(4) by (simp_all add: g17_parts_def)
  have s: "CHR ''.'' \<notin> set ?s" "CHR '','' \<notin> set ?s" using decimal_text_chars [OF p(1)] by blast+
  have e: "CHR ''.'' \<notin> set ex" "CHR '','' \<notin> set ex" using exponent_chars [OF p(4)] by blast+
  have f: "CHR ''.'' \<notin> set fp" "CHR '','' \<notin> set fp" using digit_no_point [OF p(2)] by blast+
  have w: "takeWhile (\<lambda>c. c \<noteq> CHR '','') t = t" if "CHR '','' \<notin> set t" for t
    using that by (auto simp: takeWhile_eq_all_conv)
  show ?thesis
  proof (cases "fp = []")
    case True
    have n: "CHR '','' \<notin> set (?s @ ex)" "CHR ''.'' \<notin> set (?s @ ex)" using s e by simp_all
    have t: "g17_text c neg ip fp ex = ?s @ ex" for c by (simp add: g17_text_def True)
    show ?thesis unfolding double_text_def print t Let_def w [OF n(1)]
      using drop_zeros_none [OF n(2)] by simp
  next
    case False
    let ?fs = "fp @ ex"
    have u: "?fs \<noteq> []" "nozero flags \<Longrightarrow> last ?fs \<noteq> CHR ''0''"
      using False p(3) assms(6) by (auto simp: last_append)
    from assms(5) show ?thesis
    proof
      assume pt: "pt = CHR ''.''"
      have n: "CHR '','' \<notin> set (?s @ CHR ''.'' # ?fs)" using s e f by simp
      have t: "g17_text (CHR ''.'') neg ip fp ex = ?s @ CHR ''.'' # ?fs"
        using False by (simp add: g17_text_def)
      show ?thesis unfolding double_text_def print pt t Let_def w [OF n]
        using drop_zeros_useful [OF s(1) u(1)] u(2) by simp
    next
      assume pt: "pt = CHR '',''"
      have k: "takeWhile (\<lambda>c. c \<noteq> CHR '','') (?s @ CHR '','' # ?fs) = ?s"
        using s(2) by (auto simp: takeWhile_append)
      have d: "decimal_point (?s @ CHR '','' # ?fs) = ?s @ CHR ''.'' # ?fs"
        unfolding decimal_point_def Let_def k by simp
      have t: "g17_text (CHR '','') neg ip fp ex = ?s @ CHR '','' # ?fs"
        "g17_text (CHR ''.'') neg ip fp ex = ?s @ CHR ''.'' # ?fs"
        using False by (simp_all add: g17_text_def)
      show ?thesis unfolding double_text_def print pt t Let_def k d
        using drop_zeros_useful [of "[]" ?fs] u by simp
    qed
  qed
qed

text \<open>With such an exponent the flag takes digits of the exponent away.\<close>

lemma nozero_cuts_exponent:
  assumes "d_print D d = ''1.5e+20''" "\<not> d_isnan D d" "\<not> d_isinf D d"
  shows "double_text D JSON_C_TO_STRING_NOZERO d = ''1.5e+2''"
  using assms by (simp add: double_text_def double_print_def drop_zeros_def JSON_C_TO_STRING_NOZERO_def)

text \<open>The text as a number for the tokener.\<close>

lemma g17_chars:
  assumes "g17_parts ip fp ex"
  shows "\<forall>x \<in> set (g17_text (CHR ''.'') neg ip fp ex). number_char x"
    and "(\<exists>x \<in> set (g17_text (CHR ''.'') neg ip fp ex). x \<in> {CHR ''.'', CHR ''e'', CHR ''E''})
      \<longleftrightarrow> fp \<noteq> [] \<or> ex \<noteq> []"
    and "length (g17_text pt neg ip fp ex) \<le> 44"
proof -
  have p: "digits ip" "digits fp" "ex = [] \<or> exponent_text ex" "length ip \<le> 17" "length fp \<le> 20"
    using assms by (simp_all add: g17_parts_def)
  have pt: "number_char (CHR ''.'')" by code_simp
  show "\<forall>x \<in> set (g17_text (CHR ''.'') neg ip fp ex). number_char x"
    using decimal_text_chars [OF p(1)] digit_no_point(1) [OF p(2)] exponent_chars [OF p(3)] pt
    by (auto simp: g17_text_def)
  have "ex \<noteq> [] \<Longrightarrow> CHR ''e'' \<in> set ex" using p(3) by (cases ex) (auto simp: exponent_text_def)
  then show "(\<exists>x \<in> set (g17_text (CHR ''.'') neg ip fp ex). x \<in> {CHR ''.'', CHR ''e'', CHR ''E''})
      \<longleftrightarrow> fp \<noteq> [] \<or> ex \<noteq> []"
    using decimal_text_chars [OF p(1), of _ neg] by (auto simp: g17_text_def)
  have "length ex \<le> 5" using p(3) by (auto simp: exponent_text_def)
  then show "length (g17_text pt neg ip fp ex) \<le> 44"
    using p(4,5) by (simp add: g17_text_def decimal_text_def)
qed

lemma base_value_bound: "digits ds \<Longrightarrow> base_value 10 ds < 10 ^ length ds"
proof (induction ds rule: rev_induct)
  case (snoc c cs)
  obtain k where k: "digit_of c = Some k" "k < 10"
    using snoc.prems by (auto simp: is_base_digit_def split: option.splits)
  have "base_value 10 cs + 1 \<le> 10 ^ length cs" using snoc by simp
  then have "10 * (base_value 10 cs + 1) \<le> 10 * 10 ^ length cs" by (rule mult_le_mono2)
  then show ?case using k by (simp add: base_value_snoc)
qed (simp add: base_value_def)

lemma g17_int_fits: "digits ip \<Longrightarrow> length ip \<le> 17 \<Longrightarrow> fits_i64 (decimal_value neg ip)"
proof -
  assume ip: "digits ip" "length ip \<le> 17"
  have "(10 :: nat) ^ length ip \<le> 10 ^ 17" by (rule power_increasing) (use ip in simp_all)
  then have "base_value 10 ip < 10 ^ 17" using base_value_bound [OF ip(1)] by linarith
  then have "int (base_value 10 ip) < 10 ^ 17" by (metis of_nat_less_iff of_nat_numeral of_nat_power)
  then show ?thesis by (auto simp: fits_i64_def decimal_value_def)
qed

end
