(* ===== verification/Json_Round_Trip.thy ===== *)
theory Json_Round_Trip
  imports Json_Double
begin

text \<open>
  Parsing what was printed: the text of a value (theory \<open>Json_Print\<close>) is read by the
  tokener (theory \<open>Json_Tokener\<close>) as that value.
\<close>

section \<open>What follows a value\<close>

text \<open>The text behind a value, and that text behind its leading white space.\<close>

definition follows :: "string \<Rightarrow> string \<Rightarrow> bool" where
  "follows rest rest' \<longleftrightarrow> rest' = dropWhile c_isspace rest \<and> rest' \<noteq> [] \<and> hd rest' \<noteq> CHR ''/''
     \<and> hd rest \<notin> set json_number_chars"

lemma reads_white:
  assumes "stack_ok t" "level t = lev S_eatws sv v k" "str' = dropWhile c_isspace str" "str' \<noteq> []" "hd str' \<noteq> CHR ''/''"
  shows "\<exists>t'. reads L (t, obj, str) (t', obj, str') \<and> level t' = lev sv sv v k \<and> tk_pb t' = tk_pb t"
proof -
  obtain c cs where c: "str' = c # cs" "\<not> c_isspace c"
    using assms(3,4) hd_dropWhile by (metis list.collapse)
  have "str = takeWhile c_isspace str @ c # cs" using assms(3) c(1) by (metis takeWhile_dropWhile_id)
  moreover have "\<forall>x \<in> set (takeWhile c_isspace str). c_isspace x" by (auto dest: set_takeWhileD)
  moreover have "c \<noteq> CHR ''/''" using assms(5) c(1) by simp
  ultimately obtain ws where ws: "str = ws @ c # cs" "\<forall>x \<in> set ws. c_isspace x" "c \<noteq> CHR ''/''" by blast
  show ?thesis
    using reads_eatws [OF assms(1,2) ws(2) c(2) ws(3), of L obj cs] assms(1)
    by (intro exI [of _ "set_level (lev sv sv v k) (advance (length ws) t)"]) (simp add: ws(1) c(1))
qed

text \<open>A value is done: what is left is to skip white space.\<close>

lemma reads_finish:
  assumes "reads L x (t, obj, rest)" "stack_ok t" "level t = lev S_eatws S_finish v k" "follows rest rest'"
  shows "\<exists>t' obj'. reads L x (t', obj', rest') \<and> level t' = lev S_finish S_finish v k"
proof -
  have f: "rest' = dropWhile c_isspace rest" "rest' \<noteq> []" "hd rest' \<noteq> CHR ''/''"
    using assms(4) by (auto simp: follows_def)
  obtain t' where "reads L (t, obj, rest) (t', obj, rest')" "level t' = lev S_finish S_finish v k"
    using reads_white [OF assms(2,3) f, of L obj] by blast
  then show ?thesis using reads_trans [OF assms(1)] by blast
qed

lemma follows_ne: "follows rest rest' \<Longrightarrow> rest \<noteq> []"
  by (auto simp: follows_def)

section \<open>Literals\<close>

text \<open>A state that reads a literal: it goes on at each character and notices the end behind the last.\<close>

definition literal_state :: "'d lib \<Rightarrow> tok_state \<Rightarrow> string \<Rightarrow> 'd json \<Rightarrow> bool" where
  "literal_state L S lit v \<longleftrightarrow>
     (\<forall>t obj i str. sr_state (level t) = S \<longrightarrow> tk_st_pos t = i \<longrightarrow> tk_pb t = take i lit \<longrightarrow> i < length lit \<longrightarrow>
        tok_step L (- 1) (t, obj, lit ! i, str) = next_literal (add_text [lit ! i] t, obj, lit ! i, str))
   \<and> (\<forall>t obj c str. sr_state (level t) = S \<longrightarrow> tk_st_pos t = length lit \<longrightarrow> tk_pb t = lit \<longrightarrow>
        tok_step L (- 1) (t, obj, c, str) = finish_literal v (add_text [c] t, obj, c, str))"

lemma reads_literal:
  assumes "literal_state L S lit v"
    "CHR 0x00 \<notin> set lit" "rest \<noteq> []"
  shows "stack_ok t \<Longrightarrow> level t = lev S sv u k \<Longrightarrow> tk_pb t = take i lit \<Longrightarrow> tk_st_pos t = i \<Longrightarrow> i \<le> length lit \<Longrightarrow>
    \<exists>t'. reads L (t, obj, drop i lit @ rest) (t', obj, rest) \<and> level t' = lev S_eatws S_finish v k"
proof (induction "length lit - i" arbitrary: i t)
  case 0
  then have i: "i = length lit" by simp
  obtain d ds where d: "rest = d # ds" using assms(3) by (cases rest) auto
  have s: "tok_step L (- 1) (t, obj, hd rest, rest)
      = Some (Redo, set_level (lev S_eatws S_finish v k) (add_text [d] t), obj, hd rest, rest)"
    using assms(1) 0 i by (simp add: d literal_state_def finish_literal_def set_defs)
  have "reads L (t, obj, rest) (set_level (lev S_eatws S_finish v k) (add_text [d] t), obj, rest)"
    by (rule reads_redo [OF 0(2) s]) simp
  then show ?case using 0(2) i by (intro exI [of _ "set_level (lev S_eatws S_finish v k) (add_text [d] t)"]) simp
next
  case (Suc n)
  then have i: "i < length lit" by simp
  let ?t = "(add_text [lit ! i] t)\<lparr>tk_st_pos := i + 1\<rparr>"
  have d: "drop i lit @ rest = lit ! i # drop (Suc i) lit @ rest" using i by (simp add: Cons_nth_drop_Suc)
  have st: "sr_state (level t) = S" using Suc(4) by simp
  have s: "tok_step L (- 1) (t, obj, hd (drop i lit @ rest), drop i lit @ rest)
      = Some (Break, ?t, obj, lit ! i, lit ! i # drop (Suc i) lit @ rest)"
    using assms(1) [unfolded literal_state_def, THEN conjunct1, rule_format, OF st Suc(6,5) i]
    by (simp add: d next_literal_def Suc(6))
  have z: "lit ! i \<noteq> CHR 0x00" using assms(2) i nth_mem by fastforce
  have 1: "reads L (t, obj, drop i lit @ rest) (advance 1 ?t, obj, drop (Suc i) lit @ rest)"
    by (rule reads_break [OF Suc(3) s z]) (use assms(3) in simp_all)
  have "tk_pb (advance 1 ?t) = take (Suc i) lit" using Suc(5) i by (simp add: take_Suc_conv_app_nth)
  moreover have "n = length lit - Suc i" using Suc(2) by simp
  ultimately obtain t' where "reads L (advance 1 ?t, obj, drop (Suc i) lit @ rest) (t', obj, rest)"
    "level t' = lev S_eatws S_finish v k"
    using Suc(1) [of "Suc i" "advance 1 ?t"] Suc(3,4) i by auto
  then show ?case using reads_trans [OF 1] by blast
qed

text \<open>Prefixes of the literals, as the steps compare them.\<close>

lemma null_prefix:
  "i < 4 \<Longrightarrow> literal_matches b ''null'' (take i ''null'' @ [''null'' ! i]) (json_min (i + 1) 4)"
  "literal_matches b ''null'' (''null'' @ [d]) (json_min 5 4)"
proof -
  have "\<forall>i \<in> set [0..<4]. literal_matches True ''null'' (take i ''null'' @ [''null'' ! i]) (json_min (i + 1) 4)"
    by code_simp
  then show "i < 4 \<Longrightarrow> literal_matches b ''null'' (take i ''null'' @ [''null'' ! i]) (json_min (i + 1) 4)"
    by (simp add: literal_matches_def)
  show "literal_matches b ''null'' (''null'' @ [d]) (json_min 5 4)"
    by (simp add: literal_matches_def json_min_def c_str_def)
qed

lemma true_prefix:
  "i < 4 \<Longrightarrow> literal_matches b ''true'' (take i ''true'' @ [''true'' ! i]) (json_min (i + 1) 4)"
  "literal_matches b ''true'' (''true'' @ [d]) (json_min 5 4)"
proof -
  have "\<forall>i \<in> set [0..<4]. literal_matches True ''true'' (take i ''true'' @ [''true'' ! i]) (json_min (i + 1) 4)"
    by code_simp
  then show "i < 4 \<Longrightarrow> literal_matches b ''true'' (take i ''true'' @ [''true'' ! i]) (json_min (i + 1) 4)"
    by (simp add: literal_matches_def)
  show "literal_matches b ''true'' (''true'' @ [d]) (json_min 5 4)"
    by (simp add: literal_matches_def json_min_def c_str_def)
qed

lemma false_prefix:
  "i < 5 \<Longrightarrow> literal_matches b ''false'' (take i ''false'' @ [''false'' ! i]) (json_min (i + 1) 5)
     \<and> \<not> literal_matches b ''true'' (take i ''false'' @ [''false'' ! i]) (json_min (i + 1) 4)"
  "literal_matches b ''false'' (''false'' @ [d]) (json_min 6 5)"
  "\<not> literal_matches b ''true'' (''false'' @ [d]) (json_min 6 4)"
proof -
  have "\<forall>i \<in> set [0..<5]. \<forall>b \<in> set [True, False].
      literal_matches b ''false'' (take i ''false'' @ [''false'' ! i]) (json_min (i + 1) 5)
      \<and> \<not> literal_matches b ''true'' (take i ''false'' @ [''false'' ! i]) (json_min (i + 1) 4)"
    by code_simp
  then show "i < 5 \<Longrightarrow> literal_matches b ''false'' (take i ''false'' @ [''false'' ! i]) (json_min (i + 1) 5)
     \<and> \<not> literal_matches b ''true'' (take i ''false'' @ [''false'' ! i]) (json_min (i + 1) 4)"
    by (cases b) simp_all
  show "literal_matches b ''false'' (''false'' @ [d]) (json_min 6 5)"
    by (simp add: literal_matches_def json_min_def c_str_def)
  have "\<not> literal_matches False ''true'' ''false'' 4" by code_simp
  then show "\<not> literal_matches b ''true'' (''false'' @ [d]) (json_min 6 4)"
    by (simp add: literal_matches_def json_min_def c_str_def)
qed

text \<open>Where a value starts.\<close>

abbreviation at_start :: "'d tokener \<Rightarrow> bool" where
  "at_start t \<equiv> stack_ok t \<and> level t = lev S_start S_start JNull None"

definition literal_start :: "tok_state \<Rightarrow> 'd tokener \<Rightarrow> 'd tokener" where
  "literal_start S t = (set_level (lev S S_start JNull None) t)\<lparr>tk_pb := [], tk_st_pos := 0\<rparr>"

text \<open>A literal in full: \<open>S\<close> reads it, from its first character on.\<close>

lemma reads_literal_value:
  assumes "at_start t" "follows rest rest'" "CHR 0x00 \<notin> set lit" "lit \<noteq> []" "literal_state L S lit v"
    "start_step (t, obj, hd lit, lit @ rest) = Some (Redo, literal_start S t, obj, hd lit, lit @ rest)"
  shows "\<exists>t' obj'. reads L (t, obj, lit @ rest) (t', obj', rest') \<and> level t' = lev S_finish S_finish v None"
proof -
  let ?t = "literal_start S t"
  have t: "stack_ok ?t" "level ?t = lev S S_start JNull None" "tk_pb ?t = take 0 lit" "tk_st_pos ?t = 0" "frame t ?t"
    using assms(1) by (simp_all add: literal_start_def)
  have 1: "reads L (t, obj, lit @ rest) (?t, obj, lit @ rest)"
    by (rule reads_redo) (use assms(1,4,6) t(5) in \<open>simp_all add: tok_step_def\<close>)
  obtain t' where t': "reads L (?t, obj, drop 0 lit @ rest) (t', obj, rest)" "level t' = lev S_eatws S_finish v None"
    using reads_literal [OF assms(5,3) follows_ne [OF assms(2)] t(1-4)] by blast
  have "stack_ok t'" using reads_ok [OF t'(1) t(1)] .
  moreover have "reads L (t, obj, lit @ rest) (t', obj, rest)" using reads_trans [OF 1] t'(1) by simp
  ultimately show ?thesis using reads_finish t'(2) assms(2) by blast
qed

lemma null_state: "literal_state L S_null ''null'' JNull"
  using null_prefix by (simp add: literal_state_def tok_step_def null_step_def Let_def eval_nat_numeral)

lemma true_state: "literal_state L S_boolean ''true'' (JBoolean True)"
  using true_prefix by (simp add: literal_state_def tok_step_def boolean_step_def Let_def eval_nat_numeral)

lemma false_state: "literal_state L S_boolean ''false'' (JBoolean False)"
  using false_prefix by (simp add: literal_state_def tok_step_def boolean_step_def Let_def eval_nat_numeral)

lemma nan_prefix:
  "i < 3 \<Longrightarrow> literal_matches b ''NaN'' (take i ''NaN'' @ [''NaN'' ! i]) (json_min (i + 1) 3)"
  "literal_matches b ''NaN'' (''NaN'' @ [d]) (json_min 4 3)"
  "\<not> literal_matches b ''null'' (''NaN'' @ [d]) (json_min 4 4)"
proof -
  have "\<forall>i \<in> set [0..<3]. literal_matches True ''NaN'' (take i ''NaN'' @ [''NaN'' ! i]) (json_min (i + 1) 3)"
    by code_simp
  then show "i < 3 \<Longrightarrow> literal_matches b ''NaN'' (take i ''NaN'' @ [''NaN'' ! i]) (json_min (i + 1) 3)"
    by (simp add: literal_matches_def)
  show "literal_matches b ''NaN'' (''NaN'' @ [d]) (json_min 4 3)"
    by (simp add: literal_matches_def json_min_def c_str_def)
  have "c_tolower (CHR ''u'') \<noteq> c_tolower (CHR ''a'')" by code_simp
  then show "\<not> literal_matches b ''null'' (''NaN'' @ [d]) (json_min 4 4)"
    by (simp add: literal_matches_def json_min_def c_str_def eval_nat_numeral)
qed

lemma infinity_prefix:
  "i < 8 \<Longrightarrow> literal_matches b ''Infinity'' (take i ''Infinity'' @ [''Infinity'' ! i]) (json_min (i + 1) 8)
     \<and> take 1 (c_str (take i ''Infinity'' @ [''Infinity'' ! i])) \<noteq> ''-''"
  "literal_matches b ''Infinity'' (''Infinity'' @ [d]) (json_min 9 8)"
proof -
  have "\<forall>i \<in> set [0..<8]. literal_matches True ''Infinity'' (take i ''Infinity'' @ [''Infinity'' ! i]) (json_min (i + 1) 8)
      \<and> take 1 (c_str (take i ''Infinity'' @ [''Infinity'' ! i])) \<noteq> ''-''"
    by code_simp
  then show "i < 8 \<Longrightarrow> literal_matches b ''Infinity'' (take i ''Infinity'' @ [''Infinity'' ! i]) (json_min (i + 1) 8)
     \<and> take 1 (c_str (take i ''Infinity'' @ [''Infinity'' ! i])) \<noteq> ''-''"
    by (simp add: literal_matches_def)
  show "literal_matches b ''Infinity'' (''Infinity'' @ [d]) (json_min 9 8)"
    by (simp add: literal_matches_def json_min_def c_str_def)
qed

lemma nan_state: "literal_state L S_null ''NaN'' (JDouble (lib_nan L) None)"
  using nan_prefix by (auto simp: literal_state_def tok_step_def null_step_def Let_def eval_nat_numeral)

lemma infinity_state: "literal_state L S_inf ''Infinity'' (JDouble (lib_infinity L) None)"
  using infinity_prefix by (auto simp: literal_state_def tok_step_def inf_step_def Let_def eval_nat_numeral c_str_def)

lemma reads_nan:
  "at_start t \<Longrightarrow> follows rest rest' \<Longrightarrow>
    \<exists>t' obj'. reads L (t, obj, ''NaN'' @ rest) (t', obj', rest')
      \<and> level t' = lev S_finish S_finish (JDouble (lib_nan L) None) None"
  by (rule reads_literal_value [OF _ _ _ _ nan_state])
    (simp_all add: start_step_def literal_start_def set_state_def)

lemma reads_infinity:
  "at_start t \<Longrightarrow> follows rest rest' \<Longrightarrow>
    \<exists>t' obj'. reads L (t, obj, ''Infinity'' @ rest) (t', obj', rest')
      \<and> level t' = lev S_finish S_finish (JDouble (lib_infinity L) None) None"
  by (rule reads_literal_value [OF _ _ _ _ infinity_state])
    (simp_all add: start_step_def literal_start_def set_state_def)

lemma reads_null:
  "at_start t \<Longrightarrow> follows rest rest' \<Longrightarrow>
    \<exists>t' obj'. reads L (t, obj, ''null'' @ rest) (t', obj', rest') \<and> level t' = lev S_finish S_finish JNull None"
  by (rule reads_literal_value [OF _ _ _ _ null_state])
    (simp_all add: start_step_def literal_start_def set_state_def)

lemma reads_boolean:
  "at_start t \<Longrightarrow> follows rest rest' \<Longrightarrow>
    \<exists>t' obj'. reads L (t, obj, (if b then ''true'' else ''false'') @ rest) (t', obj', rest')
      \<and> level t' = lev S_finish S_finish (JBoolean b) None"
proof (cases b)
  case True
  assume "at_start t" "follows rest rest'"
  then have "\<exists>t' obj'. reads L (t, obj, ''true'' @ rest) (t', obj', rest') \<and> level t' = lev S_finish S_finish (JBoolean True) None"
    by (rule reads_literal_value [OF _ _ _ _ true_state])
      (use \<open>at_start t\<close> in \<open>simp_all add: start_step_def literal_start_def set_state_def\<close>)
  then show ?thesis by (simp only: True if_True)
next
  case False
  assume "at_start t" "follows rest rest'"
  then have "\<exists>t' obj'. reads L (t, obj, ''false'' @ rest) (t', obj', rest') \<and> level t' = lev S_finish S_finish (JBoolean False) None"
    by (rule reads_literal_value [OF _ _ _ _ false_state])
      (use \<open>at_start t\<close> in \<open>simp_all add: start_step_def literal_start_def set_state_def\<close>)
  then show ?thesis by (simp only: False if_False)
qed

section \<open>Numbers\<close>

lemma number_start:
  assumes "c_isdigit d \<or> d = CHR ''-''"
  shows "d \<notin> set ''{[IiNnTtFf'' \<and> d \<noteq> CHR 0x27 \<and> d \<noteq> CHR 0x22"
  using assms
proof
  assume "c_isdigit d"
  then have "48 \<le> (of_char d :: nat)" "(of_char d :: nat) \<le> 57" by (simp_all add: c_isdigit_def)
  moreover have "48 \<le> (of_char c :: nat) \<Longrightarrow> (of_char c :: nat) \<le> 57 \<Longrightarrow> c \<notin> set (''{[IiNnTtFf'' @ [CHR 0x27, CHR 0x22])" for c
    by auto
  ultimately show ?thesis by fastforce
qed simp

lemma reads_number:
  assumes "at_start t" "follows rest rest'" "s = d # ds" "c_isdigit d \<or> d = CHR ''-''" "\<forall>x \<in> set s. number_char x"
    "s \<noteq> ''-''"
    "if \<exists>x \<in> set s. x \<in> {CHR ''.'', CHR ''e'', CHR ''E''} then \<exists>y. lib_double L s = Some y \<and> v = JDouble y (Some s)
     else \<exists>n. json_parse_int64 (lib_scan L) (lib_errno L) s = Some n \<and> v = JInt n \<and> (n = 0 \<or> d \<noteq> CHR ''0'')"
  shows "\<exists>t' obj'. reads L (t, obj, s @ rest) (t', obj', rest') \<and> level t' = lev S_finish S_finish v None"
proof -
  let ?t = "(set_level (lev S_number S_start JNull None) t)\<lparr>tk_pb := [], tk_is_double := False\<rparr>"
  have "tok_step L (- 1) (t, obj, hd (s @ rest), s @ rest) = Some (Redo, ?t, obj, hd (s @ rest), s @ rest)"
    using assms(1,3,4) number_start [OF assms(4)] by (simp add: tok_step_def start_step_def set_state_def Let_def)
  then have 1: "reads L (t, obj, s @ rest) (?t, obj, s @ rest)"
    by (rule reads_redo [rotated]) (use assms(1) in simp_all)
  obtain c cs where c: "rest = c # cs" "\<not> number_char c"
    using assms(2) follows_ne [OF assms(2)] by (cases rest) (auto simp: follows_def number_char_def)
  have g: "gather (\<lambda>c. c \<noteq> CHR 0x00 \<and> c \<in> set json_number_chars) (- 1) [] ?t (hd (s @ rest)) (s @ rest)
      = Some (True, s, advance (length s) ?t, c, rest)"
    using gather_run [of s "\<lambda>c. c \<noteq> CHR 0x00 \<and> c \<in> set json_number_chars" c "[]" ?t cs] assms(5) c
    by (simp add: number_char_def)
  have s: "c_str s = s" "take 1 s = [d]" "\<not> (d = CHR ''-'' \<and> length s = 1)"
    using assms(3,5,6) by (auto simp: c_str_def number_char_def takeWhile_eq_all_conv)
  have m: "(d = CHR ''-'' \<and> length s = Suc 0 \<and> X) = False" for X using s(3) by auto
  let ?b = "\<exists>x \<in> set s. x \<in> {CHR ''.'', CHR ''e'', CHR ''E''}"
  let ?t' = "set_level (lev S_eatws S_finish v None) ((add_text s (advance (length s) ?t))\<lparr>tk_is_double := ?b\<rparr>)"
  have "tok_step L (- 1) (?t, obj, hd (s @ rest), s @ rest) = Some (Redo, ?t', obj, hd rest, rest)"
  proof (cases ?b)
    case True
    then obtain y where "lib_double L s = Some y" "v = JDouble y (Some s)" using assms(7) by auto
    then show ?thesis
      using assms(1) s(1,2) g c(1) True by (simp add: m tok_step_def number_step_def set_defs Let_def)
  next
    case False
    then obtain n where "json_parse_int64 (lib_scan L) (lib_errno L) s = Some n" "v = JInt n" "n = 0 \<or> d \<noteq> CHR ''0''"
      using assms(7) by auto
    then show ?thesis
      using assms(1) s(1,2) g c(1) False by (auto simp: m tok_step_def number_step_def set_defs Let_def)
  qed
  then have 2: "reads L (?t, obj, s @ rest) (?t', obj, rest)"
    by (rule reads_redo [rotated]) (use assms(1) in simp_all)
  show ?thesis
    by (rule reads_finish [OF reads_trans [OF 1 2] _ _ assms(2)]) (use assms(1) in simp_all)
qed

text \<open>Printed 64 bit numbers.\<close>

lemma show_i64_text: "show_i64 n = decimal_text (sint n < 0) (show_nat (nat \<bar>sint n\<bar>))"
  by (simp add: show_i64_def decimal_text_def)

lemma digit_number_char: "is_base_digit 10 c \<Longrightarrow> number_char c \<and> c \<notin> {CHR ''.'', CHR ''e'', CHR ''E''}"
proof -
  assume c: "is_base_digit 10 c"
  then obtain k where k: "digit_of c = Some k" "k < 10" by (auto simp: is_base_digit_def split: option.splits)
  have "\<forall>k \<in> set [0..<10]. number_char (digit_char k) \<and> digit_char k \<notin> {CHR ''.'', CHR ''e'', CHR ''E''}"
    by code_simp
  then show ?thesis using digit_char_of [OF k] k(2) by force
qed

lemma number_char_minus: "number_char (CHR ''-'') \<and> CHR ''-'' \<notin> {CHR ''.'', CHR ''e'', CHR ''E''}"
  by code_simp

lemma c_isdigit_minus: "\<not> c_isdigit (CHR ''-'')"
  by code_simp

lemma json_parse_int64_shown:
  assumes "reads_numbers scan stale"
  shows "json_parse_int64 scan stale (show_i64 n) = Some n"
proof -
  let ?ds = "show_nat (nat \<bar>sint n\<bar>)"
  have d: "list_all (is_base_digit 10) ?ds" "?ds \<noteq> []" using show_nat_digits by auto
  have "decimal_value (sint n < 0) ?ds = sint n" by (simp add: decimal_value_def digits_value_show)
  then have "int64_read scan t (decimal_value (sint n < 0) ?ds) = n" for t
    using of_int_sint_fits [of n] by (simp add: int64_read_def saturate_def)
  then show ?thesis
    using json_parse_int64_value [OF assms d, of "[]" "sint n < 0"] by (simp add: show_i64_text)
qed

lemma show_nat_zero: "hd (show_nat k) = CHR ''0'' \<Longrightarrow> k = 0"
proof -
  let ?es = "skip_zeros (show_nat k)"
  have e: "list_all (is_base_digit 10) ?es" "?es \<noteq> []" "hd ?es = CHR ''0'' \<longrightarrow> length ?es = 1"
    using skip_zeros_digits [OF show_nat_digits] skip_zeros_canonical [OF show_base_nonempty] by auto
  have "show_nat k = ?es" using show_canonical [OF e] digits_value_show [of k] by (simp add: skip_zeros_value)
  moreover assume "hd (show_nat k) = CHR ''0''"
  ultimately have "show_nat k = ''0''" using e(2,3) by (cases "show_nat k") auto
  then show "k = 0" using digits_value_show [of k] by (simp add: base_value_def digit_of_def of_char_def Let_def)
qed

lemma show_i64_start:
  "\<exists>d es. show_i64 n = d # es \<and> (c_isdigit d \<or> d = CHR ''-'') \<and> show_i64 n \<noteq> ''-'' \<and> (n = 0 \<or> d \<noteq> CHR ''0'')"
proof -
  let ?ds = "show_nat (nat \<bar>sint n\<bar>)"
  have digits: "\<forall>x \<in> set ?ds. c_isdigit x"
    using show_nat_digits [of "nat \<bar>sint n\<bar>"] base_digit_isdigit unfolding list_all_iff by blast
  obtain c cs where ds: "?ds = c # cs" by (cases ?ds) auto
  have c: "c_isdigit c" using digits unfolding ds by simp
  then have "c \<noteq> CHR ''-''" using c_isdigit_minus by blast
  have zero: "n = 0 \<or> c \<noteq> CHR ''0''"
  proof (rule disjCI)
    assume "\<not> c \<noteq> CHR ''0''"
    then have "nat \<bar>sint n\<bar> = 0" by (intro show_nat_zero) (simp only: ds list.sel not_not)
    then have "sint n = 0" by linarith
    then show "n = 0" by (metis sint_0 signed_word_eqI)
  qed
  show ?thesis
    using c \<open>c \<noteq> CHR ''-''\<close> zero
    by (cases "sint n < 0") (simp_all only: show_i64_text decimal_text_def ds if_True if_False, simp_all)
qed

lemma reads_int:
  assumes "at_start t" "follows rest rest'" "reads_numbers (lib_scan L) (lib_errno L)"
  shows "\<exists>t' obj'. reads L (t, obj, show_i64 n @ rest) (t', obj', rest') \<and> level t' = lev S_finish S_finish (JInt n) None"
proof -
  let ?ds = "show_nat (nat \<bar>sint n\<bar>)" and ?s = "show_i64 n"
  have digits: "\<forall>x \<in> set ?ds. number_char x \<and> c_isdigit x \<and> x \<notin> {CHR ''.'', CHR ''e'', CHR ''E''}"
    using show_nat_digits [of "nat \<bar>sint n\<bar>"] digit_number_char base_digit_isdigit unfolding list_all_iff by blast
  then have chars: "\<forall>x \<in> set ?s. number_char x \<and> x \<notin> {CHR ''.'', CHR ''e'', CHR ''E''}"
    using number_char_minus unfolding show_i64_text decimal_text_def by (cases "sint n < 0") simp_all
  obtain d es where s: "?s = d # es" "c_isdigit d \<or> d = CHR ''-''" "?s \<noteq> ''-''" "n = 0 \<or> d \<noteq> CHR ''0''"
    using show_i64_start [of n] by blast
  have chars': "\<forall>x \<in> set ?s. number_char x" "\<not> (\<exists>x \<in> set ?s. x \<in> {CHR ''.'', CHR ''e'', CHR ''E''})"
    using chars by blast+
  show ?thesis
    by (rule reads_number [OF assms(1,2) s(1,2) chars'(1) s(3)])
      (simp only: chars'(2) if_False, rule exI [of _ n], simp add: json_parse_int64_shown [OF assms(3)] s(4))
qed

section \<open>Texts\<close>

lemma reads_string:
  assumes "at_start t" "follows rest rest'"
  shows "\<exists>t' obj'. reads L (t, obj, quote_text s @ rest) (t', obj', rest')
    \<and> level t' = lev S_finish S_finish (JString s) None"
proof -
  have rest: "rest \<noteq> []" by (rule follows_ne [OF assms(2)])
  let ?txt = "escape_text s @ CHR 0x22 # rest"
  let ?t = "(set_level (lev S_string S_start JNull None) t)\<lparr>tk_pb := [], tk_quote_char := CHR 0x22\<rparr>"
  have "tok_step L (- 1) (t, obj, hd (CHR 0x22 # ?txt), CHR 0x22 # ?txt) = Some (Break, ?t, obj, CHR 0x22, CHR 0x22 # ?txt)"
    using assms(1) by (simp add: tok_step_def start_step_def set_state_def Let_def)
  then have 1: "reads L (t, obj, CHR 0x22 # ?txt) (advance 1 ?t, obj, ?txt)"
    by (rule reads_break [rotated]) (use assms(1) in simp_all)
  obtain t1 run sv where t1: "reads L (advance 1 ?t, obj, ?txt) (t1, obj, run @ CHR 0x22 # rest)"
    "level t1 = lev S_string sv JNull None" "tk_pb t1 @ run = s" "tk_quote_char t1 = CHR 0x22"
    "\<forall>x \<in> set run. plain_char x"
    using reads_text [of "advance 1 ?t" S_string S_start JNull None L obj s rest] assms(1) by auto
  have ok: "stack_ok t1" using reads_ok [OF t1(1)] assms(1) by simp
  have g: "gather (\<lambda>c. c \<noteq> CHR 0x22 \<and> c \<noteq> CHR 0x5C) (- 1) [] t1 (hd (run @ CHR 0x22 # rest)) (run @ CHR 0x22 # rest)
      = Some (True, run, advance (length run) t1, CHR 0x22, CHR 0x22 # rest)"
    using gather_run [of run "\<lambda>c. c \<noteq> CHR 0x22 \<and> c \<noteq> CHR 0x5C" "CHR 0x22" "[]" t1 rest] t1(5)
    by (auto simp: plain_char_def)
  let ?t2 = "set_level (lev S_eatws S_finish (JString s) None) (add_text run (advance (length run) t1))"
  have "tok_step L (- 1) (t1, obj, hd (run @ CHR 0x22 # rest), run @ CHR 0x22 # rest)
      = Some (Break, ?t2, obj, CHR 0x22, CHR 0x22 # rest)"
    using t1(2-4) g ok by (simp add: tok_step_def string_step_def set_defs Let_def)
  then have 2: "reads L (t1, obj, run @ CHR 0x22 # rest) (advance 1 ?t2, obj, rest)"
    by (rule reads_break [rotated]) (use ok rest in simp_all)
  have "reads L (t, obj, quote_text s @ rest) (advance 1 ?t2, obj, rest)"
    using reads_trans [OF 1 reads_trans [OF t1(1) 2]] by (simp add: quote_text_def)
  from reads_finish [OF this _ _ assms(2)] show ?thesis using ok by simp
qed

section \<open>Values on a level of their own\<close>

fun json_depth :: "'d json \<Rightarrow> nat" where
  "json_depth (JArray vs) = foldr max (map (\<lambda>v. json_depth v + 1) vs) 0"
| "json_depth (JObject kvs) = foldr max (map (\<lambda>(k, v). json_depth v + 1) kvs) 0"
| "json_depth _ = 0"

definition value_read :: "'d lib \<Rightarrow> 'd json \<Rightarrow> string \<Rightarrow> bool" where
  "value_read L v s \<longleftrightarrow> (\<forall>t obj rest rest'. at_start t \<longrightarrow> tk_depth t + json_depth v < tk_max_depth t \<longrightarrow>
     follows rest rest' \<longrightarrow>
     (\<exists>t' obj'. reads L (t, obj, s @ rest) (t', obj', rest') \<and> level t' = lev S_finish S_finish v None))"

text \<open>How the text of a value begins.\<close>

definition value_char :: "char \<Rightarrow> bool" where
  "value_char c \<longleftrightarrow> \<not> c_isspace c \<and> c \<notin> {CHR ''/'', CHR '']''}"

lemma reads_then:
  assumes "reads L x (t, obj, str)" "stack_ok t" "level t = lev S_eatws sv v k" "dropWhile c_isspace str = c # cs" "c \<noteq> CHR ''/''"
  shows "\<exists>t'. reads L x (t', obj, c # cs) \<and> level t' = lev sv sv v k \<and> stack_ok t'"
proof -
  obtain t' where t': "reads L (t, obj, str) (t', obj, c # cs)" "level t' = lev sv sv v k"
    using reads_white [OF assms(2,3), of "c # cs" str L obj] assms(4,5) by auto
  then show ?thesis using reads_trans [OF assms(1)] reads_ok [OF t'(1) assms(2)] by blast
qed

lemma nested:
  assumes "stack_ok t" "tok_step L (- 1) (t, obj, c, c # str) = push_level S (t, obj, c, c # str)"
    "value_read L v s" "tk_depth t + 1 + json_depth v < tk_max_depth t" "s @ rest = c # str" "value_char c" "follows rest rest'"
  shows "\<exists>t'. reads L (t, obj, s @ rest) (t', v, rest') \<and> level t' = (level t)\<lparr>sr_state := S\<rparr>"
proof -
  let ?d = "tk_depth t"
  let ?t1 = "t\<lparr>tk_stack := (tk_stack t)[?d := (level t)\<lparr>sr_state := S\<rparr>, ?d + 1 := reset_level], tk_depth := ?d + 1\<rparr>"
  have d: "length (tk_stack t) = tk_max_depth t" "?d + 1 < length (tk_stack t)" using assms(1,4) by (auto simp: stack_ok_def)
  have "tok_step L (- 1) (t, obj, hd (s @ rest), s @ rest) = Some (Redo, ?t1, obj, hd (s @ rest), s @ rest)"
    using assms(2) d by (simp add: assms(5) push_level_def set_state_def set_level_def json_tokener_reset_level_def)
  then have 1: "goes L (t, obj, hd (s @ rest), s @ rest) (?t1, obj, hd (s @ rest), s @ rest)"
    by (rule goes_redo [rotated]) (use assms(1) in \<open>simp_all add: assms(5)\<close>)
  have ok1: "stack_ok ?t1" "level ?t1 = lev S_eatws S_start JNull None"
    using d by (simp_all add: stack_ok_def level_def reset_level_def)
  obtain t2 where t2: "reads L (?t1, obj, s @ rest) (t2, obj, s @ rest)" "level t2 = lev S_start S_start JNull None"
    using reads_white [OF ok1, of "s @ rest" "s @ rest" L obj] assms(5,6) by (auto simp: value_char_def)
  have ok2: "stack_ok t2" using reads_ok [OF t2(1) ok1(1)] .
  have "tk_depth t2 = ?d + 1" "tk_max_depth t2 = tk_max_depth t" using t2(1) by (auto simp: reads_def frame_def)
  then obtain t3 obj3 where t3: "reads L (t2, obj, s @ rest) (t3, obj3, rest')" "level t3 = lev S_finish S_finish v None"
    using assms(3,4,7) ok2 t2(2) by (fastforce simp: value_read_def)
  have 2: "reads L (?t1, obj, s @ rest) (t3, obj3, rest')" by (rule reads_trans [OF t2(1) t3(1)])
  then have f: "tk_depth t3 = ?d + 1" "tk_max_depth t3 = tk_max_depth t" "tk_flags t3 = tk_flags t" "tk_err t3 = tk_err t"
    "length (tk_stack t3) = length (tk_stack t)" "take (?d + 1) (tk_stack t3) = take (?d + 1) (tk_stack ?t1)"
    by (auto simp: reads_def frame_def)
  let ?t4 = "t3\<lparr>tk_stack := (tk_stack t3)[?d + 1 := reset_level], tk_depth := ?d\<rparr>"
  have "tok_step L (- 1) (t3, obj3, hd rest', rest') = Some (Redo, ?t4, v, hd rest', rest')"
    using t3(2) f d by (simp add: tok_step_def finish_step_def json_tokener_reset_level_def)
  then have 3: "goes L (t3, obj3, hd rest', rest') (?t4, v, hd rest', rest')"
    by (rule goes_redo [rotated]) (use reads_ok [OF 2 ok1(1)] in simp)
  have "take ?d (tk_stack t3) = take ?d (take (?d + 1) (tk_stack ?t1))" unfolding f(6) [symmetric] by simp
  then have "take ?d (tk_stack t3) = take ?d (tk_stack t)" by simp
  then have "frame t ?t4" using f by (simp add: frame_def)
  moreover have "goes L (t, obj, hd (s @ rest), s @ rest) (?t4, v, hd rest', rest')"
    using goes_trans [OF 1 goes_trans [OF _ 3]] 2 by (simp add: reads_def)
  moreover have "tk_stack t3 ! ?d = take (?d + 1) (tk_stack ?t1) ! ?d" unfolding f(6) [symmetric] by simp
  then have "level ?t4 = (level t)\<lparr>sr_state := S\<rparr>" using d by (simp add: level_def)
  ultimately show ?thesis by (auto simp: reads_def)
qed

section \<open>Arrays\<close>

text \<open>Steps of one character to a state behind white space.\<close>

lemma reads_then_state:
  assumes "stack_ok t" "tok_step L (- 1) (t, obj, c, c # str) = Some (Break, then_state S t', obj, c, c # str)"
    "c \<noteq> CHR 0x00" "dropWhile c_isspace str = d # ds" "d \<noteq> CHR ''/''" "frame t t'"
  shows "\<exists>t''. reads L (t, obj, c # str) (t'', obj, d # ds) \<and> level t'' = (level t')\<lparr>sr_state := S, sr_saved := S\<rparr>
    \<and> stack_ok t''"
proof -
  have str: "str \<noteq> []" using assms(4) by auto
  have ok: "stack_ok t'" using frame_ok [OF assms(6,1)] .
  obtain s0 sv v k where l: "level t' = lev s0 sv v k" by (cases "level t'") auto
  have t: "then_state S t' = set_level (lev S_eatws S v k) t'" using ok l by (simp add: set_defs)
  have 1: "reads L (t, obj, c # str) (advance 1 (then_state S t'), obj, str)"
    by (rule reads_break [OF assms(1)]) (use assms(2,3,6) str in \<open>simp_all add: t\<close>)
  show ?thesis
    using reads_then [OF 1 _ _ assms(4,5), of S v k] ok l by (auto simp: t)
qed

lemma element_read:
  assumes "stack_ok t" "level t = lev S_eatws st (JArray us) None" "st \<in> {S_array, S_array_after_sep}"
    "\<forall>x \<in> set ws. c_isspace x" "value_read L v s" "s = c # cs" "value_char c"
    "tk_depth t + 1 + json_depth v < tk_max_depth t" "follows rest rest'"
  shows "\<exists>t' obj'. reads L (t, obj, ws @ s @ rest) (t', obj', rest')
    \<and> level t' = lev S_array_sep S_array_sep (JArray (us @ [v])) None"
proof -
  have drop: "dropWhile c_isspace (ws @ s @ rest) = c # cs @ rest"
    using assms(4,6,7) by (simp add: dropWhile_append value_char_def)
  have c: "c \<noteq> CHR ''/''" "c \<noteq> CHR '']''" using assms(7) by (auto simp: value_char_def)
  obtain t1 where t1: "reads L (t, obj, ws @ s @ rest) (t1, obj, s @ rest)" "level t1 = lev st st (JArray us) None"
    using reads_white [OF assms(1,2), of "s @ rest" "ws @ s @ rest" L obj] c(1) drop by (auto simp: assms(6))
  have ok1: "stack_ok t1" using reads_ok [OF t1(1) assms(1)] .
  have d: "tk_depth t1 = tk_depth t" "tk_max_depth t1 = tk_max_depth t" using t1(1) by (auto simp: reads_def frame_def)
  have "tok_step L (- 1) (t1, obj, c, c # cs @ rest) = push_level S_array_add (t1, obj, c, c # cs @ rest)"
    using t1(2) assms(3) c(2) by (auto simp: tok_step_def array_step_def)
  then obtain t2 where t2: "reads L (t1, obj, s @ rest) (t2, v, rest')" "level t2 = lev S_array_add st (JArray us) None"
    using nested [OF ok1 _ assms(5) _ _ assms(7,9), of obj "cs @ rest" S_array_add] assms(6,8) t1(2) d by auto
  have ok2: "stack_ok t2" using reads_ok [OF t2(1) ok1] .
  let ?t3 = "set_level (lev S_eatws S_array_sep (JArray (us @ [v])) None) t2"
  have "tok_step L (- 1) (t2, v, hd rest', rest') = Some (Redo, ?t3, v, hd rest', rest')"
    using t2(2) ok2 by (simp add: tok_step_def array_add_step_def set_defs)
  then have 3: "reads L (t2, v, rest') (?t3, v, rest')" by (rule reads_redo [rotated]) (use ok2 in simp_all)
  have r: "dropWhile c_isspace rest' = hd rest' # tl rest'" "hd rest' \<noteq> CHR ''/''"
    using assms(9) by (auto simp: follows_def)
  obtain t4 where "reads L (t, obj, ws @ s @ rest) (t4, v, rest')"
    "level t4 = lev S_array_sep S_array_sep (JArray (us @ [v])) None"
    using reads_then [OF reads_trans [OF t1(1) reads_trans [OF t2(1) 3]] _ _ r] ok2 assms(9) by (auto simp: follows_def)
  then show ?thesis by blast
qed

text \<open>What closes an array or an object.\<close>

lemma closing_chars:
  "\<forall>c \<in> set [CHR '']'', CHR ''}'', CHR '','']. \<not> c_isspace c \<and> c \<noteq> CHR ''/'' \<and> c \<notin> set json_number_chars \<and> c \<noteq> CHR 0x00"
  "\<forall>c \<in> set [CHR 0x0A, CHR '' '']. c_isspace c \<and> c \<notin> set json_number_chars"
  by code_simp+

lemma closing_text_drop:
  assumes "c \<in> set [CHR '']'', CHR ''}'']"
  shows "dropWhile c_isspace (closing_text flags l h c @ rest) = c # rest"
    "follows (closing_text flags l h c @ rest) (c # rest)"
proof -
  have c: "\<not> c_isspace c" "c \<noteq> CHR ''/''" "c \<notin> set json_number_chars"
    using assms closing_chars(1) by auto
  let ?ws = "(if pretty flags then (if h then [CHR 0x0A] else []) @ indent_text flags l else []) @ space_text flags"
  have "\<forall>x \<in> set ?ws. x \<in> set [CHR 0x0A, CHR '' '']" by (simp add: indent_text_def space_text_def) blast
  then have ws: "\<forall>x \<in> set ?ws. c_isspace x \<and> x \<notin> set json_number_chars" using closing_chars(2) by blast
  have cl: "closing_text flags l h c @ rest = ?ws @ c # rest" by (simp add: closing_text_def)
  show d: "dropWhile c_isspace (closing_text flags l h c @ rest) = c # rest"
    unfolding cl using ws c(1) by (subst dropWhile_append2) auto
  have "hd (?ws @ c # rest) \<in> set (?ws @ [c])" by (cases ?ws) (simp_all only: list.sel append.simps list.set, blast+)
  then have "hd (?ws @ c # rest) \<notin> set json_number_chars" using ws c(3) by auto
  then show "follows (closing_text flags l h c @ rest) (c # rest)"
    using d c(2) by (simp only: follows_def cl list.sel) simp
qed

text \<open>The white space before an element, behind its comma.\<close>

definition white_text :: "u32 \<Rightarrow> nat \<Rightarrow> string" where
  "white_text flags l = space_text flags @ indent_text flags (l + 1)"

lemma white_text_space: "\<forall>x \<in> set (newline_text flags @ white_text flags l). c_isspace x"
  by (auto simp: white_text_def newline_text_def space_text_def indent_text_def closing_chars(2))

text \<open>The elements behind the first one, to the end of the array.\<close>

lemma array_read:
  fixes f :: "'d json \<Rightarrow> 'd json"
  assumes "stack_ok t" "level t = lev S_array_sep S_array_sep (JArray us) None" "follows rest rest'"
    "\<forall>v \<in> set vs. value_read L (f v) (json_text D flags v (l + 1)) \<and> tk_depth t + 1 + json_depth (f v) < tk_max_depth t
      \<and> (\<exists>c cs. json_text D flags v (l + 1) = c # cs \<and> value_char c)"
  shows "\<exists>t' obj'. reads L (t, obj, dropWhile c_isspace
      (array_text D flags vs l True @ closing_text flags l h (CHR '']'') @ rest)) (t', obj', rest')
    \<and> level t' = lev S_finish S_finish (JArray (us @ map f vs)) None"
  using assms(1,2,4)
proof (induction vs arbitrary: t us obj)
  case Nil
  let ?t = "set_level (lev S_eatws S_finish (JArray us) None) t"
  have drop: "dropWhile c_isspace (closing_text flags l h (CHR '']'') @ rest) = CHR '']'' # rest"
    by (rule closing_text_drop) simp
  have "tok_step L (- 1) (t, obj, hd (CHR '']'' # rest), CHR '']'' # rest) = Some (Break, ?t, obj, CHR '']'', CHR '']'' # rest)"
    using Nil.prems by (simp add: tok_step_def array_sep_step_def set_defs)
  then have 1: "reads L (t, obj, CHR '']'' # rest) (advance 1 ?t, obj, rest)"
    by (rule reads_break [rotated]) (use Nil.prems follows_ne [OF assms(3)] in simp_all)
  show ?case using reads_finish [OF 1 _ _ assms(3)] Nil.prems by (simp add: drop)
next
  case (Cons v vs)
  let ?tail = "array_text D flags vs l True @ closing_text flags l h (CHR '']'') @ rest"
  let ?s = "json_text D flags v (l + 1)" and ?ws = "newline_text flags @ white_text flags l"
  let ?str = "array_text D flags (v # vs) l True @ closing_text flags l h (CHR '']'') @ rest"
  have str: "?str = CHR '','' # ?ws @ ?s @ ?tail" by (simp add: separator_text_def white_text_def)
  have drop: "dropWhile c_isspace ?str = ?str" unfolding str using closing_chars(1) by simp
  have f: "follows ?tail (dropWhile c_isspace ?tail)"
  proof (cases vs)
    case Nil
    then show ?thesis using closing_text_drop [of "CHR '']''" flags l h rest] by simp
  next
    case (Cons w ws)
    then show ?thesis using closing_chars(1) by (simp add: follows_def separator_text_def)
  qed
  let ?t = "set_level (lev S_eatws S_array_after_sep (JArray us) None) t"
  have "tok_step L (- 1) (t, obj, hd ?str, ?str) = Some (Break, ?t, obj, CHR '','', CHR '','' # ?ws @ ?s @ ?tail)"
    using Cons.prems unfolding str by (simp add: tok_step_def array_sep_step_def set_defs)
  then have 1: "reads L (t, obj, ?str) (advance 1 ?t, obj, ?ws @ ?s @ ?tail)"
    by (rule reads_break [rotated]) (use Cons.prems in auto)
  obtain c cs where c: "?s = c # cs" "value_char c" using Cons.prems(3) by auto
  have ok: "stack_ok (advance 1 ?t)" "level (advance 1 ?t) = lev S_eatws S_array_after_sep (JArray us) None"
    using Cons.prems(1) by simp_all
  obtain t2 obj2 where t2: "reads L (advance 1 ?t, obj, ?ws @ ?s @ ?tail) (t2, obj2, dropWhile c_isspace ?tail)"
    "level t2 = lev S_array_sep S_array_sep (JArray (us @ [f v])) None"
    using element_read [OF ok _ white_text_space [of flags l] _ c _ f, of L "f v" obj] Cons.prems(3) by auto
  have ok2: "stack_ok t2" using reads_ok [OF t2(1) ok(1)] .
  have "tk_depth t2 = tk_depth t" "tk_max_depth t2 = tk_max_depth t" using t2(1) by (auto simp: reads_def frame_def)
  then obtain t' obj' where t': "reads L (t2, obj2, dropWhile c_isspace ?tail) (t', obj', rest')"
    "level t' = lev S_finish S_finish (JArray ((us @ [f v]) @ map f vs)) None"
    using Cons.IH [OF ok2 t2(2), of obj2] Cons.prems(3) by auto
  show ?case unfolding drop using reads_trans [OF 1 reads_trans [OF t2(1) t'(1)]] t'(2) by auto
qed

lemma foldr_max_le: "n \<in> set ns \<Longrightarrow> n \<le> foldr max ns (0 :: nat)"
  by (induction ns) auto

lemma json_depth_element: "v \<in> set vs \<Longrightarrow> json_depth v + 1 \<le> json_depth (JArray vs)"
  by (simp only: json_depth.simps, rule foldr_max_le) auto

lemma json_depth_member: "(k, v) \<in> set kvs \<Longrightarrow> json_depth v + 1 \<le> json_depth (JObject kvs)"
  by (simp only: json_depth.simps, rule foldr_max_le) force

lemma value_read_array:
  fixes f :: "'d json \<Rightarrow> 'd json"
  assumes "\<forall>v \<in> set vs. value_read (L :: 'd lib) (f v) (json_text D flags v (l + 1))
      \<and> (\<exists>c cs. json_text D flags v (l + 1) = c # cs \<and> value_char c)"
  shows "value_read L (JArray (map f vs)) (json_text D flags (JArray vs) l)"
  unfolding value_read_def
proof (intro allI impI)
  fix t :: "'d tokener" and obj rest rest'
  assume t: "at_start t" and depth: "tk_depth t + json_depth (JArray (map f vs)) < tk_max_depth t" and follows: "follows rest rest'"
  let ?cl = "closing_text flags l (vs \<noteq> []) (CHR '']'') @ rest"
  let ?body = "newline_text flags @ array_text D flags vs l False @ ?cl"
  let ?t = "set_level (lev S_eatws S_array (JArray []) None) t"
  have body: "json_text D flags (JArray vs) l @ rest = CHR ''['' # ?body" by simp
  have "?body \<noteq> []" using closing_text_drop(1) [of "CHR '']''" flags l "vs \<noteq> []" rest] by auto
  have "tok_step L (- 1) (t, obj, hd (CHR ''['' # ?body), CHR ''['' # ?body) = Some (Break, ?t, obj, CHR ''['', CHR ''['' # ?body)"
    using t by (simp add: tok_step_def start_step_def set_defs Let_def)
  then have 1: "reads L (t, obj, CHR ''['' # ?body) (advance 1 ?t, obj, ?body)"
    by (rule reads_break [rotated]) (use t \<open>?body \<noteq> []\<close> in simp_all)
  have ok: "stack_ok (advance 1 ?t)" "level (advance 1 ?t) = lev S_eatws S_array (JArray []) None" using t by simp_all
  have "\<exists>t' obj'. reads L (advance 1 ?t, obj, ?body) (t', obj', rest')
      \<and> level t' = lev S_finish S_finish (JArray (map f vs)) None"
  proof (cases vs)
    case Nil
    have "\<forall>x \<in> set (newline_text flags). c_isspace x" using white_text_space [of flags l] by simp
    then have drop: "dropWhile c_isspace ?body = CHR '']'' # rest"
      using closing_text_drop(1) [of "CHR '']''" flags l "vs \<noteq> []" rest] by (simp add: Nil)
    obtain t1 where t1: "reads L (advance 1 ?t, obj, ?body) (t1, obj, CHR '']'' # rest)"
      "level t1 = lev S_array S_array (JArray []) None"
      using reads_white [OF ok, of "CHR '']'' # rest" ?body L obj] drop by auto
    have ok1: "stack_ok t1" using reads_ok [OF t1(1) ok(1)] .
    let ?t2 = "set_level (lev S_eatws S_finish (JArray []) None) t1"
    have "tok_step L (- 1) (t1, obj, hd (CHR '']'' # rest), CHR '']'' # rest)
        = Some (Break, ?t2, obj, CHR '']'', CHR '']'' # rest)"
      using t1(2) ok1 by (simp add: tok_step_def array_step_def set_defs)
    then have 2: "reads L (t1, obj, CHR '']'' # rest) (advance 1 ?t2, obj, rest)"
      by (rule reads_break [rotated]) (use ok1 follows_ne [OF follows] in simp_all)
    show ?thesis using reads_finish [OF reads_trans [OF t1(1) 2] _ _ follows] ok1 Nil by simp
  next
    case (Cons v us)
    let ?tail = "array_text D flags us l True @ ?cl" and ?s = "json_text D flags v (l + 1)"
    have b: "?body = (newline_text flags @ white_text flags l) @ ?s @ ?tail"
      by (simp add: Cons separator_text_def white_text_def)
    have fo: "follows ?tail (dropWhile c_isspace ?tail)"
    proof (cases us)
      case Nil
      then show ?thesis using closing_text_drop [of "CHR '']''" flags l "vs \<noteq> []" rest] by simp
    qed (use closing_chars(1) in \<open>simp add: follows_def separator_text_def\<close>)
    obtain c cs where c: "?s = c # cs" "value_char c" using assms Cons by auto
    have dv: "\<forall>v \<in> set vs. tk_depth t + 1 + json_depth (f v) < tk_max_depth t"
      using json_depth_element [of _ "map f vs"] depth by fastforce
    then have "tk_depth (advance 1 ?t) + 1 + json_depth (f v) < tk_max_depth (advance 1 ?t)" by (simp add: Cons)
    moreover have "value_read L (f v) ?s" using assms Cons by simp
    ultimately obtain t2 obj2 where t2: "reads L (advance 1 ?t, obj, ?body) (t2, obj2, dropWhile c_isspace ?tail)"
      "level t2 = lev S_array_sep S_array_sep (JArray [f v]) None"
      using element_read [OF ok _ white_text_space [of flags l] _ c _ fo, of L "f v" obj] unfolding b by auto
    have ok2: "stack_ok t2" using reads_ok [OF t2(1) ok(1)] .
    have "tk_depth t2 = tk_depth t" "tk_max_depth t2 = tk_max_depth t" using t2(1) by (auto simp: reads_def frame_def)
    then obtain t' obj' where "reads L (t2, obj2, dropWhile c_isspace ?tail) (t', obj', rest')"
      "level t' = lev S_finish S_finish (JArray (map f vs)) None"
      using array_read [OF ok2 t2(2) follows, of us L f D flags l obj2 "vs \<noteq> []"] assms dv Cons by auto
    then show ?thesis using reads_trans [OF t2(1)] by blast
  qed
  then show "\<exists>t' obj'. reads L (t, obj, json_text D flags (JArray vs) l @ rest) (t', obj', rest')
      \<and> level t' = lev S_finish S_finish (JArray (map f vs)) None"
    unfolding body using reads_trans [OF 1] by blast
qed

section \<open>Objects\<close>

lemma key_read:
  assumes "stack_ok t" "level t = lev S_eatws st (JObject kvs) None"
    "st \<in> {S_object_field_start, S_object_field_start_after_sep}" "\<forall>x \<in> set ws. c_isspace x" "CHR 0x00 \<notin> set k"
    "\<forall>x \<in> set ws'. c_isspace x" "value_char c"
  shows "\<exists>t'. reads L (t, obj, ws @ CHR 0x22 # escape_text k @ CHR 0x22 # CHR '':'' # ws' @ c # str) (t', obj, c # str)
    \<and> level t' = lev S_object_value S_object_value (JObject kvs) (Some k) \<and> stack_ok t'"
proof -
  let ?val = "ws' @ c # str" and ?q = "CHR 0x22 :: char"
  let ?key = "escape_text k @ ?q # CHR '':'' # ?val"
  have "\<not> c_isspace ?q" by (simp add: c_isspace_def)
  then have drop: "dropWhile c_isspace (ws @ ?q # ?key) = ?q # ?key" using assms(4) by (simp add: dropWhile_append)
  obtain t1 where t1: "reads L (t, obj, ws @ ?q # ?key) (t1, obj, ?q # ?key)" "level t1 = lev st st (JObject kvs) None"
    using reads_white [OF assms(1,2), of "?q # ?key" "ws @ ?q # ?key" L obj] drop by auto
  have ok1: "stack_ok t1" using reads_ok [OF t1(1) assms(1)] .
  let ?t2 = "(set_level (lev S_object_field st (JObject kvs) None) t1)\<lparr>tk_pb := [], tk_quote_char := ?q\<rparr>"
  have q: "tok_step L (- 1) (t1, obj, hd (?q # ?key), ?q # ?key) = Some (Break, ?t2, obj, ?q, ?q # ?key)"
    using t1(2) assms(3) ok1
    by (elim insertE emptyE) (simp_all add: tok_step_def field_start_step_def set_state_def set_level_def level_def)
  have 2: "reads L (t1, obj, ?q # ?key) (advance 1 ?t2, obj, ?key)"
    by (rule reads_break [OF ok1 q]) simp_all
  obtain t3 run sv where t3: "reads L (advance 1 ?t2, obj, ?key) (t3, obj, run @ ?q # CHR '':'' # ?val)"
    "level t3 = lev S_object_field sv (JObject kvs) None" "tk_pb t3 @ run = k" "tk_quote_char t3 = ?q"
    "\<forall>x \<in> set run. plain_char x"
    using reads_text [of "advance 1 ?t2" S_object_field st "JObject kvs" None L obj k "CHR '':'' # ?val"] ok1 by auto
  have ok3: "stack_ok t3" using reads_ok [OF t3(1)] ok1 by simp
  have g: "gather (\<lambda>c. c \<noteq> ?q \<and> c \<noteq> CHR 0x5C) (- 1) [] t3 (hd (run @ ?q # CHR '':'' # ?val)) (run @ ?q # CHR '':'' # ?val)
      = Some (True, run, advance (length run) t3, ?q, ?q # CHR '':'' # ?val)"
    using gather_run [of run "\<lambda>c. c \<noteq> ?q \<and> c \<noteq> CHR 0x5C" ?q "[]" t3 "CHR '':'' # ?val"] t3(5)
    by (auto simp: plain_char_def)
  have k: "c_str k = k" using assms(5) by (auto simp: c_str_def takeWhile_eq_all_conv)
  let ?t4 = "set_level (lev S_eatws S_object_field_end (JObject kvs) (Some k)) (add_text run (advance (length run) t3))"
  have f: "tok_step L (- 1) (t3, obj, hd (run @ ?q # CHR '':'' # ?val), run @ ?q # CHR '':'' # ?val)
      = Some (Break, ?t4, obj, ?q, ?q # CHR '':'' # ?val)"
    using t3(2-4) g ok3 k by (simp add: tok_step_def object_field_step_def set_defs Let_def)
  have 4: "reads L (t3, obj, run @ ?q # CHR '':'' # ?val) (advance 1 ?t4, obj, CHR '':'' # ?val)"
    by (rule reads_break [OF ok3 f]) (use ok3 in simp_all)
  have colon: "dropWhile c_isspace (CHR '':'' # ?val) = CHR '':'' # ?val" by (simp add: c_isspace_def)
  have "reads L (t, obj, ws @ ?q # ?key) (advance 1 ?t4, obj, CHR '':'' # ?val)"
    by (rule reads_trans [OF t1(1) reads_trans [OF 2 reads_trans [OF t3(1) 4]]])
  from reads_then [OF this _ _ colon]
  obtain t5 where t5: "reads L (t, obj, ws @ ?q # ?key) (t5, obj, CHR '':'' # ?val)"
    "level t5 = lev S_object_field_end S_object_field_end (JObject kvs) (Some k)" "stack_ok t5"
    using ok3 by auto
  have e: "tok_step L (- 1) (t5, obj, CHR '':'', CHR '':'' # ?val)
      = Some (Break, then_state S_object_value t5, obj, CHR '':'', CHR '':'' # ?val)"
    using t5(2) by (simp add: tok_step_def field_end_step_def)
  have v: "dropWhile c_isspace ?val = c # str" "c \<noteq> CHR ''/''"
    using assms(6,7) by (simp_all add: dropWhile_append value_char_def)
  obtain t6 where "reads L (t5, obj, CHR '':'' # ?val) (t6, obj, c # str)" "stack_ok t6"
    "level t6 = lev S_object_value S_object_value (JObject kvs) (Some k)"
    using reads_then_state [OF t5(3) e _ v] t5(2) by auto
  then show ?thesis using reads_trans [OF t5(1)] by blast
qed

lemma member_read:
  assumes "stack_ok t" "level t = lev S_eatws st (JObject kvs) None"
    "st \<in> {S_object_field_start, S_object_field_start_after_sep}" "\<forall>x \<in> set ws. c_isspace x" "CHR 0x00 \<notin> set k"
    "\<forall>x \<in> set ws'. c_isspace x" "value_read L v s" "s = c # cs" "value_char c"
    "tk_depth t + 1 + json_depth v < tk_max_depth t" "follows rest rest'"
  shows "\<exists>t' obj'. reads L (t, obj, ws @ CHR 0x22 # escape_text k @ CHR 0x22 # CHR '':'' # ws' @ s @ rest) (t', obj', rest')
    \<and> level t' = lev S_object_sep S_object_sep (JObject (json_object_object_add kvs k v)) None"
proof -
  let ?x = "(t, obj, ws @ CHR 0x22 # escape_text k @ CHR 0x22 # CHR '':'' # ws' @ s @ rest)"
  obtain t1 where t1: "reads L ?x (t1, obj, s @ rest)" "stack_ok t1"
    "level t1 = lev S_object_value S_object_value (JObject kvs) (Some k)"
    using key_read [OF assms(1-6,9), of L obj "cs @ rest"] by (auto simp: assms(8))
  have d: "tk_depth t1 = tk_depth t" "tk_max_depth t1 = tk_max_depth t" using t1(1) by (auto simp: reads_def frame_def)
  have "tok_step L (- 1) (t1, obj, c, c # cs @ rest) = push_level S_object_value_add (t1, obj, c, c # cs @ rest)"
    using t1(3) by (simp add: tok_step_def object_value_step_def)
  then obtain t2 where t2: "reads L (t1, obj, s @ rest) (t2, v, rest')"
    "level t2 = lev S_object_value_add S_object_value (JObject kvs) (Some k)"
    using nested [OF t1(2) _ assms(7) _ _ assms(9,11), of obj "cs @ rest" S_object_value_add] assms(8,10) t1(3) d by auto
  have ok2: "stack_ok t2" using reads_ok [OF t2(1) t1(2)] .
  let ?t3 = "set_level (lev S_eatws S_object_sep (JObject (json_object_object_add kvs k v)) None) t2"
  have "tok_step L (- 1) (t2, v, hd rest', rest') = Some (Redo, ?t3, v, hd rest', rest')"
    using t2(2) ok2 by (simp add: tok_step_def object_value_add_step_def set_defs)
  then have 3: "reads L (t2, v, rest') (?t3, v, rest')" by (rule reads_redo [rotated]) (use ok2 in simp_all)
  have r: "dropWhile c_isspace rest' = hd rest' # tl rest'" "hd rest' \<noteq> CHR ''/''"
    using assms(11) by (auto simp: follows_def)
  obtain t4 where "reads L ?x (t4, v, rest')"
    "level t4 = lev S_object_sep S_object_sep (JObject (json_object_object_add kvs k v)) None"
    using reads_then [OF reads_trans [OF t1(1) reads_trans [OF t2(1) 3]] _ _ r] ok2 assms(11) by (auto simp: follows_def)
  then show ?thesis by blast
qed

lemma json_object_object_add_new: "k \<notin> fst ` set kvs \<Longrightarrow> json_object_object_add kvs k v = kvs @ [(k, v)]"
  by (induction kvs k v rule: json_object_object_add.induct) auto

lemma space_text_space: "\<forall>x \<in> set (space_text flags). c_isspace x"
  using white_text_space [of flags 0] by (simp add: white_text_def)

lemma follows_object_text:
  "follows (object_text D flags kvs l True @ closing_text flags l h (CHR ''}'') @ rest)
    (dropWhile c_isspace (object_text D flags kvs l True @ closing_text flags l h (CHR ''}'') @ rest))"
proof (cases kvs)
  case Nil
  then show ?thesis using closing_text_drop [of "CHR ''}''" flags l h rest] by simp
next
  case (Cons kv ws)
  then show ?thesis using closing_chars(1) by (cases kv) (simp add: follows_def separator_text_def)
qed

lemma object_read:
  fixes f :: "'d json \<Rightarrow> 'd json"
  assumes "stack_ok t" "level t = lev S_object_sep S_object_sep (JObject us) None" "follows rest rest'"
    "\<forall>(k, v) \<in> set kvs. value_read L (f v) (json_text D flags v (l + 1)) \<and> tk_depth t + 1 + json_depth (f v) < tk_max_depth t
      \<and> (\<exists>c cs. json_text D flags v (l + 1) = c # cs \<and> value_char c) \<and> CHR 0x00 \<notin> set k"
    "distinct (map fst (us @ kvs))"
  shows "\<exists>t' obj'. reads L (t, obj, dropWhile c_isspace
      (object_text D flags kvs l True @ closing_text flags l h (CHR ''}'') @ rest)) (t', obj', rest')
    \<and> level t' = lev S_finish S_finish (JObject (us @ map (\<lambda>(k, v). (k, f v)) kvs)) None"
  using assms(1,2,4,5)
proof (induction kvs arbitrary: t us obj)
  case Nil
  let ?t = "set_level (lev S_eatws S_finish (JObject us) None) t"
  have drop: "dropWhile c_isspace (closing_text flags l h (CHR ''}'') @ rest) = CHR ''}'' # rest"
    by (rule closing_text_drop) simp
  have "tok_step L (- 1) (t, obj, hd (CHR ''}'' # rest), CHR ''}'' # rest) = Some (Break, ?t, obj, CHR ''}'', CHR ''}'' # rest)"
    using Nil.prems by (simp add: tok_step_def object_sep_step_def set_defs)
  then have 1: "reads L (t, obj, CHR ''}'' # rest) (advance 1 ?t, obj, rest)"
    by (rule reads_break [rotated]) (use Nil.prems follows_ne [OF assms(3)] in simp_all)
  show ?case using reads_finish [OF 1 _ _ assms(3)] Nil.prems by (simp add: drop)
next
  case (Cons kv kvs)
  obtain k v where kv: "kv = (k, v)" by (cases kv)
  let ?tail = "object_text D flags kvs l True @ closing_text flags l h (CHR ''}'') @ rest"
  let ?s = "json_text D flags v (l + 1)" and ?ws = "newline_text flags @ white_text flags l"
  let ?str = "object_text D flags (kv # kvs) l True @ closing_text flags l h (CHR ''}'') @ rest"
  let ?member = "?ws @ CHR 0x22 # escape_text k @ CHR 0x22 # CHR '':'' # space_text flags @ ?s @ ?tail"
  have str: "?str = CHR '','' # ?member" by (simp add: kv separator_text_def white_text_def)
  have drop: "dropWhile c_isspace ?str = ?str" unfolding str using closing_chars(1) by simp
  let ?t = "set_level (lev S_eatws S_object_field_start_after_sep (JObject us) None) t"
  have "tok_step L (- 1) (t, obj, hd ?str, ?str) = Some (Break, ?t, obj, CHR '','', CHR '','' # ?member)"
    using Cons.prems unfolding str by (simp add: tok_step_def object_sep_step_def set_defs)
  then have 1: "reads L (t, obj, ?str) (advance 1 ?t, obj, ?member)"
    by (rule reads_break [rotated]) (use Cons.prems in auto)
  have m: "value_read L (f v) ?s" "CHR 0x00 \<notin> set k" "tk_depth (advance 1 ?t) + 1 + json_depth (f v) < tk_max_depth (advance 1 ?t)"
    using Cons.prems(3) by (simp_all add: kv)
  obtain c cs where c: "?s = c # cs" "value_char c" using Cons.prems(3) by (auto simp: kv)
  have ok: "stack_ok (advance 1 ?t)" "level (advance 1 ?t) = lev S_eatws S_object_field_start_after_sep (JObject us) None"
    using Cons.prems(1) by simp_all
  have add: "json_object_object_add us k (f v) = us @ [(k, f v)]"
    by (rule json_object_object_add_new) (use Cons.prems(4) in \<open>auto simp: kv\<close>)
  have fo: "follows ?tail (dropWhile c_isspace ?tail)" by (rule follows_object_text)
  obtain t2 obj2 where t2: "reads L (advance 1 ?t, obj, ?member) (t2, obj2, dropWhile c_isspace ?tail)"
    "level t2 = lev S_object_sep S_object_sep (JObject (us @ [(k, f v)])) None"
    using member_read [OF ok _ white_text_space [of flags l] m(2) space_text_space [of flags] m(1) c m(3)
        fo, of obj] unfolding add by auto
  have ok2: "stack_ok t2" using reads_ok [OF t2(1) ok(1)] .
  have "tk_depth t2 = tk_depth t" "tk_max_depth t2 = tk_max_depth t" using t2(1) by (auto simp: reads_def frame_def)
  then obtain t' obj' where t': "reads L (t2, obj2, dropWhile c_isspace ?tail) (t', obj', rest')"
    "level t' = lev S_finish S_finish (JObject ((us @ [(k, f v)]) @ map (\<lambda>(k, v). (k, f v)) kvs)) None"
    using Cons.IH [OF ok2 t2(2), of obj2] Cons.prems(3,4) by (auto simp: kv)
  have "reads L (t, obj, ?str) (t', obj', rest')" by (rule reads_trans [OF 1 reads_trans [OF t2(1) t'(1)]])
  then show ?case unfolding drop using t'(2) by (auto simp: kv)
qed

lemma value_read_object:
  fixes f :: "'d json \<Rightarrow> 'd json"
  assumes "\<forall>(k, v) \<in> set kvs. value_read (L :: 'd lib) (f v) (json_text D flags v (l + 1))
      \<and> (\<exists>c cs. json_text D flags v (l + 1) = c # cs \<and> value_char c) \<and> CHR 0x00 \<notin> set k"
    "distinct (map fst kvs)"
  shows "value_read L (JObject (map (\<lambda>(k, v). (k, f v)) kvs)) (json_text D flags (JObject kvs) l)"
  unfolding value_read_def
proof (intro allI impI)
  fix t :: "'d tokener" and obj rest rest'
  assume t: "at_start t" and depth: "tk_depth t + json_depth (JObject (map (\<lambda>(k, v). (k, f v)) kvs)) < tk_max_depth t" and follows: "follows rest rest'"
  let ?cl = "closing_text flags l (kvs \<noteq> []) (CHR ''}'') @ rest"
  let ?body = "newline_text flags @ object_text D flags kvs l False @ ?cl"
  let ?t = "set_level (lev S_eatws S_object_field_start (JObject []) None) t"
  have body: "json_text D flags (JObject kvs) l @ rest = CHR ''{'' # ?body" by simp
  have "?body \<noteq> []" using closing_text_drop(1) [of "CHR ''}''" flags l "kvs \<noteq> []" rest] by auto
  have "tok_step L (- 1) (t, obj, hd (CHR ''{'' # ?body), CHR ''{'' # ?body) = Some (Break, ?t, obj, CHR ''{'', CHR ''{'' # ?body)"
    using t by (simp add: tok_step_def start_step_def set_defs Let_def)
  then have 1: "reads L (t, obj, CHR ''{'' # ?body) (advance 1 ?t, obj, ?body)"
    by (rule reads_break [rotated]) (use t \<open>?body \<noteq> []\<close> in simp_all)
  have ok: "stack_ok (advance 1 ?t)" "level (advance 1 ?t) = lev S_eatws S_object_field_start (JObject []) None"
    using t by simp_all
  have "\<exists>t' obj'. reads L (advance 1 ?t, obj, ?body) (t', obj', rest')
      \<and> level t' = lev S_finish S_finish (JObject (map (\<lambda>(k, v). (k, f v)) kvs)) None"
  proof (cases kvs)
    case Nil
    have "\<forall>x \<in> set (newline_text flags). c_isspace x" using white_text_space [of flags l] by simp
    then have drop: "dropWhile c_isspace ?body = CHR ''}'' # rest"
      using closing_text_drop(1) [of "CHR ''}''" flags l "kvs \<noteq> []" rest] by (simp add: Nil)
    obtain t1 where t1: "reads L (advance 1 ?t, obj, ?body) (t1, obj, CHR ''}'' # rest)"
      "level t1 = lev S_object_field_start S_object_field_start (JObject []) None"
      using reads_white [OF ok, of "CHR ''}'' # rest" ?body L obj] drop by auto
    have ok1: "stack_ok t1" using reads_ok [OF t1(1) ok(1)] .
    let ?t2 = "set_level (lev S_eatws S_finish (JObject []) None) t1"
    have "tok_step L (- 1) (t1, obj, hd (CHR ''}'' # rest), CHR ''}'' # rest)
        = Some (Break, ?t2, obj, CHR ''}'', CHR ''}'' # rest)"
      using t1(2) ok1 by (simp add: tok_step_def field_start_step_def set_defs)
    then have 2: "reads L (t1, obj, CHR ''}'' # rest) (advance 1 ?t2, obj, rest)"
      by (rule reads_break [rotated]) (use ok1 follows_ne [OF follows] in simp_all)
    show ?thesis using reads_finish [OF reads_trans [OF t1(1) 2] _ _ follows] ok1 Nil by simp
  next
    case (Cons kv us)
    obtain k v where kv: "kv = (k, v)" by (cases kv)
    let ?tail = "object_text D flags us l True @ ?cl" and ?s = "json_text D flags v (l + 1)"
    have b: "?body = (newline_text flags @ white_text flags l) @ CHR 0x22 # escape_text k @ CHR 0x22 # CHR '':''
        # space_text flags @ ?s @ ?tail"
      by (simp add: Cons kv separator_text_def white_text_def)
    obtain c cs where c: "?s = c # cs" "value_char c" using assms(1) Cons kv by auto
    have dv: "\<forall>(k, v) \<in> set kvs. tk_depth t + 1 + json_depth (f v) < tk_max_depth t"
      using json_depth_member [of _ _ "map (\<lambda>(k, v). (k, f v)) kvs"] depth by fastforce
    then have m: "tk_depth (advance 1 ?t) + 1 + json_depth (f v) < tk_max_depth (advance 1 ?t)" "value_read L (f v) ?s" "CHR 0x00 \<notin> set k"
      using assms(1) by (simp_all add: Cons kv)
    have fo: "follows ?tail (dropWhile c_isspace ?tail)" by (rule follows_object_text)
    obtain t2 obj2 where t2: "reads L (advance 1 ?t, obj, ?body) (t2, obj2, dropWhile c_isspace ?tail)"
      "level t2 = lev S_object_sep S_object_sep (JObject [(k, f v)]) None"
      using member_read [OF ok _ white_text_space [of flags l] m(3) space_text_space [of flags] m(2) c m(1)
          fo, of obj] unfolding b by auto
    have ok2: "stack_ok t2" using reads_ok [OF t2(1) ok(1)] .
    have "tk_depth t2 = tk_depth t" "tk_max_depth t2 = tk_max_depth t" using t2(1) by (auto simp: reads_def frame_def)
    then have "\<forall>(k, v) \<in> set us. value_read L (f v) (json_text D flags v (l + 1))
        \<and> tk_depth t2 + 1 + json_depth (f v) < tk_max_depth t2
        \<and> (\<exists>c cs. json_text D flags v (l + 1) = c # cs \<and> value_char c) \<and> CHR 0x00 \<notin> set k"
      using assms(1) dv unfolding Cons kv by (auto simp: split_beta)
    moreover have "distinct (map fst ([(k, f v)] @ us))" using assms(2) Cons kv by simp
    ultimately obtain t' obj' where
      "reads L (t2, obj2, dropWhile c_isspace ?tail) (t', obj', rest')" "level t' = lev S_finish S_finish (JObject (map (\<lambda>(k, v). (k, f v)) kvs)) None"
      using object_read [OF ok2 t2(2) follows, of us L f D flags l obj2 "kvs \<noteq> []"] Cons kv by auto
    then show ?thesis using reads_trans [OF t2(1)] by blast
  qed
  then show "\<exists>t' obj'. reads L (t, obj, json_text D flags (JObject kvs) l @ rest) (t', obj', rest')
      \<and> level t' = lev S_finish S_finish (JObject (map (\<lambda>(k, v). (k, f v)) kvs)) None"
    unfolding body using reads_trans [OF 1] by blast
qed

section \<open>All values\<close>

text \<open>
  The values a text can give back: keys are different C strings. A \<open>double\<close> with a text
  of its own is printed as that, and the library reads it as the \<open>double\<close>. One without
  is printed with 17 digits, which the library reads as the \<open>double\<close> too; with the
  flag that drops zeros it must not have both a point and an exponent that ends with a
  zero (\<open>nozero_cuts_exponent\<close>). Minus infinity is not always read again: the tokener
  does not clear \<open>st_pos\<close> before it.
\<close>

definition double_readable :: "'d lib \<Rightarrow> 'd \<Rightarrow> string \<Rightarrow> bool" where
  "double_readable L d s \<longleftrightarrow> s \<noteq> [] \<and> (c_isdigit (hd s) \<or> hd s = CHR ''-'') \<and> (\<forall>x \<in> set s. number_char x)
     \<and> (\<exists>x \<in> set s. x \<in> {CHR ''.'', CHR ''e'', CHR ''E''}) \<and> lib_double L s = Some d"

definition g17_readable :: "'d dbl \<Rightarrow> 'd lib \<Rightarrow> u32 \<Rightarrow> 'd \<Rightarrow> bool" where
  "g17_readable D L flags d \<longleftrightarrow> (\<exists>pt neg ip fp ex. d_print D d = g17_text pt neg ip fp ex
     \<and> (pt = CHR ''.'' \<or> pt = CHR '','') \<and> g17_parts ip fp ex
     \<and> (fp = [] \<and> ex = [] \<or> lib_double L (g17_text (CHR ''.'') neg ip fp ex) = Some d)
     \<and> (nozero flags \<longrightarrow> fp = [] \<or> ex = [] \<or> last ex \<noteq> CHR ''0''))"

fun readable :: "'d dbl \<Rightarrow> 'd lib \<Rightarrow> u32 \<Rightarrow> 'd json \<Rightarrow> bool" where
  "readable D L flags (JDouble d None) =
     (d_isnan D d \<or> (if d_isinf D d then d_positive D d else g17_readable D L flags d))"
| "readable D L flags (JDouble d (Some s)) = double_readable L d s"
| "readable D L flags (JObject kvs) =
     (distinct (map fst kvs) \<and> (\<forall>(k, v) \<in> set kvs. CHR 0x00 \<notin> set k \<and> readable D L flags v))"
| "readable D L flags (JArray vs) = (\<forall>v \<in> set vs. readable D L flags v)"
| "readable D L flags _ = True"

text \<open>
  The value a text gives back: the same, but a \<open>double\<close> without a text of its own
  comes back with the text it was printed as, and as an integer when that has neither
  point nor exponent.
\<close>

definition with_point :: "string \<Rightarrow> string" where
  "with_point s = map (\<lambda>c. if c = CHR '','' then CHR ''.'' else c) s"

definition number_again :: "'d \<Rightarrow> string \<Rightarrow> 'd json" where
  "number_again d s = (if \<exists>x \<in> set s. x \<in> {CHR ''.'', CHR ''e'', CHR ''E''} then JDouble d (Some s)
     else JInt (of_int (decimal_value (take 1 s = ''-'') (if take 1 s = ''-'' then drop 1 s else s))))"

fun reread :: "'d dbl \<Rightarrow> 'd lib \<Rightarrow> 'd json \<Rightarrow> 'd json" where
  "reread D L (JDouble d None) =
     (if d_isnan D d then JDouble (lib_nan L) None
      else if d_isinf D d then JDouble (lib_infinity L) None
      else number_again d (with_point (d_print D d)))"
| "reread D L (JObject kvs) = JObject (map (\<lambda>(k, v). (k, reread D L v)) kvs)"
| "reread D L (JArray vs) = JArray (map (reread D L) vs)"
| "reread D L v = v"

fun own_texts :: "'d json \<Rightarrow> bool" where
  "own_texts (JDouble d s) = (s \<noteq> None)"
| "own_texts (JObject kvs) = (\<forall>(k, v) \<in> set kvs. own_texts v)"
| "own_texts (JArray vs) = (\<forall>v \<in> set vs. own_texts v)"
| "own_texts _ = True"

lemma reread_same: "own_texts v \<Longrightarrow> reread D L v = v"
proof (induction v)
  case (JObject kvs)
  then show ?case by (fastforce intro!: map_idI)
next
  case (JArray vs)
  then show ?case by (simp add: map_idI)
next
  case (JDouble d s)
  then show ?case by (cases s) simp_all
qed simp_all

lemma json_depth_reread: "json_depth (reread D L v) = json_depth v"
proof (induction v)
  case (JObject kvs)
  then have "map (\<lambda>(k, v). json_depth v + 1) (map (\<lambda>(k, v). (k, reread D L v)) kvs)
      = map (\<lambda>(k, v). json_depth v + 1) kvs"
    by (fastforce simp: split_beta)
  then show ?case by (simp only: reread.simps json_depth.simps)
next
  case (JArray vs)
  then have "map (\<lambda>v. json_depth v + 1) (map (reread D L) vs) = map (\<lambda>v. json_depth v + 1) vs" by simp
  then show ?case by (simp only: reread.simps json_depth.simps)
next
  case (JDouble d s)
  then show ?case by (cases s) (simp_all add: number_again_def Let_def)
qed simp_all

lemma with_point_g17:
  assumes "g17_parts ip fp ex" "pt = CHR ''.'' \<or> pt = CHR '',''"
  shows "with_point (g17_text pt neg ip fp ex) = g17_text (CHR ''.'') neg ip fp ex"
proof -
  have same: "with_point s = s" if "CHR '','' \<notin> set s" for s
    using that by (induction s) (auto simp: with_point_def)
  have p: "digits ip" "digits fp" "ex = [] \<or> exponent_text ex" using assms(1) by (simp_all add: g17_parts_def)
  have "CHR '','' \<notin> set (decimal_text neg ip)" "CHR '','' \<notin> set fp" "CHR '','' \<notin> set ex"
    using decimal_text_chars [OF p(1)] digit_no_point [OF p(2)] exponent_chars [OF p(3)] by blast+
  note s = this [THEN same, unfolded with_point_def]
  show ?thesis using assms(2) s by (auto simp: g17_text_def with_point_def)
qed

lemma g17_start:
  assumes "g17_parts ip fp ex"
  shows "\<exists>c cs. g17_text pt neg ip fp ex = c # cs \<and> (c_isdigit c \<or> c = CHR ''-'')
    \<and> (c = CHR ''0'' \<longrightarrow> decimal_value neg ip = 0) \<and> (fp = [] \<and> ex = [] \<longrightarrow> c # cs \<noteq> ''-'')"
proof -
  obtain c cs where ip: "ip = c # cs" using assms by (cases ip) (auto simp: g17_parts_def)
  have "c_isdigit c" using assms ip base_digit_isdigit by (auto simp: g17_parts_def)
  moreover have "decimal_value False ip = 0" if "c = CHR ''0''"
    using assms ip that by (auto simp: g17_parts_def decimal_value_def base_value_def digit_of_def of_char_def Let_def)
  ultimately show ?thesis by (cases neg) (auto simp: g17_text_def decimal_text_def ip c_isdigit_minus)
qed

lemma digit_value_char: "c_isdigit d \<or> d = CHR ''-'' \<Longrightarrow> value_char d"
proof (rule ccontr)
  assume d: "c_isdigit d \<or> d = CHR ''-''" "\<not> value_char d"
  have "\<forall>x \<in> set [CHR 0x20, CHR 0x09, CHR 0x0A, CHR 0x0B, CHR 0x0C, CHR 0x0D, CHR ''/'', CHR '']'']. \<not> (c_isdigit x \<or> x = CHR ''-'')"
    by code_simp
  moreover have "d \<in> set [CHR 0x20, CHR 0x09, CHR 0x0A, CHR 0x0B, CHR 0x0C, CHR 0x0D, CHR ''/'', CHR '']'']"
    using d(2) by (simp add: value_char_def c_isspace_def)
  ultimately show False using d(1) by blast
qed

text \<open>What a number without a text is printed as.\<close>

lemma double_readable_cases:
  assumes "readable D L flags (JDouble d None)"
  obtains (nan) "d_isnan D d" "double_text D flags d = ''NaN''"
  | (infinity) "\<not> d_isnan D d" "d_isinf D d" "double_text D flags d = ''Infinity''"
  | (g17) neg ip fp ex where "\<not> d_isnan D d" "\<not> d_isinf D d" "g17_parts ip fp ex"
    "double_text D flags d = g17_text (CHR ''.'') neg ip fp ex"
    "with_point (d_print D d) = g17_text (CHR ''.'') neg ip fp ex"
    "fp = [] \<and> ex = [] \<or> lib_double L (g17_text (CHR ''.'') neg ip fp ex) = Some d"
    "length (d_print D d) \<le> 44"
proof (cases "d_isnan D d \<or> d_isinf D d")
  case True
  then show ?thesis
    using nan infinity assms by (cases "d_isnan D d") (auto simp: double_text_def double_print_def drop_zeros_def Let_def)
next
  case False
  then have "g17_readable D L flags d" using assms by simp
  then obtain pt neg ip fp ex where p: "d_print D d = g17_text pt neg ip fp ex"
    "pt = CHR ''.'' \<or> pt = CHR '',''" "g17_parts ip fp ex"
    "fp = [] \<and> ex = [] \<or> lib_double L (g17_text (CHR ''.'') neg ip fp ex) = Some d"
    "nozero flags \<longrightarrow> fp = [] \<or> ex = [] \<or> last ex \<noteq> CHR ''0''"
    unfolding g17_readable_def by blast
  have f: "\<not> d_isnan D d" "\<not> d_isinf D d" using False by simp_all
  show ?thesis
    by (rule g17 [OF f p(3) double_text_g17 [OF f p(1,3,2)] _ p(4)])
      (use p with_point_g17 g17_chars(3) in simp_all)
qed

lemma readable_start: "readable D L flags v \<Longrightarrow> \<exists>c cs. json_text D flags v l = c # cs \<and> value_char c"
proof (cases v)
  case (JInt n)
  then show ?thesis using show_i64_start [of n] digit_value_char by auto
next
  case (JDouble d s)
  moreover assume r: "readable D L flags v"
  show ?thesis
  proof (cases s)
    case None
    with r JDouble have "readable D L flags (JDouble d None)" by simp
    then show ?thesis unfolding JDouble None json_text.simps
    proof (cases rule: double_readable_cases)
      case (g17 neg ip fp ex)
      obtain c cs where "g17_text (CHR ''.'') neg ip fp ex = c # cs" "c_isdigit c \<or> c = CHR ''-''"
        using g17_start [OF g17(3), of "CHR ''.''" neg] by blast
      then show "\<exists>c cs. double_text D flags d = c # cs \<and> value_char c"
        unfolding g17(4) using digit_value_char by blast
    qed (simp_all add: value_char_def c_isspace_def)
  next
    case (Some x)
    then have "double_readable L d x" using r JDouble by simp
    then show ?thesis using JDouble Some digit_value_char by (cases x) (auto simp: double_readable_def)
  qed
qed (auto simp: value_char_def c_isspace_def quote_text_def)

lemma reads_double:
  assumes "at_start t" "follows rest rest'" "double_readable L d s"
  shows "\<exists>t' obj'. reads L (t, obj, s @ rest) (t', obj', rest') \<and> level t' = lev S_finish S_finish (JDouble d (Some s)) None"
proof -
  note r = assms(3) [unfolded double_readable_def]
  obtain c cs where c: "s = c # cs" using r by (cases s) auto
  have hd: "c_isdigit c \<or> c = CHR ''-''" using r c by simp
  have num: "\<forall>x \<in> set s. number_char x" "\<exists>x \<in> set s. x \<in> {CHR ''.'', CHR ''e'', CHR ''E''}" "lib_double L s = Some d"
    using r by blast+
  have "s \<noteq> ''-''" using num(2) by auto
  show ?thesis
    by (rule reads_number [OF assms(1,2) c hd num(1) \<open>s \<noteq> ''-''\<close>]) (simp only: num(2,3) if_True option.inject, blast)
qed

lemma reads_g17:
  assumes "at_start t" "follows rest rest'" "reads_numbers (lib_scan L) (lib_errno L)" "g17_parts ip fp ex"
    and "s = g17_text (CHR ''.'') neg ip fp ex" "fp = [] \<and> ex = [] \<or> lib_double L s = Some d"
  shows "\<exists>t' obj'. reads L (t, obj, s @ rest) (t', obj', rest')
    \<and> level t' = lev S_finish S_finish (number_again d s) None"
proof -
  obtain c cs where c: "s = c # cs" "c_isdigit c \<or> c = CHR ''-''" "c = CHR ''0'' \<longrightarrow> decimal_value neg ip = 0"
    "fp = [] \<and> ex = [] \<longrightarrow> c # cs \<noteq> ''-''"
    using g17_start [OF assms(4)] assms(5) by metis
  note ch = g17_chars(1,2) [OF assms(4), of neg, folded assms(5)]
  show ?thesis
  proof (cases "fp = [] \<and> ex = []")
    case False
    then have "double_readable L d s" using assms(6) ch(1,2) c(1,2) by (auto simp: double_readable_def)
    moreover have "number_again d s = JDouble d (Some s)" using ch(2) False by (simp add: number_again_def)
    ultimately show ?thesis using reads_double [OF assms(1,2)] by simp
  next
    case True
    have ip: "digits ip" "ip \<noteq> []" "length ip \<le> 17" using assms(4) by (simp_all add: g17_parts_def)
    have s: "s = decimal_text neg ip" using assms(5) True by (simp add: g17_text_def)
    obtain x xs where x: "ip = x # xs" "x \<noteq> CHR ''-''" using ip base_digit_plain by (cases ip) auto
    have parts: "take 1 s = ''-'' \<longleftrightarrow> neg" "(if neg then drop 1 s else s) = ip"
      using x by (auto simp: s decimal_text_def)
    have parse: "json_parse_int64 (lib_scan L) (lib_errno L) s = Some (of_int (decimal_value neg ip))"
      using json_parse_int64_value [OF assms(3) ip(1,2), of "[]" neg] g17_int_fits [OF ip(1,3), of neg]
      by (simp add: s int64_read_def saturate_def)
    have whole: "\<not> (\<exists>x \<in> set s. x \<in> {CHR ''.'', CHR ''e'', CHR ''E''})" using ch(2) True by blast
    have n: "number_again d s = JInt (of_int (decimal_value neg ip))"
      unfolding number_again_def parts(1) parts(2) using whole by (simp only: if_False)
    have "s \<noteq> ''-''" using c(1,4) True by blast
    moreover have "of_int (decimal_value neg ip) = (0 :: 64 word) \<or> c \<noteq> CHR ''0''" using c(3) by auto
    ultimately show ?thesis
      unfolding n by (intro reads_number [OF assms(1,2) c(1,2) ch(1)])
        (assumption, simp only: whole if_False, intro exI conjI, rule parse, rule refl)
  qed
qed

lemma readable_read:
  assumes "reads_numbers (lib_scan L) (lib_errno L)"
  shows "readable D L flags v \<Longrightarrow> value_read L (reread D L v) (json_text D flags v l)"
proof (induction v arbitrary: l)
  case JNull
  then show ?case unfolding value_read_def json_text.simps reread.simps using reads_null by blast
next
  case (JBoolean b)
  then show ?case unfolding value_read_def json_text.simps reread.simps using reads_boolean by blast
next
  case (JInt n)
  then show ?case unfolding value_read_def json_text.simps reread.simps using reads_int [OF _ _ assms] by blast
next
  case (JString s)
  then show ?case unfolding value_read_def json_text.simps reread.simps using reads_string by blast
next
  case (JDouble d s)
  show ?case
  proof (cases s)
    case (Some x)
    then have x: "double_readable L d x" using JDouble by simp
    show ?thesis unfolding value_read_def Some json_text.simps reread.simps using reads_double [OF _ _ x] by blast
  next
    case None
    with JDouble have "readable D L flags (JDouble d None)" by simp
    then show ?thesis
    proof (cases rule: double_readable_cases)
      case nan
      then show ?thesis using reads_nan unfolding value_read_def None json_text.simps by (simp only: reread.simps if_True) blast
    next
      case infinity
      then show ?thesis using reads_infinity unfolding value_read_def None json_text.simps
        by (simp only: reread.simps if_True if_False) blast
    next
      case (g17 neg ip fp ex)
      show ?thesis unfolding value_read_def None json_text.simps g17(4)
        using reads_g17 [OF _ _ assms g17(3) refl g17(6)] g17(1,2,5) by (simp only: reread.simps if_False) blast
    qed
  qed
next
  case (JObject kvs)
  have "\<forall>(k, v) \<in> set kvs. value_read L (reread D L v) (json_text D flags v (l + 1))
      \<and> (\<exists>c cs. json_text D flags v (l + 1) = c # cs \<and> value_char c) \<and> CHR 0x00 \<notin> set k"
    using JObject readable_start by fastforce
  then show ?case unfolding reread.simps using JObject.prems by (intro value_read_object) simp_all
next
  case (JArray vs)
  have "\<forall>v \<in> set vs. value_read L (reread D L v) (json_text D flags v (l + 1))
      \<and> (\<exists>c cs. json_text D flags v (l + 1) = c # cs \<and> value_char c)"
    using JArray readable_start by fastforce
  then show ?case unfolding reread.simps by (rule value_read_array)
qed

lemma escape_text_no_nul: "CHR 0x00 \<notin> set (escape_text s)"
proof -
  have "CHR 0x00 \<notin> set (escape_char c)" for c
  proof (cases "short_escape c")
    case None
    have "hex_at 0 \<noteq> CHR 0x00" "hex_at (of_char c mod 16) \<noteq> CHR 0x00" using hex_at by auto
    moreover have "hex_at (of_char c div 16) \<noteq> CHR 0x00" if "(of_char c :: nat) < 32"
      using hex_at [of "of_char c div 16"] that by simp
    ultimately show ?thesis
      using None by (cases "(of_char c :: nat) < 32") (auto simp: escape_char_def control_escape_hex)
  next
    case (Some x)
    from short_escape_unescape [OF this]
    obtain e where e: "e \<in> set [CHR 0x22, CHR 0x5C, CHR ''/'', CHR ''b'', CHR ''n'', CHR ''r'', CHR ''t'', CHR ''f'']"
      "x = [CHR 0x5C, e]" by blast
    have "\<forall>e \<in> set [CHR 0x22, CHR 0x5C, CHR ''/'', CHR ''b'', CHR ''n'', CHR ''r'', CHR ''t'', CHR ''f'']. e \<noteq> CHR 0x00"
      by code_simp
    then have "e \<noteq> CHR 0x00" using e(1) by blast
    then show ?thesis using Some e(2) by (simp add: escape_char_def)
  qed
  then show ?thesis by (simp add: escape_text_def)
qed

lemma show_i64_no_nul: "CHR 0x00 \<notin> set (show_i64 n)"
proof -
  have "\<forall>x \<in> set (show_nat k). x \<noteq> CHR 0x00" for k
    using show_nat_digits [of k] digit_number_char unfolding list_all_iff number_char_def by blast
  then show ?thesis by (auto simp: show_i64_def)
qed

lemma white_no_nul:
  "CHR 0x00 \<notin> set (newline_text flags)" "CHR 0x00 \<notin> set (space_text flags)" "CHR 0x00 \<notin> set (indent_text flags l)"
  "CHR 0x00 \<notin> set (separator_text flags h)" "CHR 0x00 \<notin> set (closing_text flags l h c) \<longleftrightarrow> c \<noteq> CHR 0x00"
  by (auto simp: newline_text_def space_text_def indent_text_def separator_text_def closing_text_def)

lemma json_text_no_nul:
  "readable D L flags v \<Longrightarrow> CHR 0x00 \<notin> set (json_text D flags v l)"
  "(\<forall>(k, v) \<in> set kvs. readable D L flags v) \<Longrightarrow> CHR 0x00 \<notin> set (object_text D flags kvs l h)"
  "(\<forall>v \<in> set vs. readable D L flags v) \<Longrightarrow> CHR 0x00 \<notin> set (array_text D flags vs l h)"
proof (induction D flags v l and D flags kvs l h and D flags vs l h
    rule: json_text_object_text_array_text.induct)
  case (4 D flags d level)
  then show ?case
  proof (cases rule: double_readable_cases)
    case (g17 neg ip fp ex)
    then show ?thesis using g17_chars(1) [OF g17(3), of neg] by (auto simp: number_char_def)
  qed simp_all
next
  case (5 D flags d s level)
  then show ?case by (auto simp: double_readable_def number_char_def)
next
  case (7 D flags kvs level)
  then have "CHR 0x00 \<notin> set (object_text D flags kvs level False)" by (auto simp: split_beta)
  then show ?case by (simp add: white_no_nul)
qed (simp_all add: escape_text_no_nul show_i64_no_nul white_no_nul quote_text_def)

section \<open>Printing and parsing\<close>

lemma stack_new: "\<exists>t. json_tokener_new () = Some t \<and> stack_ok t \<and> tk_depth t = 0 \<and> tk_max_depth t = 32
  \<and> tk_flags t = 0 \<and> level t = lev S_eatws S_start JNull None"
  by (simp add: json_tokener_new_def json_tokener_new_ex_def json_tokener_reset_def json_tokener_reset_level_def
      JSON_TOKENER_DEFAULT_DEPTH_def stack_ok_def level_def reset_level_def)

lemma tok_loop_out:
  assumes "stack_ok t" "tok_step L (- 1) (t, obj, c, str) = Some (Out, x)"
  shows "tok_loop L (- 1) (t, obj, c, str) = Some x"
  using assms by (subst tok_loop.simps) (cases x, simp add: level_ok_def stack_ok_def)

lemma parse_text:
  assumes "reads_numbers (lib_scan (L :: 'd lib)) (lib_errno L)" "readable D L flags v" "json_depth v < 32" "length (json_text D flags v 0) < 2 ^ 31"
  shows "json_tokener_parse_verbose L (json_text D flags v 0 @ CHR 0x00 # mem) = Some (reread D L v, E_success)"
proof -
  let ?s = "json_text D flags v 0" and ?nul = "CHR 0x00 # mem"
  let ?str = "?s @ ?nul"
  obtain t :: "'d tokener" where t: "json_tokener_new () = Some t" "stack_ok t" "tk_depth t = 0" "tk_max_depth t = 32" "tk_flags t = 0"
    "level t = lev S_eatws S_start JNull None" using stack_new by blast
  let ?t = "t\<lparr>tk_char_offset := 0, tk_err := E_success\<rparr>"
  obtain c cs where c: "?s = c # cs" "value_char c" using readable_start [OF assms(2)] by blast
  have nul: "follows ?nul ?nul" by (simp add: follows_def c_isspace_def json_number_chars_def)
  have len: "str_strlen ?str = Some (length ?s)"
  proof -
    have "\<And>x. x \<in> set ?s \<Longrightarrow> x \<noteq> CHR 0x00" using json_text_no_nul(1) [OF assms(2), of 0] by auto
    then have "takeWhile (\<lambda>c. c \<noteq> CHR 0x00) ?str = ?s" by (subst takeWhile_append2) auto
    then show ?thesis by (simp add: str_strlen_def c_str_def)
  qed
  obtain t1 where t1: "reads L (?t, JNull, ?str) (t1, JNull, ?str)" "level t1 = lev S_start S_start JNull None"
    using reads_white [of ?t S_start JNull None ?str ?str L JNull] t c by (auto simp: value_char_def)
  have ok1: "stack_ok t1" using reads_ok [OF t1(1)] t(2) by simp
  have d1: "tk_depth t1 + json_depth (reread D L v) < tk_max_depth t1" using t1(1) assms(3) t by (auto simp: json_depth_reread reads_def frame_def)
  obtain t2 obj where t2: "reads L (t1, JNull, ?str) (t2, obj, ?nul)" "level t2 = lev S_finish S_finish (reread D L v) None"
    using readable_read [OF assms(1,2), unfolded value_read_def, rule_format, of t1] ok1 t1(2) d1 nul by blast
  have r: "reads L (?t, JNull, ?str) (t2, obj, ?nul)" by (rule reads_trans [OF t1(1) t2(1)])
  have f: "stack_ok t2" "tk_depth t2 = 0" "tk_flags t2 = 0" "tk_err t2 = E_success"
    using reads_ok [OF r] r t by (auto simp: reads_def frame_def)
  have "tok_loop L (- 1) (?t, JNull, hd ?str, ?str) = tok_loop L (- 1) (t2, obj, CHR 0x00, ?nul)"
    using r by (simp add: reads_def goes_def)
  also have "\<dots> = Some (t2, obj, CHR 0x00, ?nul)"
    by (rule tok_loop_out [OF f(1)]) (simp add: tok_step_def finish_step_def t2(2) f(2))
  finally have loop: "tok_loop L (- 1) (?t, JNull, hd ?str, ?str) = Some (t2, obj, CHR 0x00, ?nul)" .
  have "0 < length (tk_stack t2)" using f(1) unfolding stack_ok_def f(2) by blast
  then show ?thesis
    using assms(4) t(1) len loop f t2(2) c
    by (simp add: json_tokener_parse_verbose_def json_tokener_parse_ex_def PEEK_CHAR_def json_tokener_reset_level_def Let_def)
qed

lemma readable_fits: "readable D L flags v \<Longrightarrow> json_fits D v"
proof (induction v)
  case (JObject kvs)
  then show ?case by fastforce
next
  case (JDouble d s)
  show ?case
  proof (cases s)
    case None
    with JDouble have "readable D L flags (JDouble d None)" by simp
    then show ?thesis by (cases rule: double_readable_cases) (simp_all add: None double_print_def)
  qed simp
qed simp_all

text \<open>
  C37: a value that is printed and parsed again is the same value, with all its
  members in order, every text with its escapes and every integer, for any of the
  flags of printing and whatever lies behind the text in memory, if it is no deeper
  than the 32 levels of the tokener. A \<open>double\<close> that keeps the text it was read from
  comes back with that text. One without comes back as the same \<open>double\<close> with the
  text it was printed as, or as an integer when its 17 digits need neither point nor
  exponent, and NaN and infinity as the library's; excepted are minus infinity and,
  when zeros are dropped, an exponent that ends with a zero behind a point.
\<close>

theorem json_round_trip:
  assumes "reads_numbers (lib_scan L) (lib_errno L)" "readable D L flags v" "json_depth v < 32" "\<forall>n. mem n"
    "length (json_text D flags v 0) + 9 < 2 ^ 30"
  shows "\<exists>s pb. json_object_to_json_string_ext D mem v flags None = Some (Some s, pb)
    \<and> json_tokener_parse_verbose L (s @ CHR 0x00 # behind) = Some (reread D L v, E_success)
    \<and> (if own_texts v then reread D L v = v else True)"
proof -
  let ?s = "json_text D flags v 0"
  have "\<forall>x \<in> set ?s. x \<noteq> CHR 0x00" using json_text_no_nul(1) [OF assms(2), of 0] by auto
  then have cstr: "takeWhile (\<lambda>c. c \<noteq> CHR 0x00) ?s = ?s" by (simp add: takeWhile_eq_all_conv)
  have printed: "\<exists>pb. json_object_to_json_string_ext D mem v flags None = Some (Some ?s, pb)"
  proof (cases "v = JNull")
    case True
    then show ?thesis by (simp add: json_object_to_json_string_ext_def)
  next
    case False
    then show ?thesis
      using json_to_string_ext [OF assms(4) readable_fits [OF assms(2)] False assms(5), of None] unfolding cstr by auto
  qed
  have "length ?s < 2 ^ 31" using assms(5) by simp
  from printed parse_text [OF assms(1-3) this] show ?thesis using reread_same by auto
qed

text \<open>
  A value with integers, a text to escape, a \<open>double\<close> that keeps its text and two that
  have none: one comes back with a text, one as an integer.
\<close>

definition digits_dbl :: "int dbl" where
  "digits_dbl = \<lparr>d_isnan = (\<lambda>d. False), d_isinf = (\<lambda>d. False), d_positive = (\<lambda>d. True),
     d_print = (\<lambda>d. if d = 4 then ''2,25'' else ''7'')\<rparr>"

definition some_lib :: "int lib" where
  "some_lib = \<lparr>lib_scan = sscanf_good, lib_errno = False,
     lib_double = (\<lambda>s. if s = ''1.50'' then Some 3 else if s = ''2.25'' then Some 4 else None),
     lib_nan = 0, lib_infinity = 1, lib_neg_infinity = 2\<rparr>"

definition other_value :: "int json" where
  "other_value = JObject [(''on'', JArray [JInt (- 12), JBoolean True, JNull]), (''s'', JString ''a/b''),
     (''d'', JArray [JDouble 3 (Some ''1.50''), JDouble 4 None, JDouble 5 None])]"

lemma other_value_text:
  "json_text digits_dbl JSON_C_TO_STRING_SPACED other_value 0
     = quoted ''{ `on`: [ -12, true, null ], `s`: `a^/b`, `d`: [ 1.50, 2.25, 7 ] }''"
  by (simp add: quoted_def other_value_def digits_dbl_def json_text.simps newline_text_def separator_text_def
      space_text_def indent_text_def closing_text_def quote_text_def escape_text_def escape_char_def short_escape_def
      show_i64_def show_base.simps digit_char_def double_text_def double_print_def decimal_point_def Let_def
      JSON_C_TO_STRING_SPACED_def JSON_C_TO_STRING_PRETTY_def JSON_C_TO_STRING_NOZERO_def of_char_def char_of_def bit_0)

lemma other_value_readable: "readable digits_dbl some_lib JSON_C_TO_STRING_SPACED other_value"
proof -
  have 3: "double_readable some_lib 3 ''1.50''" by code_simp
  have p: "g17_parts ''2'' ''25'' []" "g17_parts ''7'' [] []" by code_simp+
  have z: "\<not> nozero JSON_C_TO_STRING_SPACED" by code_simp
  have 4: "g17_readable digits_dbl some_lib JSON_C_TO_STRING_SPACED 4"
    unfolding g17_readable_def using p(1) z
    by (intro exI [of _ "CHR '',''"] exI [of _ False] exI [of _ "''2''"] exI [of _ "''25''"] exI [of _ "[]"])
      (simp add: digits_dbl_def some_lib_def g17_text_def decimal_text_def)
  have 5: "g17_readable digits_dbl some_lib JSON_C_TO_STRING_SPACED 5"
    unfolding g17_readable_def using p(2) z
    by (intro exI [of _ "CHR ''.''"] exI [of _ False] exI [of _ "''7''"] exI [of _ "[]"] exI [of _ "[]"])
      (simp add: digits_dbl_def g17_text_def decimal_text_def)
  show ?thesis using 3 4 5 by (simp add: other_value_def digits_dbl_def)
qed

theorem json_round_trip_witness:
  "\<exists>s pb. json_object_to_json_string digits_dbl (\<lambda>n. True) other_value None = Some (Some s, pb)
    \<and> json_tokener_parse_verbose some_lib (s @ CHR 0x00 # ''garbage'')
      = Some (JObject [(''on'', JArray [JInt (- 12), JBoolean True, JNull]), (''s'', JString ''a/b''),
          (''d'', JArray [JDouble 3 (Some ''1.50''), JDouble 4 (Some ''2.25''), JInt 7])], E_success)"
proof -
  have r: "json_depth other_value < 32" "reads_numbers (lib_scan some_lib) (lib_errno some_lib)"
    using reads_numbers_good by (simp_all add: other_value_def some_lib_def)
  have "number_again 4 ''2.25'' = JDouble 4 (Some ''2.25'')" by (simp add: number_again_def)
  moreover have "number_again 5 ''7'' = JInt 7"
    by (simp add: number_again_def decimal_value_def base_value_def digit_of_def of_char_def Let_def)
  ultimately have v: "reread digits_dbl some_lib other_value
      = JObject [(''on'', JArray [JInt (- 12), JBoolean True, JNull]), (''s'', JString ''a/b''),
          (''d'', JArray [JDouble 3 (Some ''1.50''), JDouble 4 (Some ''2.25''), JInt 7])]"
    by (simp add: other_value_def digits_dbl_def with_point_def)
  show ?thesis
    using json_round_trip [OF r(2) other_value_readable r(1), of "\<lambda>n. True" "''garbage''"] v
    by (auto simp: json_object_to_json_string_def other_value_text quoted_def)
qed

end
