(* ===== verification/Spec2Isabelle.thy ===== *)
theory Spec2Isabelle
  imports Gpt_Example Usb_Example Usb_Gadget Vibrator_Example Rail_Example Dump_Example Health Strongbox
    Link_Hash_Example Array_List Json_Print Json_Round_Trip
begin

text \<open>
  \<^bold>\<open>The native services of the sunfish device tree\<close>

  The repository configures Android for one phone and holds the native code that
  is particular to it: a library that edits the partition tables for failsafe
  boot updates, the hardware services for the USB port, the USB gadget, the
  vibrator, the power rails, the storage's health and bug reports, the wait for
  the key stores at boot, and the library json-c. The parts do not call each other:
  the services are programs of their own that share the kernel's files. Each part
  is modelled from its source, operation by operation, and its theorems say what
  it promises to the system.

  \<^bold>\<open>How executions are modelled\<close>

  Operations are functions on an explicit state. A call of the kernel or of a
  library that may fail takes its outcome from a schedule in the state, so a
  statement for all states is one for every pattern of failures. An execution
  that has no defined result in C++ (an access outside a buffer, a \<open>memcpy\<close> of
  overlapping regions, a division by zero, an endless loop) is the value
  \<open>None\<close>; a theorem that an operation returns is one that its value is
  \<open>Some\<close>. Error codes and statuses are values of the result. Machine integers
  are words of their width. Mutexes only order the operations of different
  threads: an operation is one step, except where a thread waits or is locked
  out, which is part of the state (\<open>partner_waits\<close>, \<open>role_switch_locked\<close>).

  \<^bold>\<open>Partition tables: gpt-utils/gpt-utils.cpp\<close>

  \<^item> \<open>Block_Dev\<close>: a block device behind a descriptor, its calls, \<open>blk_rw\<close>.
  \<^item> \<open>Gpt_Bytes\<close>: the header fields and the macros that read and write them,
    over the interface \<open>field_codec\<close>.
  \<^item> \<open>Gpt_Pentry\<close>: \<open>gpt_pentry_seek\<close> and \<open>gpt_boot_chain_swap\<close> on the byte array,
    and their meaning on the list of entries (\<open>swap_spec\<close>).
  \<^item> \<open>Gpt_Header\<close>: \<open>gpt_get_state\<close>, \<open>gpt_set_state\<close>, \<open>gpt2_set_boot_chain\<close>, and what a
    header block says (\<open>hdr_state\<close>); \<open>Gpt_Chain\<close>: the effect of the last one.
  \<^item> \<open>Gpt_Update\<close>: the boot LUN, \<open>prepare_partitions\<close>, \<open>prepare_boot_update\<close>, on the
    record \<open>system\<close> of the files, links and disks the code sees.
  \<^item> \<open>Gpt_Failsafe\<close>: the invariant \<open>update_inv\<close> (a table that can be booted from, an
    intact primary array), kept by every stage under any failures, and the
    cycle of the stages; \<open>Gpt_Total\<close>: every request returns; \<open>Gpt_Luns\<close>: which
    disks are prepared and which boot LUN is set.
  \<^item> \<open>Gpt_Disk\<close>: the \<open>gpt_disk\<close> handle and the partition map. \<open>Gpt_Tables\<close>: the
    promises of the single operations, first of \<open>blk_rw\<close> for every outcome of its
    calls, short transfers included.
  \<^item> \<open>Gpt_Example\<close>: a disk image and a failing device on which the theorems apply.

  The disk image, the failing calls and zlib's \<open>crc32\<close> are parameters; nothing is
  assumed of the checksum. Regions of buffers and devices share the laws of the
  interface \<open>region_store\<close> (theory \<open>Prelude\<close>).

  \<^bold>\<open>USB: usb/usb/Usb.cpp and usb/gadget/UsbGadget.cpp\<close>

  \<^item> \<open>Sysfs\<close>, \<open>Text\<close>: nodes with the driver's view of what is written to them (the
    interface \<open>write_log\<close>), and the string functions of the standard library.
  \<^item> \<open>Usb_Port\<close>: the members of \<open>Usb\<close>, the role and status helpers, the operations
    of the interface, the uevent thread \<open>work\<close>. \<open>Usb_Laws\<close>: which nodes are
    written and what the client is told; the roles and the status of the ports;
    the thread. \<open>Usb_Example\<close>: a port on which the theorems apply.
  \<^item> \<open>Usb_Gadget\<close>: the gadget over the library libpixelusb, which is a parameter
    (record \<open>pixelusb\<close>); the identifiers and the answers to the client.

  \<^bold>\<open>Vibrator: vibrator/common and vibrator/drv2624\<close>

  \<^item> \<open>Vibrator_Hw\<close>: streams to the driver's nodes, the record of calls (interface
    \<open>bounded_log\<close>), the calibration file and the properties.
  \<^item> \<open>Vibrator\<close>: the constructor and the calls; their order of writes, the bounds
    of the clamp arrays and the presence of the configurations in every reachable
    state, the amplitudes.
  \<^item> \<open>Vibrator_Dump\<close>: the text for bug reports, decimal numbers, refused calls.
  \<^item> \<open>Vibrator_Example\<close>: devices on which the theorems apply.

  \<^bold>\<open>Power rails: powerstats/RailDataProvider.cpp\<close>

  \<^item> \<open>Numbers\<close>: digits, printing and the C library's \<open>strtoul\<close>, used by several parts.
  \<^item> \<open>Rail_Data\<close>: the rails found, the energy files, the requests and the thread that
    fills the message queue. \<open>Rail_Laws\<close>: what a client is told, which requests have
    a defined result, that streams end. \<open>Rail_Example\<close>: files on which they apply.
    Whether the message queue gets room for readings in time is a parameter.

  \<^bold>\<open>Bug reports: dumpstate/DumpstateDevice.cpp\<close>

  \<^item> \<open>Dump_Tar\<close>: the archive as bytes and its reader; an entry has the size that
    \<open>fstat\<close> gives and the bytes that can be read, which differ for subdirectories. \<open>Dump_Actions\<close>: the actions of a
    report as a list, in order. \<open>Dumpstate\<close>: copying logs, the modem thread, the report
    and the properties. \<open>Dump_Laws\<close>: which files are collected, that loggers are
    stopped and restarted, how the touch controller is shared. \<open>Dump_Example\<close>: inputs.

  \<^bold>\<open>Health and key stores: health/Health.cpp, keymaster/wait_for_strongbox.cpp\<close>

  \<^item> \<open>Health\<close>: the storage's nodes, as they are printed, and what a client is told.
  \<^item> \<open>Strongbox\<close>: the wait, a partial function over an infinite sequence of answers.

  \<^bold>\<open>json-c\<close>

  \<^item> \<open>Link_Hash\<close>: the hash table of linkhash.c, pointers as indices. \<open>Link_Hash_Laws\<close>:
    its invariant \<open>lh_wf\<close> (links and searches) and that it implements a list of
    entries. \<open>Hash_Little\<close>, \<open>Hash_Laws\<close>: the hash of strings with its three ways to
    read memory, one locale (\<open>block_reader\<close>) with three interpretations.
    \<open>Link_Hash_Example\<close>: a table of strings.
  \<^item> \<open>Array_List\<close>, \<open>Print_Buf\<close>: the growing array and the growing text buffer.
  \<^item> \<open>Json_Object\<close>: values and their printing into a buffer. \<open>Json_Print\<close>: their text
    as a function, and that printing gives it.
  \<^item> \<open>Json_Util\<close>: numbers with a sign, over what the C library's \<open>sscanf\<close> answers.
    \<open>Json_Tokener\<close>: the parser, a machine with a stack of states, one function per
    state. \<open>Json_Double\<close>: the texts of doubles, as \<open>%.17g\<close> prints them. \<open>Json_Steps\<close>,
    \<open>Json_Round_Trip\<close>: what the parser does on a printed text, from single escapes to
    nested values, and that it gives back the value that was printed (\<open>reread\<close> says
    what becomes of a double without a text).

  \<^bold>\<open>Bounds\<close>

  Loops over lists recurse on the list; the search through the entries of a
  partition table ends because the position grows (a zero entry size, for which it
  would not, is \<open>None\<close>); the wait for the USB partner and the uevent thread
  consume the events they are given. Three bounds are of the model: the search of a
  free slot of a hash table takes at most as many steps as there are slots, after
  which it would go round for ever (\<open>None\<close>; the table always has a free slot, which
  \<open>lh_table_refines\<close> contains); following the links takes as many steps as there are
  slots; \<open>LH_DEPTH\<close> bounds how deep growing a table nests, and 32 is more than an
  \<open>int\<close> can be doubled.

  \<^bold>\<open>Not modelled\<close>

  The floating point formulas of the vibrator's calibration (their results are
  parameters); polling a vibrator node (no caller); the mains that register the
  services; json-c's reference counts, accessors, files and iterators; tests and
  benchmarks; headers of libraries that
  are not in the repository (thermal client, voice processing descriptors);
  configuration files, policies and the Java parts.
\<close>

end
